(* ===== verification/Prelude.thy ===== *)
theory Prelude
  imports Main "HOL-Library.Word" "HOL-Library.Sublist" "HOL-Library.List_Lexorder"
    "HOL-Library.Char_ord" "HOL-Library.Product_Lexorder" "HOL-Library.Code_Target_Nat"
begin

text \<open>
  Shared vocabulary of the development: Rust's fixed-width unsigned integers with their
  saturating and checked operations, \<open>Result\<close> values and the \<open>?\<close> operator, \<open>BTreeMap\<close> as
  ordered association lists, \<open>std::cmp::Reverse\<close>, and the few operations on \<open>str\<close> that the
  routing code uses.

  Identifiers (pool names, model names, rule ids, header names) are \<open>string\<close>: the UTF-8 bytes
  of the Rust string, compared byte by byte as Rust does. Prompt text is \<open>utext\<close>: the
  list of its Unicode scalar values, because the code iterates over \<open>char\<close>s there.
\<close>

section \<open>Collections\<close>

named_theorems sat_simps "the value of a saturating operation as a natural number"
named_theorems result_simps "inversion of fallible computations"

section \<open>Results\<close>

text \<open>\<open>Result<'a, 'e>\<close> is the sum \<open>'e + 'a\<close>, with the error on the left.\<close>

abbreviation Ok :: "'a \<Rightarrow> 'e + 'a" where "Ok \<equiv> Inr"
abbreviation Err :: "'e \<Rightarrow> 'e + 'a" where "Err \<equiv> Inl"

text \<open>\<open>x?\<close> followed by the rest of the function.\<close>

fun and_then :: "'e + 'a \<Rightarrow> ('a \<Rightarrow> 'e + 'b) \<Rightarrow> 'e + 'b" where
  "and_then (Inl e) f = Inl e"
| "and_then (Inr x) f = f x"

text \<open>\<open>Result::map_err\<close>.\<close>

fun map_err :: "('e \<Rightarrow> 'f) \<Rightarrow> 'e + 'a \<Rightarrow> 'f + 'a" where
  "map_err f (Inl e) = Inl (f e)"
| "map_err f (Inr x) = Inr x"

text \<open>\<open>if !cond \<open>return Err(e)\<close>\<close>.\<close>

definition ensure :: "bool \<Rightarrow> 'e \<Rightarrow> 'e + unit" where
  "ensure b e = (if b then Ok () else Err e)"

text \<open>A \<open>for\<close> loop whose body may return an error.\<close>

fun try_each :: "('a \<Rightarrow> 'e + unit) \<Rightarrow> 'a list \<Rightarrow> 'e + unit" where
  "try_each f [] = Ok ()"
| "try_each f (x # xs) = and_then (f x) (\<lambda>_. try_each f xs)"

lemma and_then_Ok_iff [result_simps]:
  "and_then r f = Ok y \<longleftrightarrow> (\<exists>x. r = Ok x \<and> f x = Ok y)"
  by (cases r) auto

lemma and_then_Err_iff [result_simps]:
  "and_then r f = Err e \<longleftrightarrow> r = Err e \<or> (\<exists>x. r = Ok x \<and> f x = Err e)"
  by (cases r) auto

lemma ensure_Ok_iff [result_simps]: "ensure b e = Ok u \<longleftrightarrow> b"
  by (simp add: ensure_def)

lemma ensure_Err_iff [result_simps]: "ensure b e = Err e' \<longleftrightarrow> \<not> b \<and> e' = e"
  by (auto simp: ensure_def)

lemma map_err_Ok_iff [result_simps]: "map_err f r = Ok x \<longleftrightarrow> r = Ok x"
  by (cases r) simp_all

lemma try_each_Ok_iff [result_simps]:
  "try_each f xs = Ok u \<longleftrightarrow> (\<forall>x \<in> set xs. f x = Ok ())"
  by (induction xs) (auto simp: and_then_Ok_iff)

lemma try_each_Err:
  "try_each f xs = Err e \<Longrightarrow> \<exists>x \<in> set xs. f x = Err e"
  by (induction xs) (auto simp: and_then_Err_iff)

section \<open>Folds\<close>

text \<open>A fold keeps what each of its steps keeps.\<close>

lemma fold_invariant_simple:
  assumes step: "\<And>x s. P s \<Longrightarrow> P (f x s)"
  shows "P s \<Longrightarrow> P (fold f xs s)"
proof (induction xs arbitrary: s)
  case (Cons x xs)
  from Cons.IH [OF step [OF Cons.prems]] show ?case by simp
qed simp

text \<open>Two runs of a fold agree on an observation that each step determines.\<close>

lemma fold_observe_cong:
  assumes step: "\<And>x s s'. ob s = ob s' \<Longrightarrow> ob (f x s) = ob (f x s')"
  shows "ob s = ob s' \<Longrightarrow> ob (fold f xs s) = ob (fold f xs s')"
proof (induction xs arbitrary: s s')
  case (Cons x xs)
  from Cons.IH [OF step [OF Cons.prems]] show ?case by simp
qed simp

lemma fold_observe_same:
  assumes step: "\<And>x s. x \<in> set xs \<Longrightarrow> ob (f x s) = ob s"
  shows "ob (fold f xs s) = ob s"
  using step
proof (induction xs arbitrary: s)
  case (Cons x xs)
  have "ob (fold f xs (f x s)) = ob (f x s)" by (rule Cons.IH) (simp add: Cons.prems)
  with Cons.prems [of x s] show ?case by simp
qed simp

section \<open>Fixed-width unsigned integers\<close>

type_synonym u8 = "8 word"
type_synonym u16 = "16 word"
type_synonym u32 = "32 word"
type_synonym u64 = "64 word"

text \<open>\<open>T::MAX\<close>: the word with every bit set.\<close>

abbreviation u_max :: "'a::len word" where "u_max \<equiv> - 1"

definition sat_add :: "'a::len word \<Rightarrow> 'a word \<Rightarrow> 'a word" where
  "sat_add a b = (if unat a + unat b < 2 ^ LENGTH('a) then a + b else u_max)"

definition sat_sub :: "'a::len word \<Rightarrow> 'a word \<Rightarrow> 'a word" where
  "sat_sub a b = (if b \<le> a then a - b else 0)"

definition sat_mul :: "'a::len word \<Rightarrow> 'a word \<Rightarrow> 'a word" where
  "sat_mul a b = (if unat a * unat b < 2 ^ LENGTH('a) then a * b else u_max)"

definition checked_add :: "'a::len word \<Rightarrow> 'a word \<Rightarrow> 'a word option" where
  "checked_add a b = (if unat a + unat b < 2 ^ LENGTH('a) then Some (a + b) else None)"

definition checked_sub :: "'a::len word \<Rightarrow> 'a word \<Rightarrow> 'a word option" where
  "checked_sub a b = (if b \<le> a then Some (a - b) else None)"

text \<open>\<open>T::try_from(n).unwrap_or(d)\<close> for an unsigned value \<open>n\<close>.\<close>

definition try_from_or :: "nat \<Rightarrow> 'a::len word \<Rightarrow> 'a word" where
  "try_from_or n d = (if n < 2 ^ LENGTH('a) then of_nat n else d)"

lemma unat_inject: "unat a = unat b \<longleftrightarrow> a = b" for a b :: "'a::len word"
  by (simp add: word_unat_eq_iff)

lemma unat_u_max: "unat (u_max :: 'a::len word) = 2 ^ LENGTH('a) - 1"
  by (simp add: unsigned_minus_1_eq_mask mask_eq_exp_minus_1)

lemma unat_lt: "unat (a :: 'a::len word) < 2 ^ LENGTH('a)"
  by (rule unsigned_less)

lemma unat_bound: "unat (a :: 'a::len word) \<le> 2 ^ LENGTH('a) - 1"
  using unat_lt [of a] by linarith

lemma unat_sat_add [sat_simps]:
  "unat (sat_add a b) = min (unat a + unat b) (2 ^ LENGTH('a) - 1)" for a b :: "'a::len word"
proof (cases "unat a + unat b < 2 ^ LENGTH('a)")
  case True
  then have "unat (a + b) = unat a + unat b"
    by (rule unat_add_lem [THEN iffD1])
  with True show ?thesis by (simp add: sat_add_def)
next
  case False
  then show ?thesis by (simp add: sat_add_def unat_u_max)
qed

lemma unat_sat_sub [sat_simps]: "unat (sat_sub a b) = unat a - unat b"
  by (auto simp: sat_sub_def unat_sub word_le_nat_alt)

lemma unat_sat_mul [sat_simps]:
  "unat (sat_mul a b) = min (unat a * unat b) (2 ^ LENGTH('a) - 1)" for a b :: "'a::len word"
proof (cases "unat a * unat b < 2 ^ LENGTH('a)")
  case True
  then have "unat (a * b) = unat a * unat b"
    by (rule unat_mult_lem [THEN iffD1])
  with True show ?thesis by (simp add: sat_mul_def)
next
  case False
  then show ?thesis by (simp add: sat_mul_def unat_u_max)
qed

lemma unat_try_from_or:
  "unat (try_from_or n d :: 'a::len word) = (if n < 2 ^ LENGTH('a) then n else unat d)"
  by (simp add: try_from_or_def unat_of_nat take_bit_nat_eq_self)

text \<open>\<open>T::try_from(n).unwrap_or(T::MAX)\<close> clamps.\<close>

lemma unat_try_from_max [sat_simps]:
  "unat (try_from_or n u_max :: 'a::len word) = min n (2 ^ LENGTH('a) - 1)"
  by (auto simp: unat_try_from_or unat_u_max)

lemma checked_add_Some_iff:
  "checked_add a b = Some c \<longleftrightarrow> unat c = unat a + unat b" for a b :: "'a::len word"
proof
  assume "checked_add a b = Some c"
  then have "unat a + unat b < 2 ^ LENGTH('a)" and "c = a + b"
    by (auto simp: checked_add_def split: if_splits)
  then show "unat c = unat a + unat b" using unat_add_lem by blast
next
  assume c: "unat c = unat a + unat b"
  then have lt: "unat a + unat b < 2 ^ LENGTH('a)" using unat_lt [of c] by simp
  then have "unat (a + b) = unat c" using unat_add_lem c by metis
  then show "checked_add a b = Some c" using lt
    by (simp add: checked_add_def unat_inject)
qed

lemma checked_sub_Some_iff:
  "checked_sub a b = Some c \<longleftrightarrow> b \<le> a \<and> c = a - b"
  by (auto simp: checked_sub_def)

lemma unat_max: "unat (max a b) = max (unat a) (unat b)" for a b :: "'a::len word"
  by (auto simp: max_def word_le_nat_alt)

lemma unat_min: "unat (min a b) = min (unat a) (unat b)" for a b :: "'a::len word"
  by (auto simp: min_def word_le_nat_alt)

lemmas word_to_nat = word_le_nat_alt word_less_nat_alt unat_max unat_min

text \<open>Clamping twice is clamping once.\<close>

lemma min_add_clamp:
  "min (min a m + b) m = min (a + b) m" "min (a + min b m) m = min (a + b) m" for m :: nat
  by (auto simp: min_def)

lemma sat_add_mono: "a \<le> a' \<Longrightarrow> b \<le> b' \<Longrightarrow> sat_add a b \<le> sat_add a' b'"
  by (simp add: word_le_nat_alt sat_simps)

lemma sat_add_0 [simp]: "sat_add a 0 = a" "sat_add 0 a = a"
  by (simp_all add: sat_add_def)

lemma le_sat_add: "a \<le> sat_add a b" "b \<le> sat_add a b" for a b :: "'a::len word"
  using unat_bound [of a] unat_bound [of b] by (simp_all add: word_le_nat_alt sat_simps)

lemma sat_add_commute: "sat_add a b = sat_add b a"
  by (simp add: sat_add_def add.commute)

lemma sat_add_assoc: "sat_add (sat_add a b) c = sat_add a (sat_add b c)"
  proof -
  have "unat (sat_add (sat_add a b) c) = unat (sat_add a (sat_add b c))"
    using unat_bound [of a] unat_bound [of b] unat_bound [of c] by (auto simp: sat_simps min_def)
  then show ?thesis by (simp only: unat_inject)
qed

section \<open>Reversed order\<close>

text \<open>\<open>std::cmp::Reverse\<close>: the same values, compared the other way round.\<close>

datatype 'a reverse = Reverse (unreverse: 'a)

instantiation reverse :: (linorder) linorder
begin

definition less_eq_reverse :: "'a reverse \<Rightarrow> 'a reverse \<Rightarrow> bool" where
  "a \<le> b \<longleftrightarrow> unreverse b \<le> unreverse a"

definition less_reverse :: "'a reverse \<Rightarrow> 'a reverse \<Rightarrow> bool" where
  "a < b \<longleftrightarrow> unreverse b < unreverse a"

instance
  by standard (auto simp: less_eq_reverse_def less_reverse_def intro: reverse.expand)

end

lemma Reverse_le [simp]: "Reverse a \<le> Reverse b \<longleftrightarrow> b \<le> a"
  by (simp add: less_eq_reverse_def)

lemma Reverse_less [simp]: "Reverse a < Reverse b \<longleftrightarrow> b < a"
  by (simp add: less_reverse_def)


section \<open>Ordered maps\<close>

text \<open>
  \<open>BTreeMap<K, V>\<close> is an association list in ascending key order (\<open>bt_ok\<close>), so that iterating
  over it visits the keys in the order Rust does. \<open>BTreeSet<K>\<close> is a \<open>BTreeMap\<close> without values.
\<close>

type_synonym ('k, 'v) btree = "('k \<times> 'v) list"

definition bt_ok :: "('k::linorder, 'v) btree \<Rightarrow> bool" where
  "bt_ok m \<longleftrightarrow> sorted_wrt (<) (map fst m)"

definition bt_get :: "('k, 'v) btree \<Rightarrow> 'k \<Rightarrow> 'v option" where
  "bt_get m k = map_of m k"

definition bt_contains :: "('k, 'v) btree \<Rightarrow> 'k \<Rightarrow> bool" where
  "bt_contains m k = (bt_get m k \<noteq> None)"

fun bt_insert :: "'k::linorder \<Rightarrow> 'v \<Rightarrow> ('k, 'v) btree \<Rightarrow> ('k, 'v) btree" where
  "bt_insert k v [] = [(k, v)]"
| "bt_insert k v ((k', v') # m) =
     (if k < k' then (k, v) # (k', v') # m
      else if k = k' then (k, v) # m
      else (k', v') # bt_insert k v m)"

definition bt_remove :: "'k \<Rightarrow> ('k, 'v) btree \<Rightarrow> ('k, 'v) btree" where
  "bt_remove k m = filter (\<lambda>p. fst p \<noteq> k) m"

text \<open>What a client of a key-value map may rely on.\<close>

locale kv_map =
  fixes empty :: 'm
    and get :: "'m \<Rightarrow> 'k \<Rightarrow> 'v option"
    and put :: "'k \<Rightarrow> 'v \<Rightarrow> 'm \<Rightarrow> 'm"
    and del :: "'k \<Rightarrow> 'm \<Rightarrow> 'm"
    and ok :: "'m \<Rightarrow> bool"
  assumes ok_empty: "ok empty"
    and ok_put: "ok m \<Longrightarrow> ok (put k v m)"
    and ok_del: "ok m \<Longrightarrow> ok (del k m)"
    and get_empty: "get empty k = None"
    and get_put: "get (put k v m) j = (if j = k then Some v else get m j)"
    and get_del: "get (del k m) j = (if j = k then None else get m j)"
begin

lemma get_put_same: "get (put k v m) k = Some v"
  by (simp add: get_put)

lemma get_put_other: "j \<noteq> k \<Longrightarrow> get (put k v m) j = get m j"
  by (simp add: get_put)

lemma get_put_put: "get (put k v (put k w m)) j = get (put k v m) j"
  by (simp add: get_put)

lemma get_del_put: "get (del k (put k v m)) j = get (del k m) j"
  by (simp add: get_put get_del)

text \<open>Extending a map by every entry of a list: a key of the list takes its last value.\<close>

lemma get_fold_put:
  "get (fold (\<lambda>(k, v). put k v) kvs m) j =
    (case map_of (rev kvs) j of None \<Rightarrow> get m j | Some v \<Rightarrow> Some v)"
  by (induction kvs arbitrary: m) (auto simp: get_put map_add_def split: option.splits prod.splits)

lemma ok_fold_put: "ok m \<Longrightarrow> ok (fold (\<lambda>(k, v). put k v) kvs m)"
  by (induction kvs arbitrary: m) (auto simp: ok_put split: prod.splits)

end

lemma map_of_bt_insert: "map_of (bt_insert k v m) j = (if j = k then Some v else map_of m j)"
  by (induction k v m rule: bt_insert.induct) auto

lemma map_of_bt_remove: "map_of (bt_remove k m) j = (if j = k then None else map_of m j)"
  by (induction m) (auto simp: bt_remove_def)

lemma fst_set_bt_insert: "fst ` set (bt_insert k v m) = insert k (fst ` set m)"
  by (induction k v m rule: bt_insert.induct) auto

lemma bt_ok_Nil [simp]: "bt_ok []"
  by (simp add: bt_ok_def)

lemma bt_ok_Cons: "bt_ok (p # m) \<longleftrightarrow> (\<forall>k \<in> fst ` set m. fst p < k) \<and> bt_ok m"
  by (auto simp: bt_ok_def)

lemma bt_ok_insert: "bt_ok m \<Longrightarrow> bt_ok (bt_insert k v m)"
proof (induction k v m rule: bt_insert.induct)
  case (2 k v k' v' m)
  then show ?case
    by (auto simp: bt_ok_Cons fst_set_bt_insert dest: less_trans)
qed (simp add: bt_ok_Cons)

lemma bt_ok_remove: "bt_ok m \<Longrightarrow> bt_ok (bt_remove k m)"
  by (induction m) (auto simp: bt_remove_def bt_ok_Cons)

lemma bt_ok_distinct: "bt_ok m \<Longrightarrow> distinct (map fst m)"
  by (simp add: bt_ok_def strict_sorted_iff)

interpretation bt: kv_map "[]" bt_get bt_insert bt_remove bt_ok
  by unfold_locales (simp_all add: bt_get_def map_of_bt_insert map_of_bt_remove bt_ok_insert bt_ok_remove)

lemma bt_contains_iff: "bt_contains m k \<longleftrightarrow> k \<in> fst ` set m"
  by (simp add: bt_contains_def bt_get_def map_of_eq_None_iff)

lemma bt_get_SomeD: "bt_get m k = Some v \<Longrightarrow> (k, v) \<in> set m"
  by (simp add: bt_get_def map_of_SomeD)

lemma bt_get_Some_iff: "bt_ok m \<Longrightarrow> bt_get m k = Some v \<longleftrightarrow> (k, v) \<in> set m"
  by (simp add: bt_get_def bt_ok_distinct)

text \<open>
  \<open>HashMap<K, V>\<close> is a finite map: no property depends on the order in which Rust visits it.
\<close>

interpretation hm: kv_map "Map.empty" "\<lambda>m k. m k" "\<lambda>k v m. m(k \<mapsto> v)" "\<lambda>k m. m(k := None)"
    "\<lambda>m. True"
  by unfold_locales simp_all

section \<open>Text\<close>

type_synonym utext = "nat list"

text \<open>The scalar values of an ASCII literal.\<close>

definition ascii :: "string \<Rightarrow> utext" where
  "ascii s = map of_char s"

definition is_ascii :: "nat \<Rightarrow> bool" where
  "is_ascii c \<longleftrightarrow> c < 128"

definition is_ascii_digit :: "nat \<Rightarrow> bool" where
  "is_ascii_digit c \<longleftrightarrow> 48 \<le> c \<and> c \<le> 57"

definition is_ascii_upper :: "nat \<Rightarrow> bool" where
  "is_ascii_upper c \<longleftrightarrow> 65 \<le> c \<and> c \<le> 90"

definition is_ascii_lower :: "nat \<Rightarrow> bool" where
  "is_ascii_lower c \<longleftrightarrow> 97 \<le> c \<and> c \<le> 122"

definition ascii_lower :: "nat \<Rightarrow> nat" where
  "ascii_lower c = (if is_ascii_upper c then c + 32 else c)"

text \<open>
  The Unicode tables behind \<open>char::is_alphanumeric\<close> and \<open>str::to_lowercase\<close>: exact on
  ASCII, and given by the two fields on every other scalar value. \<open>uni_lower t i\<close> is the
  lower-case expansion of the non-ASCII character at position \<open>i\<close> of \<open>t\<close>; it sees the
  whole text because the lower case of a Greek sigma depends on its neighbours.
\<close>

record unicode =
  uni_lower :: "utext \<Rightarrow> nat \<Rightarrow> utext"
  uni_alnum :: "nat \<Rightarrow> bool"

definition is_alphanumeric :: "unicode \<Rightarrow> nat \<Rightarrow> bool" where
  "is_alphanumeric u c =
     (if is_ascii c then is_ascii_digit c \<or> is_ascii_upper c \<or> is_ascii_lower c
      else uni_alnum u c)"

definition to_lowercase :: "unicode \<Rightarrow> utext \<Rightarrow> utext" where
  "to_lowercase u t =
     concat (map (\<lambda>i. if is_ascii (t ! i) then [ascii_lower (t ! i)] else uni_lower u t i)
       [0..<length t])"

text \<open>\<open>char::is_whitespace\<close> (White_Space), \<open>char::is_control\<close> (category Cc) and \<open>char::len_utf8\<close>.\<close>

definition is_whitespace :: "nat \<Rightarrow> bool" where
  "is_whitespace c \<longleftrightarrow> 9 \<le> c \<and> c \<le> 13 \<or> c = 32 \<or> c = 133 \<or> c = 160 \<or> c = 5760
     \<or> 8192 \<le> c \<and> c \<le> 8202 \<or> c = 8232 \<or> c = 8233 \<or> c = 8239 \<or> c = 8287 \<or> c = 12288"

definition is_control :: "nat \<Rightarrow> bool" where
  "is_control c \<longleftrightarrow> c < 32 \<or> 127 \<le> c \<and> c < 160"

definition len_utf8 :: "nat \<Rightarrow> nat" where
  "len_utf8 c = (if c < 128 then 1 else if c < 2048 then 2 else if c < 65536 then 3 else 4)"

definition str_len :: "utext \<Rightarrow> nat" where
  "str_len t = sum_list (map len_utf8 t)"

definition trim :: "utext \<Rightarrow> utext" where
  "trim t = rev (dropWhile is_whitespace (rev (dropWhile is_whitespace t)))"

text \<open>\<open>str::contains\<close>.\<close>

fun text_contains :: "'a list \<Rightarrow> 'a list \<Rightarrow> bool" where
  "text_contains [] needle = (needle = [])"
| "text_contains (c # cs) needle = (prefix needle (c # cs) \<or> text_contains cs needle)"

lemma text_contains_iff: "text_contains t needle \<longleftrightarrow> sublist needle t"
  by (induction t) (auto simp: sublist_Cons_right)

text \<open>\<open>str::matches(needle).count()\<close>: non-overlapping occurrences, from the left.\<close>

fun count_matches_of :: "'a list \<Rightarrow> 'a list \<Rightarrow> nat" where
  "count_matches_of needle [] = 0"
| "count_matches_of needle (c # cs) =
     (if needle \<noteq> [] \<and> prefix needle (c # cs)
      then Suc (count_matches_of needle (drop (length needle - 1) cs))
      else count_matches_of needle cs)"

text \<open>\<open>str::split(|c| sep(c))\<close>: one piece more than there are separators.\<close>

fun split_by :: "('a \<Rightarrow> bool) \<Rightarrow> 'a list \<Rightarrow> 'a list list" where
  "split_by sep [] = [[]]"
| "split_by sep (c # cs) =
     (if sep c then [] # split_by sep cs
      else (case split_by sep cs of [] \<Rightarrow> [[c]] | w # ws \<Rightarrow> (c # w) # ws))"

lemma split_by_nonempty [simp]: "split_by sep t \<noteq> []"
  by (induction t) (auto split: list.splits)

text \<open>The scalar values of UTF-8 bytes.\<close>

fun utf8_decode :: "nat list \<Rightarrow> utext" where
  "utf8_decode [] = []"
| "utf8_decode (a # bs) =
     (if a < 128 then a # utf8_decode bs
      else if a < 224 then
        (case bs of b # bs' \<Rightarrow> ((a - 192) * 64 + (b - 128)) # utf8_decode bs' | _ \<Rightarrow> [])
      else if a < 240 then
        (case bs of b # c # bs' \<Rightarrow>
             ((a - 224) * 4096 + (b - 128) * 64 + (c - 128)) # utf8_decode bs'
         | _ \<Rightarrow> [])
      else
        (case bs of b # c # d # bs' \<Rightarrow>
             ((a - 240) * 262144 + (b - 128) * 4096 + (c - 128) * 64 + (d - 128)) # utf8_decode bs'
         | _ \<Rightarrow> []))"

text \<open>When \<open>String::from_utf8\<close> succeeds.\<close>

definition continuation :: "u8 \<Rightarrow> bool" where
  "continuation b \<longleftrightarrow> 128 \<le> b \<and> b \<le> 191"

text \<open>
  Well-formed byte sequences (Unicode, table 3-7): no overlong form, no surrogate, nothing above
  U+10FFFF.
\<close>

fun utf8_ok :: "u8 list \<Rightarrow> bool" where
  "utf8_ok [] = True"
| "utf8_ok (a # bs) =
     (if a \<le> 127 then utf8_ok bs
      else if 194 \<le> a \<and> a \<le> 223 then
        (case bs of b # bs' \<Rightarrow> continuation b \<and> utf8_ok bs' | _ \<Rightarrow> False)
      else if 224 \<le> a \<and> a \<le> 239 then
        (case bs of b # c # bs' \<Rightarrow>
             continuation b \<and> (a = 224 \<longrightarrow> 160 \<le> b) \<and> (a = 237 \<longrightarrow> b \<le> 159)
             \<and> continuation c \<and> utf8_ok bs'
         | _ \<Rightarrow> False)
      else if 240 \<le> a \<and> a \<le> 244 then
        (case bs of b # c # d # bs' \<Rightarrow>
             continuation b \<and> (a = 240 \<longrightarrow> 144 \<le> b) \<and> (a = 244 \<longrightarrow> b \<le> 143)
             \<and> continuation c \<and> continuation d \<and> utf8_ok bs'
         | _ \<Rightarrow> False)
      else False)"

text \<open>The decimal digits a number is displayed with.\<close>

function decimal :: "nat \<Rightarrow> string" where
  "decimal n = (if n < 10 then [char_of (48 + n)] else decimal (n div 10) @ [char_of (48 + n mod 10)])"
  by auto
termination by (relation "measure id") auto

declare decimal.simps [simp del]

text \<open>The tables of a platform without non-ASCII letters, for evaluating the model on ASCII text.\<close>

definition ascii_tables :: unicode where
  "ascii_tables = \<lparr>uni_lower = (\<lambda>t i. [t ! i]), uni_alnum = (\<lambda>_. False)\<rparr>"

end
