(* ===== verification/Protocol.thy ===== *)
theory Protocol
  imports Prelude
begin

text \<open>
  The canonical vocabulary of \<open>crates/protocol/src\<close>: the error catalog (\<open>error.rs\<close>), model
  capabilities (\<open>capability.rs\<close>), agent hints (\<open>hint.rs\<close>), the chat request the router reads
  (\<open>chat.rs\<close>), host values (\<open>values.rs\<close>) and token usage (\<open>usage.rs\<close>).
\<close>

section \<open>JSON values\<close>

text \<open>
  \<open>serde_json::Value\<close> as the code builds and matches it. A number is its literal text: no
  modelled operation computes with one.
\<close>

datatype json =
    JNull
  | JBool bool
  | JNumber string
  | JString string
  | JArray "json list"
  | JObject "(string \<times> json) list"

type_synonym extensions = "(string, json) btree"

text \<open>An \<open>f64\<close> that is only carried: its bit pattern.\<close>

type_synonym f64_bits = u64

section \<open>Errors\<close>

datatype error_code =
    InvalidRequest
  | Auth
  | PaymentRequired
  | RateLimit
  | Capacity
  | Capability
  | ContentPolicy
  | UpstreamUnavailable
  | TransportTruncated
  | ContextLength
  | ProviderProtocolError
  | Timeout
  | Internal

fun error_code_as_str :: "error_code \<Rightarrow> string" where
  "error_code_as_str InvalidRequest = ''invalid_request''"
| "error_code_as_str Auth = ''auth''"
| "error_code_as_str PaymentRequired = ''payment_required''"
| "error_code_as_str RateLimit = ''rate_limit''"
| "error_code_as_str Capacity = ''capacity''"
| "error_code_as_str Capability = ''capability''"
| "error_code_as_str ContentPolicy = ''content_policy''"
| "error_code_as_str UpstreamUnavailable = ''upstream_unavailable''"
| "error_code_as_str TransportTruncated = ''transport_truncated''"
| "error_code_as_str ContextLength = ''context_length''"
| "error_code_as_str ProviderProtocolError = ''provider_protocol_error''"
| "error_code_as_str Timeout = ''timeout''"
| "error_code_as_str Internal = ''internal''"

definition is_retriable_elsewhere :: "error_code \<Rightarrow> bool" where
  "is_retriable_elsewhere code = (case code of
      RateLimit \<Rightarrow> True
    | Capacity \<Rightarrow> True
    | UpstreamUnavailable \<Rightarrow> True
    | TransportTruncated \<Rightarrow> True
    | ProviderProtocolError \<Rightarrow> True
    | Timeout \<Rightarrow> True
    | _ \<Rightarrow> False)"

record error_envelope =
  ee_code :: error_code
  ee_http_status :: u16
  ee_message :: string
  ee_provider_message :: "string option"
  ee_retry_after_ms :: "u64 option"
  ee_extensions :: extensions

definition error_envelope_new :: "error_code \<Rightarrow> u16 \<Rightarrow> string \<Rightarrow> error_envelope" where
  "error_envelope_new code status msg =
     \<lparr>ee_code = code, ee_http_status = status, ee_message = msg, ee_provider_message = None,
      ee_retry_after_ms = None, ee_extensions = []\<rparr>"

section \<open>Capabilities\<close>

datatype capability_state = Verified | Declared | Unsupported | Unknown

definition is_supported :: "capability_state \<Rightarrow> bool" where
  "is_supported s = (case s of Verified \<Rightarrow> True | Declared \<Rightarrow> True | _ \<Rightarrow> False)"

record model_capability =
  cap_model :: string
  cap_tool :: bool
  cap_vision :: bool
  cap_json_schema :: bool
  cap_tool_state :: "capability_state option"
  cap_vision_state :: "capability_state option"
  cap_json_schema_state :: "capability_state option"
  cap_context_window :: u32
  cap_max_output_tokens :: u32
  cap_supported_parameters :: "(string, unit) btree"
  cap_extensions :: extensions

text \<open>\<open>Option::unwrap_or\<close>.\<close>

definition unwrap_or :: "'a option \<Rightarrow> 'a \<Rightarrow> 'a" where
  "unwrap_or x d = (case x of None \<Rightarrow> d | Some y \<Rightarrow> y)"

lemma unwrap_or_simps [simp]: "unwrap_or None d = d" "unwrap_or (Some x) d = x"
  by (simp_all add: unwrap_or_def)

definition tool_state :: "model_capability \<Rightarrow> capability_state" where
  "tool_state c = unwrap_or (cap_tool_state c) (if cap_tool c then Declared else Unsupported)"

definition vision_state :: "model_capability \<Rightarrow> capability_state" where
  "vision_state c = unwrap_or (cap_vision_state c) (if cap_vision c then Declared else Unsupported)"

definition json_schema_state :: "model_capability \<Rightarrow> capability_state" where
  "json_schema_state c =
     unwrap_or (cap_json_schema_state c) (if cap_json_schema c then Declared else Unsupported)"

definition allows_image_attempt :: "model_capability \<Rightarrow> bool" where
  "allows_image_attempt c \<longleftrightarrow> vision_state c \<noteq> Unsupported"

lemma is_supported_iff: "is_supported s \<longleftrightarrow> s = Verified \<or> s = Declared"
  by (cases s) (simp_all add: is_supported_def)

section \<open>Hints\<close>

datatype hint_kind = StepType | TaskType | Preference | HintCapability

record agent_hint =
  hint_kind :: hint_kind
  hint_value :: string
  hint_extensions :: extensions

definition agent_hint_new :: "hint_kind \<Rightarrow> string \<Rightarrow> agent_hint" where
  "agent_hint_new k v = \<lparr>hint_kind = k, hint_value = v, hint_extensions = []\<rparr>"

section \<open>Host values\<close>

definition MAX_COMPONENT_VALUE_KEY_BYTES :: nat where "MAX_COMPONENT_VALUE_KEY_BYTES = 64"
definition MAX_COMPONENT_VALUE_BYTES :: nat where "MAX_COMPONENT_VALUE_BYTES = 4096"

text \<open>The newtype \<open>ComponentValues(BTreeMap<String, String>)\<close>.\<close>

datatype component_values = ComponentValues (cv_map: "(string, string) btree")

datatype component_value_reason = BadKey | BadValue

record component_value_error =
  cve_key :: string
  cve_reason :: component_value_reason

abbreviation byte :: "char \<Rightarrow> nat" where "byte \<equiv> of_char"

definition key_byte :: "char \<Rightarrow> bool" where
  "key_byte c \<longleftrightarrow> is_ascii_lower (byte c) \<or> is_ascii_digit (byte c) \<or> c = CHR ''_''"

definition value_byte :: "char \<Rightarrow> bool" where
  "value_byte c \<longleftrightarrow> 32 \<le> byte c \<and> byte c \<le> 126"

definition key_is_valid :: "string \<Rightarrow> bool" where
  "key_is_valid key \<longleftrightarrow>
     1 \<le> length key \<and> length key \<le> MAX_COMPONENT_VALUE_KEY_BYTES \<and> list_all key_byte key"

definition value_is_valid :: "string \<Rightarrow> bool" where
  "value_is_valid v \<longleftrightarrow>
     1 \<le> length v \<and> length v \<le> MAX_COMPONENT_VALUE_BYTES \<and> list_all value_byte v"

definition check_entry :: "string \<Rightarrow> string \<Rightarrow> component_value_error + unit" where
  "check_entry key v =
     (if \<not> key_is_valid key then Err \<lparr>cve_key = key, cve_reason = BadKey\<rparr>
      else if \<not> value_is_valid v then Err \<lparr>cve_key = key, cve_reason = BadValue\<rparr>
      else Ok ())"

definition cv_new :: component_values where "cv_new = ComponentValues []"

text \<open>\<open>insert\<close> returns the previous value and the map; an error leaves the caller's map.\<close>

definition cv_insert ::
  "component_values \<Rightarrow> string \<Rightarrow> string \<Rightarrow> component_value_error + (string option \<times> component_values)"
where
  "cv_insert m key v = and_then (check_entry key v) (\<lambda>_.
     Ok (bt_get (cv_map m) key, ComponentValues (bt_insert key v (cv_map m))))"

definition cv_get :: "component_values \<Rightarrow> string \<Rightarrow> string option" where
  "cv_get m key = bt_get (cv_map m) key"

definition cv_remove :: "component_values \<Rightarrow> string \<Rightarrow> string option \<times> component_values" where
  "cv_remove m key = (bt_get (cv_map m) key, ComponentValues (bt_remove key (cv_map m)))"

definition cv_clear :: "component_values \<Rightarrow> component_values" where
  "cv_clear m = ComponentValues []"

definition cv_is_empty :: "component_values \<Rightarrow> bool" where
  "cv_is_empty m \<longleftrightarrow> cv_map m = []"

definition cv_len :: "component_values \<Rightarrow> nat" where
  "cv_len m = length (cv_map m)"

definition cv_iter :: "component_values \<Rightarrow> (string \<times> string) list" where
  "cv_iter m = cv_map m"

definition cv_try_from ::
  "(string, string) btree \<Rightarrow> component_value_error + component_values" where
  "cv_try_from m = and_then (try_each (\<lambda>(k, v). check_entry k v) m) (\<lambda>_. Ok (ComponentValues m))"

definition cv_into :: "component_values \<Rightarrow> (string, string) btree" where
  "cv_into m = cv_map m"

text \<open>The grammar every value of the type satisfies.\<close>

definition cv_ok :: "component_values \<Rightarrow> bool" where
  "cv_ok m \<longleftrightarrow> bt_ok (cv_map m) \<and> (\<forall>(k, v) \<in> set (cv_map m). key_is_valid k \<and> value_is_valid v)"

lemma check_entry_Ok_iff [result_simps]:
  "check_entry k v = Ok u \<longleftrightarrow> key_is_valid k \<and> value_is_valid v"
  by (simp add: check_entry_def)

lemma check_entry_key: "check_entry k v = Err e \<Longrightarrow> cve_key e = k"
  by (auto simp: check_entry_def split: if_splits)

lemma set_bt_insert_subset: "set (bt_insert k v m) \<subseteq> insert (k, v) (set m)"
  by (induction k v m rule: bt_insert.induct) auto

lemma set_bt_remove_subset: "set (bt_remove k m) \<subseteq> set m"
  by (auto simp: bt_remove_def)

lemma cv_ok_new: "cv_ok cv_new"
  by (simp add: cv_ok_def cv_new_def)

lemma cv_ok_insert: "cv_ok m \<Longrightarrow> cv_insert m k v = Ok (old, m') \<Longrightarrow> cv_ok m'"
  using set_bt_insert_subset [of k v "cv_map m"]
  by (force simp: cv_ok_def cv_insert_def result_simps bt_ok_insert)

lemma cv_ok_remove: "cv_ok m \<Longrightarrow> cv_ok (snd (cv_remove m k))"
  using set_bt_remove_subset [of k "cv_map m"]
  by (auto simp: cv_ok_def cv_remove_def bt_ok_remove)

lemma cv_try_from_Ok_iff:
  "cv_try_from m = Ok c \<longleftrightarrow>
     c = ComponentValues m \<and> (\<forall>(k, v) \<in> set m. key_is_valid k \<and> value_is_valid v)"
  by (auto simp: cv_try_from_def result_simps)

section \<open>Usage\<close>

record usage =
  input_tokens :: u64
  output_tokens :: u64
  cache_read_tokens :: u64
  explicit_cache_read_tokens :: u64
  cache_write_tokens :: u64
  cache_write_5m_tokens :: u64
  cache_write_1h_tokens :: u64
  reasoning_tokens :: u64

definition usage_default :: usage where
  "usage_default = \<lparr>input_tokens = 0, output_tokens = 0, cache_read_tokens = 0,
     explicit_cache_read_tokens = 0, cache_write_tokens = 0, cache_write_5m_tokens = 0,
     cache_write_1h_tokens = 0, reasoning_tokens = 0\<rparr>"

definition usage_total :: "usage \<Rightarrow> u64" where
  "usage_total u = sat_add (input_tokens u) (output_tokens u)"

definition is_partitioned :: "usage \<Rightarrow> bool" where
  "is_partitioned u \<longleftrightarrow>
     sat_add (cache_read_tokens u) (cache_write_tokens u) \<le> input_tokens u
     \<and> sat_add (cache_write_5m_tokens u) (cache_write_1h_tokens u) \<le> cache_write_tokens u
     \<and> explicit_cache_read_tokens u \<le> cache_read_tokens u
     \<and> reasoning_tokens u \<le> output_tokens u"

text \<open>The inner function \<open>keep\<close> of \<open>absorb\<close>.\<close>

definition keep :: "u64 \<Rightarrow> u64 \<Rightarrow> u64" where
  "keep slot later = (if later \<noteq> 0 then later else slot)"

definition absorb :: "usage \<Rightarrow> usage \<Rightarrow> usage" where
  "absorb u later =
     \<lparr>input_tokens = keep (input_tokens u) (input_tokens later),
      output_tokens = keep (output_tokens u) (output_tokens later),
      cache_read_tokens = keep (cache_read_tokens u) (cache_read_tokens later),
      explicit_cache_read_tokens =
        keep (explicit_cache_read_tokens u) (explicit_cache_read_tokens later),
      cache_write_tokens = keep (cache_write_tokens u) (cache_write_tokens later),
      cache_write_5m_tokens = keep (cache_write_5m_tokens u) (cache_write_5m_tokens later),
      cache_write_1h_tokens = keep (cache_write_1h_tokens u) (cache_write_1h_tokens later),
      reasoning_tokens = keep (reasoning_tokens u) (reasoning_tokens later)\<rparr>"

lemma keep_simps [simp]: "keep a 0 = a" "keep 0 a = a" "keep a a = a"
  by (simp_all add: keep_def)

lemma keep_assoc: "keep (keep a b) c = keep a (keep b c)"
  by (simp add: keep_def)

lemma absorb_default [simp]: "absorb u usage_default = u" "absorb usage_default u = u"
  by (simp_all add: absorb_def usage_default_def)

lemma absorb_idem: "absorb u u = u"
  by (simp add: absorb_def)

lemma absorb_assoc: "absorb (absorb a b) c = absorb a (absorb b c)"
  by (simp add: absorb_def keep_assoc)

section \<open>Chat requests\<close>

datatype role = System | User | Assistant | Tool

record image_url =
  iu_url :: string
  iu_detail :: "string option"

datatype content_part =
    PartText utext
  | PartImageUrl image_url
  | PartThinking utext "string option"
  | PartRedactedThinking string
  | PartUnknown json

datatype content = ContentText utext | ContentParts "content_part list"

record tool_call =
  tc_id :: string
  tc_name :: string
  tc_arguments :: utext

record tool_def =
  td_name :: utext
  td_description :: "utext option"
  td_parameters :: json

datatype response_format = RfText | RfJsonObject | RfJsonSchema json

record sampling =
  smp_temperature :: "f64_bits option"
  smp_top_p :: "f64_bits option"
  smp_max_output_tokens :: "u32 option"
  smp_stop :: "string list"

definition sampling_default :: sampling where
  "sampling_default =
     \<lparr>smp_temperature = None, smp_top_p = None, smp_max_output_tokens = None, smp_stop = []\<rparr>"

record message =
  msg_role :: role
  msg_content :: "content option"
  msg_tool_calls :: "tool_call list"
  msg_tool_call_id :: "string option"
  msg_name :: "string option"
  msg_extensions :: extensions

definition message_text :: "role \<Rightarrow> utext \<Rightarrow> message" where
  "message_text r t = \<lparr>msg_role = r, msg_content = Some (ContentText t), msg_tool_calls = [],
     msg_tool_call_id = None, msg_name = None, msg_extensions = []\<rparr>"

datatype tool_choice = TcAuto | TcNone | TcRequired | TcOther json

record chat_request =
  req_model :: string
  req_messages :: "message list"
  req_tools :: "tool_def list"
  req_response_format :: "response_format option"
  req_tool_choice :: "tool_choice option"
  req_sampling :: sampling
  req_stream :: bool
  req_host_values :: component_values
  req_extensions :: extensions

definition chat_request_new :: "string \<Rightarrow> message list \<Rightarrow> chat_request" where
  "chat_request_new m msgs = \<lparr>req_model = m, req_messages = msgs, req_tools = [],
     req_response_format = None, req_tool_choice = None, req_sampling = sampling_default,
     req_stream = False, req_host_values = cv_new, req_extensions = []\<rparr>"

section \<open>Properties\<close>

text \<open>
  Every operation of \<open>ComponentValues\<close> keeps the grammar: whatever map a sequence of
  \<open>insert\<close>, \<open>remove\<close> and \<open>clear\<close> calls produces holds only keys of 1 to 64 bytes of
  \<open>a-z0-9_\<close> and values of 1 to 4096 printable ASCII bytes, under distinct keys, and a map read
  back through \<open>TryFrom\<close> is admitted exactly when it satisfies the grammar.
\<close>

theorem component_values_grammar:
  assumes "cv_ok m"
  shows "(\<forall>k v. case cv_insert m k v of
        Err e \<Rightarrow> \<not> (key_is_valid k \<and> value_is_valid v) \<and> cve_key e = k
      | Ok (old, m') \<Rightarrow> cv_ok m' \<and> old = cv_get m k
          \<and> cv_get m' = (cv_get m)(k \<mapsto> v))
    \<and> (\<forall>k. cv_ok (snd (cv_remove m k)) \<and> cv_get (snd (cv_remove m k)) = (cv_get m)(k := None))
    \<and> cv_ok (cv_clear m)
    \<and> cv_try_from (cv_into m) = Ok m"
proof (intro conjI allI)
  fix k v
  show "case cv_insert m k v of
        Err e \<Rightarrow> \<not> (key_is_valid k \<and> value_is_valid v) \<and> cve_key e = k
      | Ok (old, m') \<Rightarrow> cv_ok m' \<and> old = cv_get m k \<and> cv_get m' = (cv_get m)(k \<mapsto> v)"
  proof (cases "check_entry k v")
    case (Inl e)
    then show ?thesis
      using check_entry_key [OF Inl] check_entry_Ok_iff [of k v "()"] by (auto simp: cv_insert_def)
  next
    case (Inr u)
    then have ins: "cv_insert m k v = Ok (cv_get m k, ComponentValues (bt_insert k v (cv_map m)))"
      by (simp add: cv_insert_def cv_get_def)
    with cv_ok_insert [OF assms ins] show ?thesis
      by (auto simp: cv_get_def fun_eq_iff bt.get_put)
  qed
next
  fix k
  show "cv_ok (snd (cv_remove m k))" using assms by (rule cv_ok_remove)
  show "cv_get (snd (cv_remove m k)) = (cv_get m)(k := None)"
    by (auto simp: cv_remove_def cv_get_def fun_eq_iff bt.get_del)
next
  show "cv_ok (cv_clear m)" by (simp add: cv_clear_def cv_ok_def)
  show "cv_try_from (cv_into m) = Ok m"
    using assms by (auto simp: cv_try_from_Ok_iff cv_into_def cv_ok_def)
qed

theorem component_values_grammar_witness:
  "cv_ok (ComponentValues [(''region'', ''eu'')])
    \<and> cv_try_from (cv_into (ComponentValues [(''region'', ''eu'')]))
        = Ok (ComponentValues [(''region'', ''eu'')])"
proof -
  have ok: "cv_ok (ComponentValues [(''region'', ''eu'')])" by code_simp
  from component_values_grammar [OF ok] ok show ?thesis by blast
qed

end
