(* ===== verification/Lexicon.thy ===== *)
theory Lexicon
  imports Prelude
begin

text \<open>
  The fixed vocabulary of the complexity heuristic, \<open>crates/router-core/src/lexicon.rs\<close>.
  Chinese phrases are written as the scalar values of their characters.
\<close>

section \<open>Vocabulary\<close>

definition REASONING_MARKERS :: "utext list" where
  "REASONING_MARKERS = [
    ascii ''step by step'', ascii ''think through'', ascii ''analyze'', ascii ''reason about'',
    ascii ''explain why'', ascii ''compare and contrast'', ascii ''evaluate'',
    ascii ''what are the tradeoffs'', ascii ''pros and cons'', ascii ''critically'',
    ascii ''systematically'', ascii ''break down'', ascii ''deep dive'',
    [19968, 27493, 19968, 27493], [36880, 27493], [25512, 29702], [20998, 26512],
    [35770, 35777], [35299, 37322, 20026, 20160, 20040], [27604, 36739], [26435, 34913],
    [21033, 24330], [20248, 32570, 28857], [31995, 32479, 22320], [28145, 20837],
    [25286, 35299], [35780, 20272]]"

definition CODE_KEYWORDS :: "utext list" where
  "CODE_KEYWORDS = [
    ascii ''function'', ascii ''class'', ascii ''struct'', ascii ''impl'', ascii ''async'',
    ascii ''await'', ascii ''def'', ascii ''import'', ascii ''return'', ascii ''const'',
    ascii ''enum'', ascii ''trait'', ascii ''interface'', ascii ''select'', ascii ''insert'',
    ascii ''create table'', ascii ''docker'', ascii ''kubectl'', ascii ''git rebase'',
    ascii ''curl'', ascii ''grep'', ascii ''sudo'', [20195, 30721], [20989, 25968],
    [25253, 38169], [32534, 35793]]"

definition TECHNICAL_TERMS :: "utext list" where
  "TECHNICAL_TERMS = [
    ascii ''architecture'', ascii ''distributed'', ascii ''encryption'', ascii ''algorithm'',
    ascii ''optimization'', ascii ''concurrency'', ascii ''parallelism'',
    ascii ''microservice'', ascii ''kubernetes'', ascii ''database schema'',
    ascii ''machine learning'', ascii ''neural network'', ascii ''transformer'',
    ascii ''gradient'', ascii ''backpropagation'', ascii ''consensus'', ascii ''replication'',
    ascii ''sharding'', ascii ''zero-knowledge'', ascii ''homomorphic'', ascii ''byzantine'',
    ascii ''mutex'', ascii ''semaphore'', ascii ''deadlock'', ascii ''race condition'',
    ascii ''memory leak'', ascii ''garbage collection'', ascii ''compiler'', ascii ''parser'',
    ascii ''lexer'', ascii ''type system'', ascii ''monomorphization'', ascii ''polymorphism'',
    ascii ''dependency injection'', [26550, 26500], [20998, 24067, 24335], [21152, 23494],
    [31639, 27861], [20248, 21270], [24182, 21457], [24182, 34892], [24494, 26381, 21153],
    [25968, 25454, 24211], [26426, 22120, 23398, 20064], [31070, 32463, 32593, 32476],
    [20849, 35782], [20998, 29255], [27515, 38145], [31454, 24577],
    [20869, 23384, 27844, 28431], [22403, 22334, 22238, 25910], [32534, 35793, 22120],
    [31867, 22411, 31995, 32479], [22810, 24577], [20381, 36182, 27880, 20837]]"

definition SIMPLE_INDICATORS :: "utext list" where
  "SIMPLE_INDICATORS = [
    ascii ''what is'', ascii ''define'', ascii ''hello'', ascii ''thanks'',
    ascii ''thank you'', ascii ''who is'', ascii ''when was'', ascii ''where is'',
    ascii ''how old'', ascii ''what color'', ascii ''good morning'', ascii ''good night'',
    ascii ''goodbye'', ascii ''how are you'', ascii ''what time'', ascii ''what day'',
    ascii ''translate'', [26159, 20160, 20040], [20160, 20040, 26159], [20320, 22909],
    [35874, 35874], [22810, 35874], [26159, 35841], [20160, 20040, 26102, 20505],
    [22312, 21738, 37324], [22810, 22823], [20160, 20040, 39068, 33394], [26089, 19978, 22909],
    [26202, 23433], [20877, 35265], [20320, 22909, 21527], [20960, 28857],
    [26143, 26399, 20960], [32763, 35793]]"

definition MATH_TERMS :: "utext list" where
  "MATH_TERMS = [
    ascii ''prove'', ascii ''calculate'', ascii ''derive'', ascii ''equation'',
    ascii ''integral'', ascii ''derivative'', ascii ''probability'', ascii ''theorem'',
    ascii ''conjecture'', ascii ''polynomial'', ascii ''matrix'', ascii ''eigenvalue'',
    ascii ''linear algebra'', ascii ''differential'', [35777, 26126], [35745, 31639],
    [25512, 23548], [26041, 31243], [31215, 20998], [23548, 25968], [27010, 29575],
    [23450, 29702], [29468, 24819], [22810, 39033, 24335], [30697, 38453],
    [29305, 24449, 20540], [32447, 24615, 20195, 25968], [24494, 20998]]"

definition CREATIVE_TERMS :: "utext list" where
  "CREATIVE_TERMS = [
    ascii ''write a story'', ascii ''write a poem'', ascii ''essay'', ascii ''creative'',
    ascii ''fiction'', ascii ''narrative'', ascii ''screenplay'', ascii ''dialogue'',
    ascii ''character development'', [20889, 19968, 20010, 25925, 20107],
    [20889, 20010, 25925, 20107], [20889, 19968, 39318, 35799], [20889, 39318, 35799],
    [20316, 25991], [25955, 25991], [23567, 35828], [21095, 26412],
    [20154, 29289, 22609, 36896], [21019, 20316]]"

definition FORMAT_TERMS :: "utext list" where
  "FORMAT_TERMS = [
    ascii ''json'', ascii ''yaml'', ascii ''xml'', ascii ''structured'', ascii ''schema'',
    ascii ''format'', [32467, 26500, 21270], [26684, 24335]]"

section \<open>Matching\<close>

text \<open>
  A pure-ASCII phrase without a space must equal a word of the text, a word being a maximal
  run of alphanumeric characters; any other phrase is searched as a substring.
\<close>

definition has_phrase :: "unicode \<Rightarrow> utext \<Rightarrow> utext \<Rightarrow> bool" where
  "has_phrase u t phrase =
     (if of_char (CHR '' '') \<in> set phrase \<or> \<not> list_all is_ascii phrase
      then text_contains t phrase
      else phrase \<in> set (split_by (\<lambda>c. \<not> is_alphanumeric u c) t))"

definition count_matches :: "unicode \<Rightarrow> utext \<Rightarrow> utext list \<Rightarrow> u32" where
  "count_matches u t phrases = try_from_or (length (filter (has_phrase u t) phrases)) u_max"

lemma split_by_no_sep_all: "\<forall>w \<in> set (split_by sep t). \<forall>c \<in> set w. \<not> sep c"
proof (induction t)
  case (Cons a t)
  obtain w ws where "split_by sep t = w # ws"
    by (cases "split_by sep t") simp_all
  with Cons show ?case by simp
qed simp

lemma split_by_no_sep: "w \<in> set (split_by sep t) \<Longrightarrow> c \<in> set w \<Longrightarrow> \<not> sep c"
  using split_by_no_sep_all [of sep t] by blast

lemma count_matches_le: "unat (count_matches u t phrases) \<le> length phrases"
proof -
  have "length (filter (has_phrase u t) phrases) \<le> length phrases" by simp
  then show ?thesis
    unfolding count_matches_def unat_try_from_max by linarith
qed

text \<open>A word of the text never contains a character that separates words.\<close>

lemma has_phrase_word_chars:
  assumes "has_phrase u t phrase" and "list_all is_ascii phrase"
    and "of_char (CHR '' '') \<notin> set phrase" and "c \<in> set phrase"
  shows "is_alphanumeric u c"
  using assms split_by_no_sep [of phrase "\<lambda>c. \<not> is_alphanumeric u c" t c]
  by (auto simp: has_phrase_def)

text \<open>
  The vocabulary entry \<open>zero-knowledge\<close> is dead: it is a pure-ASCII phrase without a space,
  so it is compared with whole words, and no word contains its hyphen. No text whatever,
  under any Unicode tables, matches it, so a request about zero-knowledge proofs gains
  nothing from the entry.
\<close>

theorem zero_knowledge_never_matches:
  "ascii ''zero-knowledge'' \<in> set TECHNICAL_TERMS \<and> \<not> has_phrase u t (ascii ''zero-knowledge'')"
proof
  show "ascii ''zero-knowledge'' \<in> set TECHNICAL_TERMS"
    by (simp add: TECHNICAL_TERMS_def)
  have ascii: "list_all is_ascii (ascii ''zero-knowledge'')"
    and space: "of_char (CHR '' '') \<notin> set (ascii ''zero-knowledge'')"
    and hyphen: "45 \<in> set (ascii ''zero-knowledge'')"
    by (simp_all add: ascii_def is_ascii_def)
  have "\<not> is_alphanumeric u 45"
    by (simp add: is_alphanumeric_def is_ascii_def is_ascii_digit_def is_ascii_upper_def
        is_ascii_lower_def)
  with has_phrase_word_chars [OF _ ascii space hyphen]
  show "\<not> has_phrase u t (ascii ''zero-knowledge'')" by blast
qed

end
