(* ===== verification/Features.thy ===== *)
theory Features
  imports Protocol Lexicon
begin

text \<open>
  What the router reads from a request, \<open>crates/router-core/src/features.rs\<close>: one pass over the
  messages keeps only numbers and flags. The record has no text field, which is the
  model's form of the \<open>Copy\<close> bound of the Rust type.
\<close>

section \<open>Request features\<close>

record request_features =
  rf_estimated_input_tokens :: u32
  rf_conversation_tokens :: u32
  rf_message_count :: u32
  rf_tool_count :: u32
  rf_has_images :: bool
  rf_requires_json_schema :: bool
  rf_code_block_count :: u32
  rf_requested_max_output_tokens :: "u32 option"
  rf_hint_count :: u32
  rf_reasoning_marker_count :: u32
  rf_technical_term_count :: u32
  rf_simple_indicator_count :: u32
  rf_code_keyword_count :: u32
  rf_math_term_count :: u32
  rf_creative_term_count :: u32
  rf_multi_step_signal :: u32
  rf_question_count :: u32
  rf_system_format_hint :: bool

definition features_default :: request_features where
  "features_default = \<lparr>rf_estimated_input_tokens = 0, rf_conversation_tokens = 0,
     rf_message_count = 0, rf_tool_count = 0, rf_has_images = False,
     rf_requires_json_schema = False, rf_code_block_count = 0,
     rf_requested_max_output_tokens = None, rf_hint_count = 0, rf_reasoning_marker_count = 0,
     rf_technical_term_count = 0, rf_simple_indicator_count = 0, rf_code_keyword_count = 0,
     rf_math_term_count = 0, rf_creative_term_count = 0, rf_multi_step_signal = 0,
     rf_question_count = 0, rf_system_format_hint = False\<rparr>"

section \<open>Token estimate\<close>

definition truncate32 :: "nat \<Rightarrow> u32" where
  "truncate32 n = try_from_or n u_max"

text \<open>\<open>u32::div_ceil(4)\<close>.\<close>

definition div_ceil_4 :: "u32 \<Rightarrow> u32" where
  "div_ceil_4 a = (if a mod 4 = 0 then a div 4 else a div 4 + 1)"

definition estimate_step :: "nat \<Rightarrow> u32 \<times> u32 \<Rightarrow> u32 \<times> u32" where
  "estimate_step c acc = (case acc of (narrow, wide) \<Rightarrow>
     if is_ascii c then (sat_add narrow 1, wide) else (narrow, sat_add wide 1))"

definition estimate_tokens :: "utext \<Rightarrow> u32" where
  "estimate_tokens t =
     (case fold estimate_step t (0, 0) of (narrow, wide) \<Rightarrow> sat_add (div_ceil_4 narrow) wide)"

definition count_fences :: "utext \<Rightarrow> u32" where
  "count_fences t = truncate32 (count_matches_of (ascii ''```'') t)"

section \<open>One pass over the messages\<close>

text \<open>The four accumulators of \<open>RequestFeatures::extract\<close>.\<close>

record scan =
  sc_input_tokens :: u32
  sc_conversation_tokens :: u32
  sc_code_fences :: u32
  sc_has_images :: bool

definition scan_init :: scan where
  "scan_init = \<lparr>sc_input_tokens = 0, sc_conversation_tokens = 0, sc_code_fences = 0,
     sc_has_images = False\<rparr>"

text \<open>The closure \<open>add\<close>: every token counts as input, non-system tokens as conversation.\<close>

definition scan_add :: "bool \<Rightarrow> u32 \<Rightarrow> scan \<Rightarrow> scan" where
  "scan_add is_conversation tokens s =
     s\<lparr>sc_input_tokens := sat_add (sc_input_tokens s) tokens,
       sc_conversation_tokens :=
         (if is_conversation then sat_add (sc_conversation_tokens s) tokens
          else sc_conversation_tokens s)\<rparr>"

definition scan_text :: "bool \<Rightarrow> utext \<Rightarrow> scan \<Rightarrow> scan" where
  "scan_text is_conversation t s =
     (let s = scan_add is_conversation (estimate_tokens t) s
      in s\<lparr>sc_code_fences := sat_add (sc_code_fences s) (count_fences t)\<rparr>)"

fun scan_part :: "bool \<Rightarrow> content_part \<Rightarrow> scan \<Rightarrow> scan" where
  "scan_part conv (PartText t) s = scan_text conv t s"
| "scan_part conv (PartImageUrl _) s = s\<lparr>sc_has_images := True\<rparr>"
| "scan_part conv (PartThinking _ _) s = s"
| "scan_part conv (PartRedactedThinking _) s = s"
| "scan_part conv (PartUnknown _) s = s"

fun scan_content :: "bool \<Rightarrow> content option \<Rightarrow> scan \<Rightarrow> scan" where
  "scan_content conv (Some (ContentText t)) s = scan_text conv t s"
| "scan_content conv (Some (ContentParts parts)) s = fold (scan_part conv) parts s"
| "scan_content conv None s = s"

definition scan_message :: "message \<Rightarrow> scan \<Rightarrow> scan" where
  "scan_message m s =
     (let conv = (msg_role m \<noteq> System);
          s = scan_content conv (msg_content m) s
      in fold (\<lambda>call. scan_add conv (estimate_tokens (tc_arguments call))) (msg_tool_calls m) s)"

definition scan_messages :: "message list \<Rightarrow> scan" where
  "scan_messages ms = fold scan_message ms scan_init"

section \<open>Text the vocabulary is counted in\<close>

text \<open>Text parts, each followed by a space; other parts contribute nothing.\<close>

definition parts_text :: "content_part list \<Rightarrow> utext" where
  "parts_text parts = concat (map (\<lambda>p. case p of PartText t \<Rightarrow> t @ [32] | _ \<Rightarrow> []) parts)"

fun user_content_text :: "content option \<Rightarrow> utext" where
  "user_content_text (Some (ContentText t)) = t"
| "user_content_text (Some (ContentParts parts)) = parts_text parts"
| "user_content_text None = []"

text \<open>The loop over the messages in reverse, which returns at the first user message.\<close>

fun last_user_text_rev :: "message list \<Rightarrow> utext" where
  "last_user_text_rev [] = []"
| "last_user_text_rev (m # ms) =
     (if msg_role m \<noteq> User then last_user_text_rev ms else user_content_text (msg_content m))"

definition last_user_text :: "chat_request \<Rightarrow> utext" where
  "last_user_text r = last_user_text_rev (rev (req_messages r))"

fun system_content_text :: "content option \<Rightarrow> utext" where
  "system_content_text (Some (ContentText t)) = t @ [32]"
| "system_content_text (Some (ContentParts parts)) = parts_text parts"
| "system_content_text None = []"

definition system_text :: "chat_request \<Rightarrow> utext" where
  "system_text r = concat (map (\<lambda>m. system_content_text (msg_content m))
     (filter (\<lambda>m. msg_role m = System) (req_messages r)))"

definition multi_step_signal :: "unicode \<Rightarrow> utext \<Rightarrow> u32" where
  "multi_step_signal u t =
     (let numbered = text_contains t (ascii ''1.'') \<and> text_contains t (ascii ''2.'');
          step_words = has_phrase u t (ascii ''step 1'') \<or> has_phrase u t (ascii ''step 2'')
            \<or> text_contains t [31532, 19968, 27493] \<or> text_contains t [31532, 20108, 27493]
      in if numbered \<or> step_words then 10
         else let sequenced =
                (has_phrase u t (ascii ''first'') \<and> has_phrase u t (ascii ''then''))
                \<or> (text_contains t [39318, 20808] \<and> text_contains t [28982, 21518])
              in if sequenced then 6 else 0)"

section \<open>Extraction\<close>

definition wants_json :: "response_format option \<Rightarrow> bool" where
  "wants_json rf = (case rf of Some RfJsonObject \<Rightarrow> True | Some (RfJsonSchema _) \<Rightarrow> True | _ \<Rightarrow> False)"

definition extract_features :: "unicode \<Rightarrow> chat_request \<Rightarrow> agent_hint list \<Rightarrow> request_features" where
  "extract_features u r hints =
     (let s = scan_messages (req_messages r);
          user_text = to_lowercase u (last_user_text r);
          sys_text = to_lowercase u (system_text r)
      in \<lparr>rf_estimated_input_tokens = sc_input_tokens s,
          rf_conversation_tokens = sc_conversation_tokens s,
          rf_message_count = truncate32 (length (req_messages r)),
          rf_tool_count = truncate32 (length (req_tools r)),
          rf_has_images = sc_has_images s,
          rf_requires_json_schema = wants_json (req_response_format r),
          rf_code_block_count = sc_code_fences s div 2,
          rf_requested_max_output_tokens = smp_max_output_tokens (req_sampling r),
          rf_hint_count = truncate32 (length hints),
          rf_reasoning_marker_count = count_matches u user_text REASONING_MARKERS,
          rf_technical_term_count = count_matches u user_text TECHNICAL_TERMS,
          rf_simple_indicator_count = count_matches u user_text SIMPLE_INDICATORS,
          rf_code_keyword_count = count_matches u user_text CODE_KEYWORDS,
          rf_math_term_count = count_matches u user_text MATH_TERMS,
          rf_creative_term_count = count_matches u user_text CREATIVE_TERMS,
          rf_multi_step_signal = multi_step_signal u user_text,
          rf_question_count =
            truncate32 (count_list user_text 63 + count_list user_text 65311),
          rf_system_format_hint = (0 < count_matches u sys_text FORMAT_TERMS)\<rparr>)"

section \<open>Lemmas\<close>

lemma unat_truncate32: "unat (truncate32 n) = min n (2 ^ 32 - 1)"
  by (simp add: truncate32_def unat_try_from_max)

lemma unat_div_ceil_4: "unat (div_ceil_4 a) = (unat a + 3) div 4"
proof -
  have lt: "unat a < 2 ^ 32" using unat_lt [of a] by simp
  have m: "unat (a mod 4) = unat a mod 4" and d: "unat (a div 4) = unat a div 4"
    by (simp_all add: unat_mod_distrib unat_div_distrib)
  have z: "a mod 4 = 0 \<longleftrightarrow> unat a mod 4 = 0"
    using m by (metis unat_0 unat_inject)
  show ?thesis
  proof (cases "a mod 4 = 0")
    case True
    then show ?thesis using z d by (simp add: div_ceil_4_def) presburger
  next
    case False
    have "unat (a div 4) + unat (1 :: u32) < 2 ^ 32" using d lt by simp
    then have "unat (a div 4 + 1) = unat a div 4 + 1"
      using unat_add_lem [of "a div 4" "1 :: u32"] d by simp
    then show ?thesis using False z by (simp add: div_ceil_4_def) presburger
  qed
qed

lemma estimate_step_simps [simp]:
  "is_ascii c \<Longrightarrow> estimate_step c (narrow, wide) = (sat_add narrow 1, wide)"
  "\<not> is_ascii c \<Longrightarrow> estimate_step c (narrow, wide) = (narrow, sat_add wide 1)"
  by (simp_all add: estimate_step_def)

lemma estimate_fold:
  "map_prod unat unat (fold estimate_step t (a, w)) =
     (min (unat a + length (filter is_ascii t)) (2 ^ 32 - 1),
      min (unat w + length (filter (\<lambda>c. \<not> is_ascii c) t)) (2 ^ 32 - 1))"
proof (induction t arbitrary: a w)
  case Nil
  show ?case using unat_bound [of a] unat_bound [of w] by simp
next
  case (Cons c t)
  have one: "unat (sat_add b 1) = min (unat b + 1) (2 ^ 32 - 1)" for b :: u32
    by (simp add: unat_sat_add)
  show ?case
    by (cases "is_ascii c") (simp_all only: fold_simps estimate_step_simps Cons.IH one
        min_add_clamp filter.simps list.size if_True if_False not_not add_0_right add_Suc_right
        add_Suc not_True_eq_False not_False_eq_True One_nat_def comp_apply)
qed

lemma scan_add_tokens:
  "sc_conversation_tokens s \<le> sc_input_tokens s \<Longrightarrow>
   sc_conversation_tokens (scan_add conv n s) \<le> sc_input_tokens (scan_add conv n s)"
  by (auto simp: scan_add_def intro: sat_add_mono order_trans le_sat_add)

lemma scan_text_fields [simp]:
  "sc_conversation_tokens (scan_text conv t s) =
     sc_conversation_tokens (scan_add conv (estimate_tokens t) s)"
  "sc_input_tokens (scan_text conv t s) = sc_input_tokens (scan_add conv (estimate_tokens t) s)"
  by (simp_all add: scan_text_def Let_def)

lemma scan_text_tokens:
  "sc_conversation_tokens s \<le> sc_input_tokens s \<Longrightarrow>
   sc_conversation_tokens (scan_text conv t s) \<le> sc_input_tokens (scan_text conv t s)"
  by (simp add: scan_add_tokens)

lemma scan_part_tokens:
  "sc_conversation_tokens s \<le> sc_input_tokens s \<Longrightarrow>
   sc_conversation_tokens (scan_part conv p s) \<le> sc_input_tokens (scan_part conv p s)"
  by (cases p) (simp_all add: scan_add_tokens)

lemma scan_content_tokens:
  "sc_conversation_tokens s \<le> sc_input_tokens s \<Longrightarrow>
   sc_conversation_tokens (scan_content conv c s) \<le> sc_input_tokens (scan_content conv c s)"
proof (induction conv c s rule: scan_content.induct)
  case (2 conv parts s)
  show ?case unfolding scan_content.simps
    by (rule fold_invariant_simple [where P = "\<lambda>s. sc_conversation_tokens s \<le> sc_input_tokens s",
          OF scan_part_tokens 2])
qed (simp_all add: scan_add_tokens)

lemma scan_message_tokens:
  "sc_conversation_tokens s \<le> sc_input_tokens s \<Longrightarrow>
   sc_conversation_tokens (scan_message m s) \<le> sc_input_tokens (scan_message m s)"
  unfolding scan_message_def Let_def
  by (rule fold_invariant_simple [where P = "\<lambda>s. sc_conversation_tokens s \<le> sc_input_tokens s",
        OF scan_add_tokens scan_content_tokens])

lemma scan_messages_tokens:
  "sc_conversation_tokens (scan_messages ms) \<le> sc_input_tokens (scan_messages ms)"
proof -
  have init: "sc_conversation_tokens scan_init \<le> sc_input_tokens scan_init"
    unfolding scan_init_def by simp
  show ?thesis unfolding scan_messages_def
    by (rule fold_invariant_simple [where P = "\<lambda>s. sc_conversation_tokens s \<le> sc_input_tokens s",
          OF scan_message_tokens init])
qed

text \<open>The conversation counter does not see the system messages.\<close>

lemma scan_add_conversation:
  "sc_conversation_tokens (scan_add conv n s) =
     (if conv then sat_add (sc_conversation_tokens s) n else sc_conversation_tokens s)"
  by (simp add: scan_add_def)

lemma scan_part_conversation_cong:
  "sc_conversation_tokens s = sc_conversation_tokens s' \<Longrightarrow>
   sc_conversation_tokens (scan_part conv p s) = sc_conversation_tokens (scan_part conv p s')"
  by (cases p) (simp_all add: scan_add_conversation)

lemma scan_content_conversation_cong:
  "sc_conversation_tokens s = sc_conversation_tokens s' \<Longrightarrow>
   sc_conversation_tokens (scan_content conv c s) = sc_conversation_tokens (scan_content conv c s')"
proof (induction conv c s rule: scan_content.induct)
  case (2 conv parts s)
  show ?case unfolding scan_content.simps
    by (rule fold_observe_cong [where ob = sc_conversation_tokens, OF scan_part_conversation_cong 2])
qed (simp_all add: scan_add_conversation)

lemma scan_message_conversation_cong:
  assumes "sc_conversation_tokens s = sc_conversation_tokens s'"
  shows "sc_conversation_tokens (scan_message m s) = sc_conversation_tokens (scan_message m s')"
  unfolding scan_message_def Let_def
  by (rule fold_observe_cong [where ob = sc_conversation_tokens])
    (simp_all add: scan_add_conversation scan_content_conversation_cong [OF assms])

lemma scan_part_system:
  "sc_conversation_tokens (scan_part False p s) = sc_conversation_tokens s"
  by (cases p) (simp_all add: scan_add_conversation)

lemma scan_content_system:
  "sc_conversation_tokens (scan_content False c s) = sc_conversation_tokens s"
proof (cases "(False, c, s)" rule: scan_content.cases)
  case (2 conv parts s')
  then show ?thesis
    using fold_observe_same [where ob = sc_conversation_tokens and f = "scan_part False"]
    by (simp add: scan_part_system)
qed (simp_all add: scan_add_conversation)

lemma scan_message_system:
  assumes "msg_role m = System"
  shows "sc_conversation_tokens (scan_message m s) = sc_conversation_tokens s"
  using assms unfolding scan_message_def Let_def
  by (simp add: fold_observe_same [where ob = sc_conversation_tokens] scan_add_conversation
      scan_content_system)

lemma scan_filter_system:
  "sc_conversation_tokens (fold scan_message (filter (\<lambda>m. msg_role m \<noteq> System) ms) s) =
   sc_conversation_tokens (fold scan_message ms s)"
proof (induction ms arbitrary: s)
  case (Cons m ms)
  have "sc_conversation_tokens (fold scan_message ms s) =
      sc_conversation_tokens (fold scan_message ms (scan_message m s))"
    if "msg_role m = System"
    by (rule fold_observe_cong [where ob = sc_conversation_tokens,
          OF scan_message_conversation_cong]) (simp_all add: scan_message_system [OF that])
  with Cons show ?case by simp
qed simp

lemma last_user_text_rev_filter:
  "last_user_text_rev (filter (\<lambda>m. msg_role m \<noteq> System) ms) = last_user_text_rev ms"
  by (induction ms) auto

section \<open>Properties\<close>

text \<open>
  The token estimate is exact: below \<open>2^32\<close> characters, \<open>estimate_tokens\<close> is one token per four
  ASCII characters, rounded up, plus one per other character, no overflow of the \<open>u32\<close>
  counters being possible; in particular it never exceeds the number of characters.
\<close>

theorem estimate_tokens_exact:
  assumes "length t < 2 ^ 32"
  shows "unat (estimate_tokens t) =
      (length (filter is_ascii t) + 3) div 4 + length (filter (\<lambda>c. \<not> is_ascii c) t)
    \<and> unat (estimate_tokens t) \<le> length t"
proof -
  let ?n = "length (filter is_ascii t)" and ?w = "length (filter (\<lambda>c. \<not> is_ascii c) t)"
  have len: "?n + ?w = length t" by (rule sum_length_filter_compl)
  obtain narrow wide where eq: "fold estimate_step t (0, 0) = (narrow, wide)" by fastforce
  from estimate_fold [of t 0 0] assms len have "unat narrow = ?n" "unat wide = ?w"
    by (simp_all add: eq)
  then have val: "unat (estimate_tokens t) = min ((?n + 3) div 4 + ?w) (2 ^ 32 - 1)"
    by (simp only: estimate_tokens_def eq prod.case unat_sat_add unat_div_ceil_4) simp
  have "(?n + 3) div 4 \<le> ?n" by presburger
  with val len assms show ?thesis by simp
qed

theorem estimate_tokens_exact_witness:
  "unat (estimate_tokens (ascii ''abcde'' @ [21271, 20140])) = 4"
proof -
  have "length (ascii ''abcde'' @ [21271, 20140]) < 2 ^ 32" by (simp add: ascii_def)
  from estimate_tokens_exact [OF this] show ?thesis by (simp add: ascii_def is_ascii_def)
qed

definition without_system :: "chat_request \<Rightarrow> chat_request" where
  "without_system r = r\<lparr>req_messages := filter (\<lambda>m. msg_role m \<noteq> System) (req_messages r)\<rparr>"

text \<open>
  Agent scaffolding cannot raise the difficulty counts: dropping every system message from a
  request changes neither the conversation tokens nor any count taken from the last user
  message, and the conversation estimate never exceeds the estimate of the whole input.
\<close>

theorem system_prompt_is_not_difficulty:
  "(let f = extract_features u r hints; g = extract_features u (without_system r) hints in
      rf_conversation_tokens g = rf_conversation_tokens f
    \<and> rf_reasoning_marker_count g = rf_reasoning_marker_count f
    \<and> rf_technical_term_count g = rf_technical_term_count f
    \<and> rf_simple_indicator_count g = rf_simple_indicator_count f
    \<and> rf_code_keyword_count g = rf_code_keyword_count f
    \<and> rf_math_term_count g = rf_math_term_count f
    \<and> rf_creative_term_count g = rf_creative_term_count f
    \<and> rf_multi_step_signal g = rf_multi_step_signal f
    \<and> rf_question_count g = rf_question_count f
    \<and> rf_conversation_tokens f \<le> rf_estimated_input_tokens f)"
proof -
  have last: "last_user_text (without_system r) = last_user_text r"
    by (simp add: last_user_text_def without_system_def rev_filter last_user_text_rev_filter)
  have conv: "sc_conversation_tokens (scan_messages (req_messages (without_system r))) =
      sc_conversation_tokens (scan_messages (req_messages r))"
    by (simp add: without_system_def scan_messages_def scan_filter_system)
  show ?thesis
    by (simp add: extract_features_def Let_def last conv scan_messages_tokens)
qed

end
