(* ===== verification/Decision.thy ===== *)
theory Decision
  imports Features
begin

text \<open>
  What a route is made of, \<open>crates/router-core/src/decision.rs\<close>: validated upstream names, the
  decision record and the two reasons for refusing to route.
\<close>

section \<open>Upstream names\<close>

text \<open>The newtype \<open>UpstreamRef(String)\<close>, ordered as its string is.\<close>

datatype upstream_ref = UpstreamRef (as_str: string)

instantiation upstream_ref :: linorder
begin

definition less_eq_upstream_ref :: "upstream_ref \<Rightarrow> upstream_ref \<Rightarrow> bool" where
  "a \<le> b \<longleftrightarrow> as_str a \<le> as_str b"

definition less_upstream_ref :: "upstream_ref \<Rightarrow> upstream_ref \<Rightarrow> bool" where
  "a < b \<longleftrightarrow> as_str a < as_str b"

instance
  by standard (auto simp: less_eq_upstream_ref_def less_upstream_ref_def intro: upstream_ref.expand)

end

datatype invalid_upstream_ref = InvalidUpstreamRef string

definition upstream_ref_new :: "string \<Rightarrow> invalid_upstream_ref + upstream_ref" where
  "upstream_ref_new name =
     (let starts_with_letter = (case name of [] \<Rightarrow> False | c # _ \<Rightarrow> is_ascii_lower (byte c));
          rest_is_tame = list_all (\<lambda>c. is_ascii_lower (byte c) \<or> is_ascii_digit (byte c)
            \<or> c = CHR ''_'') (tl name)
      in if starts_with_letter \<and> rest_is_tame then Ok (UpstreamRef name)
         else Err (InvalidUpstreamRef name))"

definition upstream_ref_fmt :: "upstream_ref \<Rightarrow> string" where
  "upstream_ref_fmt u = as_str u"

text \<open>\<open>TryFrom<String>\<close> and \<open>From<UpstreamRef>\<close>.\<close>

definition upstream_ref_try_from :: "string \<Rightarrow> invalid_upstream_ref + upstream_ref" where
  "upstream_ref_try_from name = upstream_ref_new name"

definition upstream_ref_into :: "upstream_ref \<Rightarrow> string" where
  "upstream_ref_into u = as_str u"

record upstream_model =
  um_upstream :: upstream_ref
  um_model :: string

definition upstream_model_new :: "upstream_ref \<Rightarrow> string \<Rightarrow> upstream_model" where
  "upstream_model_new u m = \<lparr>um_upstream = u, um_model = m\<rparr>"

definition upstream_model_fmt :: "upstream_model \<Rightarrow> string" where
  "upstream_model_fmt t = as_str (um_upstream t) @ ''/'' @ um_model t"

section \<open>Decisions\<close>

datatype decided_by =
    DbRule string
  | DbHint hint_kind string
  | DbHeuristic u32 u32
  | DbDefault
  | DbExactModel string
  | DbQuota

record decision =
  dec_chosen :: upstream_model
  dec_decided_by :: decided_by
  dec_fallbacks :: "upstream_model list"
  dec_features :: request_features
  dec_pool :: string

text \<open>Where the request may go: the chosen target, then its fallbacks.\<close>

definition targets_of :: "decision \<Rightarrow> upstream_model list" where
  "targets_of d = dec_chosen d # dec_fallbacks d"

section \<open>Refusals\<close>

datatype unmet_requirement =
    UnmetUnknown
  | UnmetTools
  | UnmetVision
  | UnmetJsonSchema
  | UnmetContextWindow u32
  | UnmetExactModelUnavailable
  | UnmetLocalOnly

datatype no_route =
    Unsatisfiable string unmet_requirement
  | Unavailable string

definition no_route_error_code :: "no_route \<Rightarrow> error_code" where
  "no_route_error_code e =
     (case e of Unsatisfiable _ _ \<Rightarrow> Capability | Unavailable _ \<Rightarrow> Capacity)"

fun unmet_requirement_fmt :: "unmet_requirement \<Rightarrow> string" where
  "unmet_requirement_fmt UnmetUnknown = ''is installed''"
| "unmet_requirement_fmt UnmetTools = ''supports tool calls''"
| "unmet_requirement_fmt UnmetVision = ''supports vision''"
| "unmet_requirement_fmt UnmetJsonSchema = ''supports JSON schema output''"
| "unmet_requirement_fmt (UnmetContextWindow needed) =
     ''has a context window of at least '' @ decimal (unat needed) @ '' tokens''"
| "unmet_requirement_fmt UnmetExactModelUnavailable = ''carries the pinned model''"
| "unmet_requirement_fmt UnmetLocalOnly = ''runs locally, and cloud fallback is off''"

fun no_route_fmt :: "no_route \<Rightarrow> string" where
  "no_route_fmt (Unsatisfiable p r) =
     ''no candidate in pool `'' @ p @ ''` '' @ unmet_requirement_fmt r"
| "no_route_fmt (Unavailable p) = ''every candidate in pool `'' @ p @ ''` is out of rotation''"

section \<open>Lemmas\<close>

definition upstream_ref_ok :: "upstream_ref \<Rightarrow> bool" where
  "upstream_ref_ok u \<longleftrightarrow> as_str u \<noteq> [] \<and> is_ascii_lower (byte (hd (as_str u)))
     \<and> (\<forall>c \<in> set (tl (as_str u)). key_byte c)"

lemma upstream_ref_new_Ok_iff [result_simps]:
  "upstream_ref_new name = Ok u \<longleftrightarrow> u = UpstreamRef name \<and> upstream_ref_ok u"
  by (cases name)
    (auto simp: upstream_ref_new_def upstream_ref_ok_def list_all_iff key_byte_def Let_def)

lemma upstream_ref_roundtrip:
  "upstream_ref_ok u \<Longrightarrow> upstream_ref_try_from (upstream_ref_into u) = Ok u"
  by (simp add: upstream_ref_try_from_def upstream_ref_into_def upstream_ref_new_Ok_iff)

text \<open>A displayed target names one upstream and one model: the separator cannot be in the name.\<close>

lemma append_sep_inject:
  "c \<notin> set a \<Longrightarrow> c \<notin> set b \<Longrightarrow> a @ c # x = b @ c # y \<Longrightarrow> a = b \<and> x = y"
proof (induction a arbitrary: b)
  case Nil
  then show ?case by (cases b) auto
next
  case (Cons d a)
  then show ?case by (cases b) auto
qed

lemma upstream_ref_ok_no_slash: "upstream_ref_ok u \<Longrightarrow> CHR ''/'' \<notin> set (as_str u)"
  by (cases "as_str u")
    (auto simp: upstream_ref_ok_def key_byte_def is_ascii_lower_def is_ascii_digit_def)

lemma upstream_model_fmt_inject:
  assumes "upstream_ref_ok (um_upstream a)" "upstream_ref_ok (um_upstream b)"
    and "upstream_model_fmt a = upstream_model_fmt b"
  shows "um_upstream a = um_upstream b \<and> um_model a = um_model b"
  using append_sep_inject [OF assms(1,2) [THEN upstream_ref_ok_no_slash]] assms(3)
  by (auto simp: upstream_model_fmt_def intro: upstream_ref.expand)

lemma no_route_retriable:
  "is_retriable_elsewhere (no_route_error_code e) \<longleftrightarrow> (\<exists>p. e = Unavailable p)"
  by (cases e) (simp_all add: no_route_error_code_def is_retriable_elsewhere_def)

end
