(* ===== verification/Quota.thy ===== *)
theory Quota
  imports Decision
begin

text \<open>
  Quota-first ranking, \<open>crates/router-core/src/quota.rs\<close>. The score is an \<open>i64\<close> in the code; here
  it is an \<open>int\<close>, and \<open>quota_score_bounds\<close> shows that no \<open>i64\<close> operation of it overflows.
\<close>

definition DEFAULT_RESET_TIE_BAND_MS :: u64 where "DEFAULT_RESET_TIE_BAND_MS = 60000"

record reset_window =
  ms_until_reset :: u64
  remaining_permille :: u16

record quota_state =
  qs_reset :: "reset_window option"
  qs_rate_headroom_permille :: u16
  qs_rate_pressured :: bool
  qs_exhausted :: bool

definition quota_open :: "u64 \<Rightarrow> quota_state" where
  "quota_open ms = \<lparr>qs_reset = Some \<lparr>ms_until_reset = ms, remaining_permille = 1000\<rparr>,
     qs_rate_headroom_permille = 1000, qs_rate_pressured = False, qs_exhausted = False\<rparr>"

definition quota_non_windowed :: quota_state where
  "quota_non_windowed = \<lparr>qs_reset = None, qs_rate_headroom_permille = 1000,
     qs_rate_pressured = False, qs_exhausted = False\<rparr>"

definition quota_state_default :: quota_state where
  "quota_state_default = quota_non_windowed"

record quota_weights =
  qw_affinity :: u32
  qw_headroom :: u32
  qw_pressure :: u32

definition quota_weights_default :: quota_weights where
  "quota_weights_default = \<lparr>qw_affinity = 300000, qw_headroom = 200000, qw_pressure = 500000\<rparr>"

record quota_config =
  qc_weights :: quota_weights
  qc_reset_tie_band_ms :: u64

definition quota_config_default :: quota_config where
  "quota_config_default =
     \<lparr>qc_weights = quota_weights_default, qc_reset_tie_band_ms = DEFAULT_RESET_TIE_BAND_MS\<rparr>"

section \<open>Ranks\<close>

text \<open>\<open>QuotaRank\<close> with its \<open>Ord\<close>: greater is preferred, a lower bucket is greater.\<close>

datatype quota_place = QuotaRank (qr_bucket: u64) (qr_score: int)

definition quota_at_most :: "quota_place \<Rightarrow> quota_place \<Rightarrow> bool" where
  "quota_at_most a b \<longleftrightarrow> qr_bucket b < qr_bucket a \<or> qr_bucket b = qr_bucket a \<and> qr_score a \<le> qr_score b"

definition quota_below :: "quota_place \<Rightarrow> quota_place \<Rightarrow> bool" where
  "quota_below a b \<longleftrightarrow> qr_bucket b < qr_bucket a \<or> qr_bucket b = qr_bucket a \<and> qr_score a < qr_score b"

instantiation quota_place :: linorder
begin

definition less_eq_quota_place :: "quota_place \<Rightarrow> quota_place \<Rightarrow> bool" where
  "a \<le> b \<longleftrightarrow> quota_at_most a b"

definition less_quota_place :: "quota_place \<Rightarrow> quota_place \<Rightarrow> bool" where
  "a < b \<longleftrightarrow> quota_below a b"

instance
  by standard (auto simp: less_eq_quota_place_def less_quota_place_def quota_at_most_def quota_below_def
      intro: quota_place.expand)

end

lemma QuotaRank_less:
  "QuotaRank b s < QuotaRank b' s' \<longleftrightarrow> b' < b \<or> b' = b \<and> s < s'"
  by (simp add: less_quota_place_def quota_below_def)

text \<open>The terms of the score; \<open>/ 1000\<close> divides a value that is not negative.\<close>

definition quota_affinity :: "bool \<Rightarrow> quota_weights \<Rightarrow> int" where
  "quota_affinity is_last_used w = (if is_last_used then uint (qw_affinity w) else 0)"

definition quota_headroom :: "quota_state \<Rightarrow> quota_weights \<Rightarrow> int" where
  "quota_headroom st w = uint (qw_headroom w) * uint (qs_rate_headroom_permille st) div 1000"

definition quota_pressure :: "quota_state \<Rightarrow> quota_weights \<Rightarrow> int" where
  "quota_pressure st w = (if qs_rate_pressured st then uint (qw_pressure w) else 0)"

definition quota_bucket :: "quota_state \<Rightarrow> u64 \<Rightarrow> u64" where
  "quota_bucket st tie_band_ms =
     (case qs_reset st of Some window \<Rightarrow> ms_until_reset window div max tie_band_ms 1
      | None \<Rightarrow> u_max)"

definition quota_rank ::
  "quota_state \<Rightarrow> bool \<Rightarrow> u32 \<Rightarrow> quota_weights \<Rightarrow> u64 \<Rightarrow> quota_place option" where
  "quota_rank st is_last_used insertion_index w tie_band_ms =
     (if qs_exhausted st then None
      else Some (QuotaRank (quota_bucket st tie_band_ms)
        (quota_affinity is_last_used w + quota_headroom st w - quota_pressure st w
           - uint insertion_index)))"

section \<open>Lemmas\<close>

lemma quota_rank_None_iff: "quota_rank st l i w t = None \<longleftrightarrow> qs_exhausted st"
  by (simp add: quota_rank_def)

text \<open>Every intermediate value of the score stays far inside \<open>i64\<close>.\<close>

lemma uint_bound: "0 \<le> uint (a :: 'a::len word) \<and> uint a < 2 ^ LENGTH('a)"
  by simp

lemma quota_product_bound:
  "0 \<le> uint (a :: u32) * uint (b :: u16) \<and> uint a * uint b < 2 ^ 48"
proof -
  have "uint a \<le> 2 ^ 32 - 1" "uint b \<le> 2 ^ 16 - 1"
    using uint_bound [of a] uint_bound [of b] by simp_all
  then have "uint a * uint b \<le> (2 ^ 32 - 1) * (2 ^ 16 - 1)"
    by (intro mult_mono) simp_all
  then show ?thesis by simp
qed

lemma quota_score_bounds:
  assumes "quota_rank st l i w t = Some r"
  shows "- (2 ^ 34) < qr_score r \<and> qr_score r < 2 ^ 47"
proof -
  have h: "0 \<le> quota_headroom st w" "quota_headroom st w < 281474976711"
    using quota_product_bound [of "qw_headroom w" "qs_rate_headroom_permille st"]
      zdiv_mono1 [of "uint (qw_headroom w) * uint (qs_rate_headroom_permille st)" "2 ^ 48" 1000]
    by (simp_all add: quota_headroom_def pos_imp_zdiv_nonneg_iff)
  have a: "0 \<le> quota_affinity l w" "quota_affinity l w < 4294967296"
    and p: "0 \<le> quota_pressure st w" "quota_pressure st w < 4294967296"
    and i: "0 \<le> uint i" "uint i < 4294967296"
    using uint_bound [of "qw_affinity w"] uint_bound [of "qw_pressure w"] uint_bound [of i]
    by (simp_all add: quota_affinity_def quota_pressure_def)
  from assms have eq: "qr_score r =
      quota_affinity l w + quota_headroom st w - quota_pressure st w - uint i"
    by (auto simp: quota_rank_def split: if_splits)
  have "- 17179869184 < qr_score r" using eq a h p i by linarith
  moreover have "qr_score r < 140737488355328" using eq a h p i by linarith
  ultimately show ?thesis by simp
qed

lemma quota_headroom_default:
  "quota_headroom st quota_weights_default = 200 * uint (qs_rate_headroom_permille st)"
  by (simp add: quota_headroom_def quota_weights_default_def)

lemma quota_weights_default_fields:
  "uint (qw_affinity quota_weights_default) = 300000"
  "uint (qw_pressure quota_weights_default) = 500000"
  by (simp_all add: quota_weights_default_def)

lemma quota_score_default:
  "quota_rank st l i quota_weights_default t =
     (if qs_exhausted st then None
      else Some (QuotaRank (quota_bucket st t)
        ((if l then 300000 else 0) + 200 * uint (qs_rate_headroom_permille st)
          - (if qs_rate_pressured st then 500000 else 0) - uint i)))"
  by (simp add: quota_rank_def quota_headroom_default quota_affinity_def quota_pressure_def
      quota_weights_default_fields)

lemma intent_arith:
  fixes w f i j :: int
  assumes "0 \<le> w" "0 \<le> f" "w \<le> 1000" "f \<le> 1000" "\<bar>i - j\<bar> < 100000"
  shows "200 * f - j < 300000 + 200 * w - i"
    and "w \<le> f \<Longrightarrow> 300000 + 200 * w - 500000 - i < 200 * f - j"
  using assms by linarith+

section \<open>Properties\<close>

text \<open>
  A window that closes sooner wins, whatever else is true of the accounts: affinity,
  headroom, pressure, configured order and the operator's weights decide only between accounts of
  one reset bucket, and an exhausted account has no rank at all. No \<open>i64\<close> operation of the score
  overflows.
\<close>

theorem sooner_reset_bucket_wins:
  assumes "quota_rank a la ia w t = Some ra" and "quota_rank b lb ib w t = Some rb"
  shows "(quota_bucket a t < quota_bucket b t \<longrightarrow> rb < ra)
    \<and> (quota_bucket a t = quota_bucket b t \<longrightarrow> (rb < ra \<longleftrightarrow> qr_score rb < qr_score ra))
    \<and> \<not> qs_exhausted a \<and> \<bar>qr_score ra\<bar> < 2 ^ 63"
proof -
  from assms have "qr_bucket ra = quota_bucket a t" "qr_bucket rb = quota_bucket b t" "\<not> qs_exhausted a"
    by (auto simp: quota_rank_def split: if_splits)
  with quota_score_bounds [OF assms(1)] show ?thesis
    by (auto simp: less_quota_place_def quota_below_def)
qed

theorem sooner_reset_bucket_wins_witness:
  "QuotaRank 300 500000 < QuotaRank 20 199995"
proof -
  have a: "quota_rank (quota_open 1200000) False 5 quota_weights_default 60000
      = Some (QuotaRank 20 199995)"
    and b: "quota_rank (quota_open 18000000) True 0 quota_weights_default 60000
      = Some (QuotaRank 300 500000)"
    and lt: "quota_bucket (quota_open 1200000) 60000 < quota_bucket (quota_open 18000000) 60000"
    by code_simp+
  from sooner_reset_bucket_wins [OF a b] lt show ?thesis by blast
qed

text \<open>
  The default weights order accounts of one bucket as intended, for configured positions
  less than 100,000 apart: the account a conversation warmed keeps its edge while it is not
  pressured, whatever the headroom of the other; once pressured it yields to an unpressured
  account with at least its headroom.
\<close>

theorem default_weights_intent:
  assumes "quota_rank warm True i quota_weights_default t = Some rw"
    and "quota_rank fresh False j quota_weights_default t = Some rf"
    and "quota_bucket warm t = quota_bucket fresh t"
    and "qs_rate_headroom_permille warm \<le> 1000" and "qs_rate_headroom_permille fresh \<le> 1000"
    and "\<bar>uint i - uint j\<bar> < 100000" and "\<not> qs_rate_pressured fresh"
  shows "(\<not> qs_rate_pressured warm \<longrightarrow> rf < rw)
    \<and> (qs_rate_pressured warm
        \<and> qs_rate_headroom_permille warm \<le> qs_rate_headroom_permille fresh \<longrightarrow> rw < rf)"
proof -
  have hw: "uint (qs_rate_headroom_permille warm) \<le> 1000"
    and hf: "uint (qs_rate_headroom_permille fresh) \<le> 1000"
    using assms(4,5) by (simp_all add: word_le_def)
  note arith = intent_arith [OF _ _ hw hf assms(6)]
  from assms(1,2,3,7) arith show ?thesis
    by (auto simp: quota_score_default QuotaRank_less word_le_def split: if_splits)
qed

theorem default_weights_intent_witness:
  "QuotaRank 150 199999 < QuotaRank 150 500000"
proof -
  have a: "quota_rank (quota_open 9000000) True 0 quota_weights_default 60000
      = Some (QuotaRank 150 500000)"
    and b: "quota_rank (quota_open 9000000) False 1 quota_weights_default 60000
      = Some (QuotaRank 150 199999)"
    by code_simp+
  show ?thesis using default_weights_intent [OF a b]
    by (simp add: quota_open_def)
qed

text \<open>
  The configured position is not only a tiebreak. It is subtracted raw, and one permille of
  headroom is worth 200 points under the default weights, so an account 201 positions further
  down loses to one with strictly less headroom in the same bucket.
\<close>

theorem insertion_index_bridges_headroom:
  "\<exists>a b ra rb. quota_bucket a DEFAULT_RESET_TIE_BAND_MS = quota_bucket b DEFAULT_RESET_TIE_BAND_MS
    \<and> qs_rate_headroom_permille b < qs_rate_headroom_permille a
    \<and> quota_rank a False 201 quota_weights_default DEFAULT_RESET_TIE_BAND_MS = Some ra
    \<and> quota_rank b False 0 quota_weights_default DEFAULT_RESET_TIE_BAND_MS = Some rb
    \<and> ra < rb"
proof -
  let ?a = "quota_open 9000000" and ?b = "quota_open 9000000\<lparr>qs_rate_headroom_permille := 999\<rparr>"
  have "quota_bucket ?a DEFAULT_RESET_TIE_BAND_MS = quota_bucket ?b DEFAULT_RESET_TIE_BAND_MS"
    "qs_rate_headroom_permille ?b < qs_rate_headroom_permille ?a"
    "quota_rank ?a False 201 quota_weights_default DEFAULT_RESET_TIE_BAND_MS
      = Some (QuotaRank 150 199799)"
    "quota_rank ?b False 0 quota_weights_default DEFAULT_RESET_TIE_BAND_MS
      = Some (QuotaRank 150 199800)"
    "QuotaRank 150 199799 < QuotaRank 150 199800"
    by code_simp+
  then show ?thesis by blast
qed

end
