(* ===== verification/Config.thy ===== *)
theory Config
  imports Quota
begin

text \<open>
  The routing configuration, \<open>crates/router-core/src/config.rs\<close>: rule predicates, the heuristic
  score and its bands, and the validation that \<open>Router::new\<close> runs.
\<close>

definition CONFIG_VERSION :: u32 where "CONFIG_VERSION = 1"
definition DEFAULT_ASSUMED_CONTEXT_WINDOW :: u32 where "DEFAULT_ASSUMED_CONTEXT_WINDOW = 8192"

definition assumed_context_window_default :: u32 where
  "assumed_context_window_default = DEFAULT_ASSUMED_CONTEXT_WINDOW"

datatype routing_mode = Tiered | QuotaFirst

datatype recovery_policy = Strict | Ordered "string list"

section \<open>Rules and their predicates\<close>

record matcher =
  mt_estimated_input_tokens_at_least :: "u32 option"
  mt_estimated_input_tokens_below :: "u32 option"
  mt_requires_tools :: "bool option"
  mt_requires_json_schema :: "bool option"
  mt_requires_vision :: "bool option"
  mt_requested_model :: "string option"
  mt_reasoning_markers_at_least :: "u32 option"
  mt_keywords_any :: "utext list"

definition matcher_default :: matcher where
  "matcher_default = \<lparr>mt_estimated_input_tokens_at_least = None,
     mt_estimated_input_tokens_below = None, mt_requires_tools = None,
     mt_requires_json_schema = None, mt_requires_vision = None, mt_requested_model = None,
     mt_reasoning_markers_at_least = None, mt_keywords_any = []\<rparr>"

record rule =
  rule_id :: string
  rule_matcher :: matcher
  rule_route_to :: string

record hint_route =
  hr_kind :: hint_kind
  hr_value :: string
  hr_route_to :: string

definition match_is_empty :: "matcher \<Rightarrow> bool" where
  "match_is_empty m \<longleftrightarrow>
     mt_estimated_input_tokens_at_least m = None
     \<and> mt_estimated_input_tokens_below m = None
     \<and> mt_requires_tools m = None
     \<and> mt_requires_json_schema m = None
     \<and> mt_requires_vision m = None
     \<and> mt_requested_model m = None
     \<and> mt_reasoning_markers_at_least m = None
     \<and> mt_keywords_any m = []"

text \<open>\<open>Option::is_some_and\<close>.\<close>

definition is_some_and :: "'a option \<Rightarrow> ('a \<Rightarrow> bool) \<Rightarrow> bool" where
  "is_some_and x p = (case x of None \<Rightarrow> False | Some y \<Rightarrow> p y)"

fun content_texts :: "content \<Rightarrow> utext list" where
  "content_texts (ContentText t) = [t]"
| "content_texts (ContentParts parts) =
     List.map_filter (\<lambda>p. case p of PartText t \<Rightarrow> Some t | _ \<Rightarrow> None) parts"

definition message_texts :: "chat_request \<Rightarrow> utext list" where
  "message_texts r = concat (map content_texts (List.map_filter msg_content (req_messages r)))"

definition mentions_any :: "unicode \<Rightarrow> chat_request \<Rightarrow> utext list \<Rightarrow> bool" where
  "mentions_any u r keywords =
     (let needles = map (to_lowercase u) keywords
      in list_ex (\<lambda>t. let haystack = to_lowercase u t
           in list_ex (\<lambda>needle. text_contains haystack needle) needles) (message_texts r))"

definition match_matches :: "unicode \<Rightarrow> matcher \<Rightarrow> request_features \<Rightarrow> chat_request \<Rightarrow> bool" where
  "match_matches u m f r =
     (let tokens = rf_estimated_input_tokens f;
          refuted =
            is_some_and (mt_estimated_input_tokens_at_least m) (\<lambda>floor. tokens < floor)
            \<or> is_some_and (mt_estimated_input_tokens_below m) (\<lambda>ceiling. ceiling \<le> tokens)
            \<or> is_some_and (mt_requires_tools m) (\<lambda>wanted. (0 < rf_tool_count f) \<noteq> wanted)
            \<or> is_some_and (mt_requires_json_schema m) (\<lambda>wanted. rf_requires_json_schema f \<noteq> wanted)
            \<or> is_some_and (mt_requires_vision m) (\<lambda>wanted. rf_has_images f \<noteq> wanted)
            \<or> is_some_and (mt_requested_model m) (\<lambda>model. req_model r \<noteq> model)
            \<or> is_some_and (mt_reasoning_markers_at_least m)
                (\<lambda>floor. rf_reasoning_marker_count f < floor)
            \<or> (mt_keywords_any m \<noteq> [] \<and> \<not> mentions_any u r (mt_keywords_any m))
      in \<not> refuted)"

section \<open>Heuristic\<close>

record weights =
  w_tokens_per_point :: u32
  w_per_tool :: u32
  w_json_schema :: u32
  w_image :: u32
  w_per_code_block :: u32
  w_per_extra_turn :: u32
  w_per_reasoning_marker :: u32
  w_per_technical_term :: u32
  w_per_simple_indicator :: u32
  w_per_code_keyword :: u32
  w_per_math_term :: u32
  w_per_creative_term :: u32
  w_per_multi_step_point :: u32
  w_per_question :: u32
  w_system_format :: u32
  w_max_output_tokens_per_point :: u32

record band =
  band_at_least :: u32
  band_pool :: string

record heuristic =
  he_weights :: weights
  he_threshold :: u32
  he_above :: string
  he_below :: string
  he_bands :: "band list"

text \<open>
  \<open>Heuristic::score\<close>: one statement of the body per binding, in its order. The advertised tools
  and \<open>per_tool\<close> play no part.
\<close>

definition heuristic_score :: "heuristic \<Rightarrow> request_features \<Rightarrow> u32" where
  "heuristic_score h f =
     (let w = he_weights h;
          s = rf_conversation_tokens f div max (w_tokens_per_point w) 1;
          s = sat_add s (sat_mul (rf_code_block_count f) (w_per_code_block w));
          s = sat_add s (sat_mul (sat_sub (rf_message_count f) 1) (w_per_extra_turn w));
          s = (if rf_requires_json_schema f then sat_add s (w_json_schema w) else s);
          s = (if rf_has_images f then sat_add s (w_image w) else s);
          s = sat_add s (sat_mul (rf_reasoning_marker_count f) (w_per_reasoning_marker w));
          s = sat_add s (sat_mul (rf_technical_term_count f) (w_per_technical_term w));
          s = sat_add s (sat_mul (rf_code_keyword_count f) (w_per_code_keyword w));
          s = sat_add s (sat_mul (rf_math_term_count f) (w_per_math_term w));
          s = sat_add s (sat_mul (rf_creative_term_count f) (w_per_creative_term w));
          s = sat_add s (sat_mul (rf_multi_step_signal f) (w_per_multi_step_point w));
          s = sat_add s (sat_mul (rf_question_count f) (w_per_question w));
          s = (if rf_system_format_hint f then sat_add s (w_system_format w) else s);
          s = (if 0 < w_max_output_tokens_per_point w
               then sat_add s (unwrap_or (rf_requested_max_output_tokens f) 0
                      div w_max_output_tokens_per_point w)
               else s)
      in sat_sub s (sat_mul (rf_simple_indicator_count f) (w_per_simple_indicator w)))"

fun select_band :: "band list \<Rightarrow> u32 \<Rightarrow> (string \<times> u32) option" where
  "select_band [] score = None"
| "select_band (b # bs) score =
     (if band_at_least b \<le> score then Some (band_pool b, band_at_least b) else select_band bs score)"

definition heuristic_select :: "heuristic \<Rightarrow> u32 \<Rightarrow> string \<times> u32" where
  "heuristic_select h score = (case select_band (he_bands h) score of
      Some hit \<Rightarrow> hit
    | None \<Rightarrow> if he_threshold h \<le> score then (he_above h, he_threshold h)
        else (he_below h, he_threshold h))"

section \<open>Configuration\<close>

record router_config =
  rc_version :: u32
  rc_pools :: "(string, upstream_model list) btree"
  rc_rules :: "rule list"
  rc_hint_routes :: "hint_route list"
  rc_heuristic :: "heuristic option"
  rc_default_pool :: string
  rc_assumed_context_window :: u32
  rc_honor_exact_model :: bool
  rc_recovery :: recovery_policy
  rc_local_only :: bool
  rc_allow_cloud_fallback :: bool
  rc_routing_mode :: routing_mode
  rc_quota :: quota_config
  rc_quota_accounts :: "upstream_model list"

datatype config_error =
    UnsupportedVersion u32
  | AssumedContextWindowIsZero
  | NoPools
  | EmptyPool string
  | UnknownPool (unknown_pool: string) (referenced_by: string)
  | EmptyRuleId
  | DuplicateRuleId string
  | RuleMatchesEverything string
  | DuplicateHintRoute hint_kind string
  | TokensPerPointIsZero
  | BandsNotDescending u32 u32

definition require_pool :: "router_config \<Rightarrow> string \<Rightarrow> string \<Rightarrow> config_error + unit" where
  "require_pool c p by =
     (if bt_contains (rc_pools c) p then Ok () else Err (UnknownPool p by))"

text \<open>The loop over the rules, with the set of ids it has seen.\<close>

fun validate_rules :: "router_config \<Rightarrow> string list \<Rightarrow> rule list \<Rightarrow> config_error + unit" where
  "validate_rules c seen [] = Ok ()"
| "validate_rules c seen (r # rs) =
     (if rule_id r = [] then Err EmptyRuleId
      else if rule_id r \<in> set seen then Err (DuplicateRuleId (rule_id r))
      else if match_is_empty (rule_matcher r) then Err (RuleMatchesEverything (rule_id r))
      else and_then (require_pool c (rule_route_to r) (''rule `'' @ rule_id r @ ''`''))
        (\<lambda>_. validate_rules c (rule_id r # seen) rs))"

fun validate_hint_routes ::
  "router_config \<Rightarrow> (hint_kind \<times> string) list \<Rightarrow> hint_route list \<Rightarrow> config_error + unit" where
  "validate_hint_routes c seen [] = Ok ()"
| "validate_hint_routes c seen (h # hs) =
     (if (hr_kind h, hr_value h) \<in> set seen then Err (DuplicateHintRoute (hr_kind h) (hr_value h))
      else and_then (require_pool c (hr_route_to h) ''hint_routes'')
        (\<lambda>_. validate_hint_routes c (seen @ [(hr_kind h, hr_value h)]) hs))"

text \<open>The loop over \<open>bands.windows(2)\<close>.\<close>

fun validate_bands :: "band list \<Rightarrow> config_error + unit" where
  "validate_bands (a # b # bs) =
     (if band_at_least a \<le> band_at_least b
      then Err (BandsNotDescending (band_at_least a) (band_at_least b))
      else validate_bands (b # bs))"
| "validate_bands _ = Ok ()"

definition validate_heuristic :: "router_config \<Rightarrow> heuristic \<Rightarrow> config_error + unit" where
  "validate_heuristic c h =
     (if w_tokens_per_point (he_weights h) = 0 then Err TokensPerPointIsZero
      else and_then (require_pool c (he_above h) ''heuristic.above'') (\<lambda>_.
        and_then (require_pool c (he_below h) ''heuristic.below'') (\<lambda>_.
        and_then (validate_bands (he_bands h)) (\<lambda>_.
        try_each (\<lambda>b. require_pool c (band_pool b) ''heuristic.bands'') (he_bands h)))))"

definition validate_pools :: "router_config \<Rightarrow> config_error + unit" where
  "validate_pools c =
     try_each (\<lambda>(name, members). if members = [] then Err (EmptyPool name) else Ok ()) (rc_pools c)"

definition validate_recovery :: "router_config \<Rightarrow> config_error + unit" where
  "validate_recovery c = (case rc_recovery c of
      Strict \<Rightarrow> Ok ()
    | Ordered pools \<Rightarrow> try_each (\<lambda>p. require_pool c p ''recovery.ordered'') pools)"

definition validate_tiered :: "router_config \<Rightarrow> config_error + unit" where
  "validate_tiered c =
     (if rc_pools c = [] then Err NoPools
      else and_then (validate_pools c) (\<lambda>_.
        and_then (require_pool c (rc_default_pool c) ''default_pool'') (\<lambda>_.
        and_then (validate_rules c [] (rc_rules c)) (\<lambda>_.
        and_then (validate_hint_routes c [] (rc_hint_routes c)) (\<lambda>_.
        and_then (case rc_heuristic c of None \<Rightarrow> Ok () | Some h \<Rightarrow> validate_heuristic c h) (\<lambda>_.
        validate_recovery c))))))"

definition validate :: "router_config \<Rightarrow> config_error + unit" where
  "validate c =
     (if rc_version c \<noteq> CONFIG_VERSION then Err (UnsupportedVersion (rc_version c))
      else if rc_assumed_context_window c = 0 then Err AssumedContextWindowIsZero
      else if rc_routing_mode c = QuotaFirst then Ok ()
      else validate_tiered c)"

section \<open>Validation against its specification\<close>

text \<open>What a routable configuration is, independently of the order of the checks.\<close>

definition known_pool :: "router_config \<Rightarrow> string \<Rightarrow> bool" where
  "known_pool c p \<longleftrightarrow> p \<in> fst ` set (rc_pools c)"

definition rules_ok :: "router_config \<Rightarrow> bool" where
  "rules_ok c \<longleftrightarrow> distinct (map rule_id (rc_rules c))
     \<and> (\<forall>r \<in> set (rc_rules c). rule_id r \<noteq> [] \<and> \<not> match_is_empty (rule_matcher r)
          \<and> known_pool c (rule_route_to r))"

definition hint_routes_ok :: "router_config \<Rightarrow> bool" where
  "hint_routes_ok c \<longleftrightarrow> distinct (map (\<lambda>h. (hr_kind h, hr_value h)) (rc_hint_routes c))
     \<and> (\<forall>h \<in> set (rc_hint_routes c). known_pool c (hr_route_to h))"

definition bands_descending :: "band list \<Rightarrow> bool" where
  "bands_descending bs \<longleftrightarrow> sorted_wrt (\<lambda>a b. band_at_least b < band_at_least a) bs"

definition heuristic_ok :: "router_config \<Rightarrow> heuristic \<Rightarrow> bool" where
  "heuristic_ok c h \<longleftrightarrow> w_tokens_per_point (he_weights h) \<noteq> 0
     \<and> known_pool c (he_above h) \<and> known_pool c (he_below h) \<and> bands_descending (he_bands h)
     \<and> (\<forall>b \<in> set (he_bands h). known_pool c (band_pool b))"

definition tiered_ok :: "router_config \<Rightarrow> bool" where
  "tiered_ok c \<longleftrightarrow> rc_pools c \<noteq> [] \<and> (\<forall>p \<in> set (rc_pools c). snd p \<noteq> [])
     \<and> known_pool c (rc_default_pool c) \<and> rules_ok c \<and> hint_routes_ok c
     \<and> (\<forall>h. rc_heuristic c = Some h \<longrightarrow> heuristic_ok c h)
     \<and> (\<forall>ps. rc_recovery c = Ordered ps \<longrightarrow> (\<forall>p \<in> set ps. known_pool c p))"

definition config_ok :: "router_config \<Rightarrow> bool" where
  "config_ok c \<longleftrightarrow> rc_version c = CONFIG_VERSION \<and> rc_assumed_context_window c \<noteq> 0
     \<and> (rc_routing_mode c = QuotaFirst \<or> tiered_ok c)"

lemma require_pool_Ok_iff [result_simps]: "require_pool c p by = Ok u \<longleftrightarrow> known_pool c p"
  by (simp add: require_pool_def known_pool_def bt_contains_iff)

lemma validate_rules_Ok_iff [result_simps]:
  "validate_rules c seen rs = Ok u \<longleftrightarrow>
     distinct (map rule_id rs) \<and> set seen \<inter> set (map rule_id rs) = {}
     \<and> (\<forall>r \<in> set rs. rule_id r \<noteq> [] \<and> \<not> match_is_empty (rule_matcher r)
          \<and> known_pool c (rule_route_to r))"
  by (induction c seen rs rule: validate_rules.induct) (auto simp: result_simps)

lemma validate_hint_routes_Ok_iff [result_simps]:
  "validate_hint_routes c seen hs = Ok u \<longleftrightarrow>
     distinct (map (\<lambda>h. (hr_kind h, hr_value h)) hs)
     \<and> set seen \<inter> set (map (\<lambda>h. (hr_kind h, hr_value h)) hs) = {}
     \<and> (\<forall>h \<in> set hs. known_pool c (hr_route_to h))"
  by (induction c seen hs rule: validate_hint_routes.induct) (auto simp: result_simps)

lemma validate_bands_Ok_iff [result_simps]:
  "validate_bands bs = Ok u \<longleftrightarrow> bands_descending bs"
  unfolding bands_descending_def
  by (induction bs rule: validate_bands.induct) (auto simp: not_le intro: less_trans)

lemma validate_heuristic_Ok_iff [result_simps]:
  "validate_heuristic c h = Ok u \<longleftrightarrow> heuristic_ok c h"
  by (auto simp: validate_heuristic_def heuristic_ok_def result_simps)

lemma validate_pools_Ok_iff [result_simps]:
  "validate_pools c = Ok u \<longleftrightarrow> (\<forall>p \<in> set (rc_pools c). snd p \<noteq> [])"
  by (auto simp: validate_pools_def result_simps split: if_splits)

lemma validate_recovery_Ok_iff [result_simps]:
  "validate_recovery c = Ok u \<longleftrightarrow>
     (\<forall>ps. rc_recovery c = Ordered ps \<longrightarrow> (\<forall>p \<in> set ps. known_pool c p))"
  by (simp add: validate_recovery_def result_simps split: recovery_policy.split)

lemma validate_tiered_Ok_iff [result_simps]: "validate_tiered c = Ok u \<longleftrightarrow> tiered_ok c"
  by (auto simp: validate_tiered_def tiered_ok_def rules_ok_def hint_routes_ok_def result_simps
      split: option.splits)

lemma validate_Ok_iff [result_simps]: "validate c = Ok u \<longleftrightarrow> config_ok c"
  by (cases "rc_routing_mode c") (auto simp: validate_def config_ok_def result_simps)

text \<open>An error that names a pool names one that does not exist.\<close>

lemma require_pool_Err: "require_pool c p by = Err e \<longleftrightarrow> \<not> known_pool c p \<and> e = UnknownPool p by"
  by (auto simp: require_pool_def known_pool_def bt_contains_iff)

lemma validate_rules_unknown:
  "validate_rules c seen rs = Err (UnknownPool p by) \<Longrightarrow> \<not> known_pool c p"
  by (induction c seen rs rule: validate_rules.induct)
    (auto simp: and_then_Err_iff require_pool_Err split: if_splits)

lemma validate_hint_routes_unknown:
  "validate_hint_routes c seen hs = Err (UnknownPool p by) \<Longrightarrow> \<not> known_pool c p"
  by (induction c seen hs rule: validate_hint_routes.induct)
    (auto simp: and_then_Err_iff require_pool_Err split: if_splits)

lemma validate_bands_Err: "validate_bands bs = Err e \<Longrightarrow> \<exists>a b. e = BandsNotDescending a b \<and> a \<le> b"
  by (induction bs rule: validate_bands.induct) (auto split: if_splits)

lemma validate_unknown_pool:
  assumes "validate c = Err (UnknownPool p by)"
  shows "\<not> known_pool c p"
  using assms
  by (auto simp: validate_def validate_tiered_def validate_heuristic_def validate_recovery_def
      validate_pools_def and_then_Err_iff require_pool_Err
      dest: validate_rules_unknown validate_hint_routes_unknown validate_bands_Err try_each_Err
      split: if_splits option.splits recovery_policy.splits)

section \<open>The score as an exact sum\<close>

text \<open>What each scoring dimension is worth before any clamping.\<close>

definition score_dimensions :: "weights \<Rightarrow> request_features \<Rightarrow> nat list" where
  "score_dimensions w f =
     [unat (rf_conversation_tokens f) div max (unat (w_tokens_per_point w)) 1,
      unat (rf_code_block_count f) * unat (w_per_code_block w),
      (unat (rf_message_count f) - 1) * unat (w_per_extra_turn w),
      (if rf_requires_json_schema f then unat (w_json_schema w) else 0),
      (if rf_has_images f then unat (w_image w) else 0),
      unat (rf_reasoning_marker_count f) * unat (w_per_reasoning_marker w),
      unat (rf_technical_term_count f) * unat (w_per_technical_term w),
      unat (rf_code_keyword_count f) * unat (w_per_code_keyword w),
      unat (rf_math_term_count f) * unat (w_per_math_term w),
      unat (rf_creative_term_count f) * unat (w_per_creative_term w),
      unat (rf_multi_step_signal f) * unat (w_per_multi_step_point w),
      unat (rf_question_count f) * unat (w_per_question w),
      (if rf_system_format_hint f then unat (w_system_format w) else 0),
      unat (unwrap_or (rf_requested_max_output_tokens f) 0)
        div unat (w_max_output_tokens_per_point w)]"

definition score_discount :: "weights \<Rightarrow> request_features \<Rightarrow> nat" where
  "score_discount w f = unat (rf_simple_indicator_count f) * unat (w_per_simple_indicator w)"

lemma unat_sat_add_clamp:
  assumes "unat s = min n (2 ^ LENGTH('a) - 1)" and "unat x = min m (2 ^ LENGTH('a) - 1)"
  shows "unat (sat_add s x :: 'a::len word) = min (n + m) (2 ^ LENGTH('a) - 1)"
  by (simp only: unat_sat_add assms min_add_clamp)

lemma unat_clamp_id: "unat x = min (unat x) (2 ^ LENGTH('a) - 1)" for x :: "'a::len word"
  using unat_bound [of x] by simp

lemma unat_if_add_clamp:
  assumes "unat s = min n (2 ^ LENGTH('a) - 1)" and "unat x = min m (2 ^ LENGTH('a) - 1)"
  shows "unat (if b then sat_add s x else s :: 'a::len word) =
    min (n + (if b then m else 0)) (2 ^ LENGTH('a) - 1)"
  using assms unat_sat_add_clamp [OF assms] by simp

lemma unat_div_clamp: "unat (a div b) = min (unat a div unat b) (2 ^ LENGTH('a) - 1)"
  for a b :: "'a::len word"
  using unat_clamp_id [of "a div b"] by (simp add: unat_div_distrib)

lemma unat_extra_turns:
  "unat (sat_mul (sat_sub (n :: u32) 1) w) = min ((unat n - 1) * unat w) (2 ^ LENGTH(32) - 1)"
  by (simp add: unat_sat_mul unat_sat_sub)

lemma unat_tokens_points:
  "unat (n div max (d :: u32) 1) = min (unat n div max (unat d) 1) (2 ^ LENGTH(32) - 1)"
  by (simp only: unat_div_clamp unat_max unat_1)

lemma unat_output_points:
  assumes "unat (s :: u32) = min n (2 ^ LENGTH(32) - 1)"
  shows "unat (if 0 < d then sat_add s (x div d) else s) =
    min (n + unat x div unat d) (2 ^ LENGTH(32) - 1)"
proof (cases "0 < d")
  case True
  then show ?thesis using unat_sat_add_clamp [OF assms unat_div_clamp [of x d]] by simp
next
  case False
  then have "unat d = 0" by (simp add: word_less_nat_alt)
  with False show ?thesis using assms by simp
qed

lemma score_chain:
  "unat (heuristic_score h f) =
     min (sum_list (score_dimensions (he_weights h) f)) (2 ^ 32 - 1)
       - min (score_discount (he_weights h) f) (2 ^ 32 - 1)"
proof -
  note steps = unat_output_points unat_if_add_clamp unat_sat_add_clamp
  note leaves = unat_extra_turns unat_tokens_points unat_sat_mul unat_clamp_id
  show ?thesis
    unfolding heuristic_score_def Let_def unat_sat_sub score_dimensions_def score_discount_def
    by (rule arg_cong2 [where f = minus], rule trans, (rule steps leaves)+)
      (simp_all add: unat_sat_mul)
qed

section \<open>Bands\<close>

lemma select_band_Some:
  assumes "bands_descending bs" and "select_band bs score = Some (p, floor)"
  shows "(\<exists>b \<in> set bs. band_pool b = p \<and> band_at_least b = floor) \<and> floor \<le> score
    \<and> (\<forall>b \<in> set bs. band_at_least b \<le> score \<longrightarrow> band_at_least b \<le> floor)"
  using assms
  by (induction bs score rule: select_band.induct)
    (auto simp: bands_descending_def split: if_splits intro: less_imp_le)

lemma select_band_None_iff:
  "select_band bs score = None \<longleftrightarrow> (\<forall>b \<in> set bs. score < band_at_least b)"
  by (induction bs score rule: select_band.induct) (auto simp: not_le)

lemma select_band_pool: "select_band bs score = Some hit \<Longrightarrow> fst hit \<in> band_pool ` set bs"
  by (induction bs score rule: select_band.induct) (auto split: if_splits)

lemma heuristic_select_pool:
  "fst (heuristic_select h score) \<in> {he_above h, he_below h} \<union> band_pool ` set (he_bands h)"
  using select_band_pool [of "he_bands h" score]
  by (auto simp: heuristic_select_def split: option.splits)

section \<open>Properties\<close>

text \<open>
  C36. \<open>RouterConfig::validate\<close> accepts exactly the routable configurations, as the order-free
  specification \<open>config_ok\<close> describes them: the version is supported, the assumed window is not
  zero and, outside quota-first mode, every pool is inhabited, every pool a layer names exists, rule
  ids and hint keys are unique, no rule is without predicates, bands descend strictly and no
  division by zero is configured. A refusal that names a pool names one that does not exist.
\<close>

theorem validate_iff_config_ok:
  "(validate c = Ok () \<longleftrightarrow> config_ok c)
    \<and> (\<forall>p by. validate c = Err (UnknownPool p by) \<longrightarrow> \<not> known_pool c p)"
  by (simp add: validate_Ok_iff) (use validate_unknown_pool in blast)

theorem validate_iff_config_ok_witness:
  "\<not> known_pool \<lparr>rc_version = 1, rc_pools = [(''a'', [\<lparr>um_upstream = UpstreamRef ''x'', um_model = ''m''\<rparr>])],
      rc_rules = [], rc_hint_routes = [], rc_heuristic = None, rc_default_pool = ''b'',
      rc_assumed_context_window = 8192, rc_honor_exact_model = False, rc_recovery = Strict,
      rc_local_only = False, rc_allow_cloud_fallback = False, rc_routing_mode = Tiered,
      rc_quota = quota_config_default, rc_quota_accounts = []\<rparr> ''b''"
    (is "\<not> known_pool ?c _")
proof -
  have "validate ?c = Err (UnknownPool ''b'' ''default_pool'')" by code_simp
  with validate_iff_config_ok [of ?c] show ?thesis by blast
qed

text \<open>
  The chain of saturating \<open>u32\<close> operations of \<open>Heuristic::score\<close> computes the exact sum of
  its fourteen dimensions, clamped once, less the clamped discount: saturation never compounds.
  The size of the system prompt and the number of advertised tools do not enter it.
\<close>

theorem heuristic_score_exact:
  "unat (heuristic_score h f) =
      min (sum_list (score_dimensions (he_weights h) f)) (2 ^ 32 - 1)
        - min (score_discount (he_weights h) f) (2 ^ 32 - 1)
    \<and> heuristic_score h (f\<lparr>rf_tool_count := n, rf_estimated_input_tokens := k\<rparr>)
        = heuristic_score h f"
proof (rule conjI [OF score_chain])
  have "unat (heuristic_score h (f\<lparr>rf_tool_count := n, rf_estimated_input_tokens := k\<rparr>))
      = unat (heuristic_score h f)"
    by (simp add: score_chain score_dimensions_def score_discount_def)
  then show "heuristic_score h (f\<lparr>rf_tool_count := n, rf_estimated_input_tokens := k\<rparr>)
      = heuristic_score h f"
    by (simp only: unat_inject)
qed

text \<open>
  Under validated bands the score lands in the highest band it reaches, however the bands
  are searched; below every band the binary split decides. Either way the recorded threshold is the
  floor that was compared, and a higher score never lands in a lower band.
\<close>

theorem select_highest_band:
  assumes "bands_descending (he_bands h)"
    and "heuristic_select h score = (p, floor)"
  shows "(if \<exists>b \<in> set (he_bands h). band_at_least b \<le> score
      then (\<exists>b \<in> set (he_bands h). band_pool b = p \<and> band_at_least b = floor) \<and> floor \<le> score
        \<and> (\<forall>b \<in> set (he_bands h). band_at_least b \<le> score \<longrightarrow> band_at_least b \<le> floor)
      else floor = he_threshold h
        \<and> p = (if he_threshold h \<le> score then he_above h else he_below h))
    \<and> (\<forall>score' p' floor'. (\<exists>b \<in> set (he_bands h). band_at_least b \<le> score) \<and> score \<le> score'
        \<and> heuristic_select h score' = (p', floor') \<longrightarrow> floor \<le> floor')"
proof (cases "select_band (he_bands h) score")
  case None
  with assms(2) show ?thesis
    by (auto simp: select_band_None_iff heuristic_select_def not_le split: if_splits)
next
  case (Some hit)
  with assms(2) have hit: "select_band (he_bands h) score = Some (p, floor)"
    by (simp add: heuristic_select_def)
  note this_band = select_band_Some [OF assms(1) hit]
  then have ex: "\<exists>b \<in> set (he_bands h). band_at_least b \<le> score" by auto
  have "floor \<le> floor'"
    if "score \<le> score'" and "heuristic_select h score' = (p', floor')" for score' p' floor'
  proof -
    from ex that(1) have "select_band (he_bands h) score' \<noteq> None"
      by (auto simp: select_band_None_iff not_less intro: order_trans)
    with that(2) have "select_band (he_bands h) score' = Some (p', floor')"
      by (auto simp: heuristic_select_def)
    note higher = select_band_Some [OF assms(1) this]
    from this_band obtain b where b: "b \<in> set (he_bands h)" "band_at_least b = floor"
      and "floor \<le> score" by blast
    with that(1) have "band_at_least b \<le> score'" by auto
    with higher b show ?thesis by auto
  qed
  with this_band ex show ?thesis by auto
qed

definition example_weights :: weights where
  "example_weights = \<lparr>w_tokens_per_point = 1000, w_per_tool = 0, w_json_schema = 0, w_image = 0,
     w_per_code_block = 0, w_per_extra_turn = 0, w_per_reasoning_marker = 0,
     w_per_technical_term = 0, w_per_simple_indicator = 0, w_per_code_keyword = 0,
     w_per_math_term = 0, w_per_creative_term = 0, w_per_multi_step_point = 0, w_per_question = 0,
     w_system_format = 0, w_max_output_tokens_per_point = 0\<rparr>"

theorem select_highest_band_witness:
  "heuristic_select \<lparr>he_weights = example_weights, he_threshold = 5, he_above = ''hi'', he_below = ''lo'',
      he_bands = [\<lparr>band_at_least = 40, band_pool = ''top''\<rparr>, \<lparr>band_at_least = 10, band_pool = ''mid''\<rparr>]\<rparr> 25
    = (''mid'', 10) \<and> (10 :: u32) \<le> 25"
proof -
  let ?h = "\<lparr>he_weights = example_weights, he_threshold = 5, he_above = ''hi'', he_below = ''lo'',
      he_bands = [\<lparr>band_at_least = 40, band_pool = ''top''\<rparr>, \<lparr>band_at_least = 10, band_pool = ''mid''\<rparr>]\<rparr>"
  have desc: "bands_descending (he_bands ?h)" by (simp add: bands_descending_def)
  have sel: "heuristic_select ?h 25 = (''mid'', 10)" by (simp add: heuristic_select_def)
  from select_highest_band [OF desc sel] sel show ?thesis by simp
qed

end
