(* ===== verification/Health.thy ===== *)
theory Health
  imports Decision
begin

text \<open>
  Per-upstream failure counting, \<open>crates/router-core/src/health.rs\<close>. An \<open>Instant\<close> is a number
  of milliseconds on a clock the caller reads; \<open>now + cooldown\<close> does not overflow it, as the
  real clock does not within its range.
\<close>

section \<open>Health\<close>

text \<open>\<open>Health\<close> of \<open>route.rs\<close>, with the derived order: the healthier, the smaller.\<close>

datatype health = Healthy | Degraded | OutOfRotation

fun health_code :: "health \<Rightarrow> nat" where
  "health_code Healthy = 0"
| "health_code Degraded = 1"
| "health_code OutOfRotation = 2"

lemma health_code_inject: "health_code a = health_code b \<longleftrightarrow> a = b"
  by (cases a; cases b) simp_all

instantiation health :: linorder
begin

definition less_eq_health :: "health \<Rightarrow> health \<Rightarrow> bool" where
  "a \<le> b \<longleftrightarrow> health_code a \<le> health_code b"

definition less_health :: "health \<Rightarrow> health \<Rightarrow> bool" where
  "a < b \<longleftrightarrow> health_code a < health_code b"

instance
  by standard (auto simp: less_eq_health_def less_health_def health_code_inject)

end

section \<open>Tracker\<close>

record health_policy =
  hp_eject_after :: u32
  hp_cooldown :: nat

definition health_policy_default :: health_policy where
  "health_policy_default = \<lparr>hp_eject_after = 3, hp_cooldown = 30000\<rparr>"

datatype ejection_state = Counting u32 | Ejected nat

type_synonym tracked_key = "upstream_ref \<times> string"

record health_tracker =
  ht_policy :: health_policy
  ht_states :: "(tracked_key, ejection_state) btree"

definition health_key :: "upstream_ref \<Rightarrow> string \<Rightarrow> tracked_key" where
  "health_key u m = (u, m)"

definition health_tracker_new :: "health_policy \<Rightarrow> health_tracker" where
  "health_tracker_new p = \<lparr>ht_policy = p, ht_states = []\<rparr>"

definition counts_toward_ejection :: "error_code \<Rightarrow> bool" where
  "counts_toward_ejection code = (case code of
      Timeout \<Rightarrow> True
    | UpstreamUnavailable \<Rightarrow> True
    | TransportTruncated \<Rightarrow> True
    | ProviderProtocolError \<Rightarrow> True
    | Capacity \<Rightarrow> True
    | _ \<Rightarrow> False)"

definition observe_success :: "health_tracker \<Rightarrow> upstream_ref \<Rightarrow> string \<Rightarrow> health_tracker" where
  "observe_success t u m = t\<lparr>ht_states := bt_remove (health_key u m) (ht_states t)\<rparr>"

text \<open>The counter after a countable failure; \<open>None\<close> where the code returns early.\<close>

definition next_consecutive :: "health_policy \<Rightarrow> ejection_state option \<Rightarrow> nat \<Rightarrow> u32 option" where
  "next_consecutive p st now = (case st of
      Some (Counting consecutive) \<Rightarrow> Some (consecutive + 1)
    | Some (Ejected until) \<Rightarrow> if until \<le> now then Some (hp_eject_after p) else None
    | None \<Rightarrow> Some 1)"

definition observe_failure ::
  "health_tracker \<Rightarrow> upstream_ref \<Rightarrow> string \<Rightarrow> error_code \<Rightarrow> nat \<Rightarrow> bool \<times> health_tracker" where
  "observe_failure t u m code now =
     (if \<not> counts_toward_ejection code then (False, t)
      else let k = health_key u m in
        case next_consecutive (ht_policy t) (bt_get (ht_states t) k) now of
          None \<Rightarrow> (False, t)
        | Some consecutive \<Rightarrow>
            if hp_eject_after (ht_policy t) \<le> consecutive
            then (True, t\<lparr>ht_states :=
              bt_insert k (Ejected (now + hp_cooldown (ht_policy t))) (ht_states t)\<rparr>)
            else (False, t\<lparr>ht_states := bt_insert k (Counting consecutive) (ht_states t)\<rparr>))"

definition health_in :: "ejection_state option \<Rightarrow> nat \<Rightarrow> health" where
  "health_in st now = (case st of
      None \<Rightarrow> Healthy
    | Some (Counting _) \<Rightarrow> Healthy
    | Some (Ejected until) \<Rightarrow> if now < until then OutOfRotation else Degraded)"

definition health_of :: "health_tracker \<Rightarrow> upstream_ref \<Rightarrow> string \<Rightarrow> nat \<Rightarrow> health" where
  "health_of t u m now = health_in (bt_get (ht_states t) (health_key u m)) now"

section \<open>Invariant\<close>

text \<open>
  A counter is positive and below the ejection threshold, so \<open>consecutive + 1\<close> never overflows
  a \<open>u32\<close>.
\<close>

definition state_ok :: "health_policy \<Rightarrow> ejection_state \<Rightarrow> bool" where
  "state_ok p st = (case st of Counting c \<Rightarrow> 0 < c \<and> c < hp_eject_after p | Ejected _ \<Rightarrow> True)"

definition tracker_ok :: "health_tracker \<Rightarrow> bool" where
  "tracker_ok t \<longleftrightarrow> bt_ok (ht_states t)
     \<and> (\<forall>k st. bt_get (ht_states t) k = Some st \<longrightarrow> state_ok (ht_policy t) st)"

definition tracker_state :: "health_tracker \<Rightarrow> tracked_key \<Rightarrow> ejection_state option" where
  "tracker_state t k = bt_get (ht_states t) k"

lemma tracker_okD:
  "tracker_ok t \<Longrightarrow> tracker_state t k = Some st \<Longrightarrow> state_ok (ht_policy t) st"
  by (cases k) (simp add: tracker_ok_def tracker_state_def)

lemma word_succ_less: "c < n \<Longrightarrow> unat (c + 1) = unat c + 1" for c n :: "'a::len word"
  using unat_lt [of n] unat_add_lem [of c 1] by (cases "LENGTH('a)") (auto simp: word_less_nat_alt)

lemma tracker_ok_new: "tracker_ok (health_tracker_new p)"
  by (simp add: tracker_ok_def health_tracker_new_def bt.get_empty)

lemma tracker_ok_success: "tracker_ok t \<Longrightarrow> tracker_ok (observe_success t u m)"
  by (auto simp: tracker_ok_def observe_success_def bt.ok_del bt.get_del)

lemma next_consecutive_pos:
  assumes "tracker_ok t" and "next_consecutive (ht_policy t) (tracker_state t k) now = Some c"
  shows "0 < c \<or> hp_eject_after (ht_policy t) \<le> c"
proof (cases "tracker_state t k")
  case None
  with assms(2) show ?thesis by (simp add: next_consecutive_def word_less_nat_alt)
next
  case (Some st)
  then have ok: "state_ok (ht_policy t) st" using assms(1) by (simp add: tracker_okD)
  show ?thesis
  proof (cases st)
    case (Counting d)
    with ok have "d < hp_eject_after (ht_policy t)" by (simp add: state_ok_def)
    with word_succ_less [OF this] assms(2) Some Counting show ?thesis
      by (auto simp: next_consecutive_def word_less_nat_alt)
  qed (use assms(2) Some in \<open>auto simp: next_consecutive_def split: if_splits\<close>)
qed

lemma observe_failure_fields:
  "ht_policy (snd (observe_failure t u m code now)) = ht_policy t"
  by (auto simp: observe_failure_def Let_def split: option.splits)

lemma observe_failure_state:
  "tracker_state (snd (observe_failure t u m code now)) k =
     (if k = health_key u m \<and> counts_toward_ejection code
      then (case next_consecutive (ht_policy t) (tracker_state t k) now of
          None \<Rightarrow> tracker_state t k
        | Some c \<Rightarrow> if hp_eject_after (ht_policy t) \<le> c
            then Some (Ejected (now + hp_cooldown (ht_policy t))) else Some (Counting c))
      else tracker_state t k)"
  by (auto simp: observe_failure_def tracker_state_def bt.get_put Let_def split: option.splits)

lemma observe_success_state:
  "tracker_state (observe_success t u m) k =
     (if k = health_key u m then None else tracker_state t k)"
  by (simp add: observe_success_def tracker_state_def bt.get_del)

lemma tracker_ok_failure:
  assumes "tracker_ok t"
  shows "tracker_ok (snd (observe_failure t u m code now))"
proof -
  have "bt_ok (ht_states (snd (observe_failure t u m code now)))"
    using assms by (auto simp: observe_failure_def tracker_ok_def bt.ok_put Let_def split: option.splits)
  moreover have "state_ok (ht_policy t) st"
    if "tracker_state (snd (observe_failure t u m code now)) k = Some st" for k st
  proof (cases "tracker_state t k = Some st")
    case True
    with assms show ?thesis by (simp add: tracker_okD)
  next
    case False
    with that next_consecutive_pos [OF assms, of k now] show ?thesis
      by (auto simp: observe_failure_state state_ok_def split: if_splits option.splits)
  qed
  ultimately show ?thesis
    by (simp add: tracker_ok_def tracker_state_def observe_failure_fields)
qed

lemma health_of_state: "health_of t u m now = health_in (tracker_state t (health_key u m)) now"
  by (simp add: health_of_def tracker_state_def)

section \<open>What the router may rely on\<close>

datatype 'k health_event = Succeeded 'k | Failed 'k error_code nat

fun event_key :: "'k health_event \<Rightarrow> 'k" where
  "event_key (Succeeded k) = k"
| "event_key (Failed k _ _) = k"

fun harmless :: "'k health_event \<Rightarrow> bool" where
  "harmless (Succeeded _) = True"
| "harmless (Failed _ code _) = (\<not> counts_toward_ejection code)"

locale health_monitor =
  fixes ok :: "'s \<Rightarrow> bool"
    and step :: "'k health_event \<Rightarrow> 's \<Rightarrow> 's"
    and health :: "'s \<Rightarrow> 'k \<Rightarrow> nat \<Rightarrow> health"
  assumes ok_step: "ok s \<Longrightarrow> ok (step e s)"
    and frame: "event_key e \<noteq> k \<Longrightarrow> health (step e s) k t = health s k t"
    and heals: "health (step (Succeeded k) s) k t = Healthy"
    and uncounted: "\<not> counts_toward_ejection code \<Longrightarrow>
      health (step (Failed j code now) s) k t = health s k t"
    and recovers: "health s k t \<noteq> OutOfRotation \<Longrightarrow> t \<le> t' \<Longrightarrow> health s k t' \<noteq> OutOfRotation"
    and no_extension: "health s k now = OutOfRotation \<Longrightarrow>
      health (step (Failed k code now) s) k t = health s k t"
begin

lemma ok_run: "ok s \<Longrightarrow> ok (fold step es s)"
  by (rule fold_invariant_simple [where P = ok, OF ok_step])

lemma isolated:
  assumes "\<forall>e \<in> set es. event_key e \<noteq> k"
  shows "health (fold step es s) k t = health s k t"
  using assms by (intro fold_observe_same [where ob = "\<lambda>s. health s k t"]) (simp add: frame)

lemma stays_healthy:
  assumes "\<forall>e \<in> set es. event_key e = k \<longrightarrow> harmless e" and "health s k t = Healthy"
  shows "health (fold step es s) k t = Healthy"
  using assms
proof (induction es arbitrary: s)
  case (Cons e es)
  have "health (step e s) k t = Healthy"
  proof (cases "event_key e = k")
    case True
    with Cons.prems show ?thesis by (cases e) (simp_all add: heals uncounted)
  qed (simp add: Cons.prems frame)
  with Cons show ?case by simp
qed simp

lemma out_earlier: "health s k t = OutOfRotation \<Longrightarrow> now \<le> t \<Longrightarrow> health s k now = OutOfRotation"
  using recovers [of s k now t] by blast

lemma cooldown_not_extended:
  assumes "\<forall>e \<in> set es. \<exists>code now. e = Failed k code now \<and> now \<le> limit"
    and "health s k limit = OutOfRotation"
  shows "health (fold step es s) k t = health s k t"
  using assms
proof (induction es arbitrary: s)
  case (Cons e es)
  then obtain code now where e: "e = Failed k code now" and "now \<le> limit" by auto
  then have same: "health (step e s) k t' = health s k t'" for t'
    using Cons.prems no_extension [OF out_earlier] by simp
  with Cons show ?case by simp
qed simp

end

fun tracker_step :: "tracked_key health_event \<Rightarrow> health_tracker \<Rightarrow> health_tracker" where
  "tracker_step (Succeeded k) t = observe_success t (fst k) (snd k)"
| "tracker_step (Failed k code now) t = snd (observe_failure t (fst k) (snd k) code now)"

definition tracker_health :: "health_tracker \<Rightarrow> tracked_key \<Rightarrow> nat \<Rightarrow> health" where
  "tracker_health t k now = health_of t (fst k) (snd k) now"

lemma tracker_health_state: "tracker_health t k now = health_in (tracker_state t k) now"
  by (simp add: tracker_health_def health_of_state health_key_def)

lemma tracker_step_other:
  "event_key e \<noteq> k \<Longrightarrow> tracker_state (tracker_step e t) k = tracker_state t k"
  by (cases e) (auto simp: observe_success_state observe_failure_state health_key_def)

interpretation hmon: health_monitor tracker_ok tracker_step tracker_health
proof unfold_locales
  fix e :: "tracked_key health_event" and s k t t' code now
  show "tracker_ok s \<Longrightarrow> tracker_ok (tracker_step e s)"
    by (cases e) (simp_all add: tracker_ok_success tracker_ok_failure)
  show "event_key e \<noteq> k \<Longrightarrow> tracker_health (tracker_step e s) k t = tracker_health s k t"
    by (simp add: tracker_health_state tracker_step_other)
  show "tracker_health (tracker_step (Succeeded k) s) k t = Healthy"
    by (simp add: tracker_health_state observe_success_state health_key_def health_in_def)
  show "\<not> counts_toward_ejection code \<Longrightarrow>
      tracker_health (tracker_step (Failed j code now) s) k t = tracker_health s k t" for j
    by (simp add: tracker_health_state observe_failure_state)
  show "tracker_health s k t \<noteq> OutOfRotation \<Longrightarrow> t \<le> t' \<Longrightarrow>
      tracker_health s k t' \<noteq> OutOfRotation"
    by (auto simp: tracker_health_state health_in_def split: option.splits ejection_state.splits
        if_splits)
  assume "tracker_health s k now = OutOfRotation"
  then obtain until where "tracker_state s k = Some (Ejected until)" and "now < until"
    by (auto simp: tracker_health_state health_in_def split: option.splits ejection_state.splits
        if_splits)
  then show "tracker_health (tracker_step (Failed k code now) s) k t = tracker_health s k t"
    by (simp add: tracker_health_state observe_failure_state health_key_def next_consecutive_def)
qed

section \<open>Properties\<close>

text \<open>A run of countable failures of one key.\<close>

definition failures :: "tracked_key \<Rightarrow> (error_code \<times> nat) list \<Rightarrow> tracked_key health_event list" where
  "failures k fs = map (\<lambda>(code, now). Failed k code now) fs"

lemma failures_count:
  assumes "\<forall>(code, now) \<in> set fs. counts_toward_ejection code"
    and "tracker_state t k = None" and "fs \<noteq> []"
    and "length fs < unat (hp_eject_after (ht_policy t))"
  shows "tracker_state (fold tracker_step (failures k fs) t) k = Some (Counting (of_nat (length fs)))
    \<and> ht_policy (fold tracker_step (failures k fs) t) = ht_policy t"
  using assms
proof (induction fs rule: rev_induct)
  case (snoc f fs)
  obtain code now where f: "f = (code, now)" by fastforce
  let ?t = "fold tracker_step (failures k fs) t" and ?n = "hp_eject_after (ht_policy t)"
  have pol: "ht_policy ?t = ht_policy t"
    using snoc by (cases "fs = []") (simp_all add: failures_def)
  have nxt: "next_consecutive (ht_policy t) (tracker_state ?t k) now = Some (of_nat (Suc (length fs)))"
    using snoc by (cases "fs = []") (simp_all add: failures_def next_consecutive_def add.commute)
  have "unat (of_nat (Suc (length fs)) :: u32) = Suc (length fs)"
    using snoc.prems(4) unat_lt [of ?n]
    by (simp add: unat_of_nat take_bit_nat_eq_self del: of_nat_Suc)
  then have "\<not> ?n \<le> of_nat (Suc (length fs))"
    using snoc.prems(4) by (simp add: word_le_nat_alt del: of_nat_Suc)
  with snoc.prems nxt pol show ?case
    by (simp add: failures_def f observe_failure_state observe_failure_fields health_key_def
        del: of_nat_Suc)
qed simp

text \<open>
  Ejection happens at exactly the configured number of consecutive countable failures and
  not before: after \<open>eject_after\<close> of them the key is out of rotation until the last one's time
  plus the cooldown and degraded from then on, and after any smaller number it is healthy at
  every time.
\<close>

theorem ejects_at_threshold:
  assumes "\<forall>(code, now) \<in> set fs. counts_toward_ejection code"
    and "counts_toward_ejection code" and "tracker_state t k = None"
    and "Suc (length fs) = unat (hp_eject_after (ht_policy t))"
  shows "tracker_health (fold tracker_step (failures k fs) t) k later = Healthy
    \<and> tracker_health (fold tracker_step (failures k (fs @ [(code, now)])) t) k later =
        (if later < now + hp_cooldown (ht_policy t) then OutOfRotation else Degraded)
    \<and> fst (observe_failure (fold tracker_step (failures k fs) t) (fst k) (snd k) code now)"
proof -
  let ?t = "fold tracker_step (failures k fs) t" and ?n = "hp_eject_after (ht_policy t)"
  have st: "tracker_state ?t k = (if fs = [] then None else Some (Counting (of_nat (length fs))))"
    and pol: "ht_policy ?t = ht_policy t"
    using failures_count [OF assms(1,3)] assms(3,4) by (cases "fs = []"; simp add: failures_def)+
  then have nxt: "next_consecutive (ht_policy t) (tracker_state ?t k) now = Some (of_nat (Suc (length fs)))"
    by (simp add: next_consecutive_def add.commute)
  have "of_nat (Suc (length fs)) = ?n"
    by (simp add: assms(4))
  with nxt pol assms(2) st show ?thesis
    by (auto simp: failures_def tracker_health_state observe_failure_state health_key_def
        health_in_def observe_failure_def Let_def tracker_state_def bt.get_put)
qed

theorem ejects_at_threshold_witness:
  "tracker_health (fold tracker_step (failures (UpstreamRef ''a'', ''m'')
      [(Timeout, 5), (Timeout, 6), (Capacity, 7)]) (health_tracker_new health_policy_default))
     (UpstreamRef ''a'', ''m'') 30006 = OutOfRotation"
proof -
  let ?t = "health_tracker_new health_policy_default"
  have "\<forall>(code, now) \<in> set [(Timeout, 5 :: nat), (Timeout, 6)]. counts_toward_ejection code"
    "counts_toward_ejection Capacity" "tracker_state ?t (UpstreamRef ''a'', ''m'') = None"
    "Suc (length [(Timeout, 5 :: nat), (Timeout, 6)]) = unat (hp_eject_after (ht_policy ?t))"
    by (simp_all add: counts_toward_ejection_def health_tracker_new_def health_policy_default_def
        tracker_state_def bt_get_def)
  from ejects_at_threshold [OF this, of 30006 7] show ?thesis
    by (simp add: health_tracker_new_def health_policy_default_def)
qed

text \<open>
  C37. Health is kept per upstream and model, and only countable failures hurt it: the events of
  other keys never change what the router sees of a key; a success heals it, and it stays
  healthy through any later run of successes and uncounted failures (authentication, rate
  limits, bad requests); failures that arrive while it is ejected do not prolong the ejection; and
  every reachable tracker keeps its counters below the threshold.
\<close>

theorem health_isolation_and_recovery:
  "(\<forall>es k s t. (\<forall>e \<in> set es. event_key e \<noteq> k) \<longrightarrow>
      tracker_health (fold tracker_step es s) k t = tracker_health s k t)
    \<and> (\<forall>es k s t. (\<forall>e \<in> set es. event_key e = k \<longrightarrow> harmless e) \<longrightarrow>
      tracker_health (fold tracker_step (Succeeded k # es) s) k t = Healthy)
    \<and> (\<forall>es k s t limit. (\<forall>e \<in> set es. \<exists>code now. e = Failed k code now \<and> now \<le> limit)
        \<and> tracker_health s k limit = OutOfRotation \<longrightarrow>
      tracker_health (fold tracker_step es s) k t = tracker_health s k t)
    \<and> (\<forall>es p. tracker_ok (fold tracker_step es (health_tracker_new p)))"
  by (intro conjI allI impI)
    (simp_all add: hmon.isolated hmon.stays_healthy hmon.heals hmon.ok_run tracker_ok_new
      del: tracker_step.simps, metis hmon.cooldown_not_extended)

theorem health_isolation_and_recovery_witness:
  "tracker_health (fold tracker_step
      [Succeeded (UpstreamRef ''a'', ''m''), Failed (UpstreamRef ''a'', ''m'') RateLimit 3,
       Failed (UpstreamRef ''a'', ''n'') Timeout 4]
      (health_tracker_new health_policy_default)) (UpstreamRef ''a'', ''m'') 9 = Healthy"
proof -
  have "\<forall>e \<in> set [Failed (UpstreamRef ''a'', ''m'') RateLimit 3, Failed (UpstreamRef ''a'', ''n'') Timeout 4].
      event_key e = (UpstreamRef ''a'', ''m'') \<longrightarrow> harmless e"
    by (simp add: counts_toward_ejection_def)
  with health_isolation_and_recovery show ?thesis by blast
qed

end
