(* ===== verification/Route.thy ===== *)
theory Route
  imports Config Health
begin

text \<open>
  Routing, \<open>crates/router-core/src/route.rs\<close>. Where the code indexes a list or calls \<open>expect\<close>,
  the model returns \<open>Panicked\<close> in the case the code would panic, so that the absence of panics is
  a theorem and not an assumption.
\<close>

section \<open>Computations that may panic\<close>

datatype 'a outcome = Panicked | Completed 'a

fun run_then :: "'a outcome \<Rightarrow> ('a \<Rightarrow> 'b outcome) \<Rightarrow> 'b outcome" where
  "run_then Panicked f = Panicked"
| "run_then (Completed x) f = f x"

lemma run_then_Completed_iff [result_simps]:
  "run_then x f = Completed y \<longleftrightarrow> (\<exists>a. x = Completed a \<and> f a = Completed y)"
  by (cases x) auto

section \<open>Candidates and routers\<close>

definition QUOTA_POOL :: string where "QUOTA_POOL = ''quota''"

record candidate =
  cand_target :: upstream_model
  cand_capability :: model_capability
  cand_health :: health
  cand_local :: bool
  cand_quota :: quota_state

definition candidate_new :: "upstream_model \<Rightarrow> model_capability \<Rightarrow> health \<Rightarrow> candidate" where
  "candidate_new t c h = \<lparr>cand_target = t, cand_capability = c, cand_health = h,
     cand_local = False, cand_quota = quota_state_default\<rparr>"

definition candidate_with_local :: "candidate \<Rightarrow> bool \<Rightarrow> candidate" where
  "candidate_with_local c b = c\<lparr>cand_local := b\<rparr>"

definition candidate_with_quota :: "candidate \<Rightarrow> quota_state \<Rightarrow> candidate" where
  "candidate_with_quota c q = c\<lparr>cand_quota := q\<rparr>"

datatype router = Router (rt_config: router_config)

definition router_new :: "router_config \<Rightarrow> config_error + router" where
  "router_new c = and_then (validate c) (\<lambda>_. Ok (Router c))"

definition router_routing_mode :: "router \<Rightarrow> routing_mode" where
  "router_routing_mode r = rc_routing_mode (rt_config r)"

definition router_quota_config :: "router \<Rightarrow> quota_config" where
  "router_quota_config r = rc_quota (rt_config r)"

section \<open>What a candidate can serve\<close>

definition hard_unmet :: "candidate \<Rightarrow> request_features \<Rightarrow> unmet_requirement option" where
  "hard_unmet c f =
     (let cap = cand_capability c in
      if 0 < rf_tool_count f \<and> \<not> is_supported (tool_state cap) then Some UnmetTools
      else if rf_has_images f \<and> \<not> is_supported (vision_state cap) then Some UnmetVision
      else if rf_requires_json_schema f \<and> \<not> is_supported (json_schema_state cap)
        then Some UnmetJsonSchema
      else None)"

definition effective_window :: "router \<Rightarrow> candidate \<Rightarrow> u32" where
  "effective_window r c =
     (if cap_context_window (cand_capability c) = 0 then rc_assumed_context_window (rt_config r)
      else cap_context_window (cand_capability c))"

definition fits_context :: "router \<Rightarrow> candidate \<Rightarrow> request_features \<Rightarrow> bool" where
  "fits_context r c f \<longleftrightarrow> rf_estimated_input_tokens f \<le> effective_window r c"

definition usable_targets ::
  "router \<Rightarrow> candidate list \<Rightarrow> request_features \<Rightarrow> string \<Rightarrow> bool
    \<Rightarrow> (no_route + upstream_model list) outcome"
where
  "usable_targets r installed f p last_resort =
     (let capable = filter (\<lambda>c. hard_unmet c f = None) installed in
      if capable = [] then
        (case installed of
          [] \<Rightarrow> Panicked
        | c # _ \<Rightarrow> Completed (Err (Unsatisfiable p (unwrap_or (hard_unmet c f) UnmetUnknown))))
      else
        let fitting = filter (\<lambda>c. fits_context r c f) capable;
            over_context = (fitting = []);
            preferred = (if over_context then capable else fitting);
            in_rotation = filter (\<lambda>c. cand_health c \<noteq> OutOfRotation) preferred
        in if in_rotation = [] \<and> \<not> last_resort then Completed (Err (Unavailable p))
           else
             let usable = (if in_rotation = [] then preferred else in_rotation);
                 ordered = (if over_context
                   then sort_key (\<lambda>c. (cand_health c, Reverse (effective_window r c))) usable
                   else sort_key cand_health usable)
             in Completed (Ok (map cand_target ordered)))"

text \<open>The first candidate of each member of a pool; a member without one is not installed.\<close>

definition installed_of :: "upstream_model list \<Rightarrow> candidate list \<Rightarrow> candidate list" where
  "installed_of members cands =
     List.map_filter (\<lambda>m. find (\<lambda>c. cand_target c = m) cands) members"

definition rank ::
  "router \<Rightarrow> upstream_model list \<Rightarrow> candidate list \<Rightarrow> request_features \<Rightarrow> string
    \<Rightarrow> (no_route + upstream_model list) outcome"
where
  "rank r members cands f p =
     (let installed = installed_of members cands;
          full = usable_targets r installed f p True
      in if installed = [] then Completed (Err (Unsatisfiable p UnmetUnknown))
         else if rc_local_only (rt_config r) then
           (let local = filter cand_local installed in
            if local = [] then
              (if \<not> rc_allow_cloud_fallback (rt_config r)
               then Completed (Err (Unsatisfiable p UnmetLocalOnly)) else full)
            else run_then (usable_targets r local f p False) (\<lambda>res. case res of
                Ok targets \<Rightarrow> Completed (Ok targets)
              | Err e \<Rightarrow> if \<not> rc_allow_cloud_fallback (rt_config r) then Completed (Err e) else full))
         else full)"

section \<open>Choosing a pool\<close>

fun select_rule :: "unicode \<Rightarrow> chat_request \<Rightarrow> request_features \<Rightarrow> rule list \<Rightarrow> (string \<times> decided_by) option"
where
  "select_rule u req f [] = None"
| "select_rule u req f (r # rs) =
     (if match_matches u (rule_matcher r) f req then Some (rule_route_to r, DbRule (rule_id r))
      else select_rule u req f rs)"

fun select_hint :: "agent_hint list \<Rightarrow> hint_route list \<Rightarrow> (string \<times> decided_by) option" where
  "select_hint hints [] = None"
| "select_hint hints (h # hs) =
     (if list_ex (\<lambda>hint. hint_kind hint = hr_kind h \<and> hint_value hint = hr_value h) hints
      then Some (hr_route_to h, DbHint (hr_kind h) (hr_value h)) else select_hint hints hs)"

definition select_pool ::
  "unicode \<Rightarrow> router \<Rightarrow> chat_request \<Rightarrow> agent_hint list \<Rightarrow> request_features \<Rightarrow> string \<times> decided_by"
where
  "select_pool u r req hints f =
     (case select_rule u req f (rc_rules (rt_config r)) of
        Some hit \<Rightarrow> hit
      | None \<Rightarrow> (case select_hint hints (rc_hint_routes (rt_config r)) of
          Some hit \<Rightarrow> hit
        | None \<Rightarrow> (case rc_heuristic (rt_config r) of
            Some h \<Rightarrow> (let score = heuristic_score h f; (p, threshold) = heuristic_select h score
              in (p, DbHeuristic score threshold))
          | None \<Rightarrow> (rc_default_pool (rt_config r), DbDefault))))"

section \<open>Routing\<close>

text \<open>\<open>split_first().expect(..)\<close> and the decision built from it.\<close>

definition decide :: "upstream_model list \<Rightarrow> decided_by \<Rightarrow> request_features \<Rightarrow> string
    \<Rightarrow> (no_route + decision) outcome" where
  "decide targets by f p = (case targets of
      [] \<Rightarrow> Panicked
    | chosen # fallbacks \<Rightarrow> Completed (Ok \<lparr>dec_chosen = chosen, dec_decided_by = by,
        dec_fallbacks = fallbacks, dec_features = f, dec_pool = p\<rparr>))"

definition push_new :: "upstream_model list \<Rightarrow> upstream_model list \<Rightarrow> upstream_model list" where
  "push_new ranked targets = fold (\<lambda>t ts. if t \<in> set ts then ts else ts @ [t]) ranked targets"

fun extend_with_backups ::
  "router \<Rightarrow> upstream_model list \<Rightarrow> string list \<Rightarrow> string \<Rightarrow> candidate list \<Rightarrow> request_features
    \<Rightarrow> upstream_model list outcome"
where
  "extend_with_backups r targets [] selected cands f = Completed targets"
| "extend_with_backups r targets (backup # pools) selected cands f =
     (if backup = selected then extend_with_backups r targets pools selected cands f
      else (case bt_get (rc_pools (rt_config r)) backup of
          None \<Rightarrow> extend_with_backups r targets pools selected cands f
        | Some members \<Rightarrow> run_then (rank r members cands f backup) (\<lambda>res. case res of
            Ok ranked \<Rightarrow> extend_with_backups r (push_new ranked targets) pools selected cands f
          | Err _ \<Rightarrow> extend_with_backups r targets pools selected cands f)))"

definition route_exact ::
  "router \<Rightarrow> chat_request \<Rightarrow> request_features \<Rightarrow> candidate list \<Rightarrow> (no_route + decision) outcome"
where
  "route_exact r req f cands =
     (let named = filter (\<lambda>c. um_model (cand_target c) = req_model req) cands in
      case named of
        [] \<Rightarrow> Completed (Err (Unsatisfiable (req_model req) UnmetExactModelUnavailable))
      | first # _ \<Rightarrow>
          let capable = filter (\<lambda>c. hard_unmet c f = None) named in
          if capable = [] then Completed (Err (Unsatisfiable (req_model req)
              (unwrap_or (hard_unmet first f) UnmetUnknown)))
          else
            let usable = filter (\<lambda>c. cand_health c \<noteq> OutOfRotation) capable in
            if usable = [] then Completed (Err (Unavailable (req_model req)))
            else decide (map cand_target (sort_key cand_health usable))
              (DbExactModel (req_model req)) f (req_model req))"

definition route ::
  "unicode \<Rightarrow> router \<Rightarrow> chat_request \<Rightarrow> agent_hint list \<Rightarrow> candidate list
    \<Rightarrow> (no_route + decision) outcome"
where
  "route u r req hints cands =
     (let f = extract_features u req hints in
      if rc_honor_exact_model (rt_config r) then route_exact r req f cands
      else case select_pool u r req hints f of (p, by) \<Rightarrow>
        (case bt_get (rc_pools (rt_config r)) p of
          None \<Rightarrow> Panicked
        | Some members \<Rightarrow> run_then (rank r members cands f p) (\<lambda>res. case res of
            Err e \<Rightarrow> Completed (Err e)
          | Ok targets \<Rightarrow> run_then
              (case rc_recovery (rt_config r) of
                 Strict \<Rightarrow> Completed targets
               | Ordered pools \<Rightarrow> extend_with_backups r targets pools p cands f)
              (\<lambda>targets. decide targets by f p))))"

text \<open>The ranked accounts: position in the operator's order, health and quota applied.\<close>

definition quota_ranked ::
  "router \<Rightarrow> candidate list \<Rightarrow> upstream_model option \<Rightarrow> (candidate \<times> quota_place) list"
where
  "quota_ranked r capable last_used = List.map_filter
     (\<lambda>(index, c). map_option (Pair c)
        (quota_rank (cand_quota c) (last_used = Some (cand_target c)) (try_from_or index u_max)
          (qc_weights (rc_quota (rt_config r))) (qc_reset_tie_band_ms (rc_quota (rt_config r)))))
     (filter (\<lambda>(index, c). cand_health c \<noteq> OutOfRotation) (enumerate 0 capable))"

definition route_quota_first ::
  "unicode \<Rightarrow> router \<Rightarrow> chat_request \<Rightarrow> candidate list \<Rightarrow> upstream_model option
    \<Rightarrow> (no_route + decision) outcome"
where
  "route_quota_first u r req cands last_used =
     (let f = extract_features u req [] in
      if rc_quota_accounts (rt_config r) = [] then Completed (Err (Unavailable QUOTA_POOL))
      else
        let pool = installed_of (rc_quota_accounts (rt_config r)) cands;
            capable = filter (\<lambda>c. hard_unmet c f = None) pool
        in if capable = [] then Completed (Err (Unsatisfiable QUOTA_POOL
             (unwrap_or (case pool of [] \<Rightarrow> None | c # _ \<Rightarrow> hard_unmet c f) UnmetUnknown)))
           else
             let ranked = quota_ranked r capable last_used in
             if ranked = [] then Completed (Err (Unavailable QUOTA_POOL))
             else decide
               (map (\<lambda>(c, _). cand_target c) (sort_key (\<lambda>(_, rk). Reverse rk) ranked))
               DbQuota f QUOTA_POOL)"

section \<open>Selecting among installed candidates\<close>

lemma set_installed_of:
  "set (installed_of members cands) \<subseteq> {c \<in> set cands. cand_target c \<in> set members}"
  by (induction members)
    (auto simp: installed_of_def List.map_filter_simps find_Some_iff split: option.splits)

lemma installed_of_eq_Nil_iff:
  "installed_of members cands = [] \<longleftrightarrow> (\<forall>c \<in> set cands. cand_target c \<notin> set members)"
  by (induction members)
    (auto simp: installed_of_def List.map_filter_simps find_Some_iff find_None_iff split: option.splits)

definition capable_of :: "candidate list \<Rightarrow> request_features \<Rightarrow> candidate list" where
  "capable_of cs f = filter (\<lambda>c. hard_unmet c f = None) cs"

definition preferred_of :: "router \<Rightarrow> candidate list \<Rightarrow> request_features \<Rightarrow> candidate list" where
  "preferred_of r cs f =
     (let capable = capable_of cs f; fitting = filter (\<lambda>c. fits_context r c f) capable
      in if fitting = [] then capable else fitting)"

lemma preferred_of_Nil_iff: "preferred_of r cs f = [] \<longleftrightarrow> capable_of cs f = []"
  by (auto simp: preferred_of_def Let_def)

lemma set_preferred_of: "set (preferred_of r cs f) \<subseteq> {c \<in> set cs. hard_unmet c f = None}"
  by (auto simp: preferred_of_def capable_of_def Let_def)

text \<open>The preferred candidates in rotation, or all of them when none is.\<close>

definition rotation_of :: "router \<Rightarrow> candidate list \<Rightarrow> request_features \<Rightarrow> candidate list" where
  "rotation_of r cs f =
     (let rot = filter (\<lambda>c. cand_health c \<noteq> OutOfRotation) (preferred_of r cs f)
      in if rot = [] then preferred_of r cs f else rot)"

lemma sort_key_Nil_iff [simp]: "sort_key k xs = [] \<longleftrightarrow> xs = []"
  by (metis length_0_conv length_sort)

lemma sorted_map_fst: "sorted xs \<Longrightarrow> sorted (map fst xs)"
  by (induction xs) (auto simp: less_eq_prod_def)

definition ordered_of :: "router \<Rightarrow> candidate list \<Rightarrow> request_features \<Rightarrow> candidate list" where
  "ordered_of r cs f =
     (if filter (\<lambda>c. fits_context r c f) (capable_of cs f) = []
      then sort_key (\<lambda>c. (cand_health c, Reverse (effective_window r c))) (rotation_of r cs f)
      else sort_key cand_health (rotation_of r cs f))"

lemma set_ordered_of: "set (ordered_of r cs f) = set (rotation_of r cs f)"
  by (simp add: ordered_of_def)

lemma sorted_ordered_of: "sorted (map cand_health (ordered_of r cs f))"
proof -
  let ?key = "\<lambda>c. (cand_health c, Reverse (effective_window r c))"
  have "sorted (map fst (map ?key (sort_key ?key (rotation_of r cs f))))"
    by (rule sorted_map_fst [OF sorted_sort_key])
  then show ?thesis by (simp add: ordered_of_def comp_def)
qed

lemma usable_targets_cases:
  assumes "installed \<noteq> []"
  obtains
    (unsatisfiable) c where "capable_of installed f = []" "c \<in> set installed"
      "usable_targets r installed f p lr =
         Completed (Err (Unsatisfiable p (unwrap_or (hard_unmet c f) UnmetUnknown)))"
  | (unavailable) "capable_of installed f \<noteq> []" "\<not> lr"
      "\<forall>c \<in> set (preferred_of r installed f). cand_health c = OutOfRotation"
      "usable_targets r installed f p lr = Completed (Err (Unavailable p))"
  | (usable) chosen where "capable_of installed f \<noteq> []" "chosen \<noteq> []"
      "set chosen = set (rotation_of r installed f)" "sorted (map cand_health chosen)"
      "\<exists>c \<in> set (capable_of installed f). fits_context r c f \<Longrightarrow>
         chosen = sort_key cand_health (rotation_of r installed f)"
      "usable_targets r installed f p lr = Completed (Ok (map cand_target chosen))"
proof (cases "capable_of installed f = []")
  case True
  with assms show ?thesis
    by (intro unsatisfiable [of "hd installed"])
      (auto simp: usable_targets_def capable_of_def Let_def split: list.split)
next
  case False
  let ?rot = "filter (\<lambda>c. cand_health c \<noteq> OutOfRotation) (preferred_of r installed f)"
  have eq: "usable_targets r installed f p lr =
      (if ?rot = [] \<and> \<not> lr then Completed (Err (Unavailable p))
       else Completed (Ok (map cand_target (ordered_of r installed f))))"
    using False
    by (simp add: usable_targets_def capable_of_def [symmetric] preferred_of_def rotation_of_def
        ordered_of_def Let_def)
  show ?thesis
  proof (cases "?rot = [] \<and> \<not> lr")
    case True
    with False eq show ?thesis by (intro unavailable) (auto simp: filter_empty_conv)
  next
    case nf: False
    have "rotation_of r installed f \<noteq> []"
      using False preferred_of_Nil_iff [of r installed f] by (simp add: rotation_of_def Let_def)
    then have ne: "ordered_of r installed f \<noteq> []"
      using set_ordered_of [of r installed f] by auto
    have fit: "ordered_of r installed f = sort_key cand_health (rotation_of r installed f)"
      if "\<exists>c \<in> set (capable_of installed f). fits_context r c f"
      using that by (auto simp: filter_empty_conv ordered_of_def)
    show ?thesis
      using eq nf by (intro usable [OF False ne set_ordered_of sorted_ordered_of fit]) simp_all
  qed
qed

lemma set_rotation_of: "set (rotation_of r cs f) \<subseteq> {c \<in> set cs. hard_unmet c f = None}"
  using set_preferred_of [of r cs f] by (auto simp: rotation_of_def Let_def split: if_splits)

lemma usable_targets_completes:
  assumes "installed \<noteq> []"
  shows "\<exists>res. usable_targets r installed f p lr = Completed res"
  by (rule usable_targets_cases [OF assms, of f r p lr]) auto

text \<open>Every target is an installed candidate that clears the hard gates.\<close>

lemma usable_targets_sound:
  assumes "usable_targets r installed f p lr = Completed (Ok ts)" and "t \<in> set ts"
  shows "\<exists>c \<in> set installed. cand_target c = t \<and> hard_unmet c f = None"
proof -
  have "installed \<noteq> []" using assms(1) by (auto simp: usable_targets_def Let_def)
  then show ?thesis
    by (rule usable_targets_cases [of installed f r p lr])
      (use assms set_rotation_of [of r installed f] in auto)
qed

lemma usable_targets_nonempty:
  assumes "usable_targets r installed f p lr = Completed (Ok ts)"
  shows "ts \<noteq> []"
proof -
  have "installed \<noteq> []" using assms by (auto simp: usable_targets_def Let_def)
  then show ?thesis
    by (rule usable_targets_cases [of installed f r p lr]) (use assms in auto)
qed

text \<open>With the last resort, only the hard gates can refuse.\<close>

lemma usable_targets_last_resort:
  assumes "installed \<noteq> []"
  shows "(\<exists>ts. usable_targets r installed f p True = Completed (Ok ts)) \<longleftrightarrow>
      (\<exists>c \<in> set installed. hard_unmet c f = None)"
    and "usable_targets r installed f p True \<noteq> Completed (Err (Unavailable q))"
  by (rule usable_targets_cases [OF assms, of f r p True],
      auto simp: capable_of_def filter_empty_conv)+

section \<open>Ranking a pool\<close>

lemma rank_completes: "\<exists>res. rank r members cands f p = Completed res"
proof (cases "installed_of members cands = []")
  case True
  then show ?thesis by (simp add: rank_def Let_def)
next
  case False
  let ?local = "filter cand_local (installed_of members cands)"
  from usable_targets_completes [OF False, of r f p True] obtain full where
    full: "usable_targets r (installed_of members cands) f p True = Completed full" ..
  show ?thesis
  proof (cases "?local = []")
    case True
    with full False show ?thesis by (simp add: rank_def Let_def)
  next
    case local: False
    from usable_targets_completes [OF local, of r f p False] obtain res where
      "usable_targets r ?local f p False = Completed res" ..
    with full False local show ?thesis
      by (cases res) (simp_all add: rank_def Let_def)
  qed
qed

text \<open>A successful ranking is a selection over the installed candidates or over the local ones.\<close>

lemma rank_Ok_cases:
  assumes "rank r members cands f p = Completed (Ok ts)"
  obtains
    (full) "usable_targets r (installed_of members cands) f p True = Completed (Ok ts)"
      "rc_local_only (rt_config r) \<Longrightarrow> rc_allow_cloud_fallback (rt_config r)"
  | (local) "usable_targets r (filter cand_local (installed_of members cands)) f p False
        = Completed (Ok ts)"
      "rc_local_only (rt_config r)"
proof (cases "rc_local_only (rt_config r) \<and> filter cand_local (installed_of members cands) \<noteq> []")
  case True
  then have ne: "installed_of members cands \<noteq> []" by auto
  from True obtain res where
    res: "usable_targets r (filter cand_local (installed_of members cands)) f p False = Completed res"
    using usable_targets_completes by blast
  from True ne res assms full local show ?thesis
    by (cases res) (auto simp: rank_def Let_def split: if_splits)
next
  case False
  with assms full show ?thesis by (auto simp: rank_def Let_def split: if_splits)
qed

lemma rank_sound:
  assumes "rank r members cands f p = Completed (Ok ts)" and "t \<in> set ts"
  shows "t \<in> set members \<and> (\<exists>c \<in> set cands. cand_target c = t \<and> hard_unmet c f = None
      \<and> (rc_local_only (rt_config r) \<and> \<not> rc_allow_cloud_fallback (rt_config r) \<longrightarrow> cand_local c))"
  using assms(1)
proof (cases rule: rank_Ok_cases)
  case full
  with usable_targets_sound [OF full(1) assms(2)] set_installed_of [of members cands]
  show ?thesis by blast
next
  case local
  with usable_targets_sound [OF local(1) assms(2)] set_installed_of [of members cands]
  show ?thesis by auto
qed

lemma rank_nonempty: "rank r members cands f p = Completed (Ok ts) \<Longrightarrow> ts \<noteq> []"
  by (erule rank_Ok_cases) (auto dest: usable_targets_nonempty)

text \<open>Without \<open>local_only\<close> the hard gates decide alone whether a pool can serve.\<close>

lemma rank_open:
  assumes "\<not> rc_local_only (rt_config r)"
  shows "(\<exists>ts. rank r members cands f p = Completed (Ok ts)) \<longleftrightarrow>
      (\<exists>c \<in> set (installed_of members cands). hard_unmet c f = None)"
    and "rank r members cands f p \<noteq> Completed (Err (Unavailable q))"
  using assms usable_targets_last_resort [of "installed_of members cands" r f p]
  by (auto simp: rank_def Let_def)

lemma rank_open_Err:
  assumes "\<not> rc_local_only (rt_config r)" and "rank r members cands f p = Completed (Err e)"
  shows "\<exists>why. e = Unsatisfiable p why"
proof (cases "installed_of members cands = []")
  case False
  with assms have "usable_targets r (installed_of members cands) f p True = Completed (Err e)"
    by (simp add: rank_def Let_def)
  then show ?thesis
    by (cases rule: usable_targets_cases [OF False, of f r p True]) auto
qed (use assms in \<open>auto simp: rank_def Let_def\<close>)

section \<open>Backups\<close>

lemma push_new_Nil [simp]: "push_new [] ts = ts"
  by (simp add: push_new_def)

lemma push_new_Cons:
  "push_new (t # ranked) ts = (if t \<in> set ts then push_new ranked ts else push_new ranked (ts @ [t]))"
  by (simp add: push_new_def)

lemma push_new_append:
  "\<exists>more. push_new ranked ts = ts @ more \<and> distinct more \<and> set more = set ranked - set ts"
proof (induction ranked arbitrary: ts)
  case (Cons t ranked)
  show ?case
  proof (cases "t \<in> set ts")
    case True
    with Cons.IH [of ts] show ?thesis by (simp add: push_new_Cons insert_Diff_if)
  next
    case False
    obtain more where more: "push_new ranked (ts @ [t]) = (ts @ [t]) @ more" "distinct more"
      "set more = set ranked - set (ts @ [t])"
      using Cons.IH by blast
    from False more have "push_new (t # ranked) ts = ts @ (t # more)" "distinct (t # more)"
      "set (t # more) = set (t # ranked) - set ts"
      by (auto simp: push_new_Cons)
    then show ?thesis by blast
  qed
qed simp

text \<open>A target a route may use as a backup, and why.\<close>

definition backup_target ::
  "router \<Rightarrow> string list \<Rightarrow> string \<Rightarrow> candidate list \<Rightarrow> request_features \<Rightarrow> upstream_model \<Rightarrow> bool"
where
  "backup_target r pools selected cands f t \<longleftrightarrow>
     (\<exists>b \<in> set pools. b \<noteq> selected \<and> (\<exists>members ranked.
        bt_get (rc_pools (rt_config r)) b = Some members
        \<and> rank r members cands f b = Completed (Ok ranked) \<and> t \<in> set ranked))"

lemma backup_target_Cons:
  "backup_target r pools selected cands f t \<Longrightarrow> backup_target r (b # pools) selected cands f t"
  by (auto simp: backup_target_def)

text \<open>One round of the loop: the new targets of one pool, then the rest.\<close>

lemma extend_with_backups_step:
  "\<exists>new. extend_with_backups r targets (b # pools) selected cands f
        = extend_with_backups r (targets @ new) pools selected cands f
     \<and> distinct new \<and> set new \<inter> set targets = {}
     \<and> (\<forall>t \<in> set new. backup_target r (b # pools) selected cands f t)"
proof -
  obtain res where res: "rank r members cands f b = Completed (res members)" for members
    using rank_completes [of r _ cands f b] by metis
  consider (skip) "extend_with_backups r targets (b # pools) selected cands f
        = extend_with_backups r targets pools selected cands f"
    | (more) members ranked where "b \<noteq> selected"
        "bt_get (rc_pools (rt_config r)) b = Some members" "res members = Ok ranked"
    by (cases "b = selected"; cases "bt_get (rc_pools (rt_config r)) b";
        cases "res (the (bt_get (rc_pools (rt_config r)) b))") (auto simp: res)
  then show ?thesis
  proof cases
    case skip
    then show ?thesis by (intro exI [of _ "[]"]) simp
  next
    case more
    obtain new where new: "push_new ranked targets = targets @ new" "distinct new"
      "set new = set ranked - set targets"
      using push_new_append by blast
    have "backup_target r (b # pools) selected cands f t" if "t \<in> set new" for t
      unfolding backup_target_def using more res [of members] that new(3)
      by (intro bexI [of _ b]) auto
    with more new show ?thesis by (intro exI [of _ new]) (auto simp: res)
  qed
qed

lemma extend_with_backups_spec:
  "\<exists>more. extend_with_backups r targets pools selected cands f = Completed (targets @ more)
     \<and> distinct more \<and> set more \<inter> set targets = {}
     \<and> (\<forall>t \<in> set more. backup_target r pools selected cands f t)"
proof (induction pools arbitrary: targets)
  case (Cons b pools)
  obtain new where new: "extend_with_backups r targets (b # pools) selected cands f
        = extend_with_backups r (targets @ new) pools selected cands f"
    "distinct new" "set new \<inter> set targets = {}"
    "\<forall>t \<in> set new. backup_target r (b # pools) selected cands f t"
    using extend_with_backups_step by blast
  obtain more where more: "extend_with_backups r (targets @ new) pools selected cands f
        = Completed ((targets @ new) @ more)"
    "distinct more" "set more \<inter> set (targets @ new) = {}"
    "\<forall>t \<in> set more. backup_target r pools selected cands f t"
    using Cons.IH by blast
  from new(1) more(1) have
    "extend_with_backups r targets (b # pools) selected cands f = Completed (targets @ (new @ more))"
    by simp
  moreover have "distinct (new @ more) \<and> set (new @ more) \<inter> set targets = {}"
    using new more by auto
  moreover have "\<forall>t \<in> set (new @ more). backup_target r (b # pools) selected cands f t"
    using new(4) more(4) backup_target_Cons by auto
  ultimately show ?case by blast
qed simp

section \<open>Decisions\<close>

lemma decide_Ok_iff [result_simps]:
  "decide ts by f p = Completed (Ok d) \<longleftrightarrow>
     ts = targets_of d \<and> dec_decided_by d = by \<and> dec_features d = f \<and> dec_pool d = p"
  by (cases ts) (auto simp: decide_def targets_of_def)

lemma decide_completes: "ts \<noteq> [] \<Longrightarrow> \<exists>d. decide ts by f p = Completed (Ok d)"
  by (cases ts) (auto simp: decide_def)

abbreviation recovery_pools :: "router \<Rightarrow> string list" where
  "recovery_pools r \<equiv> (case rc_recovery (rt_config r) of Strict \<Rightarrow> [] | Ordered ps \<Rightarrow> ps)"

lemma route_tiered_eq:
  assumes "\<not> rc_honor_exact_model (rt_config r)" and "f = extract_features u req hints"
    and "select_pool u r req hints f = (p, by)"
    and "bt_get (rc_pools (rt_config r)) p = Some members"
  shows "route u r req hints cands =
      run_then (rank r members cands f p) (\<lambda>res. case res of
          Err e \<Rightarrow> Completed (Err e)
        | Ok targets \<Rightarrow> run_then (extend_with_backups r targets (recovery_pools r) p cands f)
            (\<lambda>targets. decide targets by f p))"
  using assms by (auto simp: route_def Let_def split: recovery_policy.split intro!: arg_cong2 [where f = run_then] ext split: sum.split)

lemma route_tiered_Ok:
  assumes "route u r req hints cands = Completed (Ok d)" and "\<not> rc_honor_exact_model (rt_config r)"
  obtains members ranked more where
    "select_pool u r req hints (extract_features u req hints) = (dec_pool d, dec_decided_by d)"
    "dec_features d = extract_features u req hints"
    "bt_get (rc_pools (rt_config r)) (dec_pool d) = Some members"
    "rank r members cands (dec_features d) (dec_pool d) = Completed (Ok ranked)"
    "targets_of d = ranked @ more" "ranked \<noteq> []" "distinct more" "set more \<inter> set ranked = {}"
    "\<forall>t \<in> set more. backup_target r (recovery_pools r) (dec_pool d) cands (dec_features d) t"
proof -
  define f where "f = extract_features u req hints"
  obtain p why where sel: "select_pool u r req hints f = (p, why)" by fastforce
  obtain members where mem: "bt_get (rc_pools (rt_config r)) p = Some members"
    using assms sel by (cases "bt_get (rc_pools (rt_config r)) p") (auto simp: route_def f_def Let_def)
  note eq = route_tiered_eq [OF assms(2) f_def sel mem, of cands]
  obtain res where "rank r members cands f p = Completed res" using rank_completes by blast
  with assms(1) eq obtain ranked where rank: "rank r members cands f p = Completed (Ok ranked)"
    by (cases res) auto
  obtain more where more:
    "extend_with_backups r ranked (recovery_pools r) p cands f = Completed (ranked @ more)"
    "distinct more" "set more \<inter> set ranked = {}"
    "\<forall>t \<in> set more. backup_target r (recovery_pools r) p cands f t"
    using extend_with_backups_spec [of r ranked "recovery_pools r" p cands f] by blast
  from assms(1) eq rank more(1) have
    d: "targets_of d = ranked @ more" "dec_decided_by d = why" "dec_features d = f" "dec_pool d = p"
    by (auto simp: decide_Ok_iff)
  from rank_nonempty [OF rank] show ?thesis
    using that [of members ranked more] sel mem rank more d by (simp add: f_def [symmetric])
qed

section \<open>Pools a validated configuration can select\<close>

lemma router_new_Ok_iff [result_simps]: "router_new c = Ok r \<longleftrightarrow> r = Router c \<and> config_ok c"
  by (auto simp: router_new_def result_simps)

lemma known_pool_get: "known_pool c p \<longleftrightarrow> (\<exists>members. bt_get (rc_pools c) p = Some members)"
  using bt_contains_iff [of "rc_pools c" p] by (auto simp: known_pool_def bt_contains_def)

text \<open>The loop over the rules is a search for the first one that matches.\<close>

lemma select_rule_find:
  "select_rule u req f rs = map_option (\<lambda>rl. (rule_route_to rl, DbRule (rule_id rl)))
     (find (\<lambda>rl. match_matches u (rule_matcher rl) f req) rs)"
  by (induction rs) auto

lemma find_SomeD: "find P xs = Some x \<Longrightarrow> x \<in> set xs \<and> P x"
  by (induction xs) (auto split: if_splits)

definition hint_given :: "agent_hint list \<Rightarrow> hint_route \<Rightarrow> bool" where
  "hint_given hints h \<longleftrightarrow>
     (\<exists>hint \<in> set hints. hint_kind hint = hr_kind h \<and> hint_value hint = hr_value h)"

lemma select_hint_find:
  "select_hint hints hs = map_option (\<lambda>h. (hr_route_to h, DbHint (hr_kind h) (hr_value h)))
     (find (hint_given hints) hs)"
  by (induction hs) (auto simp: hint_given_def list_ex_iff)

lemma select_pool_known:
  assumes "tiered_ok (rt_config r)"
  shows "known_pool (rt_config r) (fst (select_pool u r req hints f))"
proof (cases "find (\<lambda>rl. match_matches u (rule_matcher rl) f req) (rc_rules (rt_config r))")
  case (Some rl)
  with find_SomeD [OF Some] assms show ?thesis
    by (simp add: select_pool_def select_rule_find tiered_ok_def rules_ok_def)
next
  case no_rule: None
  show ?thesis
  proof (cases "find (hint_given hints) (rc_hint_routes (rt_config r))")
    case (Some h)
    with find_SomeD [OF Some] assms no_rule show ?thesis
      by (simp add: select_pool_def select_rule_find select_hint_find tiered_ok_def hint_routes_ok_def)
  next
    case no_hint: None
    show ?thesis
    proof (cases "rc_heuristic (rt_config r)")
      case None
      with assms no_rule no_hint show ?thesis
        by (simp add: select_pool_def select_rule_find select_hint_find tiered_ok_def)
    next
      case (Some h)
      with assms have "heuristic_ok (rt_config r) h" by (simp add: tiered_ok_def)
      with heuristic_select_pool [of h "heuristic_score h f"] no_rule no_hint Some show ?thesis
        by (auto simp: select_pool_def select_rule_find select_hint_find heuristic_ok_def Let_def
            split: prod.split)
    qed
  qed
qed

section \<open>Panics\<close>

lemma route_exact_completes: "route_exact r req f cands \<noteq> Panicked"
proof -
  have "decide (map cand_target (sort_key cand_health xs)) why f p \<noteq> Panicked"
    if "xs \<noteq> []" for xs :: "candidate list" and why p
    using that decide_completes [of "map cand_target (sort_key cand_health xs)" why f p]
    by (metis length_0_conv length_map length_sort outcome.distinct(1))
  then show ?thesis by (auto simp: route_exact_def Let_def split: list.split)
qed

lemma route_quota_first_completes: "route_quota_first u r req cands last_used \<noteq> Panicked"
proof -
  have "decide (map (\<lambda>(c, _). cand_target c) (sort_key (\<lambda>(_, rk). Reverse rk) xs)) why f p \<noteq> Panicked"
    if "xs \<noteq> []" for xs :: "(candidate \<times> quota_place) list" and why f p
    using that decide_completes
      [of "map (\<lambda>(c, _). cand_target c) (sort_key (\<lambda>(_, rk). Reverse rk) xs)" why f p]
    by (metis length_0_conv length_map length_sort outcome.distinct(1))
  then show ?thesis by (auto simp: route_quota_first_def Let_def split: list.split)
qed

lemma route_tiered_completes:
  assumes "tiered_ok (rt_config r)"
  shows "route u r req hints cands \<noteq> Panicked"
proof (cases "rc_honor_exact_model (rt_config r)")
  case True
  then show ?thesis by (simp add: route_def Let_def route_exact_completes)
next
  case False
  define f where "f = extract_features u req hints"
  obtain p why where sel: "select_pool u r req hints f = (p, why)" by fastforce
  with select_pool_known [OF assms, of u req hints f] obtain members where
    mem: "bt_get (rc_pools (rt_config r)) p = Some members"
    by (auto simp: known_pool_get)
  note eq = route_tiered_eq [OF False f_def sel mem, of cands]
  obtain res where res: "rank r members cands f p = Completed res" using rank_completes by blast
  show ?thesis
  proof (cases res)
    case (Inl e)
    with eq res show ?thesis by simp
  next
    case (Inr ranked)
    with res have "ranked \<noteq> []" using rank_nonempty by blast
    moreover obtain more where
      "extend_with_backups r ranked (recovery_pools r) p cands f = Completed (ranked @ more)"
      using extend_with_backups_spec by blast
    ultimately show ?thesis
      using eq res Inr decide_completes [of "ranked @ more" why f p] by auto
  qed
qed

end
