(* ===== verification/Routing_Properties.thy ===== *)
theory Routing_Properties
  imports Route
begin

text \<open>
  What routing guarantees: no panic, capability soundness, tier confinement, layer precedence,
  health order, locality, and the two alternative modes. The worked example at the start is the
  configuration the concrete instances are taken from.
\<close>

section \<open>A worked example\<close>

definition example_target :: "string \<Rightarrow> string \<Rightarrow> upstream_model" where
  "example_target u m = \<lparr>um_upstream = UpstreamRef u, um_model = m\<rparr>"

definition example_config :: router_config where
  "example_config = \<lparr>rc_version = 1,
     rc_pools = [(''fast'', [example_target ''a'' ''m1'', example_target ''b'' ''m1'']),
                 (''strong'', [example_target ''c'' ''m2''])],
     rc_rules = [], rc_hint_routes = [], rc_heuristic = None, rc_default_pool = ''fast'',
     rc_assumed_context_window = 8192, rc_honor_exact_model = False,
     rc_recovery = Ordered [''strong''], rc_local_only = False, rc_allow_cloud_fallback = False,
     rc_routing_mode = Tiered, rc_quota = quota_config_default,
     rc_quota_accounts = [example_target ''a'' ''m1'', example_target ''c'' ''m2'']\<rparr>"

definition example_capability :: "string \<Rightarrow> bool \<Rightarrow> u32 \<Rightarrow> model_capability" where
  "example_capability m tools window = \<lparr>cap_model = m, cap_tool = tools, cap_vision = False,
     cap_json_schema = False, cap_tool_state = None, cap_vision_state = None,
     cap_json_schema_state = None, cap_context_window = window, cap_max_output_tokens = 0,
     cap_supported_parameters = [], cap_extensions = []\<rparr>"

definition example_candidates :: "candidate list" where
  "example_candidates =
     [candidate_new (example_target ''a'' ''m1'') (example_capability ''m1'' True 0) Degraded,
      candidate_new (example_target ''b'' ''m1'') (example_capability ''m1'' True 0) Healthy,
      candidate_with_quota
        (candidate_new (example_target ''c'' ''m2'') (example_capability ''m2'' True 0) Healthy)
        (quota_open 60000)]"

definition example_request :: chat_request where
  "example_request = chat_request_new ''m1'' [message_text User (ascii ''hi'')]"

lemma example_config_ok: "router_new example_config = Ok (Router example_config)"
  by code_simp

definition example_features :: request_features where
  "example_features = extract_features ascii_tables example_request []"

lemma example_features_eq:
  "example_features = features_default\<lparr>rf_estimated_input_tokens := 1, rf_conversation_tokens := 1,
     rf_message_count := 1\<rparr>"
  by code_simp

definition example_decision :: decision where
  "example_decision = \<lparr>dec_chosen = example_target ''b'' ''m1'', dec_decided_by = DbDefault,
     dec_fallbacks = [example_target ''a'' ''m1'', example_target ''c'' ''m2''],
     dec_features = example_features, dec_pool = ''fast''\<rparr>"

lemma example_route:
  "route ascii_tables (Router example_config) example_request [] example_candidates
     = Completed (Ok example_decision)"
proof -
  have sel: "select_pool ascii_tables (Router example_config) example_request [] f = (''fast'', DbDefault)"
    for f by (simp add: select_pool_def example_config_def)
  have rank: "rank (Router example_config) [example_target ''a'' ''m1'', example_target ''b'' ''m1'']
      example_candidates example_features ''fast''
      = Completed (Ok [example_target ''b'' ''m1'', example_target ''a'' ''m1''])"
    unfolding example_features_eq by code_simp
  have ext: "extend_with_backups (Router example_config)
      [example_target ''b'' ''m1'', example_target ''a'' ''m1''] [''strong''] ''fast''
      example_candidates example_features
      = Completed [example_target ''b'' ''m1'', example_target ''a'' ''m1'', example_target ''c'' ''m2'']"
    unfolding example_features_eq by code_simp
  show ?thesis
    using route_tiered_eq [OF _ example_features_def sel, of _ example_candidates] rank ext
    by (simp add: example_config_def bt_get_def decide_def example_decision_def)
qed

section \<open>No panic\<close>

text \<open>
  C25. A router obtained from \<open>Router::new\<close> on a tiered configuration never panics, for any
  request, hints and candidates, in either entry point: the pool every layer selects exists, and
  a ranking that succeeds is not empty.
\<close>

theorem validated_router_never_panics:
  assumes "router_new c = Ok r" and "rc_routing_mode c = Tiered"
  shows "route u r req hints cands \<noteq> Panicked
    \<and> route_quota_first u r req cands last_used \<noteq> Panicked"
  using assms route_tiered_completes [of r] route_quota_first_completes
  by (auto simp: router_new_Ok_iff config_ok_def)

theorem validated_router_never_panics_witness:
  "route ascii_tables (Router example_config) example_request [] [] \<noteq> Panicked"
proof -
  have "rc_routing_mode example_config = Tiered" by (simp add: example_config_def)
  from validated_router_never_panics [OF example_config_ok this] show ?thesis by blast
qed

text \<open>
  The documentation of \<open>Router::route\<close> promises more: that it never panics for any router
  obtained from \<open>Router::new\<close>. A quota-first configuration is accepted with no pools and no
  default pool, and \<open>route\<close> panics on it for every request that no rule or hint intercepts.
\<close>

theorem route_panics_on_quota_first_config:
  "router_new (example_config\<lparr>rc_routing_mode := QuotaFirst, rc_pools := []\<rparr>)
      = Ok (Router (example_config\<lparr>rc_routing_mode := QuotaFirst, rc_pools := []\<rparr>))
    \<and> route u (Router (example_config\<lparr>rc_routing_mode := QuotaFirst, rc_pools := []\<rparr>)) req hints cands
      = Panicked"
proof
  show "router_new (example_config\<lparr>rc_routing_mode := QuotaFirst, rc_pools := []\<rparr>)
      = Ok (Router (example_config\<lparr>rc_routing_mode := QuotaFirst, rc_pools := []\<rparr>))"
    by code_simp
  show "route u (Router (example_config\<lparr>rc_routing_mode := QuotaFirst, rc_pools := []\<rparr>)) req hints cands
      = Panicked"
    by (simp add: route_def select_pool_def example_config_def bt_get_def Let_def)
qed

section \<open>Who may serve\<close>

definition can_serve :: "candidate \<Rightarrow> request_features \<Rightarrow> bool" where
  "can_serve c f \<longleftrightarrow>
     (0 < rf_tool_count f \<longrightarrow> is_supported (tool_state (cand_capability c)))
     \<and> (rf_has_images f \<longrightarrow> is_supported (vision_state (cand_capability c)))
     \<and> (rf_requires_json_schema f \<longrightarrow> is_supported (json_schema_state (cand_capability c)))"

lemma hard_unmet_None_iff: "hard_unmet c f = None \<longleftrightarrow> can_serve c f"
  by (auto simp: hard_unmet_def can_serve_def Let_def)

definition carrying :: "chat_request \<Rightarrow> candidate list \<Rightarrow> candidate list" where
  "carrying req cands = filter (\<lambda>c. um_model (cand_target c) = req_model req) cands"

lemma route_exact_cases:
  obtains
    (refused) why where "\<forall>c \<in> set (carrying req cands). hard_unmet c f \<noteq> None"
      "route_exact r req f cands = Completed (Err (Unsatisfiable (req_model req) why))"
  | (resting) "\<forall>c \<in> set (carrying req cands). hard_unmet c f = None \<longrightarrow> cand_health c = OutOfRotation"
      "route_exact r req f cands = Completed (Err (Unavailable (req_model req)))"
  | (served) "route_exact r req f cands = decide (map cand_target (sort_key cand_health
        (filter (\<lambda>c. cand_health c \<noteq> OutOfRotation) (filter (\<lambda>c. hard_unmet c f = None) (carrying req cands)))))
        (DbExactModel (req_model req)) f (req_model req)"
      "filter (\<lambda>c. cand_health c \<noteq> OutOfRotation) (filter (\<lambda>c. hard_unmet c f = None) (carrying req cands)) \<noteq> []"
proof -
  define named where "named = carrying req cands"
  let ?cap = "filter (\<lambda>c. hard_unmet c f = None) named"
  let ?use = "filter (\<lambda>c. cand_health c \<noteq> OutOfRotation) ?cap"
  note eq = route_exact_def [of r req f cands, folded carrying_def named_def, unfolded Let_def]
  consider "named = []" | "named \<noteq> []" "?cap = []" | "?cap \<noteq> []" "?use = []" | "?use \<noteq> []"
    by fastforce
  then show ?thesis
  proof cases
    case 1
    with eq show ?thesis by (intro refused) (auto simp: named_def)
  next
    case 2
    then obtain c cs where "named = c # cs" by (cases named) auto
    with 2 have "route_exact r req f cands = Completed (Err (Unsatisfiable (req_model req)
        (unwrap_or (hard_unmet c f) UnmetUnknown)))" unfolding eq by simp
    moreover have "\<forall>c \<in> set named. hard_unmet c f \<noteq> None" using 2 by (simp add: filter_empty_conv)
    ultimately show ?thesis using refused by (auto simp: named_def)
  next
    case 3
    then obtain c cs where "named = c # cs" by (cases named) auto
    then have "route_exact r req f cands = Completed (Err (Unavailable (req_model req)))"
      using 3 unfolding eq by (simp only: list.case if_False if_True simp_thms)
    moreover have "\<forall>c \<in> set named. hard_unmet c f = None \<longrightarrow> cand_health c = OutOfRotation"
      using 3 by (auto simp: filter_empty_conv)
    ultimately show ?thesis using resting by (auto simp: named_def)
  next
    case 4
    then have cap: "?cap \<noteq> []" by (metis filter.simps(1))
    then obtain c cs where "named = c # cs" by (cases named) auto
    then have "route_exact r req f cands = decide (map cand_target (sort_key cand_health ?use))
        (DbExactModel (req_model req)) f (req_model req)"
      using 4 cap unfolding eq by (simp only: list.case if_False)
    with 4 show ?thesis unfolding named_def by (intro served)
  qed
qed

lemma route_exact_Ok:
  assumes "route_exact r req f cands = Completed (Ok d)"
  shows "dec_features d = f \<and> dec_decided_by d = DbExactModel (req_model req)
    \<and> targets_of d = map cand_target (sort_key cand_health
        (filter (\<lambda>c. um_model (cand_target c) = req_model req \<and> hard_unmet c f = None
           \<and> cand_health c \<noteq> OutOfRotation) cands))"
proof (cases rule: route_exact_cases [of req cands f r])
  case served
  from assms [unfolded served(1) decide_Ok_iff] show ?thesis
    by (simp add: carrying_def conj_commute conj_left_commute)
qed (use assms in simp_all)

lemma tiered_target_sound:
  assumes "route u r req hints cands = Completed (Ok d)" and "\<not> rc_honor_exact_model (rt_config r)"
    and "t \<in> set (targets_of d)"
  obtains p members where "bt_get (rc_pools (rt_config r)) p = Some members" "t \<in> set members"
    "p = dec_pool d \<or> p \<in> set (recovery_pools r)"
    "\<exists>c \<in> set cands. cand_target c = t \<and> hard_unmet c (dec_features d) = None
       \<and> (rc_local_only (rt_config r) \<and> \<not> rc_allow_cloud_fallback (rt_config r) \<longrightarrow> cand_local c)"
proof -
  from assms(1,2) obtain members ranked more where
    d: "bt_get (rc_pools (rt_config r)) (dec_pool d) = Some members"
      "rank r members cands (dec_features d) (dec_pool d) = Completed (Ok ranked)"
      "targets_of d = ranked @ more"
      "\<forall>t \<in> set more. backup_target r (recovery_pools r) (dec_pool d) cands (dec_features d) t"
    by (rule route_tiered_Ok)
  show ?thesis
  proof (cases "t \<in> set ranked")
    case True
    from rank_sound [OF d(2) True] that [OF d(1)] show ?thesis by blast
  next
    case False
    with assms(3) d(3,4) have
      "backup_target r (recovery_pools r) (dec_pool d) cands (dec_features d) t" by auto
    then obtain b ms rk where b: "b \<in> set (recovery_pools r)"
      "bt_get (rc_pools (rt_config r)) b = Some ms"
      "rank r ms cands (dec_features d) b = Completed (Ok rk)" "t \<in> set rk"
      unfolding backup_target_def by blast
    from rank_sound [OF b(3,4)] that [OF b(2)] b(1) show ?thesis by blast
  qed
qed

lemma set_quota_ranked: "fst ` set (quota_ranked r capable last_used) \<subseteq> set capable"
  by (auto simp: quota_ranked_def List.map_filter_def in_set_enumerate_eq)

lemma route_quota_first_Ok:
  assumes "route_quota_first u r req cands last_used = Completed (Ok d)"
  shows "dec_decided_by d = DbQuota \<and> dec_features d = extract_features u req []
    \<and> targets_of d = map (\<lambda>(c, _). cand_target c) (sort_key (\<lambda>(_, rk). Reverse rk)
        (quota_ranked r (filter (\<lambda>c. hard_unmet c (extract_features u req []) = None)
           (installed_of (rc_quota_accounts (rt_config r)) cands)) last_used))"
  using assms
  by (auto simp: route_quota_first_def Let_def decide_Ok_iff split: if_splits)

text \<open>
  C2. No request is ever sent to a model that cannot serve it: every target of a decision, chosen
  or fallback, of the tiered, exact-model and quota-first routes alike, belongs to a supplied
  candidate whose capabilities cover the tools, images and JSON schema the request needs.
\<close>

theorem every_target_can_serve:
  assumes "route u r req hints cands = Completed (Ok d)
      \<or> route_quota_first u r req cands last_used = Completed (Ok d)"
    and "t \<in> set (targets_of d)"
  shows "\<exists>c \<in> set cands. cand_target c = t \<and> can_serve c (dec_features d)"
  using assms(1)
proof
  assume route: "route u r req hints cands = Completed (Ok d)"
  show ?thesis
  proof (cases "rc_honor_exact_model (rt_config r)")
    case True
    with route have "route_exact r req (extract_features u req hints) cands = Completed (Ok d)"
      by (simp add: route_def Let_def)
    from route_exact_Ok [OF this] assms(2) show ?thesis
      by (auto simp: hard_unmet_None_iff)
  next
    case False
    from tiered_target_sound [OF route False assms(2)] show ?thesis
      by (metis hard_unmet_None_iff)
  qed
next
  assume "route_quota_first u r req cands last_used = Completed (Ok d)"
  note quota = route_quota_first_Ok [OF this]
  let ?f = "extract_features u req []"
  let ?capable = "filter (\<lambda>c. hard_unmet c ?f = None) (installed_of (rc_quota_accounts (rt_config r)) cands)"
  from quota assms(2) have "t \<in> cand_target ` fst ` set (quota_ranked r ?capable last_used)"
    by (force simp: case_prod_beta)
  with set_quota_ranked [of r ?capable last_used] obtain c where
    "c \<in> set ?capable" "cand_target c = t" by auto
  with set_installed_of quota show ?thesis by (fastforce simp: hard_unmet_None_iff)
qed

theorem every_target_can_serve_witness:
  "\<exists>c \<in> set example_candidates. cand_target c = example_target ''c'' ''m2''
     \<and> can_serve c example_features"
proof -
  have "example_target ''c'' ''m2'' \<in> set (targets_of example_decision)"
    by (simp add: example_decision_def targets_of_def)
  from every_target_can_serve [OF disjI1 [OF example_route] this] show ?thesis
    by (simp add: example_decision_def)
qed

section \<open>Tiers\<close>

text \<open>
  C12. A tiered route never leaves its tier silently. The chosen target belongs to the pool the
  decision names; under \<open>Strict\<close> recovery so does every fallback, and under \<open>Ordered\<close> recovery a
  fallback from another pool belongs to one the operator listed, comes after every target of the
  selected pool, and is listed once.
\<close>

theorem route_stays_in_authorized_tiers:
  assumes "route u r req hints cands = Completed (Ok d)" and "\<not> rc_honor_exact_model (rt_config r)"
  shows "\<exists>members own more. bt_get (rc_pools (rt_config r)) (dec_pool d) = Some members
    \<and> targets_of d = own @ more \<and> dec_chosen d \<in> set own \<and> set own \<subseteq> set members
    \<and> distinct more \<and> set more \<inter> set own = {}
    \<and> (rc_recovery (rt_config r) = Strict \<longrightarrow> more = [])
    \<and> (\<forall>t \<in> set more. \<exists>ps. rc_recovery (rt_config r) = Ordered ps
        \<and> (\<exists>p \<in> set ps. \<exists>ms. bt_get (rc_pools (rt_config r)) p = Some ms \<and> t \<in> set ms))"
proof -
  from assms obtain members own more where
    d: "bt_get (rc_pools (rt_config r)) (dec_pool d) = Some members"
      "rank r members cands (dec_features d) (dec_pool d) = Completed (Ok own)"
      "targets_of d = own @ more" "own \<noteq> []" "distinct more" "set more \<inter> set own = {}"
      "\<forall>t \<in> set more. backup_target r (recovery_pools r) (dec_pool d) cands (dec_features d) t"
    by (rule route_tiered_Ok)
  have chosen: "dec_chosen d \<in> set own" using d(3,4) by (cases own) (auto simp: targets_of_def)
  have own: "set own \<subseteq> set members" using rank_sound [OF d(2)] by blast
  have strict: "more = []" if "rc_recovery (rt_config r) = Strict"
    using d(7) that by (auto simp: backup_target_def simp flip: set_empty)
  have "\<exists>ps. rc_recovery (rt_config r) = Ordered ps
      \<and> (\<exists>p \<in> set ps. \<exists>ms. bt_get (rc_pools (rt_config r)) p = Some ms \<and> t \<in> set ms)"
    if "t \<in> set more" for t
  proof -
    from d(7) that have "backup_target r (recovery_pools r) (dec_pool d) cands (dec_features d) t"
      by blast
    then obtain b ms rk where b: "b \<in> set (recovery_pools r)"
      "bt_get (rc_pools (rt_config r)) b = Some ms"
      "rank r ms cands (dec_features d) b = Completed (Ok rk)" "t \<in> set rk"
      unfolding backup_target_def by blast
    with rank_sound [OF b(3,4)] show ?thesis
      by (cases "rc_recovery (rt_config r)") auto
  qed
  with d chosen own strict show ?thesis by blast
qed

theorem route_stays_in_authorized_tiers_witness:
  "\<exists>own more. targets_of example_decision = own @ more \<and> dec_chosen example_decision \<in> set own"
proof -
  have "\<not> rc_honor_exact_model (rt_config (Router example_config))" by (simp add: example_config_def)
  from route_stays_in_authorized_tiers [OF example_route this] show ?thesis by blast
qed

text \<open>
  Precedence of the layers: the first rule that matches decides, whatever the hints, the
  heuristic and the default say; without one the first configured hint route the request asks for
  decides; then the heuristic; then the default pool. The decision records which layer it was.
\<close>

theorem layer_precedence:
  assumes "route u r req hints cands = Completed (Ok d)" and "\<not> rc_honor_exact_model (rt_config r)"
  shows "(case find (\<lambda>rl. match_matches u (rule_matcher rl) (dec_features d) req) (rc_rules (rt_config r)) of
      Some rl \<Rightarrow> dec_pool d = rule_route_to rl \<and> dec_decided_by d = DbRule (rule_id rl)
    | None \<Rightarrow> (case find (hint_given hints) (rc_hint_routes (rt_config r)) of
        Some h \<Rightarrow> dec_pool d = hr_route_to h \<and> dec_decided_by d = DbHint (hr_kind h) (hr_value h)
      | None \<Rightarrow> (case rc_heuristic (rt_config r) of
          Some h \<Rightarrow> dec_pool d = fst (heuristic_select h (heuristic_score h (dec_features d)))
            \<and> dec_decided_by d = DbHeuristic (heuristic_score h (dec_features d))
                (snd (heuristic_select h (heuristic_score h (dec_features d))))
        | None \<Rightarrow> dec_pool d = rc_default_pool (rt_config r) \<and> dec_decided_by d = DbDefault)))"
proof -
  from assms obtain f where sel: "select_pool u r req hints f = (dec_pool d, dec_decided_by d)"
    and f: "dec_features d = f"
    by (auto elim!: route_tiered_Ok)
  show ?thesis
    using sel unfolding f
    by (auto simp: select_pool_def select_rule_find select_hint_find Let_def
        split: option.splits prod.splits)
qed

theorem layer_precedence_witness:
  "dec_pool example_decision = ''fast'' \<and> dec_decided_by example_decision = DbDefault"
proof -
  have "\<not> rc_honor_exact_model (rt_config (Router example_config))" by (simp add: example_config_def)
  from layer_precedence [OF example_route this] show ?thesis by (simp add: example_config_def)
qed

section \<open>Order inside a pool\<close>

text \<open>
  When some installed candidate can serve the request, fits it and is in rotation, the
  selection is exactly those candidates: none that is out of rotation, healthy ones before
  degraded ones, and within a health class the operator's own order.
\<close>

theorem selection_is_stable_by_health:
  assumes "c \<in> set installed" "can_serve c f" "fits_context r c f" "cand_health c \<noteq> OutOfRotation"
  shows "\<exists>cs. usable_targets r installed f p last_resort = Completed (Ok (map cand_target cs))
    \<and> sorted (map cand_health cs)
    \<and> (\<forall>h. filter (\<lambda>c. cand_health c = h) cs = (if h = OutOfRotation then []
        else filter (\<lambda>c. cand_health c = h \<and> can_serve c f \<and> fits_context r c f) installed))"
proof -
  let ?fit = "filter (\<lambda>c. fits_context r c f) (capable_of installed f)"
  have c: "c \<in> set ?fit" using assms by (simp add: capable_of_def hard_unmet_None_iff)
  then have pref: "preferred_of r installed f = ?fit" and cap: "capable_of installed f \<noteq> []"
    by (auto simp: preferred_of_def Let_def filter_empty_conv)
  have rot: "rotation_of r installed f = filter (\<lambda>c. cand_health c \<noteq> OutOfRotation) ?fit"
    using c assms(4) by (auto simp: rotation_of_def pref Let_def filter_empty_conv)
  have "installed \<noteq> []" using assms(1) by auto
  then show ?thesis
  proof (cases rule: usable_targets_cases [of installed f r p last_resort])
    case (usable chosen)
    have ch: "chosen = sort_key cand_health (rotation_of r installed f)"
      using c by (intro usable(5)) auto
    have "filter (\<lambda>c. cand_health c = h) chosen
        = filter (\<lambda>c. cand_health c = h) (rotation_of r installed f)" for h
      using sort_key_stable unfolding ch stable_sort_key_def by metis
    moreover have "filter (\<lambda>c. cand_health c = h) (rotation_of r installed f)
        = (if h = OutOfRotation then []
           else filter (\<lambda>c. cand_health c = h \<and> can_serve c f \<and> fits_context r c f) installed)" for h
      by (auto simp: rot capable_of_def hard_unmet_None_iff filter_empty_conv intro!: filter_cong)
    ultimately show ?thesis using usable(4,6) by auto
  next
    case unavailable
    with c assms(4) show ?thesis by (auto simp: pref)
  qed (use cap in simp)
qed

theorem selection_is_stable_by_health_witness:
  "\<exists>cs :: candidate list. usable_targets (Router example_config) example_candidates example_features ''fast'' True
      = Completed (Ok (map cand_target cs)) \<and> sorted (map cand_health cs)"
proof -
  have "example_candidates ! 1 \<in> set example_candidates"
    and "can_serve (example_candidates ! 1) example_features"
    and "fits_context (Router example_config) (example_candidates ! 1) example_features"
    and "cand_health (example_candidates ! 1) \<noteq> OutOfRotation"
    unfolding example_features_eq by (simp add: example_candidates_def, code_simp, code_simp, code_simp)
  from selection_is_stable_by_health [OF this, of "''fast''" True] show ?thesis by blast
qed

text \<open>
  The last-resort branch is wider than its comment, which says that it is taken when every
  capable candidate is ejected. It is taken when every capable candidate that fits the context is
  ejected: a request is then sent to an upstream known to be out of rotation although a healthy,
  capable one with a smaller window is installed in the same pool, and that one is not even a
  fallback.
\<close>

theorem last_resort_ignores_healthy_candidate:
  "\<exists>installed f healthy ejected. healthy \<in> set installed \<and> cand_health healthy = Healthy
    \<and> can_serve healthy f \<and> ejected \<in> set installed \<and> cand_health ejected = OutOfRotation
    \<and> cand_target healthy \<noteq> cand_target ejected
    \<and> usable_targets (Router example_config) installed f p True
        = Completed (Ok [cand_target ejected])"
proof -
  let ?small = "candidate_new (example_target ''a'' ''m1'') (example_capability ''m1'' True 1000) Healthy"
  let ?large = "candidate_new (example_target ''b'' ''m1'') (example_capability ''m1'' True 9000) OutOfRotation"
  let ?f = "features_default\<lparr>rf_estimated_input_tokens := 2000\<rparr>"
  have "usable_targets (Router example_config) [?small, ?large] ?f p True
      = Completed (Ok [cand_target ?large])"
    by (simp add: usable_targets_def hard_unmet_def fits_context_def effective_window_def
        features_default_def candidate_new_def example_capability_def)
  moreover have "can_serve ?small ?f" "cand_target ?small \<noteq> cand_target ?large"
    "cand_health ?small = Healthy" "cand_health ?large = OutOfRotation"
    by (simp_all add: can_serve_def features_default_def candidate_new_def example_target_def)
  ultimately show ?thesis
    by (intro exI [of _ "[?small, ?large]"] exI [of _ ?f] exI [of _ ?small] exI [of _ ?large]) simp
qed

text \<open>
  C24. Refusals of a tiered route that is not local-only: it is refused exactly when no candidate
  installed for the pool that was selected for the request can serve it, the refusal is then
  \<open>Unsatisfiable\<close> for that pool, and it is never \<open>Unavailable\<close>; a decision names that pool too. Neither health nor the length of the prompt can refuse a request.
\<close>

theorem route_refuses_only_the_unservable:
  assumes "router_new c = Ok r" "rc_routing_mode c = Tiered"
    and "\<not> rc_honor_exact_model c" "\<not> rc_local_only c"
    and "p = fst (select_pool u r req hints (extract_features u req hints))"
  shows "case route u r req hints cands of
      Completed (Ok d) \<Rightarrow> dec_pool d = p \<and> (\<exists>members. bt_get (rc_pools c) p = Some members
        \<and> (\<exists>x \<in> set (installed_of members cands). can_serve x (extract_features u req hints)))
    | Completed (Err e) \<Rightarrow> \<exists>members why. e = Unsatisfiable p why \<and> bt_get (rc_pools c) p = Some members
        \<and> (\<forall>x \<in> set (installed_of members cands). \<not> can_serve x (extract_features u req hints))
    | Panicked \<Rightarrow> False"
proof -
  have r: "r = Router c" and ok: "tiered_ok c"
    using assms(1,2) by (auto simp: router_new_Ok_iff config_ok_def)
  define f where "f = extract_features u req hints"
  obtain why where sel: "select_pool u r req hints f = (p, why)"
    using assms(5) by (cases "select_pool u r req hints f") (simp add: f_def)
  with select_pool_known [of r u req hints f] ok r obtain members where
    mem: "bt_get (rc_pools (rt_config r)) p = Some members"
    by (auto simp: known_pool_get)
  have nh: "\<not> rc_honor_exact_model (rt_config r)" and nl: "\<not> rc_local_only (rt_config r)"
    using assms(1-4) r by simp_all
  note eq = route_tiered_eq [OF nh f_def sel mem, of cands]
  note open_rank = rank_open [OF nl, of members cands f p, unfolded hard_unmet_None_iff]
  obtain res where res: "rank r members cands f p = Completed res" using rank_completes by blast
  show ?thesis
  proof (cases res)
    case (Inl e)
    with rank_open_Err [OF nl] res obtain q where "e = Unsatisfiable p q" by blast
    moreover have "\<forall>x \<in> set (installed_of members cands). \<not> can_serve x f"
      using open_rank(1) res Inl by simp
    ultimately show ?thesis using eq res Inl mem r by (simp add: f_def)
  next
    case (Inr ranked)
    obtain more where "extend_with_backups r ranked (recovery_pools r) p cands f
        = Completed (ranked @ more)"
      using extend_with_backups_spec by blast
    moreover obtain d where d: "decide (ranked @ more) why f p = Completed (Ok d)"
      using decide_completes [of "ranked @ more"] rank_nonempty res Inr by blast
    moreover from d have "dec_pool d = p" by (simp add: decide_Ok_iff)
    moreover have "\<exists>x \<in> set (installed_of members cands). can_serve x f"
      using open_rank(1) res Inr by blast
    ultimately show ?thesis using eq res Inr mem r by (simp add: f_def)
  qed
qed

theorem route_refuses_only_the_unservable_witness:
  "\<exists>members. bt_get (rc_pools example_config) ''fast'' = Some members
    \<and> (\<exists>x \<in> set (installed_of members example_candidates). can_serve x example_features)"
proof -
  have "rc_routing_mode example_config = Tiered" "\<not> rc_honor_exact_model example_config"
    "\<not> rc_local_only example_config" by (simp_all add: example_config_def)
  from route_refuses_only_the_unservable
    [OF example_config_ok this refl, where u = ascii_tables and req = example_request
      and hints = "[]" and cands = example_candidates]
  show ?thesis by (auto simp: example_route example_decision_def example_features_def)
qed

section \<open>Locality\<close>

text \<open>
  C9. A tiered route locked to local upstreams without an authorised cloud fallback sends the
  request to local candidates only, backups included.
\<close>

theorem local_only_stays_local:
  assumes "route u r req hints cands = Completed (Ok d)" and "\<not> rc_honor_exact_model (rt_config r)"
    and "rc_local_only (rt_config r)" and "\<not> rc_allow_cloud_fallback (rt_config r)"
    and "t \<in> set (targets_of d)"
  shows "\<exists>c \<in> set cands. cand_target c = t \<and> cand_local c \<and> can_serve c (dec_features d)"
  by (rule tiered_target_sound [OF assms(1,2,5)]) (use assms(3,4) hard_unmet_None_iff in blast)

definition example_local_config :: router_config where
  "example_local_config = example_config\<lparr>rc_local_only := True, rc_recovery := Strict\<rparr>"

definition example_local_candidates :: "candidate list" where
  "example_local_candidates = 
     [candidate_with_local (example_candidates ! 0) True, example_candidates ! 1, example_candidates ! 2]"

lemma example_local_route:
  "route ascii_tables (Router example_local_config) example_request [] example_local_candidates
     = Completed (Ok (example_decision\<lparr>dec_chosen := example_target ''a'' ''m1'', dec_fallbacks := []\<rparr>))"
proof -
  have sel: "select_pool ascii_tables (Router example_local_config) example_request [] f = (''fast'', DbDefault)"
    for f by (simp add: select_pool_def example_local_config_def example_config_def)
  have rank: "rank (Router example_local_config) [example_target ''a'' ''m1'', example_target ''b'' ''m1'']
      example_local_candidates example_features ''fast'' = Completed (Ok [example_target ''a'' ''m1''])"
    unfolding example_features_eq by code_simp
  show ?thesis
    using route_tiered_eq [OF _ example_features_def sel, of _ example_local_candidates] rank
    by (simp add: example_local_config_def example_config_def bt_get_def decide_def example_decision_def)
qed

theorem local_only_stays_local_witness:
  "\<exists>c \<in> set example_local_candidates. cand_target c = example_target ''a'' ''m1'' \<and> cand_local c"
proof -
  have "\<not> rc_honor_exact_model (rt_config (Router example_local_config))"
    "rc_local_only (rt_config (Router example_local_config))"
    "\<not> rc_allow_cloud_fallback (rt_config (Router example_local_config))"
    by (simp_all add: example_local_config_def example_config_def)
  from local_only_stays_local [OF example_local_route this] show ?thesis
    by (auto simp: targets_of_def)
qed

definition example_locked :: "router_config \<Rightarrow> router_config" where
  "example_locked c = c\<lparr>rc_local_only := True, rc_allow_cloud_fallback := False\<rparr>"

definition example_exact_config :: router_config where
  "example_exact_config = example_locked (example_config\<lparr>rc_honor_exact_model := True\<rparr>)"

definition example_quota_config :: router_config where
  "example_quota_config = example_locked (example_config\<lparr>rc_routing_mode := QuotaFirst\<rparr>)"

lemma example_exact_route:
  "route_exact (Router example_exact_config) example_request example_features example_local_candidates
     = Completed (Ok \<lparr>dec_chosen = example_target ''b'' ''m1'', dec_decided_by = DbExactModel ''m1'',
         dec_fallbacks = [example_target ''a'' ''m1''], dec_features = example_features,
         dec_pool = ''m1''\<rparr>)"
  unfolding example_features_eq by code_simp

lemma example_quota_route:
  "route_quota_first ascii_tables (Router example_quota_config) example_request example_local_candidates None
     = Completed (Ok \<lparr>dec_chosen = example_target ''c'' ''m2'', dec_decided_by = DbQuota,
         dec_fallbacks = [example_target ''a'' ''m1''], dec_features = example_features,
         dec_pool = ''quota''\<rparr>)"
  unfolding route_quota_first_def example_features_def [symmetric] example_features_eq by code_simp

text \<open>
  The lock does not hold in the two other modes. With \<open>honor_exact_model\<close>, and in quota-first
  routing, a validated configuration with \<open>local_only\<close> set and no cloud fallback sends the request
  to an upstream that is not local, although a local one carries the model.
\<close>

theorem local_only_ignored_by_exact_and_quota:
  "router_new example_exact_config = Ok (Router example_exact_config)
    \<and> router_new example_quota_config = Ok (Router example_quota_config)
    \<and> rc_local_only example_exact_config \<and> \<not> rc_allow_cloud_fallback example_exact_config
    \<and> rc_local_only example_quota_config \<and> \<not> rc_allow_cloud_fallback example_quota_config
    \<and> (\<exists>d. route ascii_tables (Router example_exact_config) example_request []
          example_local_candidates = Completed (Ok d)
        \<and> dec_chosen d = cand_target (example_local_candidates ! 1))
    \<and> (\<exists>d. route_quota_first ascii_tables (Router example_quota_config) example_request
          example_local_candidates None = Completed (Ok d)
        \<and> dec_chosen d = cand_target (example_local_candidates ! 2))
    \<and> cand_local (example_local_candidates ! 0)
    \<and> \<not> cand_local (example_local_candidates ! 1) \<and> \<not> cand_local (example_local_candidates ! 2)"
proof (intro conjI)
  show "router_new example_exact_config = Ok (Router example_exact_config)"
    and "router_new example_quota_config = Ok (Router example_quota_config)" by code_simp+
  have "cand_target (example_local_candidates ! 1) = example_target ''b'' ''m1''" by code_simp
  then show "\<exists>d. route ascii_tables (Router example_exact_config) example_request []
          example_local_candidates = Completed (Ok d)
        \<and> dec_chosen d = cand_target (example_local_candidates ! 1)"
    using example_exact_route
    by (simp add: route_def example_exact_config_def example_locked_def example_features_def)
  have "cand_target (example_local_candidates ! 2) = example_target ''c'' ''m2''" by code_simp
  then show "\<exists>d. route_quota_first ascii_tables (Router example_quota_config) example_request
          example_local_candidates None = Completed (Ok d)
        \<and> dec_chosen d = cand_target (example_local_candidates ! 2)"
    by (simp add: example_quota_route)
qed (simp_all add: example_exact_config_def example_quota_config_def example_locked_def
    example_local_candidates_def example_candidates_def candidate_with_local_def
    candidate_with_quota_def candidate_new_def)

section \<open>Exact-model mode\<close>

text \<open>
  C34. A pinned model is served or refused, never substituted: every target of an exact-model route
  carries the requested model name, in health order over all candidates that carry it; it is
  refused as unsatisfiable only when no candidate carrying the name can serve the request, and as
  unavailable only when all that can are out of rotation.
\<close>

theorem exact_model_is_never_substituted:
  assumes "rc_honor_exact_model (rt_config r)"
  shows "case route u r req hints cands of
      Completed (Ok d) \<Rightarrow> dec_decided_by d = DbExactModel (req_model req)
        \<and> (\<forall>t \<in> set (targets_of d). um_model t = req_model req)
        \<and> (\<exists>cs. targets_of d = map cand_target cs \<and> sorted (map cand_health cs)
            \<and> set cs = {c \<in> set cands. um_model (cand_target c) = req_model req
                \<and> can_serve c (extract_features u req hints) \<and> cand_health c \<noteq> OutOfRotation})
    | Completed (Err (Unsatisfiable p why)) \<Rightarrow> p = req_model req
        \<and> (\<forall>c \<in> set cands. um_model (cand_target c) = req_model req
            \<longrightarrow> \<not> can_serve c (extract_features u req hints))
    | Completed (Err (Unavailable p)) \<Rightarrow> p = req_model req
        \<and> (\<forall>c \<in> set cands. um_model (cand_target c) = req_model req
            \<and> can_serve c (extract_features u req hints) \<longrightarrow> cand_health c = OutOfRotation)
    | Panicked \<Rightarrow> False"
proof -
  define f where "f = extract_features u req hints"
  have route: "route u r req hints cands = route_exact r req f cands"
    using assms by (simp add: route_def f_def Let_def)
  show ?thesis
  proof (cases "route_exact r req f cands")
    case Panicked
    then show ?thesis using route_exact_completes by blast
  next
    case (Completed res)
    show ?thesis
    proof (cases res)
      case (Inr d)
      with Completed route_exact_Ok [of r req f cands d]
      have d: "dec_decided_by d = DbExactModel (req_model req)"
        and ts: "targets_of d = map cand_target (sort_key cand_health
        (filter (\<lambda>c. um_model (cand_target c) = req_model req \<and> hard_unmet c f = None
           \<and> cand_health c \<noteq> OutOfRotation) cands))" by simp_all
      show ?thesis
        unfolding route Completed Inr outcome.case sum.case f_def [symmetric] ts
        by (intro conjI exI [of _ "sort_key cand_health
        (filter (\<lambda>c. um_model (cand_target c) = req_model req \<and> hard_unmet c f = None
           \<and> cand_health c \<noteq> OutOfRotation) cands)"]) (auto simp: d hard_unmet_None_iff)
    next
      case (Inl e)
      from Completed Inl have err: "route_exact r req f cands = Completed (Err e)" by simp
      show ?thesis
      proof (cases rule: route_exact_cases [of req cands f r])
        case (refused why)
        with err show ?thesis
          by (auto simp: route f_def [symmetric] carrying_def hard_unmet_None_iff)
      next
        case resting
        with err show ?thesis
          by (auto simp: route f_def [symmetric] carrying_def hard_unmet_None_iff)
      next
        case served
        then have "map cand_target (sort_key cand_health (filter (\<lambda>c. cand_health c \<noteq> OutOfRotation)
            (filter (\<lambda>c. hard_unmet c f = None) (carrying req cands)))) \<noteq> []"
          by simp
        from decide_completes [OF this] obtain d where
          "route_exact r req f cands = Completed (Ok d)" unfolding served(1) by blast
        with err show ?thesis by simp
      qed
    qed
  qed
qed

theorem exact_model_is_never_substituted_witness:
  "\<exists>cs. [example_target ''b'' ''m1'', example_target ''a'' ''m1''] = map cand_target cs
     \<and> set cs \<subseteq> set example_local_candidates \<and> sorted (map cand_health cs)"
proof -
  have pin: "rc_honor_exact_model (rt_config (Router example_exact_config))"
    by (simp add: example_exact_config_def example_locked_def)
  then have route: "route ascii_tables (Router example_exact_config) example_request []
      example_local_candidates
      = route_exact (Router example_exact_config) example_request example_features example_local_candidates"
    by (simp add: route_def example_features_def)
  from exact_model_is_never_substituted [OF pin, where u = ascii_tables and req = example_request
      and hints = "[]" and cands = example_local_candidates]
  show ?thesis
    unfolding route example_exact_route targets_of_def outcome.case sum.case decision.simps
    by (elim exE conjE, intro exI conjI) (assumption, blast, assumption)
qed

section \<open>Quota-first mode\<close>

lemma in_set_quota_ranked:
  "(c, rk) \<in> set (quota_ranked r capable last_used) \<longleftrightarrow>
     (\<exists>i < length capable. c = capable ! i \<and> cand_health c \<noteq> OutOfRotation
        \<and> quota_rank (cand_quota c) (last_used = Some (cand_target c)) (try_from_or i u_max)
            (qc_weights (rc_quota (rt_config r))) (qc_reset_tie_band_ms (rc_quota (rt_config r)))
          = Some rk)"
  by (force simp: quota_ranked_def List.map_filter_def in_set_enumerate_eq)

text \<open>
  Quota-first routing tries exactly the selected accounts that are supplied, capable, in
  rotation and not exhausted, each under a rank of its own quota picture, and in descending order of
  those ranks.
\<close>

theorem quota_first_serves_best_rank:
  assumes "route_quota_first u r req cands last_used = Completed (Ok d)"
  shows "\<exists>ranked. targets_of d = map (\<lambda>(c, _). cand_target c) ranked
    \<and> sorted_wrt (\<lambda>a b. snd b \<le> snd a) ranked
    \<and> fst ` set ranked = {c \<in> set (installed_of (rc_quota_accounts (rt_config r)) cands).
        can_serve c (dec_features d) \<and> cand_health c \<noteq> OutOfRotation \<and> \<not> qs_exhausted (cand_quota c)}
    \<and> (\<forall>(c, rk) \<in> set ranked. \<exists>i. quota_rank (cand_quota c) (last_used = Some (cand_target c)) i
        (qc_weights (rc_quota (rt_config r))) (qc_reset_tie_band_ms (rc_quota (rt_config r))) = Some rk)"
proof -
  define capable where "capable = filter (\<lambda>c. hard_unmet c (extract_features u req []) = None)
    (installed_of (rc_quota_accounts (rt_config r)) cands)"
  define ranked where "ranked = sort_key (\<lambda>(_, rk). Reverse rk) (quota_ranked r capable last_used)"
  from route_quota_first_Ok [OF assms] have ts: "targets_of d = map (\<lambda>(c, _). cand_target c) ranked"
    and f: "dec_features d = extract_features u req []"
    by (simp_all add: ranked_def capable_def)
  have "sorted (map (\<lambda>(_, rk). Reverse rk) ranked)" by (simp add: ranked_def)
  then have order: "sorted_wrt (\<lambda>a b. snd b \<le> snd a) ranked"
    by (simp add: sorted_map case_prod_beta)
  have "fst ` set ranked = {c \<in> set capable. cand_health c \<noteq> OutOfRotation \<and> \<not> qs_exhausted (cand_quota c)}"
    (is "_ = ?served")
  proof
    show "fst ` set ranked \<subseteq> ?served"
      by (auto simp: ranked_def in_set_quota_ranked quota_rank_def split: if_splits)
    show "?served \<subseteq> fst ` set ranked"
    proof
      fix c assume "c \<in> ?served"
      then obtain i where "i < length capable" "capable ! i = c" "cand_health c \<noteq> OutOfRotation"
        "\<not> qs_exhausted (cand_quota c)" by (auto simp: in_set_conv_nth)
      then obtain rk where "(c, rk) \<in> set (quota_ranked r capable last_used)"
        by (auto simp: in_set_quota_ranked quota_rank_def)
      then show "c \<in> fst ` set ranked" by (force simp: ranked_def)
    qed
  qed
  also have "\<dots> = {c \<in> set (installed_of (rc_quota_accounts (rt_config r)) cands).
        can_serve c (dec_features d) \<and> cand_health c \<noteq> OutOfRotation \<and> \<not> qs_exhausted (cand_quota c)}"
    by (auto simp: capable_def f hard_unmet_None_iff)
  finally have served: "fst ` set ranked = \<dots>" .
  have "\<forall>(c, rk) \<in> set ranked. \<exists>i. quota_rank (cand_quota c) (last_used = Some (cand_target c)) i
        (qc_weights (rc_quota (rt_config r))) (qc_reset_tie_band_ms (rc_quota (rt_config r))) = Some rk"
    by (auto simp: ranked_def in_set_quota_ranked)
  with ts order served show ?thesis by blast
qed

theorem quota_first_serves_best_rank_witness:
  "\<exists>ranked :: (candidate \<times> quota_place) list.
     [example_target ''c'' ''m2'', example_target ''a'' ''m1''] = map (\<lambda>(c, _). cand_target c) ranked
     \<and> sorted_wrt (\<lambda>a b. snd b \<le> snd a) ranked"
  using quota_first_serves_best_rank [OF example_quota_route]
  unfolding targets_of_def decision.simps by (elim exE conjE, intro exI conjI)

section \<open>Reproducibility\<close>

lemma find_unique:
  assumes "inj_on g (set xs)" "set xs = set ys"
  shows "find (\<lambda>c. g c = m) xs = find (\<lambda>c. g c = m) ys"
proof (cases "find (\<lambda>c. g c = m) xs")
  case None
  then have "find (\<lambda>c. g c = m) ys = None" unfolding find_None_iff assms(2) .
  with None show ?thesis by simp
next
  case (Some x)
  then have x: "x \<in> set xs" "g x = m" by (auto dest: find_SomeD)
  then have "find (\<lambda>c. g c = m) ys \<noteq> None" using assms(2) unfolding find_None_iff by blast
  then obtain y where y: "find (\<lambda>c. g c = m) ys = Some y" by blast
  then have "y \<in> set xs" "g y = m" using assms(2) by (auto dest: find_SomeD)
  with x assms(1) have "x = y" by (auto dest: inj_onD)
  with Some y show ?thesis by simp
qed

lemma extend_with_backups_cong:
  assumes "\<And>ms p. rank r ms cands f p = rank r ms cands' f p"
  shows "extend_with_backups r targets pools p cands f = extend_with_backups r targets pools p cands' f"
proof (induction pools arbitrary: targets)
  case (Cons b pools)
  have "(\<lambda>res. case res of
        Ok ranked \<Rightarrow> extend_with_backups r (push_new ranked targets) pools p cands f
      | Err _ \<Rightarrow> extend_with_backups r targets pools p cands f)
    = (\<lambda>res. case res of
        Ok ranked \<Rightarrow> extend_with_backups r (push_new ranked targets) pools p cands' f
      | Err _ \<Rightarrow> extend_with_backups r targets pools p cands' f)"
    by (simp add: Cons.IH fun_eq_iff split: sum.split)
  with Cons.IH show ?case by (simp add: assms split: option.split)
qed simp

text \<open>
  Two hosts with the same configuration and the same candidates, in whatever order each lists
  them, make the same decision: when no two candidates share a target, tiered and quota-first
  routing depend on the set of candidates only.
\<close>

theorem route_ignores_candidate_order:
  assumes "distinct (map cand_target cands)" "distinct (map cand_target cands')"
    and "set cands = set cands'" and "\<not> rc_honor_exact_model (rt_config r)"
  shows "route u r req hints cands = route u r req hints cands'
    \<and> route_quota_first u r req cands last_used = route_quota_first u r req cands' last_used"
proof -
  have inj: "inj_on cand_target (set cands)" using assms(1) by (simp add: distinct_map)
  have inst: "installed_of ms cands = installed_of ms cands'" for ms
    unfolding installed_of_def using find_unique [OF inj assms(3)] by simp
  have rank: "rank r ms cands f p = rank r ms cands' f p" for ms f p
    by (simp add: rank_def inst)
  have "route u r req hints cands = route u r req hints cands'"
    unfolding route_def Let_def rank extend_with_backups_cong [OF rank] if_not_P [OF assms(4)] ..
  moreover have "route_quota_first u r req cands last_used = route_quota_first u r req cands' last_used"
    unfolding route_quota_first_def inst ..
  ultimately show ?thesis ..
qed

theorem route_ignores_candidate_order_witness:
  "route ascii_tables (Router example_config) example_request [] (rev example_candidates)
     = Completed (Ok example_decision)"
proof -
  have fwd: "distinct (map cand_target example_candidates)"
    and bwd: "distinct (map cand_target (rev example_candidates))" by code_simp+
  have same: "set example_candidates = set (rev example_candidates)" by simp
  have "\<not> rc_honor_exact_model (rt_config (Router example_config))"
    by (simp add: example_config_def)
  from route_ignores_candidate_order [OF fwd bwd same this]
  have "route ascii_tables (Router example_config) example_request [] example_candidates
      = route ascii_tables (Router example_config) example_request [] (rev example_candidates)"
    by (rule conjunct1)
  from this [symmetric] show ?thesis unfolding example_route .
qed

end
