(* ===== verification/Leases.thy ===== *)
theory Leases
  imports Prelude
begin

text \<open>
  In-flight leases, \<open>apps/cli/src/quota_lease.rs\<close>. Both hash maps are association lists kept in
  key order: no operation depends on the order in which Rust visits them.
\<close>

definition DEFAULT_LEASE_MS :: u64 where "DEFAULT_LEASE_MS = 120000"
definition DEFAULT_INFLIGHT_DOCK_PERMILLE :: u32 where "DEFAULT_INFLIGHT_DOCK_PERMILLE = 100"

record lease_id =
  li_account :: string
  li_serial :: u64

type_synonym lease_table = "(u64, u64) btree"

record inflight_leases =
  il_lease_ms :: u64
  il_next_serial :: u64
  il_by_account :: "(string, lease_table) btree"

definition leases_new :: "u64 \<Rightarrow> inflight_leases" where
  "leases_new lease_ms = \<lparr>il_lease_ms = max lease_ms 1, il_next_serial = 0, il_by_account = []\<rparr>"

text \<open>The leases of an account, none when it has no entry.\<close>

definition leases_of :: "inflight_leases \<Rightarrow> string \<Rightarrow> lease_table" where
  "leases_of l account = (case bt_get (il_by_account l) account of None \<Rightarrow> [] | Some t \<Rightarrow> t)"

definition grant_for ::
  "inflight_leases \<Rightarrow> u64 \<Rightarrow> string \<Rightarrow> u64 \<Rightarrow> lease_id \<times> inflight_leases" where
  "grant_for l now account lifetime =
     (let expiry = sat_add now (max lifetime (il_lease_ms l));
          serial = il_next_serial l;
          table = filter (\<lambda>(_, expires_at). now < expires_at) (leases_of l account)
      in (\<lparr>li_account = account, li_serial = serial\<rparr>,
          l\<lparr>il_next_serial := serial + 1,
            il_by_account := bt_insert account (bt_insert serial expiry table) (il_by_account l)\<rparr>))"

definition grant :: "inflight_leases \<Rightarrow> u64 \<Rightarrow> string \<Rightarrow> lease_id \<times> inflight_leases" where
  "grant l now account = grant_for l now account (il_lease_ms l)"

definition release :: "inflight_leases \<Rightarrow> lease_id \<Rightarrow> inflight_leases" where
  "release l lease = (case bt_get (il_by_account l) (li_account lease) of
      None \<Rightarrow> l
    | Some table \<Rightarrow>
        let table = bt_remove (li_serial lease) table in
        if table = [] then l\<lparr>il_by_account := bt_remove (li_account lease) (il_by_account l)\<rparr>
        else l\<lparr>il_by_account := bt_insert (li_account lease) table (il_by_account l)\<rparr>)"

definition inflight :: "inflight_leases \<Rightarrow> u64 \<Rightarrow> string \<Rightarrow> u32" where
  "inflight l now account = (case bt_get (il_by_account l) account of
      None \<Rightarrow> 0
    | Some table \<Rightarrow>
        try_from_or (length (filter (\<lambda>(_, expires_at). now < expires_at) table)) u_max)"

definition apply_inflight_penalty :: "u16 \<Rightarrow> u32 \<Rightarrow> u64 option \<Rightarrow> u16" where
  "apply_inflight_penalty headroom n rate_limit =
     (let penalty = (case rate_limit of
            Some limit \<Rightarrow>
              if 0 < limit
              then min (try_from_or (unat (sat_mul (ucast n) 1000 div limit :: u64)) 1000) 1000
              else min (sat_mul n DEFAULT_INFLIGHT_DOCK_PERMILLE) 1000
          | None \<Rightarrow> min (sat_mul n DEFAULT_INFLIGHT_DOCK_PERMILLE) 1000);
          penalty = try_from_or (unat (penalty :: u32)) 1000
      in sat_sub headroom penalty)"

section \<open>Leases held\<close>

text \<open>The expiry of a lease that is held, live or not.\<close>

definition held :: "inflight_leases \<Rightarrow> lease_id \<Rightarrow> u64 option" where
  "held l i = bt_get (leases_of l (li_account i)) (li_serial i)"

definition unexpired :: "u64 \<Rightarrow> u64 option \<Rightarrow> u64 option" where
  "unexpired now e = (case e of None \<Rightarrow> None | Some t \<Rightarrow> if now < t then Some t else None)"

text \<open>The leases of an account that count at an instant.\<close>

definition live :: "(lease_id \<Rightarrow> u64 option) \<Rightarrow> u64 \<Rightarrow> string \<Rightarrow> lease_id set" where
  "live h now account = {i. li_account i = account \<and> unexpired now (h i) \<noteq> None}"

definition leases_ok :: "inflight_leases \<Rightarrow> bool" where
  "leases_ok l \<longleftrightarrow> bt_ok (il_by_account l) \<and> 0 < il_lease_ms l
     \<and> (\<forall>account. bt_ok (leases_of l account)
          \<and> (\<forall>s. bt_get (leases_of l account) s \<noteq> None \<longrightarrow> s < il_next_serial l))"

text \<open>
  What the tracker relies on: a grant holds one more lease, drops only expired ones, and a release
  ends exactly the lease it names.
\<close>

locale lease_service =
  fixes lend :: "'s \<Rightarrow> u64 \<Rightarrow> string \<Rightarrow> u64 \<Rightarrow> lease_id \<times> 's"
    and give_back :: "'s \<Rightarrow> lease_id \<Rightarrow> 's"
    and holds :: "'s \<Rightarrow> lease_id \<Rightarrow> u64 option"
    and expiry :: "'s \<Rightarrow> u64 \<Rightarrow> u64 \<Rightarrow> u64"
    and ok :: "'s \<Rightarrow> bool"
  assumes ok_lend: "ok s \<Longrightarrow> ok (snd (lend s now a life))"
    and ok_give_back: "ok s \<Longrightarrow> ok (give_back s i)"
    and holds_lend: "ok s \<Longrightarrow> holds (snd (lend s now a life)) i =
      (if i = fst (lend s now a life) then Some (expiry s now life)
       else if li_account i = a then unexpired now (holds s i) else holds s i)"
    and holds_give_back: "ok s \<Longrightarrow> holds (give_back s i) j = (if j = i then None else holds s j)"
    and lend_account: "li_account (fst (lend s now a life)) = a"
begin

lemma unexpired_later: "now \<le> later \<Longrightarrow> unexpired later (unexpired now e) = unexpired later e"
  by (auto simp: unexpired_def split: option.splits)

text \<open>Seen from an instant no earlier than the grant, only the new lease is added.\<close>

lemma unexpired_lend:
  "ok s \<Longrightarrow> now \<le> later \<Longrightarrow> unexpired later (holds (snd (lend s now a life)) i) =
      unexpired later (((holds s)(fst (lend s now a life) \<mapsto> expiry s now life)) i)"
  by (simp add: holds_lend unexpired_later)

lemma live_lend:
  "ok s \<Longrightarrow> now \<le> later \<Longrightarrow> later < expiry s now life \<Longrightarrow>
    live (holds (snd (lend s now a life))) later a
      = insert (fst (lend s now a life)) (live (holds s) later a)"
  by (auto simp: live_def unexpired_lend lend_account) (auto simp: unexpired_def)

lemma live_lend_other:
  "ok s \<Longrightarrow> now \<le> later \<Longrightarrow> b \<noteq> a \<Longrightarrow>
    live (holds (snd (lend s now a life))) later b = live (holds s) later b"
  by (auto simp: live_def unexpired_lend lend_account split: if_splits)

lemma live_give_back: "ok s \<Longrightarrow> live (holds (give_back s i)) now a = live (holds s) now a - {i}"
  by (auto simp: live_def holds_give_back unexpired_def)

text \<open>A granted lease that is given back leaves no trace.\<close>

lemma lend_give_back:
  "ok s \<Longrightarrow> now \<le> later \<Longrightarrow> holds s (fst (lend s now a life)) = None \<Longrightarrow>
    live (holds (give_back (snd (lend s now a life)) (fst (lend s now a life)))) later b
      = live (holds s) later b"
proof -
  let ?i = "fst (lend s now a life)"
  assume "ok s" and "now \<le> later" and "holds s ?i = None"
  then have "unexpired later (holds (give_back (snd (lend s now a life)) ?i) j)
      = unexpired later (holds s j)" for j
    by (cases "j = ?i") (simp_all add: holds_give_back ok_lend unexpired_lend)
  then show ?thesis by (simp add: live_def)
qed

text \<open>A lease that is never given back stops counting at its expiry.\<close>

lemma expired_not_live:
  "ok s \<Longrightarrow> expiry s now life \<le> later \<Longrightarrow> now \<le> later \<Longrightarrow>
    fst (lend s now a life) \<notin> live (holds (snd (lend s now a life))) later b"
  by (auto simp: live_def holds_lend unexpired_def not_less)

end

lemma bt_ok_filter: "bt_ok m \<Longrightarrow> bt_ok (filter P m)"
  by (simp add: bt_ok_def sorted_wrt_map sorted_wrt_filter)

lemma bt_get_filter:
  "bt_ok m \<Longrightarrow> bt_get (filter (\<lambda>(k, v). Q v) m) k
     = (case bt_get m k of None \<Rightarrow> None | Some v \<Rightarrow> if Q v then Some v else None)"
  by (induction m) (auto simp: bt_get_def bt_ok_Cons map_of_eq_None_iff split: option.splits dest: map_of_SomeD)

lemma leases_of_grant:
  "leases_of (snd (grant_for l now account lifetime)) a =
     (if a = account
      then bt_insert (il_next_serial l) (sat_add now (max lifetime (il_lease_ms l)))
        (filter (\<lambda>(_, e). now < e) (leases_of l account))
      else leases_of l a)"
  by (simp add: leases_of_def grant_for_def Let_def bt.get_put)

lemma leases_of_release:
  "leases_of (release l lease) a =
     (if a = li_account lease then bt_remove (li_serial lease) (leases_of l a) else leases_of l a)"
  by (auto simp: leases_of_def release_def Let_def bt.get_put bt.get_del split: option.splits)
    (simp add: bt_remove_def)

lemma leases_ok_new: "leases_ok (leases_new ms)"
  by (simp add: leases_ok_def leases_new_def leases_of_def bt.get_empty
      word_less_nat_alt unat_max)

definition table_ok :: "inflight_leases \<Rightarrow> bool" where
  "table_ok l \<longleftrightarrow> bt_ok (il_by_account l) \<and> (\<forall>account. bt_ok (leases_of l account))"

lemma table_ok_grant: "table_ok l \<Longrightarrow> table_ok (snd (grant_for l now account lifetime))"
  unfolding table_ok_def leases_of_grant
  by (auto simp: bt.ok_put bt_ok_filter) (simp add: grant_for_def Let_def bt.ok_put)

lemma table_ok_release: "table_ok l \<Longrightarrow> table_ok (release l i)"
  unfolding table_ok_def leases_of_release
  by (auto simp: bt.ok_del) (auto simp: release_def Let_def bt.ok_put bt.ok_del split: option.splits)

lemma table_ok_new [simp]: "table_ok (leases_new ms)"
  using leases_ok_new [of ms] by (simp add: leases_ok_def table_ok_def)

definition lease_expiry :: "inflight_leases \<Rightarrow> u64 \<Rightarrow> u64 \<Rightarrow> u64" where
  "lease_expiry l now lifetime = sat_add now (max lifetime (il_lease_ms l))"

interpretation lease: lease_service grant_for release held lease_expiry table_ok
proof
  show "li_account (fst (grant_for s now a life)) = a" for s now a life
    by (simp add: grant_for_def Let_def)
  have fst_grant: "fst (grant_for s now a life) = \<lparr>li_account = a, li_serial = il_next_serial s\<rparr>"
    for s now a life by (simp add: grant_for_def Let_def)
  show "held (snd (grant_for s now a life)) i =
      (if i = fst (grant_for s now a life) then Some (lease_expiry s now life)
       else if li_account i = a then unexpired now (held s i) else held s i)"
    if "table_ok s" for s now a life i
    using that unfolding fst_grant
    by (cases i)
      (auto simp: held_def leases_of_grant bt.get_put bt_get_filter table_ok_def lease_expiry_def
        unexpired_def split: option.splits)
  show "held (release s i) j = (if j = i then None else held s j)" if "table_ok s" for s i j
    by (cases i; cases j) (auto simp: held_def leases_of_release bt.get_del)
qed (simp_all add: table_ok_grant table_ok_release)

section \<open>Counting\<close>

abbreviation lease_of :: "string \<Rightarrow> u64 \<Rightarrow> lease_id" where
  "lease_of account s \<equiv> \<lparr>li_account = account, li_serial = s\<rparr>"

lemma live_serials:
  assumes "table_ok l"
  shows "live (held l) now account =
    lease_of account ` fst ` set (filter (\<lambda>(_, e). now < e) (leases_of l account))"
proof -
  have get: "bt_get (leases_of l account) s = Some e \<longleftrightarrow> (s, e) \<in> set (leases_of l account)" for s e
    using assms by (simp add: table_ok_def bt_get_Some_iff)
  have "i \<in> live (held l) now account \<longleftrightarrow>
      (\<exists>s e. i = lease_of account s \<and> (s, e) \<in> set (leases_of l account) \<and> now < e)" for i
    by (cases i) (auto simp: live_def held_def unexpired_def get [symmetric] split: option.splits)
  then show ?thesis by (force simp: image_iff)
qed

lemma inflight_count:
  assumes "table_ok l"
  shows "unat (inflight l now account) = min (card (live (held l) now account)) (2 ^ 32 - 1)"
proof -
  let ?live = "filter (\<lambda>(_, e). now < e) (leases_of l account)"
  have ok: "bt_ok ?live" using assms by (simp add: table_ok_def bt_ok_filter)
  have inj: "inj_on (lease_of account) S" for S by (simp add: inj_on_def)
  have "card (live (held l) now account) = card (set (map fst ?live))"
    unfolding live_serials [OF assms] by (simp add: card_image [OF inj])
  also have "\<dots> = length ?live"
    using distinct_card [OF bt_ok_distinct [OF ok]] by simp
  finally have card: "card (live (held l) now account) = length ?live" .
  show ?thesis unfolding card
    by (simp add: inflight_def leases_of_def sat_simps split: option.splits)
qed

section \<open>Histories of a lease table\<close>

datatype lease_event = Granted u64 string u64 | Returned lease_id

fun lease_step :: "lease_event \<Rightarrow> inflight_leases \<Rightarrow> inflight_leases" where
  "lease_step (Granted now account lifetime) l = snd (grant_for l now account lifetime)"
| "lease_step (Returned i) l = release l i"

text \<open>
  The abstract table: the number of grants so far and the expiry of every lease granted and
  not returned. Nothing is ever forgotten here because of its age.
\<close>

fun outstanding_step ::
  "u64 \<Rightarrow> lease_event \<Rightarrow> u64 \<times> (lease_id \<Rightarrow> u64 option) \<Rightarrow> u64 \<times> (lease_id \<Rightarrow> u64 option)" where
  "outstanding_step ms (Granted now account lifetime) (n, h) =
     (n + 1, h(\<lparr>li_account = account, li_serial = n\<rparr> \<mapsto> sat_add now (max lifetime ms)))"
| "outstanding_step ms (Returned i) (n, h) = (n, h(i := None))"

definition outstanding :: "u64 \<Rightarrow> lease_event list \<Rightarrow> lease_id \<Rightarrow> u64 option" where
  "outstanding ms es = snd (fold (outstanding_step ms) es (0, Map.empty))"

fun granted_by :: "u64 \<Rightarrow> lease_event \<Rightarrow> bool" where
  "granted_by now (Granted t _ _) = (t \<le> now)"
| "granted_by now (Returned _) = True"

definition table_sim :: "u64 \<Rightarrow> u64 \<Rightarrow> inflight_leases \<Rightarrow> u64 \<times> (lease_id \<Rightarrow> u64 option) \<Rightarrow> bool" where
  "table_sim now ms l s \<longleftrightarrow> table_ok l \<and> il_lease_ms l = ms \<and> il_next_serial l = fst s
     \<and> (\<forall>i. unexpired now (held l i) = unexpired now (snd s i))"

lemma table_sim_step:
  assumes "table_sim now ms l s" and "granted_by now e"
  shows "table_sim now ms (lease_step e l) (outstanding_step ms e s)"
proof (cases e)
  case (Granted t a life)
  have "il_next_serial (snd (grant_for l t a life)) = il_next_serial l + 1"
    "il_lease_ms (snd (grant_for l t a life)) = il_lease_ms l"
    "fst (grant_for l t a life) = \<lparr>li_account = a, li_serial = il_next_serial l\<rparr>"
    by (simp_all add: grant_for_def Let_def)
  then show ?thesis
    using assms Granted
    by (cases s) (auto simp: table_sim_def table_ok_grant lease.unexpired_lend lease_expiry_def)
next
  case (Returned i)
  have "il_next_serial (release l i) = il_next_serial l" "il_lease_ms (release l i) = il_lease_ms l"
    by (simp_all add: release_def Let_def split: option.splits)
  then show ?thesis
    using assms Returned
    by (cases s) (auto simp: table_sim_def table_ok_release lease.holds_give_back)
qed

lemma table_sim_run:
  "table_sim now ms l s \<Longrightarrow> list_all (granted_by now) es \<Longrightarrow>
    table_sim now ms (fold lease_step es l) (fold (outstanding_step ms) es s)"
proof (induction es arbitrary: l s)
  case (Cons e es)
  from Cons.prems have "table_sim now ms (lease_step e l) (outstanding_step ms e s)"
    by (auto intro: table_sim_step)
  with Cons show ?case by simp
qed simp

lemma table_sim_new: "table_sim now (max ms 1) (leases_new ms) (0, Map.empty)"
  by (simp add: table_sim_def) (simp add: leases_new_def held_def leases_of_def bt.get_empty)

section \<open>Fresh serials\<close>

lemma leases_ok_fresh: "leases_ok l \<Longrightarrow> held l (lease_of account (il_next_serial l)) = None"
  by (rule ccontr) (auto simp: held_def leases_ok_def)

lemma leases_ok_less: "leases_ok l \<Longrightarrow> bt_get (leases_of l a) s = Some e \<Longrightarrow> s < il_next_serial l"
  by (auto simp: leases_ok_def)

lemma less_succ_no_wrap:
  fixes n s :: u64
  assumes "n \<noteq> u_max" and "s \<le> n"
  shows "s < n + 1"
proof -
  have "unat n < 2 ^ 64 - 1"
    using assms(1) unat_bound [of n] by (auto simp: unat_inject [symmetric] unat_u_max)
  then have "unat (n + 1) = Suc (unat n)" using unat_add_lem [of n 1] by simp
  with assms(2) show ?thesis by (simp add: word_to_nat)
qed

lemma leases_ok_grant:
  assumes "leases_ok l" and "il_next_serial l \<noteq> u_max"
  shows "leases_ok (snd (grant_for l now account lifetime))"
proof -
  let ?l = "snd (grant_for l now account lifetime)"
  have serial: "il_next_serial ?l = il_next_serial l + 1" "il_lease_ms ?l = il_lease_ms l"
    by (simp_all add: grant_for_def Let_def)
  have table: "table_ok ?l"
    using assms(1) by (intro table_ok_grant) (simp add: leases_ok_def table_ok_def)
  have "s \<le> il_next_serial l" if "bt_get (leases_of ?l a) s \<noteq> None" for a s
    using that leases_ok_less [OF assms(1)] assms(1) [unfolded leases_ok_def]
    by (auto simp: leases_of_grant bt.get_put bt_get_filter
        split: if_splits option.splits intro: order.strict_implies_order)
  with less_succ_no_wrap [OF assms(2)] table assms(1) show ?thesis
    by (simp add: leases_ok_def table_ok_def serial)
qed

lemma leases_ok_release: "leases_ok l \<Longrightarrow> leases_ok (release l i)"
proof -
  assume ok: "leases_ok l"
  have same: "il_next_serial (release l i) = il_next_serial l" "il_lease_ms (release l i) = il_lease_ms l"
    by (simp_all add: release_def Let_def split: option.splits)
  have "table_ok (release l i)"
    using ok by (intro table_ok_release) (simp add: leases_ok_def table_ok_def)
  moreover have "s < il_next_serial l" if "bt_get (leases_of (release l i) a) s \<noteq> None" for a s
    using that ok by (auto simp: leases_of_release leases_ok_def bt.get_del split: if_splits)
  ultimately show ?thesis using ok by (simp add: leases_ok_def table_ok_def same)
qed

text \<open>Serials are never reused before the \<open>u64\<close> counter wraps.\<close>

lemma leases_ok_history:
  "length es < 2 ^ 64 \<Longrightarrow> leases_ok (fold lease_step es (leases_new ms))
     \<and> unat (il_next_serial (fold lease_step es (leases_new ms))) \<le> length es"
proof (induction es rule: rev_induct)
  case Nil
  show ?case by (simp add: leases_ok_new) (simp add: leases_new_def)
next
  case (snoc e es)
  let ?l = "fold lease_step es (leases_new ms)"
  have ok: "leases_ok ?l" and le: "unat (il_next_serial ?l) \<le> length es"
    and len: "length es < 2 ^ 64 - 1" using snoc by auto
  show ?case
  proof (cases e)
    case (Granted t a life)
    have "il_next_serial ?l \<noteq> u_max"
      using le len by (auto simp: unat_inject [symmetric] unat_u_max)
    moreover have "unat (il_next_serial ?l + 1) \<le> Suc (unat (il_next_serial ?l))"
      by (simp add: unat_word_ariths)
    ultimately show ?thesis using Granted ok le leases_ok_grant
      by (simp add: grant_for_def Let_def) 
  next
    case (Returned i)
    then show ?thesis using ok le
      by (simp add: leases_ok_release) (simp add: release_def Let_def split: option.splits)
  qed
qed

section \<open>Properties\<close>

text \<open>
  C30. For any history of grants and releases (none granted after \<open>now\<close>), the table's in-flight
  count of an account is the number of leases of the abstract history that were granted to it, not
  released and not expired at \<open>now\<close>, clamped to a \<open>u32\<close>. The table may drop expired leases when it
  likes; the count never shows it, a released lease never counts, and a lost one stops counting at
  its expiry.
\<close>

theorem lease_table_exact:
  assumes "list_all (granted_by now) es"
  shows "unat (inflight (fold lease_step es (leases_new ms)) now account) =
    min (card (live (outstanding (max ms 1) es) now account)) (2 ^ 32 - 1)"
proof -
  have "table_sim now (max ms 1) (fold lease_step es (leases_new ms))
      (fold (outstanding_step (max ms 1)) es (0, Map.empty))"
    by (rule table_sim_run [OF table_sim_new assms])
  then show ?thesis
    by (simp add: inflight_count table_sim_def live_def outstanding_def)
qed

lemma lease_table_exact_witness:
  "unat (inflight (fold lease_step [Granted 5 ''a'' 10, Granted 6 ''a'' 10] (leases_new 3)) 7 ''a'') =
    min (card (live (outstanding (max 3 1) [Granted 5 ''a'' 10, Granted 6 ''a'' 10]) 7 ''a'')) (2 ^ 32 - 1)"
  by (rule lease_table_exact) (simp add: word_to_nat)

text \<open>
  After fewer than \<open>2 ^ 64\<close> operations, granting a lease and releasing it leaves every account's
  in-flight count, at every later instant, as it was: the fresh serial collides with no lease
  that is out, so a release never ends another request's lease.
\<close>

theorem grant_release_roundtrip:
  assumes "length es < 2 ^ 64" and "l = fold lease_step es (leases_new ms)" and "now \<le> later"
  shows "inflight (release (snd (grant_for l now account lifetime))
      (fst (grant_for l now account lifetime))) later other = inflight l later other"
proof -
  have ok: "leases_ok l" using leases_ok_history [of es ms] assms(1,2) by simp
  then have table: "table_ok l" by (simp add: leases_ok_def table_ok_def)
  have "held l (fst (grant_for l now account lifetime)) = None"
    using leases_ok_fresh [OF ok] by (simp add: grant_for_def Let_def)
  from lease.lend_give_back [OF table assms(3) this] show ?thesis
    using inflight_count table by (simp add: unat_inject [symmetric] table_ok_grant table_ok_release)
qed

lemma grant_release_roundtrip_witness:
  "inflight (release (snd (grant_for (leases_new 5) 10 ''a'' 7)) (fst (grant_for (leases_new 5) 10 ''a'' 7)))
     12 ''a'' = inflight (leases_new 5) 12 ''a''"
  by (rule grant_release_roundtrip [of "[]" _ 5]) (simp_all add: word_le_nat_alt)

text \<open>
  The in-flight penalty in exact arithmetic: 100 permille a request, or the share of a positive
  per-minute limit already in flight, at most 1000, and the headroom stops at zero. None of the
  code's saturations and clamps changes the result.
\<close>

theorem inflight_penalty_exact:
  "unat (apply_inflight_penalty headroom n rate_limit) = unat headroom - min 1000
     (case rate_limit of None \<Rightarrow> unat n * 100
      | Some limit \<Rightarrow> if limit = 0 then unat n * 100 else unat n * 1000 div unat limit)"
proof -
  have flat: "unat (min (sat_mul n DEFAULT_INFLIGHT_DOCK_PERMILLE) 1000) = min 1000 (unat n * 100)"
    by (simp add: unat_min sat_simps DEFAULT_INFLIGHT_DOCK_PERMILLE_def)
  have n: "unat n < 2 ^ 32" using unat_lt [of n] by simp
  have scaled: "unat (min (try_from_or (unat (sat_mul (ucast n) 1000 div limit :: u64)) 1000) 1000 :: u32)
      = min 1000 (unat n * 1000 div unat limit)" for limit :: u64
  proof -
    have "unat (sat_mul (ucast n) 1000 :: u64) = unat n * 1000"
      using n by (simp add: sat_simps unsigned_ucast_eq take_bit_nat_eq_self)
    then show ?thesis by (simp add: unat_min unat_try_from_or unat_div_distrib min.commute)
  qed
  show ?thesis
    by (cases rate_limit)
      (simp_all add: apply_inflight_penalty_def Let_def sat_simps unat_try_from_or flat scaled
        word_less_nat_alt unat_eq_0 not_less del: unat_gt_0)
qed

end
