(* ===== verification/Ledger.thy ===== *)
theory Ledger
  imports Quota "HOL-Library.Multiset"
begin

text \<open>
  Self-counted quota, \<open>apps/cli/src/quota_ledger.rs\<close>: a sliding window kept in two buckets and the
  per-account ledger over several of them. The \<open>u128\<close> products of the code are products of
  natural numbers here; they are below \<open>2 ^ 128\<close> by the bounds of their \<open>u64\<close> factors.
\<close>

definition RATE_WINDOW_MS :: u64 where "RATE_WINDOW_MS = 60000"
definition RATE_PRESSURE_PERMILLE :: u16 where "RATE_PRESSURE_PERMILLE = 100"

section \<open>Sliding windows\<close>

record sliding_window =
  sw_len_ms :: u64
  sw_limit :: u64
  sw_index :: u64
  sw_curr :: u64
  sw_prev :: u64

definition sliding_window_new :: "u64 \<Rightarrow> u64 \<Rightarrow> sliding_window" where
  "sliding_window_new len limit =
     \<lparr>sw_len_ms = max len 1, sw_limit = limit, sw_index = 0, sw_curr = 0, sw_prev = 0\<rparr>"

definition index_at :: "sliding_window \<Rightarrow> u64 \<Rightarrow> u64" where
  "index_at w now = now div sw_len_ms w"

definition sw_advance :: "sliding_window \<Rightarrow> u64 \<Rightarrow> sliding_window" where
  "sw_advance w now =
     (let idx = index_at w now in
      if idx \<le> sw_index w then w
      else w\<lparr>sw_prev := (if Some idx = checked_add (sw_index w) 1 then sw_curr w else 0),
             sw_curr := 0, sw_index := idx\<rparr>)"

definition sw_record :: "sliding_window \<Rightarrow> u64 \<Rightarrow> u64 \<Rightarrow> sliding_window" where
  "sw_record w now amount =
     (let w = sw_advance w now; index = index_at w now in
      if index = sw_index w then w\<lparr>sw_curr := sat_add (sw_curr w) amount\<rparr>
      else if checked_add index 1 = Some (sw_index w)
        then w\<lparr>sw_prev := sat_add (sw_prev w) amount\<rparr>
      else w)"

definition effective_used :: "sliding_window \<Rightarrow> u64 \<Rightarrow> u64" where
  "effective_used w now =
     (let idx = index_at w now in
      if idx < sw_index w then sat_add (sw_curr w) (sw_prev w)
      else
        let (curr, prev) =
              (if idx = sw_index w then (sw_curr w, sw_prev w)
               else if Some idx = checked_add (sw_index w) 1 then (0, sw_curr w)
               else (0, 0));
            bucket_start = sat_mul idx (sw_len_ms w);
            elapsed = min (sat_sub now bucket_start) (sw_len_ms w);
            prev_weight = sw_len_ms w - elapsed;
            prev_contribution =
              try_from_or (unat prev * unat prev_weight div unat (sw_len_ms w)) prev
        in sat_add curr prev_contribution)"

definition remaining_permille_at :: "sliding_window \<Rightarrow> u64 \<Rightarrow> u16" where
  "remaining_permille_at w now =
     (if sw_limit w = 0 then 0
      else
        let used = min (effective_used w now) (sw_limit w);
            remaining = sw_limit w - used
        in try_from_or (unat remaining * 1000 div unat (sw_limit w)) 1000)"

definition ms_until_reset_at :: "sliding_window \<Rightarrow> u64 \<Rightarrow> u64" where
  "ms_until_reset_at w now = sat_mul (sat_add (index_at w now) 1) (sw_len_ms w) - now"

record window_snapshot =
  ws_len_ms :: u64
  ws_limit :: u64
  ws_used :: u64
  ws_remaining_permille :: u16
  ws_ms_until_reset :: u64

definition window_snapshot_of :: "sliding_window \<Rightarrow> u64 \<Rightarrow> window_snapshot" where
  "window_snapshot_of w now = \<lparr>ws_len_ms = sw_len_ms w, ws_limit = sw_limit w,
     ws_used = min (effective_used w now) (sw_limit w),
     ws_remaining_permille = remaining_permille_at w now,
     ws_ms_until_reset = ms_until_reset_at w now\<rparr>"

section \<open>Account ledgers\<close>

record account_ledger =
  al_windows :: "sliding_window list"
  al_rate :: "sliding_window option"

definition ledger_new :: "sliding_window list \<Rightarrow> u64 option \<Rightarrow> account_ledger" where
  "ledger_new ws rate_limit_per_min = \<lparr>al_windows = ws,
     al_rate = map_option (sliding_window_new RATE_WINDOW_MS) rate_limit_per_min\<rparr>"

definition ledger_non_windowed :: "u64 option \<Rightarrow> account_ledger" where
  "ledger_non_windowed rate_limit_per_min = ledger_new [] rate_limit_per_min"

definition ledger_record :: "account_ledger \<Rightarrow> u64 \<Rightarrow> u64 \<Rightarrow> account_ledger" where
  "ledger_record l now amount =
     l\<lparr>al_windows := map (\<lambda>w. sw_record w now amount) (al_windows l),
       al_rate := map_option (\<lambda>r. sw_record r now 1) (al_rate l)\<rparr>"

text \<open>\<open>Iterator::min_by_key\<close>: the first of the least elements.\<close>

fun min_by_key :: "('a \<Rightarrow> 'k::linorder) \<Rightarrow> 'a list \<Rightarrow> 'a option" where
  "min_by_key f [] = None"
| "min_by_key f (x # xs) = (case min_by_key f xs of
      None \<Rightarrow> Some x
    | Some y \<Rightarrow> if f y < f x then Some y else Some x)"

definition ledger_rate_headroom :: "account_ledger \<Rightarrow> u64 \<Rightarrow> u16" where
  "ledger_rate_headroom l now =
     (case al_rate l of None \<Rightarrow> 1000 | Some r \<Rightarrow> remaining_permille_at r now)"

definition ledger_quota_state :: "account_ledger \<Rightarrow> u64 \<Rightarrow> quota_state" where
  "ledger_quota_state l now =
     (let reset = map_option (\<lambda>w. \<lparr>ms_until_reset = ms_until_reset_at w now,
            remaining_permille = remaining_permille_at w now\<rparr>)
            (min_by_key (\<lambda>w. ms_until_reset_at w now) (al_windows l));
          exhausted = list_ex (\<lambda>w. remaining_permille_at w now = 0) (al_windows l);
          headroom = (case al_rate l of None \<Rightarrow> 1000 | Some r \<Rightarrow> remaining_permille_at r now)
      in \<lparr>qs_reset = reset, qs_rate_headroom_permille = headroom,
          qs_rate_pressured = headroom \<le> RATE_PRESSURE_PERMILLE, qs_exhausted = exhausted\<rparr>)"

definition ledger_window_snapshots :: "account_ledger \<Rightarrow> u64 \<Rightarrow> window_snapshot list" where
  "ledger_window_snapshots l now = map (\<lambda>w. window_snapshot_of w now) (al_windows l)"

definition same_window :: "sliding_window \<Rightarrow> sliding_window \<Rightarrow> bool" where
  "same_window a b \<longleftrightarrow> sw_len_ms a = sw_len_ms b \<and> sw_limit a = sw_limit b"

definition compatible_with :: "account_ledger \<Rightarrow> account_ledger \<Rightarrow> bool" where
  "compatible_with l expected \<longleftrightarrow>
     length (al_windows l) = length (al_windows expected)
     \<and> list_all (\<lambda>(a, b). same_window a b) (zip (al_windows l) (al_windows expected))
     \<and> (case (al_rate l, al_rate expected) of
          (Some a, Some b) \<Rightarrow> same_window a b
        | (None, None) \<Rightarrow> True
        | _ \<Rightarrow> False)"

section \<open>Buckets as clamped sums\<close>

text \<open>
  The abstract window: the greatest bucket in which anything was recorded and, for it and the
  one before, the amount recorded there, clamped to a \<open>u64\<close>. \<open>bucket_step\<close> counts one amount.
\<close>

abbreviation clamp64 :: "nat \<Rightarrow> nat" where "clamp64 n \<equiv> min n (2 ^ 64 - 1)"

definition bucket_step :: "nat \<Rightarrow> nat \<Rightarrow> nat \<times> nat \<times> nat \<Rightarrow> nat \<times> nat \<times> nat" where
  "bucket_step b a s = (case s of (i, c, p) \<Rightarrow>
     if i < b then (b, clamp64 a, if b = Suc i then c else 0)
     else if b = i then (i, clamp64 (c + a), p)
     else if Suc b = i then (i, c, clamp64 (p + a))
     else s)"

definition buckets :: "sliding_window \<Rightarrow> nat \<times> nat \<times> nat" where
  "buckets w = (unat (sw_index w), unat (sw_curr w), unat (sw_prev w))"

definition bucket_of :: "sliding_window \<Rightarrow> u64 \<Rightarrow> nat" where
  "bucket_of w now = unat now div unat (sw_len_ms w)"

lemma unat_index_at: "unat (index_at w now) = bucket_of w now"
  by (simp add: index_at_def bucket_of_def unat_div_distrib)

lemma checked_succ_iff: "Some b = checked_add a 1 \<longleftrightarrow> unat b = Suc (unat a)"
    "checked_add a 1 = Some b \<longleftrightarrow> unat b = Suc (unat a)" for a b :: u64
  using checked_add_Some_iff [of a 1 b] by auto

lemma unat_clamp64: "min (unat a) 18446744073709551615 = unat a" for a :: u64
  using unat_bound [of a] by simp

lemma sw_record_fixed [simp]:
  "sw_len_ms (sw_record w now a) = sw_len_ms w" "sw_limit (sw_record w now a) = sw_limit w"
  by (simp_all add: sw_record_def sw_advance_def Let_def)

lemma bucket_of_record [simp]: "bucket_of (sw_record w now a) t = bucket_of w t"
  by (simp add: bucket_of_def)

text \<open>The code's \<open>record\<close> refines the abstract step.\<close>

lemma buckets_record:
  "buckets (sw_record w now a) = bucket_step (bucket_of w now) (unat a) (buckets w)"
  by (auto simp: buckets_def bucket_step_def sw_record_def sw_advance_def Let_def index_at_def
      sat_simps checked_succ_iff word_to_nat bucket_of_def unat_div_distrib unat_inject [symmetric]
      unat_clamp64)

text \<open>The steps commute, so the order in which amounts arrive does not matter.\<close>

lemma clamp_add_commute: "min (min (x + y) m + z) m = min (min (x + z) m + y) m" for m :: nat
  by (simp add: min_add_clamp add_ac)

lemma bucket_step_commute_less:
  assumes "b < b'"
  shows "bucket_step b a (bucket_step b' a' (i, c, p)) = bucket_step b' a' (bucket_step b a (i, c, p))"
proof -
  consider "i < b" | "b = i" | "Suc b = i" | "Suc b < i" by linarith
  then show ?thesis
    using assms
    by cases (auto simp: bucket_step_def min_add_clamp clamp_add_commute)
qed

lemma bucket_step_commute:
  "bucket_step b a (bucket_step b' a' s) = bucket_step b' a' (bucket_step b a s)"
proof (cases s)
  case (fields i c p)
  consider "b < b'" | "b' < b" | "b = b'" by linarith
  then show ?thesis
  proof cases
    case 1
    then show ?thesis unfolding fields by (rule bucket_step_commute_less)
  next
    case 2
    then show ?thesis unfolding fields by (rule bucket_step_commute_less [symmetric])
  next
    case 3
    consider "i < b" | "b = i" | "Suc b = i" | "Suc b < i" by linarith
    then show ?thesis
      using 3 by cases (simp_all add: fields bucket_step_def min_add_clamp add_ac)
  qed
qed

section \<open>Counters that do not depend on arrival order\<close>

locale order_free_counter =
  fixes rec :: "'e \<Rightarrow> 's \<Rightarrow> 's"
  assumes commute: "rec e (rec e' s) = rec e' (rec e s)"
begin

lemma fold_rec_commute: "fold rec es (rec e s) = rec e (fold rec es s)"
proof (induction es arbitrary: s)
  case (Cons e' es)
  have "fold rec (e' # es) (rec e s) = fold rec es (rec e (rec e' s))"
    by (simp add: commute [of e' e])
  then show ?case by (simp add: Cons.IH)
qed simp

lemma fold_rec_remove1: "e \<in> set es \<Longrightarrow> fold rec es s = fold rec (remove1 e es) (rec e s)"
proof (induction es arbitrary: s)
  case (Cons a es)
  then show ?case by (cases "e = a") (simp_all add: commute [of a e])
qed simp

lemma fold_rec_permute: "mset es = mset es' \<Longrightarrow> fold rec es s = fold rec es' s"
proof (induction es arbitrary: es' s)
  case (Cons e es)
  then have "e \<in> set es'" and "mset es = mset (remove1 e es')"
    by (metis list.set_intros(1) mset_eq_setD) (metis Cons.prems mset_remove1 add_mset_remove_trivial mset.simps(2))
  with Cons.IH [of "remove1 e es'" "rec e s"] show ?case
    by (simp add: fold_rec_remove1 [of e es'])
qed simp

end

lemma sliding_window_eqI:
  fixes w w' :: sliding_window
  assumes "buckets w = buckets w'" and "sw_len_ms w = sw_len_ms w'" and "sw_limit w = sw_limit w'"
  shows "w = w'"
  using assms by (simp add: buckets_def unat_inject)

interpretation window_counter: order_free_counter "\<lambda>(now, a) w. sw_record w now a"
proof (unfold_locales, clarify)
  fix now a now' a' and w :: sliding_window
  show "sw_record (sw_record w now' a') now a = sw_record (sw_record w now a) now' a'"
    by (rule sliding_window_eqI) (simp_all add: buckets_record bucket_step_commute)
qed

interpretation ledger_counter: order_free_counter "\<lambda>(now, a) l. ledger_record l now a"
proof (unfold_locales, clarify)
  fix now a now' a' and l :: account_ledger
  have "sw_record (sw_record w now' b') now b = sw_record (sw_record w now b) now' b'" for w b b'
    using window_counter.commute [of "(now, b)" "(now', b')" w] by simp
  then show "ledger_record (ledger_record l now' a') now a = ledger_record (ledger_record l now a) now' a'"
    by (simp add: ledger_record_def option.map_comp comp_def)
qed

text \<open>What is in each bucket after a list of events.\<close>

definition amount_in :: "nat \<Rightarrow> u64 \<Rightarrow> (u64 \<times> u64) list \<Rightarrow> nat" where
  "amount_in b len es = sum_list (map (\<lambda>(_, a). unat a) (filter (\<lambda>(t, _). unat t div unat len = b) es))"

definition last_bucket :: "u64 \<Rightarrow> (u64 \<times> u64) list \<Rightarrow> nat" where
  "last_bucket len es = Max (insert 0 ((\<lambda>(t, _). unat t div unat len) ` set es))"

definition record_all :: "(u64 \<times> u64) list \<Rightarrow> sliding_window \<Rightarrow> sliding_window" where
  "record_all es w = fold (\<lambda>(now, a) w. sw_record w now a) es w"

lemma record_all_fixed [simp]:
  "sw_len_ms (record_all es w) = sw_len_ms w" "sw_limit (record_all es w) = sw_limit w"
  unfolding record_all_def
  by (rule fold_observe_same [where ob = sw_len_ms], auto)
    (rule fold_observe_same [where ob = sw_limit], auto)

lemma amount_in_snoc:
  "amount_in b len (es @ [(t, a)]) = amount_in b len es + (if unat t div unat len = b then unat a else 0)"
  by (simp add: amount_in_def)

lemma last_bucket_snoc:
  "last_bucket len (es @ [(t, a)]) = max (last_bucket len es) (unat t div unat len)"
proof -
  let ?f = "\<lambda>(t, _ :: u64). unat t div unat len"
  have "insert 0 (?f ` set (es @ [(t, a)])) = insert (?f (t, a)) (insert 0 (?f ` set es))" by auto
  then have "last_bucket len (es @ [(t, a)]) = max (?f (t, a)) (last_bucket len es)"
    unfolding last_bucket_def by (simp only:) (subst Max_insert, auto)
  then show ?thesis by (simp add: max.commute)
qed

lemma amount_in_later: "last_bucket len es < b \<Longrightarrow> amount_in b len es = 0"
  by (induction es rule: rev_induct) (auto simp: amount_in_snoc last_bucket_snoc, simp add: amount_in_def)

lemma max_1_pos: "0 < len \<Longrightarrow> max len 1 = len" for len :: u64
  by (rule max_absorb1) (simp add: word_le_nat_alt word_less_nat_alt)

lemma buckets_record_all:
  assumes "0 < len"
  shows "buckets (record_all es (sliding_window_new len limit)) =
    (last_bucket len es, clamp64 (amount_in (last_bucket len es) len es),
     if last_bucket len es = 0 then 0 else clamp64 (amount_in (last_bucket len es - 1) len es))"
proof (induction es rule: rev_induct)
  case Nil
  show ?case by (simp add: record_all_def sliding_window_new_def buckets_def last_bucket_def amount_in_def)
next
  case (snoc e es)
  obtain t a where e: "e = (t, a)" by fastforce
  have len: "bucket_of (record_all es (sliding_window_new len limit)) t = unat t div unat len"
    using assms by (simp add: bucket_of_def sliding_window_new_def max_1_pos)
  let ?i = "last_bucket len es" and ?b = "unat t div unat len"
  have step: "buckets (record_all (es @ [(t, a)]) (sliding_window_new len limit)) =
      bucket_step ?b (unat a) (buckets (record_all es (sliding_window_new len limit)))"
    by (simp add: record_all_def buckets_record len [unfolded record_all_def])
  consider "?i < ?b" | "?b = ?i" | "Suc ?b = ?i" | "Suc ?b < ?i" by linarith
  then show ?case
    unfolding e step snoc.IH
    by cases (auto simp: bucket_step_def last_bucket_snoc amount_in_snoc min_add_clamp amount_in_later)
qed

section \<open>Effective use\<close>

text \<open>The share of the previous bucket that still counts at \<open>t\<close>.\<close>

definition decayed :: "nat \<Rightarrow> nat \<Rightarrow> nat \<Rightarrow> nat" where
  "decayed len p t = p * (len - t mod len) div len"

lemma decayed_le: "decayed len p t \<le> p"
proof (cases "len = 0")
  case False
  have "p * (len - t mod len) div len \<le> p * len div len"
    by (intro div_le_mono mult_le_mono2) simp
  with False show ?thesis by (simp add: decayed_def)
qed (simp add: decayed_def)

lemma decayed_mono: "t mod len \<le> t' mod len \<Longrightarrow> decayed len p t' \<le> decayed len p t"
  unfolding decayed_def by (intro div_le_mono mult_le_mono2) simp

lemma decayed_0 [simp]: "decayed len 0 t = 0"
  by (simp add: decayed_def)

lemma unat_effective_used:
  assumes "0 < sw_len_ms w"
  shows "unat (effective_used w now) =
    (let i = unat (sw_index w); c = unat (sw_curr w); p = unat (sw_prev w);
         b = bucket_of w now; len = unat (sw_len_ms w)
     in if b < i then clamp64 (c + p)
        else if b = i then clamp64 (c + decayed len p (unat now))
        else if b = Suc i then decayed len c (unat now)
        else 0)"
proof -
  let ?len = "unat (sw_len_ms w)" and ?t = "unat now"
  have len: "0 < ?len" using assms by (simp add: word_less_nat_alt)
  have start: "unat (sat_mul (index_at w now) (sw_len_ms w)) = ?t div ?len * ?len"
  proof -
    have "?t div ?len * ?len \<le> ?t" by simp
    also have "\<dots> \<le> 2 ^ 64 - 1" using unat_bound [of now] by simp
    finally show ?thesis by (simp add: unat_sat_mul unat_index_at bucket_of_def)
  qed
  have "unat (min (sat_sub now (sat_mul (index_at w now) (sw_len_ms w))) (sw_len_ms w)) = ?t mod ?len"
    using len mod_less_divisor [OF len, of ?t]
    by (simp add: unat_min unat_sat_sub start minus_div_mult_eq_mod)
  then have weight: "unat (sw_len_ms w - min (sat_sub now (sat_mul (index_at w now) (sw_len_ms w)))
      (sw_len_ms w)) = ?len - ?t mod ?len"
    by (simp add: unat_sub)
  have part: "unat (try_from_or (unat p * unat (sw_len_ms w
      - min (sat_sub now (sat_mul (index_at w now) (sw_len_ms w))) (sw_len_ms w)) div ?len) p)
      = decayed ?len (unat p) ?t" for p :: u64
    using decayed_le [of ?len "unat p" ?t] unat_lt [of p]
    by (simp add: unat_try_from_or weight decayed_def)
  have clamp: "clamp64 (decayed ?len (unat p) ?t) = decayed ?len (unat p) ?t" for p :: u64
    using decayed_le [of ?len "unat p" ?t] unat_bound [of p] by simp
  have zero: "unat (try_from_or 0 0 :: u64) = 0" by (simp add: unat_try_from_or)
  show ?thesis
    unfolding effective_used_def Let_def
    by (auto simp: word_less_nat_alt unat_index_at unat_sat_add part clamp checked_succ_iff zero
        word_unat_eq_iff [where 'a = 64])
qed

lemma effective_used_antimono:
  assumes "0 < sw_len_ms w" and "t \<le> t'"
  shows "effective_used w t' \<le> effective_used w t"
proof -
  let ?len = "unat (sw_len_ms w)"
  let ?c = "unat (sw_curr w)" and ?p = "unat (sw_prev w)"
  have le: "unat t \<le> unat t'" using assms(2) by (simp add: word_le_nat_alt)
  then have b: "bucket_of w t \<le> bucket_of w t'" by (simp add: bucket_of_def div_le_mono)
  have same: "unat t mod ?len \<le> unat t' mod ?len" if "bucket_of w t = bucket_of w t'"
    using that le by (metis bucket_of_def add_le_cancel_left div_mult_mod_eq)
  have c: "?c \<le> 2 ^ 64 - 1" and d: "decayed ?len q x \<le> q" for q x
    using unat_bound [of "sw_curr w"] by (simp_all add: decayed_le)
  have m: "decayed ?len q (unat t') \<le> decayed ?len q (unat t)" if "bucket_of w t = bucket_of w t'" for q
    using decayed_mono [OF same [OF that]] .
  have dc: "decayed ?len ?c x \<le> clamp64 (?c + y)" for x y
    using d [of ?c x] c by simp
  show ?thesis
    unfolding word_le_nat_alt unat_effective_used [OF assms(1)] Let_def
    using b m d [of ?p] dc
    by (auto intro!: min.coboundedI1 add_left_mono)
qed

section \<open>Remaining allowance and reset\<close>

lemma unat_remaining:
  "unat (remaining_permille_at w now) =
     (if sw_limit w = 0 then 0
      else (unat (sw_limit w) - unat (effective_used w now)) * 1000 div unat (sw_limit w))"
proof (cases "sw_limit w = 0")
  case False
  let ?l = "unat (sw_limit w)" and ?u = "unat (effective_used w now)"
  from False have l: "0 < ?l" by (simp add: word_less_nat_alt unat_gt_0)
  have rem: "unat (sw_limit w - min (effective_used w now) (sw_limit w)) = ?l - ?u"
    by (simp add: unat_sub min_def word_le_nat_alt)
  have "(?l - ?u) * 1000 div ?l \<le> ?l * 1000 div ?l" by (intro div_le_mono mult_le_mono1) simp
  with l have "(?l - ?u) * 1000 div ?l \<le> 1000" by simp
  with False rem show ?thesis
    by (simp add: remaining_permille_at_def Let_def unat_try_from_or)
qed (simp add: remaining_permille_at_def)

lemma remaining_le_1000: "remaining_permille_at w now \<le> 1000"
proof (cases "sw_limit w = 0")
  case False
  then have l: "0 < unat (sw_limit w)" by (simp add: unat_gt_0)
  have "(unat (sw_limit w) - unat (effective_used w now)) * 1000 div unat (sw_limit w)
      \<le> unat (sw_limit w) * 1000 div unat (sw_limit w)"
    by (intro div_le_mono mult_le_mono1) simp
  with l False show ?thesis by (simp add: word_le_nat_alt unat_remaining)
qed (simp add: remaining_permille_at_def)

lemma remaining_0_iff:
  "remaining_permille_at w now = 0 \<longleftrightarrow>
     (unat (sw_limit w) - unat (effective_used w now)) * 1000 < unat (sw_limit w) \<or> sw_limit w = 0"
proof (cases "sw_limit w = 0")
  case False
  then have l: "0 < unat (sw_limit w)" by (simp add: unat_gt_0)
  have "remaining_permille_at w now = 0 \<longleftrightarrow> unat (remaining_permille_at w now) = 0"
    by (simp add: unat_eq_0)
  also have "\<dots> \<longleftrightarrow> (unat (sw_limit w) - unat (effective_used w now)) * 1000 < unat (sw_limit w)"
    using l False by (simp add: unat_remaining div_eq_0_iff)
  finally show ?thesis using False by simp
qed (simp add: remaining_permille_at_def)

lemma bucket_split:
  "unat now = bucket_of w now * unat (sw_len_ms w) + unat now mod unat (sw_len_ms w)"
  by (simp add: bucket_of_def)

lemma unat_ms_until_reset:
  assumes "0 < sw_len_ms w"
    and "(bucket_of w now + 1) * unat (sw_len_ms w) < 2 ^ 64"
  shows "unat (ms_until_reset_at w now) = unat (sw_len_ms w) - unat now mod unat (sw_len_ms w)"
proof -
  let ?len = "unat (sw_len_ms w)" and ?b = "bucket_of w now"
  have len: "0 < ?len" using assms(1) by (simp add: word_less_nat_alt)
  have "(?b + 1) * 1 \<le> (?b + 1) * ?len" using len by (intro mult_le_mono2) simp
  then have b: "unat (sat_add (index_at w now) 1) = ?b + 1"
    using assms(2) by (simp add: unat_sat_add unat_index_at)
  have stop: "unat (sat_mul (sat_add (index_at w now) 1) (sw_len_ms w)) = (?b + 1) * ?len"
    using assms(2) by (simp only: unat_sat_mul b) simp
  have split: "unat now = ?b * ?len + unat now mod ?len" by (simp add: bucket_of_def)
  moreover have "unat now mod ?len < ?len" using len by simp
  moreover have expand: "(?b + 1) * ?len = ?b * ?len + ?len" by (simp add: algebra_simps)
  ultimately have le: "unat now \<le> (?b + 1) * ?len" by linarith
  then have "unat (ms_until_reset_at w now) = (?b + 1) * ?len - unat now"
    by (simp add: ms_until_reset_at_def unat_sub word_le_nat_alt stop del: One_nat_def)
  with split expand show ?thesis by linarith
qed

section \<open>Properties\<close>

text \<open>
  C26. The two-bucket counter is exact, whatever the order in which settlements arrive. After
  recording any events in a fresh window, what it reports as used at a time in bucket \<open>b\<close>, not
  before the last recorded bucket, is the amount recorded in \<open>b\<close> plus the amount of bucket \<open>b - 1\<close>
  weighted by how much of the window it still covers, each clamped to a \<open>u64\<close>; permuting the events
  changes nothing, and everything older has aged out without a timer.
\<close>

theorem sliding_window_exact:
  assumes "0 < len" and "last_bucket len es \<le> unat now div unat len" and "0 < unat now div unat len"
    and "mset es' = mset es"
  shows "unat (effective_used (record_all es (sliding_window_new len limit)) now) =
      clamp64 (clamp64 (amount_in (unat now div unat len) len es)
        + decayed (unat len) (clamp64 (amount_in (unat now div unat len - 1) len es)) (unat now))
    \<and> record_all es' (sliding_window_new len limit) = record_all es (sliding_window_new len limit)"
proof
  let ?w = "record_all es (sliding_window_new len limit)" and ?i = "last_bucket len es"
  let ?b = "unat now div unat len"
  have len: "sw_len_ms ?w = len" using assms(1) by (simp add: sliding_window_new_def max_1_pos)
  have bk: "buckets ?w = (?i, clamp64 (amount_in ?i len es),
      if ?i = 0 then 0 else clamp64 (amount_in (?i - 1) len es))"
    by (rule buckets_record_all [OF assms(1)])
  consider "?b = ?i" | "?b = Suc ?i" | "Suc ?i < ?b" using assms(2) by linarith
  then show "unat (effective_used ?w now) =
      clamp64 (clamp64 (amount_in ?b len es) + decayed (unat len) (clamp64 (amount_in (?b - 1) len es)) (unat now))"
  proof cases
    case 1
    with bk assms(1,3) len show ?thesis
      by (simp add: unat_effective_used Let_def bucket_of_def buckets_def)
  next
    case 2
    with bk assms(1) len decayed_le [of "unat len" "clamp64 (amount_in ?i len es)" "unat now"] show ?thesis
      by (simp add: unat_effective_used Let_def bucket_of_def buckets_def amount_in_later)
  next
    case 3
    with bk assms(1) len show ?thesis
      by (simp add: unat_effective_used Let_def bucket_of_def buckets_def amount_in_later)
  qed
  show "record_all es' (sliding_window_new len limit) = ?w"
    unfolding record_all_def using assms(4) by (rule window_counter.fold_rec_permute)
qed

theorem sliding_window_exact_witness:
  "unat (effective_used (record_all [(1500, 40), (2500, 7), (100, 9)] (sliding_window_new 1000 100)) 2500) = 27
    \<and> record_all [(100, 9), (2500, 7), (1500, 40)] (sliding_window_new 1000 100)
      = record_all [(1500, 40), (2500, 7), (100, 9)] (sliding_window_new 1000 100)"
proof -
  have "(0 :: u64) < 1000"
    and "last_bucket 1000 [(1500, 40), (2500, 7), (100, 9)] \<le> unat (2500 :: u64) div unat (1000 :: u64)"
    and "0 < unat (2500 :: u64) div unat (1000 :: u64)"
    and "mset [(100 :: u64, 9 :: u64), (2500, 7), (1500, 40)] = mset [(1500, 40), (2500, 7), (100, 9)]"
    by (simp_all add: last_bucket_def)
  from sliding_window_exact [OF this, of 100] show ?thesis
    by (simp add: amount_in_def decayed_def)
qed

text \<open>
  Reading a window at a later time never shows more use or less allowance, also across bucket
  boundaries and after the clock was set back: waiting only helps, so the implicit reset can never
  strand an account, and a clock correction can never reveal consumed quota as available.
\<close>

theorem waiting_never_increases_use:
  assumes "0 < sw_len_ms w" and "t \<le> t'"
  shows "effective_used w t' \<le> effective_used w t
    \<and> remaining_permille_at w t \<le> remaining_permille_at w t'
    \<and> remaining_permille_at w t' \<le> 1000"
proof -
  have used: "effective_used w t' \<le> effective_used w t" by (rule effective_used_antimono [OF assms])
  then have "(unat (sw_limit w) - unat (effective_used w t)) * 1000 div unat (sw_limit w)
      \<le> (unat (sw_limit w) - unat (effective_used w t')) * 1000 div unat (sw_limit w)"
    by (intro div_le_mono mult_le_mono1 diff_le_mono2) (simp add: word_le_nat_alt)
  with used remaining_le_1000 [of w t'] show ?thesis
    by (simp add: word_le_nat_alt unat_remaining)
qed

theorem waiting_never_increases_use_witness:
  "effective_used (record_all [(1500, 40)] (sliding_window_new 1000 100)) 2900
     \<le> effective_used (record_all [(1500, 40)] (sliding_window_new 1000 100)) 1600"
proof -
  have "0 < sw_len_ms (record_all [(1500, 40)] (sliding_window_new 1000 100))"
    and "(1600 :: u64) \<le> 2900"
    by (simp_all add: sliding_window_new_def max_def)
  from waiting_never_increases_use [OF this] show ?thesis by blast
qed

text \<open>
  The time to reset is that to the next bucket boundary, at least 1 and at most the length of
  the window, as long as the boundary fits a \<open>u64\<close>, and an account is exhausted exactly when the
  allowance left in some window is under a thousandth of it.
\<close>

theorem reset_and_exhaustion:
  assumes "\<forall>w \<in> set (al_windows l). 0 < sw_len_ms w
      \<and> (bucket_of w now + 1) * unat (sw_len_ms w) < 2 ^ 64"
  shows "(\<forall>w \<in> set (al_windows l). 1 \<le> ms_until_reset_at w now \<and> ms_until_reset_at w now \<le> sw_len_ms w
        \<and> unat (now + ms_until_reset_at w now) mod unat (sw_len_ms w) = 0)
    \<and> (qs_exhausted (ledger_quota_state l now) \<longleftrightarrow> (\<exists>w \<in> set (al_windows l).
        (unat (sw_limit w) - unat (effective_used w now)) * 1000 < unat (sw_limit w) \<or> sw_limit w = 0))"
proof
  show "qs_exhausted (ledger_quota_state l now) \<longleftrightarrow> (\<exists>w \<in> set (al_windows l).
        (unat (sw_limit w) - unat (effective_used w now)) * 1000 < unat (sw_limit w) \<or> sw_limit w = 0)"
    by (simp add: ledger_quota_state_def Let_def list_ex_iff remaining_0_iff)
  show "\<forall>w \<in> set (al_windows l). 1 \<le> ms_until_reset_at w now \<and> ms_until_reset_at w now \<le> sw_len_ms w
        \<and> unat (now + ms_until_reset_at w now) mod unat (sw_len_ms w) = 0"
  proof
    fix w assume "w \<in> set (al_windows l)"
    with assms have w: "0 < sw_len_ms w" "(bucket_of w now + 1) * unat (sw_len_ms w) < 2 ^ 64" by auto
    let ?len = "unat (sw_len_ms w)"
    have len: "0 < ?len" using w(1) by (simp add: word_less_nat_alt)
    note ms = unat_ms_until_reset [OF w]
    have m: "unat now mod ?len < ?len" using len by simp
    have sum: "unat now + unat (ms_until_reset_at w now) = (bucket_of w now + 1) * ?len"
      using m ms bucket_split [of now w] by (simp add: algebra_simps)
    then have "unat (now + ms_until_reset_at w now) = (bucket_of w now + 1) * ?len"
      using w(2) unat_add_lem [of now "ms_until_reset_at w now"] by simp
    then show "1 \<le> ms_until_reset_at w now \<and> ms_until_reset_at w now \<le> sw_len_ms w
        \<and> unat (now + ms_until_reset_at w now) mod ?len = 0"
      using ms m by (simp add: word_le_nat_alt)
  qed
qed

theorem reset_and_exhaustion_witness:
  "qs_exhausted (ledger_quota_state (ledger_new [sw_record (sliding_window_new 1000 10000) 1500 9991] None) 1500)"
proof -
  let ?w = "sw_record (sliding_window_new 1000 10000) 1500 9991"
  let ?l = "ledger_new [?w] None"
  have "\<forall>w \<in> set (al_windows ?l). 0 < sw_len_ms w \<and> (bucket_of w 1500 + 1) * unat (sw_len_ms w) < 2 ^ 64"
    by (simp add: ledger_new_def bucket_of_def sliding_window_new_def max_def)
  note exhausted = conjunct2 [OF reset_and_exhaustion [OF this]]
  have "effective_used ?w 1500 = 9991" by code_simp
  then show ?thesis unfolding exhausted by (simp add: ledger_new_def sliding_window_new_def)
qed

end
