(* ===== verification/Tracker.thy ===== *)
theory Tracker
  imports Leases Ledger
begin

text \<open>
  The gateway's live quota state, \<open>apps/cli/src/quota_tracker.rs\<close>: the ledgers, the leases, cooldowns,
  provider readings and conversation affinity behind one tracker. SQLite, the private file system
  and serde are the parameter \<open>quota_db\<close>; its state \<open>'d\<close> is what is on disk. \<open>Cell<bool>\<close> makes
  reading a counter an effect, so the reading operations return the tracker as well.
\<close>

definition AUTHORITATIVE_TTL_MS :: u64 where "AUTHORITATIVE_TTL_MS = 5 * 60 * 1000"
definition DEFAULT_SESSION_CAPACITY :: nat where "DEFAULT_SESSION_CAPACITY = 4096"
definition DEFAULT_QUOTA_COOLDOWN_MS :: u64 where "DEFAULT_QUOTA_COOLDOWN_MS = 60000"
definition MAX_QUOTA_COOLDOWN_MS :: u64 where "MAX_QUOTA_COOLDOWN_MS = 60 * 60 * 1000"
definition MAX_QUOTA_ACCOUNTS :: nat where "MAX_QUOTA_ACCOUNTS = 4096"
definition MAX_PLAN_WINDOWS :: nat where "MAX_PLAN_WINDOWS = 64"
definition MAX_SETTLEMENT_IDS :: nat where "MAX_SETTLEMENT_IDS = 256"
definition MAX_ACCOUNT_STATE_BYTES :: nat where "MAX_ACCOUNT_STATE_BYTES = 128 * 1024"

section \<open>Data\<close>

datatype quota_source = Authoritative_Source | Estimated_Source | No_Source

record authoritative =
  au_windows :: "window_snapshot list"
  au_observed_at_ms :: u64

datatype plan_unit = Tokens | Requests

record quota_window_spec =
  qw_len_ms :: u64
  qw_limit :: u64

record quota_plan =
  qp_windows :: "quota_window_spec list"
  qp_rate_limit_per_min :: "u64 option"
  qp_unit :: plan_unit

datatype quota_history = New | Recovered | PlanChanged | Unavailable

record quota_window_snapshot =
  qws_len_ms :: u64
  qws_limit :: u64
  qws_used :: u64
  qws_remaining_permille :: u16
  qws_ms_until_reset :: u64

definition quota_window_snapshot_from :: "window_snapshot \<Rightarrow> quota_window_snapshot" where
  "quota_window_snapshot_from w = \<lparr>qws_len_ms = ws_len_ms w, qws_limit = ws_limit w,
     qws_used = ws_used w, qws_remaining_permille = ws_remaining_permille w,
     qws_ms_until_reset = ws_ms_until_reset w\<rparr>"

record quota_account_snapshot =
  qas_history :: quota_history
  qas_unknown_usage_requests :: u64
  qas_upstream :: string
  qas_windows :: "quota_window_snapshot list"
  qas_rate_headroom_permille :: u16
  qas_rate_pressured :: bool
  qas_inflight :: u32
  qas_exhausted :: bool
  qas_cooling_ms_remaining :: u64
  qas_source :: quota_source

definition binding_of :: "window_snapshot list \<Rightarrow> reset_window option \<times> bool" where
  "binding_of windows =
     (map_option (\<lambda>w. \<lparr>ms_until_reset = ws_ms_until_reset w,
          remaining_permille = ws_remaining_permille w\<rparr>)
        (min_by_key ws_ms_until_reset windows),
      list_ex (\<lambda>w. ws_remaining_permille w = 0) windows)"

section \<open>Saved accounts\<close>

record saved_account =
  sa_ledger :: account_ledger
  sa_recent_requests :: "string list"
  sa_unknown_usage_requests :: u64
  sa_plan_changed_baseline :: bool

definition saved_validate :: "saved_account \<Rightarrow> account_ledger \<Rightarrow> string + unit" where
  "saved_validate s expected =
     (if \<not> compatible_with (sa_ledger s) expected
         \<or> MAX_SETTLEMENT_IDS < length (sa_recent_requests s)
         \<or> list_ex (\<lambda>i. 512 < length i) (sa_recent_requests s)
      then Err ''Quota state does not match its account plan.''
      else Ok ())"

text \<open>The loop that drops receipts from the front until at most \<open>n\<close> are left.\<close>

fun pop_front_until :: "nat \<Rightarrow> 'a list \<Rightarrow> 'a list" where
  "pop_front_until n [] = []"
| "pop_front_until n (x # xs) = (if n < length (x # xs) then pop_front_until n xs else x # xs)"

definition saved_count :: "saved_account \<Rightarrow> u64 \<Rightarrow> u64 \<Rightarrow> bool \<Rightarrow> saved_account" where
  "saved_count s now amount missing_usage =
     s\<lparr>sa_ledger := ledger_record (sa_ledger s) now amount,
       sa_unknown_usage_requests :=
         sat_add (sa_unknown_usage_requests s) (if missing_usage then 1 else 0)\<rparr>"

definition saved_record ::
  "saved_account \<Rightarrow> string option \<Rightarrow> u64 \<Rightarrow> u64 \<Rightarrow> bool \<Rightarrow> saved_account" where
  "saved_record s request_id now amount missing_usage = (case request_id of
      None \<Rightarrow> saved_count s now amount missing_usage
    | Some i \<Rightarrow>
        if list_ex (\<lambda>j. j = i) (sa_recent_requests s) then s
        else saved_count
          (s\<lparr>sa_recent_requests :=
               pop_front_until MAX_SETTLEMENT_IDS (sa_recent_requests s @ [i])\<rparr>)
          now amount missing_usage)"

record tracked_account =
  ta_saved :: saved_account
  ta_plan :: string
  ta_history :: quota_history
  ta_unit :: plan_unit
  ta_rate_limit_per_min :: "u64 option"

section \<open>The store\<close>

text \<open>
  What the code calls outside this repository: an immediate transaction on the private SQLite
  file, its statements, the commit, the failure marker, and serde's JSON for plans and accounts.
\<close>

record 'd quota_db =
  db_begin :: "'d \<Rightarrow> string + unit"
  db_select :: "'d \<Rightarrow> string \<Rightarrow> string \<Rightarrow> string + string option"
  db_exists :: "'d \<Rightarrow> string \<Rightarrow> string + bool"
  db_count :: "'d \<Rightarrow> string + u32"
  db_insert :: "'d \<Rightarrow> string \<Rightarrow> string \<Rightarrow> string \<Rightarrow> string + 'd"
  db_update :: "'d \<Rightarrow> string \<Rightarrow> string \<Rightarrow> string \<Rightarrow> string + 'd"
  db_commit :: "'d \<Rightarrow> string + 'd"
  db_mark :: "'d \<Rightarrow> 'd"
  js_parse :: "string \<Rightarrow> string + saved_account"
  js_print :: "saved_account \<Rightarrow> string + string"
  js_plan :: "quota_plan \<Rightarrow> string"

definition from_plan :: "'d quota_db \<Rightarrow> quota_plan \<Rightarrow> tracked_account" where
  "from_plan D plan = \<lparr>ta_saved = \<lparr>sa_ledger = ledger_new
         (map (\<lambda>spec. sliding_window_new (qw_len_ms spec) (qw_limit spec)) (qp_windows plan))
         (qp_rate_limit_per_min plan),
       sa_recent_requests = [], sa_unknown_usage_requests = 0, sa_plan_changed_baseline = False\<rparr>,
     ta_plan = js_plan D plan, ta_history = New, ta_unit = qp_unit plan,
     ta_rate_limit_per_min = qp_rate_limit_per_min plan\<rparr>"

definition account_amount :: "tracked_account \<Rightarrow> usage \<Rightarrow> u64" where
  "account_amount a u = (case ta_unit a of
      Tokens \<Rightarrow> sat_add (input_tokens u) (output_tokens u)
    | Requests \<Rightarrow> 1)"

definition store_load ::
  "'d quota_db \<Rightarrow> 'd \<Rightarrow> string \<Rightarrow> string \<Rightarrow> account_ledger \<Rightarrow> string + saved_account option" where
  "store_load D d name plan expected =
     and_then (db_select D d name plan) (\<lambda>row. case row of
        None \<Rightarrow> Ok None
      | Some serialized \<Rightarrow>
          if MAX_ACCOUNT_STATE_BYTES < length serialized
          then Err ''Quota account state exceeds its size limit.''
          else and_then (js_parse D serialized) (\<lambda>saved.
            and_then (saved_validate saved expected) (\<lambda>_. Ok (Some saved))))"

definition store_prepare ::
  "'d quota_db \<Rightarrow> 'd \<Rightarrow> string \<Rightarrow> tracked_account \<Rightarrow> string + 'd \<times> tracked_account" where
  "store_prepare D d name account =
     and_then (store_load D d name (ta_plan account) (sa_ledger (ta_saved account))) (\<lambda>found.
       case found of
         Some saved \<Rightarrow> Ok (d, account\<lparr>ta_saved := saved,
           ta_history := if sa_plan_changed_baseline saved then PlanChanged else Recovered\<rparr>)
       | None \<Rightarrow>
           and_then (db_exists D d name) (\<lambda>exists.
             let account = (if exists
                 then account\<lparr>ta_history := PlanChanged,
                        ta_saved := (ta_saved account)\<lparr>sa_plan_changed_baseline := True\<rparr>\<rparr>
                 else account)
             in and_then (db_count D d) (\<lambda>count.
               if MAX_QUOTA_ACCOUNTS \<le> unat count
               then Err ''Quota state has reached its account limit.''
               else and_then (js_print D (ta_saved account)) (\<lambda>serialized.
                 and_then (db_insert D d name (ta_plan account) serialized) (\<lambda>d.
                   Ok (d, account))))))"

definition store_record ::
  "'d quota_db \<Rightarrow> 'd \<Rightarrow> string \<Rightarrow> tracked_account \<Rightarrow> string option \<Rightarrow> u64 \<Rightarrow> u64 \<Rightarrow> bool
     \<Rightarrow> string + 'd \<times> saved_account" where
  "store_record D d name account request_id now amount missing_usage =
     and_then (db_begin D d) (\<lambda>_.
     and_then (store_load D d name (ta_plan account) (sa_ledger (ta_saved account))) (\<lambda>found.
       case found of
         None \<Rightarrow> Err ''The persisted quota account is missing.''
       | Some saved \<Rightarrow>
           let saved = saved_record saved request_id now amount missing_usage in
           and_then (js_print D saved) (\<lambda>serialized.
             if MAX_ACCOUNT_STATE_BYTES < length serialized
             then Err ''Quota account state exceeds its size limit.''
             else and_then (db_update D d name (ta_plan account) serialized) (\<lambda>d.
               and_then (db_commit D d) (\<lambda>d. Ok (d, saved))))))"

section \<open>The tracker\<close>

record 'd quota_tracker =
  qt_accounts :: "(string, tracked_account) btree"
  qt_store :: "'d option"
  qt_persistence_failed :: bool
  qt_leases :: inflight_leases
  qt_sessions :: "string \<rightharpoonup> upstream_model"
  qt_session_order :: "string list"
  qt_session_capacity :: nat
  qt_cooling_until_ms :: "string \<rightharpoonup> u64"
  qt_authoritative :: "string \<rightharpoonup> authoritative"

definition tracker_new :: "'d quota_db \<Rightarrow> (string, quota_plan) btree \<Rightarrow> 'd quota_tracker" where
  "tracker_new D plans = \<lparr>qt_accounts = map (\<lambda>(upstream, plan). (upstream, from_plan D plan)) plans,
     qt_store = None, qt_persistence_failed = False, qt_leases = leases_new DEFAULT_LEASE_MS,
     qt_sessions = Map.empty, qt_session_order = [],
     qt_session_capacity = max DEFAULT_SESSION_CAPACITY 1,
     qt_cooling_until_ms = Map.empty, qt_authoritative = Map.empty\<rparr>"

text \<open>The loop of \<open>persistent\<close> over the accounts, inside one transaction.\<close>

fun prepare_all ::
  "'d quota_db \<Rightarrow> 'd \<Rightarrow> (string, tracked_account) btree
     \<Rightarrow> string + 'd \<times> (string, tracked_account) btree" where
  "prepare_all D d [] = Ok (d, [])"
| "prepare_all D d ((name, account) # rest) =
     and_then (store_prepare D d name account) (\<lambda>(d, account).
       and_then (prepare_all D d rest) (\<lambda>(d, rest). Ok (d, (name, account) # rest)))"

definition tracker_persistent ::
  "'d quota_db \<Rightarrow> (string, quota_plan) btree \<Rightarrow> (string + 'd) \<Rightarrow> string + 'd quota_tracker" where
  "tracker_persistent D plans opened =
     (if MAX_QUOTA_ACCOUNTS < length plans
         \<or> list_ex (\<lambda>(name, plan). 1024 < length name
              \<or> MAX_PLAN_WINDOWS < length (qp_windows plan)) plans
      then Err ''Quota plans exceed the state limits.''
      else
        let tracker = tracker_new D plans in
        if qt_accounts tracker = [] then Ok tracker
        else and_then opened (\<lambda>d.
          and_then (db_begin D d) (\<lambda>_.
          and_then (prepare_all D d (qt_accounts tracker)) (\<lambda>(d, accounts).
          and_then (db_commit D d) (\<lambda>d.
            Ok (tracker\<lparr>qt_accounts := accounts, qt_store := Some d\<rparr>))))))"

definition persistence_error :: "'d quota_db \<Rightarrow> 'd quota_tracker \<Rightarrow> 'd quota_tracker" where
  "persistence_error D t =
     (if qt_persistence_failed t then t
      else t\<lparr>qt_persistence_failed := True, qt_store := map_option (db_mark D) (qt_store t)\<rparr>)"

definition current_saved ::
  "'d quota_db \<Rightarrow> 'd quota_tracker \<Rightarrow> string \<Rightarrow> tracked_account \<Rightarrow> saved_account \<times> 'd quota_tracker" where
  "current_saved D t name account = (case qt_store t of
      None \<Rightarrow> (ta_saved account, t)
    | Some d \<Rightarrow>
        (case store_load D d name (ta_plan account) (sa_ledger (ta_saved account)) of
           Inr (Some saved) \<Rightarrow> (saved, t)
         | Inr None \<Rightarrow> (ta_saved account, persistence_error D t)
         | Inl error \<Rightarrow> (ta_saved account, persistence_error D t)))"

definition current_ledger ::
  "'d quota_db \<Rightarrow> 'd quota_tracker \<Rightarrow> string \<Rightarrow> tracked_account
     \<Rightarrow> account_ledger \<times> 'd quota_tracker" where
  "current_ledger D t name account = (case current_saved D t name account of
      (saved, t) \<Rightarrow> (sa_ledger saved, t))"

definition fresh_authoritative ::
  "'d quota_tracker \<Rightarrow> string \<Rightarrow> u64 \<Rightarrow> window_snapshot list option" where
  "fresh_authoritative t upstream now =
     (case qt_authoritative t upstream of
        None \<Rightarrow> None
      | Some reading \<Rightarrow>
          (case checked_sub now (au_observed_at_ms reading) of
             None \<Rightarrow> None
           | Some elapsed \<Rightarrow>
               if AUTHORITATIVE_TTL_MS \<le> elapsed then None
               else
                 let windows = List.map_filter (\<lambda>w.
                       case checked_sub (ws_ms_until_reset w) elapsed of
                         None \<Rightarrow> None
                       | Some remaining \<Rightarrow>
                           if 0 < remaining then Some (w\<lparr>ws_ms_until_reset := remaining\<rparr>) else None)
                       (au_windows reading)
                 in if windows \<noteq> [] then Some windows else None))"

definition is_cooling :: "'d quota_tracker \<Rightarrow> string \<Rightarrow> u64 \<Rightarrow> bool" where
  "is_cooling t upstream now = (case qt_cooling_until_ms t upstream of
      None \<Rightarrow> False
    | Some until \<Rightarrow> now < until)"

definition tracker_quota_state ::
  "'d quota_db \<Rightarrow> 'd quota_tracker \<Rightarrow> string \<Rightarrow> u64 \<Rightarrow> quota_state \<times> 'd quota_tracker" where
  "tracker_quota_state D t upstream now =
     (let (state, rate_limit, t) = (case bt_get (qt_accounts t) upstream of
            Some account \<Rightarrow>
              let (ledger, t) = current_ledger D t upstream account
              in (ledger_quota_state ledger now, ta_rate_limit_per_min account, t)
          | None \<Rightarrow> (quota_non_windowed, None, t));
          state = (case fresh_authoritative t upstream now of
            Some windows \<Rightarrow>
              let (reset, exhausted) = binding_of windows
              in state\<lparr>qs_reset := reset, qs_exhausted := exhausted\<rparr>
          | None \<Rightarrow> state);
          n = inflight (qt_leases t) now upstream;
          headroom = apply_inflight_penalty (qs_rate_headroom_permille state) n rate_limit;
          state = state\<lparr>qs_rate_headroom_permille := headroom,
            qs_rate_pressured := qs_rate_pressured state \<or> headroom \<le> RATE_PRESSURE_PERMILLE\<rparr>
      in if is_cooling t upstream now
           \<or> (qt_persistence_failed t \<and> bt_contains (qt_accounts t) upstream)
         then (state\<lparr>qs_exhausted := True\<rparr>, t) else (state, t))"

definition note_rate_limited ::
  "'d quota_tracker \<Rightarrow> string \<Rightarrow> u64 \<Rightarrow> u64 \<Rightarrow> 'd quota_tracker" where
  "note_rate_limited t upstream now cooldown =
     (let until = sat_add now (min cooldown MAX_QUOTA_COOLDOWN_MS)
      in t\<lparr>qt_cooling_until_ms := (qt_cooling_until_ms t)(upstream \<mapsto>
           (case qt_cooling_until_ms t upstream of
              None \<Rightarrow> until
            | Some current \<Rightarrow> max current until))\<rparr>)"

definition note_authoritative ::
  "'d quota_tracker \<Rightarrow> string \<Rightarrow> u64 \<Rightarrow> window_snapshot list \<Rightarrow> 'd quota_tracker" where
  "note_authoritative t upstream now windows =
     (if windows = [] then t\<lparr>qt_authoritative := (qt_authoritative t)(upstream := None)\<rparr>
      else t\<lparr>qt_authoritative := (qt_authoritative t)(upstream \<mapsto>
             \<lparr>au_windows = windows, au_observed_at_ms = now\<rparr>)\<rparr>)"

text \<open>One entry of the viewer's snapshot.\<close>

definition account_snapshot ::
  "'d quota_db \<Rightarrow> 'd quota_tracker \<Rightarrow> string \<Rightarrow> u64 \<Rightarrow> quota_account_snapshot \<times> 'd quota_tracker" where
  "account_snapshot D t upstream now =
     (let (windows, source, t) = (case fresh_authoritative t upstream now of
            Some w \<Rightarrow> (w, Authoritative_Source, t)
          | None \<Rightarrow> (case bt_get (qt_accounts t) upstream of
              Some account \<Rightarrow>
                let (ledger, t) = current_ledger D t upstream account;
                    w = ledger_window_snapshots ledger now
                in (w, if w = [] then No_Source else Estimated_Source, t)
            | None \<Rightarrow> ([], No_Source, t)));
          window_exhausted = snd (binding_of windows);
          rate_limit = Option.bind (bt_get (qt_accounts t) upstream) ta_rate_limit_per_min;
          (ledger_headroom, t) = (case bt_get (qt_accounts t) upstream of
            None \<Rightarrow> (1000, t)
          | Some a \<Rightarrow>
              let (ledger, t) = current_ledger D t upstream a
              in (ledger_rate_headroom ledger now, t));
          n = inflight (qt_leases t) now upstream;
          headroom = apply_inflight_penalty ledger_headroom n rate_limit;
          cooling = (case qt_cooling_until_ms t upstream of
            None \<Rightarrow> 0
          | Some until \<Rightarrow> sat_sub until now);
          history = (if qt_persistence_failed t \<and> bt_contains (qt_accounts t) upstream
            then Unavailable
            else (case bt_get (qt_accounts t) upstream of
              None \<Rightarrow> New
            | Some account \<Rightarrow> ta_history account));
          (unknown, t) = (case bt_get (qt_accounts t) upstream of
            None \<Rightarrow> (0, t)
          | Some account \<Rightarrow>
              let (saved, t) = current_saved D t upstream account
              in (sa_unknown_usage_requests saved, t))
      in (\<lparr>qas_history = history, qas_unknown_usage_requests = unknown, qas_upstream = upstream,
            qas_windows = map quota_window_snapshot_from windows,
            qas_rate_headroom_permille = headroom,
            qas_rate_pressured = headroom \<le> RATE_PRESSURE_PERMILLE, qas_inflight = n,
            qas_exhausted = window_exhausted \<or> is_cooling t upstream now \<or> history = Unavailable,
            qas_cooling_ms_remaining = cooling, qas_source = source\<rparr>, t))"

fun tracker_snapshot ::
  "'d quota_db \<Rightarrow> 'd quota_tracker \<Rightarrow> string list \<Rightarrow> u64
     \<Rightarrow> quota_account_snapshot list \<times> 'd quota_tracker" where
  "tracker_snapshot D t [] now = ([], t)"
| "tracker_snapshot D t (upstream # upstreams) now =
     (let (entry, t) = account_snapshot D t upstream now;
          (entries, t) = tracker_snapshot D t upstreams now
      in (entry # entries, t))"

definition tracker_grant :: "'d quota_tracker \<Rightarrow> string \<Rightarrow> u64 \<Rightarrow> lease_id \<times> 'd quota_tracker" where
  "tracker_grant t upstream now =
     (let (i, leases) = grant (qt_leases t) now upstream in (i, t\<lparr>qt_leases := leases\<rparr>))"

definition tracker_grant_for ::
  "'d quota_tracker \<Rightarrow> string \<Rightarrow> u64 \<Rightarrow> u64 \<Rightarrow> lease_id \<times> 'd quota_tracker" where
  "tracker_grant_for t upstream now lifetime =
     (let (i, leases) = grant_for (qt_leases t) now upstream lifetime
      in (i, t\<lparr>qt_leases := leases\<rparr>))"

definition tracker_release :: "'d quota_tracker \<Rightarrow> lease_id \<Rightarrow> 'd quota_tracker" where
  "tracker_release t lease = t\<lparr>qt_leases := release (qt_leases t) lease\<rparr>"

text \<open>Replace the saved counters of an account that exists.\<close>

definition set_saved :: "string \<Rightarrow> saved_account \<Rightarrow> 'd quota_tracker \<Rightarrow> 'd quota_tracker" where
  "set_saved upstream saved t = (case bt_get (qt_accounts t) upstream of
      None \<Rightarrow> t
    | Some account \<Rightarrow>
        t\<lparr>qt_accounts := bt_insert upstream (account\<lparr>ta_saved := saved\<rparr>) (qt_accounts t)\<rparr>)"

definition record_consumption ::
  "'d quota_db \<Rightarrow> 'd quota_tracker \<Rightarrow> string \<Rightarrow> string option \<Rightarrow> u64 \<Rightarrow> usage option
     \<Rightarrow> 'd quota_tracker" where
  "record_consumption D t upstream request_id now u = (case bt_get (qt_accounts t) upstream of
      None \<Rightarrow> t
    | Some account \<Rightarrow>
        let amount = (case ta_unit account of
              Requests \<Rightarrow> 1
            | Tokens \<Rightarrow> (case u of None \<Rightarrow> 0 | Some u \<Rightarrow> account_amount account u));
            in_memory = saved_record (ta_saved account) request_id now amount (u = None)
        in (case qt_store t of
              None \<Rightarrow> set_saved upstream in_memory t
            | Some d \<Rightarrow>
                (case store_record D d upstream account request_id now amount (u = None) of
                   Inr (d, saved) \<Rightarrow> set_saved upstream saved (t\<lparr>qt_store := Some d\<rparr>)
                 | Inl error \<Rightarrow> set_saved upstream in_memory (persistence_error D t))))"

definition tracker_record ::
  "'d quota_db \<Rightarrow> 'd quota_tracker \<Rightarrow> string \<Rightarrow> u64 \<Rightarrow> usage \<Rightarrow> 'd quota_tracker" where
  "tracker_record D t upstream now u = record_consumption D t upstream None now (Some u)"

definition record_settled ::
  "'d quota_db \<Rightarrow> 'd quota_tracker \<Rightarrow> string \<Rightarrow> string \<Rightarrow> u64 \<Rightarrow> usage option \<Rightarrow> bool
     \<Rightarrow> 'd quota_tracker" where
  "record_settled D t upstream request_id now u completed =
     (if completed \<or> u \<noteq> None
      then if 512 < length request_id then persistence_error D t
        else record_consumption D t upstream (Some request_id) now u
      else t)"

definition last_account :: "'d quota_tracker \<Rightarrow> string \<Rightarrow> upstream_model option" where
  "last_account t session = qt_sessions t session"

text \<open>The eviction loop of \<open>remember\<close>.\<close>

fun evict ::
  "nat \<Rightarrow> string list \<Rightarrow> (string \<rightharpoonup> upstream_model) \<Rightarrow> string list \<times> (string \<rightharpoonup> upstream_model)" where
  "evict capacity [] sessions = ([], sessions)"
| "evict capacity (s # order) sessions =
     (if capacity < length (s # order) then evict capacity order (sessions(s := None))
      else (s # order, sessions))"

definition remember :: "'d quota_tracker \<Rightarrow> string \<Rightarrow> upstream_model \<Rightarrow> 'd quota_tracker" where
  "remember t session account =
     (let sessions = (qt_sessions t)(session \<mapsto> account) in
      if qt_sessions t session = None
      then let (order, sessions) =
             evict (qt_session_capacity t) (qt_session_order t @ [session]) sessions
           in t\<lparr>qt_sessions := sessions, qt_session_order := order\<rparr>
      else t\<lparr>qt_sessions := sessions\<rparr>)"

section \<open>What each operation leaves alone\<close>

named_theorems tracker_frame "fields of the tracker that an operation does not touch"

lemma persistence_error_frame [tracker_frame]:
  "qt_accounts (persistence_error D t) = qt_accounts t"
  "qt_leases (persistence_error D t) = qt_leases t"
  "qt_sessions (persistence_error D t) = qt_sessions t"
  "qt_session_order (persistence_error D t) = qt_session_order t"
  "qt_session_capacity (persistence_error D t) = qt_session_capacity t"
  "qt_cooling_until_ms (persistence_error D t) = qt_cooling_until_ms t"
  "qt_authoritative (persistence_error D t) = qt_authoritative t"
  "qt_persistence_failed (persistence_error D t)"
  by (simp_all add: persistence_error_def)

text \<open>Reading a counter at most raises the failure flag.\<close>

lemma current_saved_effect: "snd (current_saved D t name account) \<in> {t, persistence_error D t}"
  by (auto simp: current_saved_def split: option.splits sum.splits)

lemma current_ledger_split:
  "current_ledger D t name account
     = (sa_ledger (fst (current_saved D t name account)), snd (current_saved D t name account))"
  by (simp add: current_ledger_def split: prod.splits)

lemma current_saved_frame [tracker_frame]:
  "qt_accounts (snd (current_saved D t name a)) = qt_accounts t"
  "qt_leases (snd (current_saved D t name a)) = qt_leases t"
  "qt_sessions (snd (current_saved D t name a)) = qt_sessions t"
  "qt_session_order (snd (current_saved D t name a)) = qt_session_order t"
  "qt_session_capacity (snd (current_saved D t name a)) = qt_session_capacity t"
  "qt_cooling_until_ms (snd (current_saved D t name a)) = qt_cooling_until_ms t"
  "qt_authoritative (snd (current_saved D t name a)) = qt_authoritative t"
  using current_saved_effect [of D t name a] by (auto simp: tracker_frame)

lemma set_saved_frame [tracker_frame]:
  "qt_store (set_saved u s t) = qt_store t"
  "qt_leases (set_saved u s t) = qt_leases t"
  "qt_sessions (set_saved u s t) = qt_sessions t"
  "qt_session_order (set_saved u s t) = qt_session_order t"
  "qt_session_capacity (set_saved u s t) = qt_session_capacity t"
  "qt_cooling_until_ms (set_saved u s t) = qt_cooling_until_ms t"
  "qt_authoritative (set_saved u s t) = qt_authoritative t"
  "qt_persistence_failed (set_saved u s t) = qt_persistence_failed t"
  by (simp_all add: set_saved_def split: option.splits)

lemma record_consumption_frame [tracker_frame]:
  "qt_leases (record_consumption D t u i now us) = qt_leases t"
  "qt_sessions (record_consumption D t u i now us) = qt_sessions t"
  "qt_session_order (record_consumption D t u i now us) = qt_session_order t"
  "qt_session_capacity (record_consumption D t u i now us) = qt_session_capacity t"
  "qt_cooling_until_ms (record_consumption D t u i now us) = qt_cooling_until_ms t"
  "qt_authoritative (record_consumption D t u i now us) = qt_authoritative t"
  by (simp_all add: record_consumption_def Let_def tracker_frame split: option.splits sum.splits)

lemma tracker_quota_state_effect:
  "snd (tracker_quota_state D t u now) = (case bt_get (qt_accounts t) u of
      None \<Rightarrow> t
    | Some account \<Rightarrow> snd (current_saved D t u account))"
  by (simp add: tracker_quota_state_def Let_def current_ledger_split split: option.splits)

lemma account_snapshot_frame [tracker_frame]:
  "qt_accounts (snd (account_snapshot D t u now)) = qt_accounts t"
  "qt_leases (snd (account_snapshot D t u now)) = qt_leases t"
  "qt_sessions (snd (account_snapshot D t u now)) = qt_sessions t"
  "qt_session_order (snd (account_snapshot D t u now)) = qt_session_order t"
  "qt_session_capacity (snd (account_snapshot D t u now)) = qt_session_capacity t"
  "qt_cooling_until_ms (snd (account_snapshot D t u now)) = qt_cooling_until_ms t"
  "qt_authoritative (snd (account_snapshot D t u now)) = qt_authoritative t"
  by (simp_all add: account_snapshot_def Let_def current_ledger_split case_prod_beta tracker_frame
      split: option.splits)

lemma tracker_snapshot_frame [tracker_frame]:
  "qt_accounts (snd (tracker_snapshot D t us now)) = qt_accounts t"
  "qt_sessions (snd (tracker_snapshot D t us now)) = qt_sessions t"
  "qt_session_order (snd (tracker_snapshot D t us now)) = qt_session_order t"
  "qt_session_capacity (snd (tracker_snapshot D t us now)) = qt_session_capacity t"
  "qt_cooling_until_ms (snd (tracker_snapshot D t us now)) = qt_cooling_until_ms t"
  by (induction us arbitrary: t) (simp_all add: Let_def case_prod_beta tracker_frame)

section \<open>Histories\<close>

text \<open>The public operations of the tracker, as the calls of a history.\<close>

datatype quota_call =
    Quota_State string u64
  | Snapshot "string list" u64
  | Rate_Limited string u64 u64
  | Reading string u64 "window_snapshot list"
  | Grant string u64
  | Grant_For string u64 u64
  | Release lease_id
  | Record string u64 usage
  | Settle string string u64 "usage option" bool
  | Remember string upstream_model

fun quota_step :: "'d quota_db \<Rightarrow> quota_call \<Rightarrow> 'd quota_tracker \<Rightarrow> 'd quota_tracker" where
  "quota_step D (Quota_State u now) t = snd (tracker_quota_state D t u now)"
| "quota_step D (Snapshot us now) t = snd (tracker_snapshot D t us now)"
| "quota_step D (Rate_Limited u now ms) t = note_rate_limited t u now ms"
| "quota_step D (Reading u now ws) t = note_authoritative t u now ws"
| "quota_step D (Grant u now) t = snd (tracker_grant t u now)"
| "quota_step D (Grant_For u now lifetime) t = snd (tracker_grant_for t u now lifetime)"
| "quota_step D (Release i) t = tracker_release t i"
| "quota_step D (Record u now us) t = tracker_record D t u now us"
| "quota_step D (Settle u i now us completed) t = record_settled D t u i now us completed"
| "quota_step D (Remember session account) t = remember t session account"

lemma remember_frame [tracker_frame]:
  "qt_accounts (remember t s a) = qt_accounts t"
  "qt_store (remember t s a) = qt_store t"
  "qt_leases (remember t s a) = qt_leases t"
  "qt_session_capacity (remember t s a) = qt_session_capacity t"
  "qt_cooling_until_ms (remember t s a) = qt_cooling_until_ms t"
  "qt_authoritative (remember t s a) = qt_authoritative t"
  by (simp_all add: remember_def Let_def split: prod.splits)

lemmas tracker_ops = tracker_record_def record_settled_def note_authoritative_def
  tracker_grant_def tracker_grant_for_def tracker_release_def tracker_quota_state_effect

text \<open>Only a refusal touches the cooldowns, and it only ever extends them.\<close>

lemma cooling_step:
  "qt_cooling_until_ms (quota_step D c t) = (case c of
      Rate_Limited u now ms \<Rightarrow> (qt_cooling_until_ms t)(u \<mapsto>
        (case qt_cooling_until_ms t u of None \<Rightarrow> sat_add now (min ms MAX_QUOTA_COOLDOWN_MS)
         | Some until \<Rightarrow> max until (sat_add now (min ms MAX_QUOTA_COOLDOWN_MS))))
    | _ \<Rightarrow> qt_cooling_until_ms t)"
  by (cases c) (simp_all add: tracker_ops tracker_frame note_rate_limited_def Let_def
      split: option.splits prod.splits)

definition refused_until :: "u64 \<Rightarrow> string \<Rightarrow> quota_call \<Rightarrow> bool" where
  "refused_until later u c = (case c of
      Rate_Limited v now ms \<Rightarrow> v = u \<and> later < sat_add now (min ms MAX_QUOTA_COOLDOWN_MS)
    | _ \<Rightarrow> False)"

lemma is_cooling_step:
  "is_cooling (quota_step D c t) u later \<longleftrightarrow> is_cooling t u later \<or> refused_until later u c"
  unfolding is_cooling_def cooling_step refused_until_def
  by (cases c) (auto simp: less_max_iff_disj split: option.splits)

lemma is_cooling_run:
  "is_cooling (fold (quota_step D) calls t) u later
     \<longleftrightarrow> is_cooling t u later \<or> list_ex (refused_until later u) calls"
  by (induction calls arbitrary: t) (auto simp: is_cooling_step)

end
