(* ===== verification/Gateway_Route.thy ===== *)
theory Gateway_Route
  imports Routing_Properties Tracker
begin

text \<open>
  How the gateway uses the router, \<open>apps/cli/src/gateway/attempt_machine.rs\<close>: the routing step of
  either mode, the guard that keeps a free request free, and the ranking of targets for a request
  with images, whose candidates may be tried although their vision support is unknown.
  \<open>free\<close> is the gateway's set of free upstreams, \<open>js\<close> the text serde prints a JSON value as.
\<close>

definition retain_free_fallbacks :: "decision \<Rightarrow> (string, unit) btree \<Rightarrow> decision" where
  "retain_free_fallbacks d free =
     (if bt_contains free (as_str (um_upstream (dec_chosen d)))
      then d\<lparr>dec_fallbacks := filter (\<lambda>t. bt_contains free (as_str (um_upstream t))) (dec_fallbacks d)\<rparr>
      else d)"

definition estimated_input_with_schemas ::
  "unicode \<Rightarrow> (json \<Rightarrow> utext) \<Rightarrow> chat_request \<Rightarrow> agent_hint list \<Rightarrow> u32" where
  "estimated_input_with_schemas u js req hints =
     (let tokens = rf_estimated_input_tokens (extract_features u req hints);
          tokens = fold (\<lambda>tool tokens. sat_add (sat_add (sat_add tokens (estimate_tokens (td_name tool)))
              (estimate_tokens (unwrap_or (td_description tool) [])))
              (estimate_tokens (js (td_parameters tool)))) (req_tools req) tokens
      in case req_response_format req of
           Some (RfJsonSchema schema) \<Rightarrow> sat_add tokens (estimate_tokens (js schema))
         | _ \<Rightarrow> tokens)"

section \<open>Ranking for images\<close>

definition USIZE_MAX :: nat where "USIZE_MAX = 2 ^ 64 - 1"

text \<open>The first backup pool that holds the target; indexing an unknown pool panics.\<close>

fun pool_position :: "router \<Rightarrow> string list \<Rightarrow> upstream_model \<Rightarrow> nat \<Rightarrow> nat option outcome" where
  "pool_position r [] t n = Completed None"
| "pool_position r (p # ps) t n = (case bt_get (rc_pools (rt_config r)) p of
      None \<Rightarrow> Panicked
    | Some members \<Rightarrow>
        if t \<in> set members then Completed (Some n) else pool_position r ps t (Suc n))"

definition is_exact_model :: "decided_by \<Rightarrow> bool" where
  "is_exact_model b = (case b of DbExactModel _ \<Rightarrow> True | _ \<Rightarrow> False)"

definition pool_rank :: "router \<Rightarrow> decision \<Rightarrow> candidate \<Rightarrow> nat outcome" where
  "pool_rank r d c =
     (if router_routing_mode r = Tiered \<and> \<not> is_exact_model (dec_decided_by d)
         \<and> (case bt_get (rc_pools (rt_config r)) (dec_pool d) of
              None \<Rightarrow> False | Some members \<Rightarrow> cand_target c \<notin> set members)
      then (case rc_recovery (rt_config r) of
          Ordered pools \<Rightarrow> run_then (pool_position r pools (cand_target c) 0) (\<lambda>at.
            Completed (case at of None \<Rightarrow> USIZE_MAX | Some index \<Rightarrow> index + 1))
        | Strict \<Rightarrow> Completed 0)
      else Completed 0)"

definition rank_of :: "nat outcome \<Rightarrow> nat" where
  "rank_of x = (case x of Completed n \<Rightarrow> n | Panicked \<Rightarrow> 0)"

definition image_key :: "router \<Rightarrow> decision \<Rightarrow> candidate \<Rightarrow> nat \<times> health \<times> bool" where
  "image_key r d c =
     (rank_of (pool_rank r d c),
      if router_routing_mode r = Tiered then cand_health c else Healthy,
      \<not> is_supported (vision_state (cand_capability c)))"

definition image_candidates :: "decision \<Rightarrow> candidate list \<Rightarrow> candidate list" where
  "image_candidates d cands =
     filter (\<lambda>c. allows_image_attempt (cand_capability c))
       (List.map_filter (\<lambda>t. find (\<lambda>c. cand_target c = t) cands) (targets_of d))"

text \<open>\<open>sort_by_key\<close> evaluates no key of fewer than two elements.\<close>

definition rank_image_targets ::
  "router \<Rightarrow> decision \<Rightarrow> candidate list \<Rightarrow> (string, unit) btree \<Rightarrow> (no_route + decision) outcome" where
  "rank_image_targets r d cands free =
     (let targets = image_candidates d cands in
      if 2 \<le> length targets \<and> list_ex (\<lambda>c. pool_rank r d c = Panicked) targets then Panicked
      else case map cand_target (sort_key (image_key r d) targets) of
        [] \<Rightarrow> Completed (Err (Unsatisfiable (dec_pool d) UnmetVision))
      | chosen # fallbacks \<Rightarrow>
          let d = d\<lparr>dec_chosen := chosen, dec_fallbacks := fallbacks\<rparr>
          in Completed (Ok (if router_routing_mode r = Tiered then retain_free_fallbacks d free else d)))"

section \<open>The routing step\<close>

definition route_in_mode ::
  "unicode \<Rightarrow> router \<Rightarrow> chat_request \<Rightarrow> agent_hint list \<Rightarrow> upstream_model option \<Rightarrow> candidate list
     \<Rightarrow> (no_route + decision) outcome" where
  "route_in_mode u r req hints prior cands = (case router_routing_mode r of
      Tiered \<Rightarrow> route u r req hints cands
    | QuotaFirst \<Rightarrow> route_quota_first u r req cands prior)"

definition declare_vision :: "candidate \<Rightarrow> candidate" where
  "declare_vision c = c\<lparr>cand_capability := (cand_capability c)\<lparr>cap_vision_state := Some Declared\<rparr>\<rparr>"

definition admit_unknown_vision :: "candidate \<Rightarrow> candidate" where
  "admit_unknown_vision c =
     (if vision_state (cand_capability c) = Unknown then declare_vision c else c)"

definition admit_pool :: "router \<Rightarrow> string \<Rightarrow> candidate list \<Rightarrow> candidate list" where
  "admit_pool r p cands = (case bt_get (rc_pools (rt_config r)) p of
      None \<Rightarrow> cands
    | Some members \<Rightarrow> map (\<lambda>c. if cand_target c \<in> set members then declare_vision c else c) cands)"

definition is_ordered :: "recovery_policy \<Rightarrow> bool" where
  "is_ordered p = (case p of Ordered _ \<Rightarrow> True | Strict \<Rightarrow> False)"

definition route_images ::
  "unicode \<Rightarrow> router \<Rightarrow> chat_request \<Rightarrow> agent_hint list \<Rightarrow> upstream_model option \<Rightarrow> candidate list
     \<Rightarrow> (no_route + decision) outcome" where
  "route_images u r req hints prior cands =
     (let admitted = map admit_unknown_vision cands in
      run_then (route_in_mode u r req hints prior admitted) (\<lambda>result. case result of
          Inr d \<Rightarrow> Completed (Ok d)
        | Inl (Unsatisfiable p UnmetVision) \<Rightarrow>
            if router_routing_mode r = Tiered \<and> is_ordered (rc_recovery (rt_config r))
               \<and> \<not> (rc_honor_exact_model (rt_config r) \<and> req_model req \<noteq> ''auto'')
            then route_in_mode u r req hints prior (admit_pool r p admitted)
            else Completed (Err (Unsatisfiable p UnmetVision))
        | Inl e \<Rightarrow> Completed (Err e)))"

text \<open>What both kinds of request do to a decision before it is used.\<close>

definition guard_decision ::
  "unicode \<Rightarrow> (json \<Rightarrow> utext) \<Rightarrow> router \<Rightarrow> (string, unit) btree \<Rightarrow> chat_request \<Rightarrow> agent_hint list
     \<Rightarrow> decision \<Rightarrow> decision" where
  "guard_decision u js r free req hints d =
     (let d = (if router_routing_mode r = Tiered then retain_free_fallbacks d free else d)
      in d\<lparr>dec_features := (dec_features d)\<lparr>rf_estimated_input_tokens :=
             estimated_input_with_schemas u js req hints\<rparr>\<rparr>)"

definition route_with_mode ::
  "unicode \<Rightarrow> (json \<Rightarrow> utext) \<Rightarrow> router \<Rightarrow> (string, unit) btree \<Rightarrow> 'd quota_tracker \<Rightarrow> chat_request
     \<Rightarrow> agent_hint list \<Rightarrow> candidate list \<Rightarrow> string \<Rightarrow> (no_route + decision) outcome" where
  "route_with_mode u js r free quota req hints cands session =
     (let prior = last_account quota session in
      if \<not> rf_has_images (extract_features u req hints)
      then run_then (route_in_mode u r req hints prior cands) (\<lambda>result. case result of
          Inl e \<Rightarrow> Completed (Err e)
        | Inr d \<Rightarrow> Completed (Ok (guard_decision u js r free req hints d)))
      else run_then (route_images u r req hints prior cands) (\<lambda>result. case result of
          Inl e \<Rightarrow> Completed (Err e)
        | Inr d \<Rightarrow> rank_image_targets r (guard_decision u js r free req hints d) cands free))"

definition quota_preamble :: "router \<Rightarrow> u64 \<Rightarrow> string \<Rightarrow> u64 option \<times> string" where
  "quota_preamble r now session_key =
     (if router_routing_mode r \<noteq> QuotaFirst then (None, []) else (Some now, session_key))"

section \<open>Properties\<close>

lemma retain_free_guard:
  "bt_contains free (as_str (um_upstream (dec_chosen (retain_free_fallbacks d free)))) \<Longrightarrow>
    t \<in> set (dec_fallbacks (retain_free_fallbacks d free)) \<Longrightarrow>
    bt_contains free (as_str (um_upstream t))"
  by (auto simp: retain_free_fallbacks_def split: if_splits)

lemma guard_decision_frame:
  "dec_chosen (guard_decision u js r free req hints d) = dec_chosen d"
  "set (dec_fallbacks (guard_decision u js r free req hints d)) \<subseteq> set (dec_fallbacks d)"
  by (auto simp: guard_decision_def retain_free_fallbacks_def Let_def)

lemma case_result_Ok:
  "(case a of Inl e \<Rightarrow> Completed (Err e) | Inr d \<Rightarrow> f d) = Completed (Ok x)
    \<longleftrightarrow> (\<exists>d. a = Inr d \<and> f d = Completed (Ok x))"
  by (cases a) simp_all

lemma route_with_mode_Ok:
  assumes "route_with_mode u js r free quota req hints cands session = Completed (Ok d)"
  obtains (text_only) d0 where "\<not> rf_has_images (extract_features u req hints)"
      "route_in_mode u r req hints (last_account quota session) cands = Completed (Ok d0)"
      "d = guard_decision u js r free req hints d0"
    | (images) d0 where "rf_has_images (extract_features u req hints)"
      "route_images u r req hints (last_account quota session) cands = Completed (Ok d0)"
      "rank_image_targets r (guard_decision u js r free req hints d0) cands free = Completed (Ok d)"
  using assms
  by (auto simp: route_with_mode_def Let_def run_then_Completed_iff case_result_Ok split: if_splits)

lemma rank_image_targets_Ok:
  assumes "rank_image_targets r d0 cands free = Completed (Ok d)"
  shows "\<exists>chosen fallbacks. map cand_target (sort_key (image_key r d0) (image_candidates d0 cands))
      = chosen # fallbacks
    \<and> d = (if router_routing_mode r = Tiered
           then retain_free_fallbacks (d0\<lparr>dec_chosen := chosen, dec_fallbacks := fallbacks\<rparr>) free
           else d0\<lparr>dec_chosen := chosen, dec_fallbacks := fallbacks\<rparr>)"
  using assms by (auto simp: rank_image_targets_def Let_def split: if_splits list.splits)

lemma map_filter_find:
  "c \<in> set (List.map_filter (\<lambda>t. find (\<lambda>c. cand_target c = t) cands) ts) \<Longrightarrow>
    c \<in> set cands \<and> cand_target c \<in> set ts"
  by (induction ts) (auto simp: List.map_filter_simps find_Some_iff split: option.splits)

lemma image_candidates_mem:
  "c \<in> set (image_candidates d cands) \<Longrightarrow>
    c \<in> set cands \<and> cand_target c \<in> set (targets_of d) \<and> allows_image_attempt (cand_capability c)"
  by (auto simp: image_candidates_def dest!: map_filter_find)

text \<open>
  C27. A free request never pays: in tiered mode, when the target the gateway chose belongs to a free
  upstream, so does every fallback, for text and for images, whatever the tiers and backups say.
\<close>

theorem free_request_never_pays:
  assumes "route_with_mode u js r free quota req hints cands session = Completed (Ok d)"
    and "router_routing_mode r = Tiered" and "bt_contains free (as_str (um_upstream (dec_chosen d)))"
    and "t \<in> set (dec_fallbacks d)"
  shows "bt_contains free (as_str (um_upstream t))"
  using assms(1)
proof (cases rule: route_with_mode_Ok)
  case (text_only d0)
  then show ?thesis using assms(2-) retain_free_guard [of free d0 t]
    by (simp add: guard_decision_def Let_def)
next
  case (images d0)
  from rank_image_targets_Ok [OF images(3)] obtain d' where "d = retain_free_fallbacks d' free"
    using assms(2) by auto
  then show ?thesis using assms(3,4) retain_free_guard by blast
qed

text \<open>
  An image reaches only targets that may take it: every target of a decision for a request with
  images is an installed candidate whose vision support is not known to be missing, although the
  router was shown the unknown ones, and whole pools, as supporting it.
\<close>

theorem images_reach_no_text_model:
  assumes "route_with_mode u js r free quota req hints cands session = Completed (Ok d)"
    and "rf_has_images (extract_features u req hints)" and "t \<in> set (targets_of d)"
  shows "\<exists>c \<in> set cands. cand_target c = t \<and> allows_image_attempt (cand_capability c)"
  using assms(1)
proof (cases rule: route_with_mode_Ok)
  case (images d0)
  let ?d0 = "guard_decision u js r free req hints d0"
  from rank_image_targets_Ok [OF images(3)] obtain chosen fallbacks where
    sorted: "map cand_target (sort_key (image_key r ?d0) (image_candidates ?d0 cands)) = chosen # fallbacks"
    and d: "d = (if router_routing_mode r = Tiered
        then retain_free_fallbacks (?d0\<lparr>dec_chosen := chosen, dec_fallbacks := fallbacks\<rparr>) free
        else ?d0\<lparr>dec_chosen := chosen, dec_fallbacks := fallbacks\<rparr>)"
    by (elim exE conjE) (rule that)
  have "set (targets_of d) \<subseteq> set (chosen # fallbacks)"
    unfolding d by (auto simp: targets_of_def retain_free_fallbacks_def)
  with sorted have "t \<in> cand_target ` set (image_candidates ?d0 cands)"
    using assms(3) by (metis list.set_map set_sort subsetD)
  then show ?thesis using image_candidates_mem by blast
qed (use assms(2) in simp)

text \<open>Worked examples: the decision of \<open>example_route\<close>, and an image for a model that may see.\<close>

definition example_free :: "(string, unit) btree" where
  "example_free = [(''a'', ()), (''b'', ())]"

definition fresh_tracker :: "unit quota_tracker" where
  "fresh_tracker = \<lparr>qt_accounts = [], qt_store = None, qt_persistence_failed = False,
     qt_leases = leases_new DEFAULT_LEASE_MS, qt_sessions = Map.empty, qt_session_order = [],
     qt_session_capacity = 4096, qt_cooling_until_ms = Map.empty, qt_authoritative = Map.empty\<rparr>"

lemma example_route_with_mode:
  "route_with_mode ascii_tables (\<lambda>_. []) (Router example_config) example_free fresh_tracker example_request []
      example_candidates [] = Completed (Ok (guard_decision ascii_tables (\<lambda>_. []) (Router example_config)
        example_free example_request [] example_decision))"
proof -
  have "\<not> rf_has_images (extract_features ascii_tables example_request [])"
    using example_features_eq by (simp add: example_features_def features_default_def)
  moreover have "route_in_mode ascii_tables (Router example_config) example_request [] None example_candidates
      = Completed (Ok example_decision)"
    using example_route by (simp add: route_in_mode_def router_routing_mode_def example_config_def)
  ultimately show ?thesis
    by (simp add: route_with_mode_def Let_def last_account_def fresh_tracker_def)
qed

lemma free_request_never_pays_witness:
  "bt_contains example_free (as_str (um_upstream (example_target ''a'' ''m1'')))"
  by (rule free_request_never_pays [OF example_route_with_mode])
    (simp_all add: router_routing_mode_def example_config_def guard_decision_def Let_def
      retain_free_fallbacks_def example_decision_def example_free_def bt_contains_def bt_get_def example_target_def)

definition image_request :: chat_request where
  "image_request = chat_request_new ''m1''
     [(message_text User [])\<lparr>msg_content := Some (ContentParts [PartImageUrl \<lparr>iu_url = ''u'', iu_detail = None\<rparr>])\<rparr>]"

definition unknown_vision :: "candidate \<Rightarrow> candidate" where
  "unknown_vision c = c\<lparr>cand_capability := (cand_capability c)\<lparr>cap_vision_state := Some Unknown\<rparr>\<rparr>"

definition some_may_see :: "candidate list" where
  "some_may_see = [hd example_candidates, unknown_vision (example_candidates ! 1),
     unknown_vision (example_candidates ! 2)]"

definition decided_targets :: "(no_route + decision) outcome \<Rightarrow> upstream_model list" where
  "decided_targets x = (case x of Completed (Inr d) \<Rightarrow> targets_of d | _ \<Rightarrow> [])"

lemma image_request_has_images: "rf_has_images (extract_features ascii_tables image_request [])"
  by code_simp

lemma image_route:
  "decided_targets (route_with_mode ascii_tables (\<lambda>_. []) (Router example_config) [] fresh_tracker image_request []
      some_may_see []) = [example_target ''b'' ''m1'', example_target ''c'' ''m2'']"
  by code_simp

lemma images_reach_no_text_model_witness:
  "\<exists>c \<in> set some_may_see. cand_target c = example_target ''b'' ''m1''
     \<and> allows_image_attempt (cand_capability c)"
proof -
  obtain d where d:
    "route_with_mode ascii_tables (\<lambda>_. []) (Router example_config) [] fresh_tracker image_request []
      some_may_see [] = Completed (Ok d)"
    and targets: "targets_of d = [example_target ''b'' ''m1'', example_target ''c'' ''m2'']"
    using image_route by (auto simp: decided_targets_def split: outcome.splits sum.splits)
  have "example_target ''b'' ''m1'' \<in> set (targets_of d)" unfolding targets by simp
  then show ?thesis by (rule images_reach_no_text_model [OF d image_request_has_images])
qed

end
