(* ===== verification/Admission.thy ===== *)
theory Admission
  imports Prelude
begin

text \<open>
  Concurrency admission, \<open>apps/cli/src/admission.rs\<close>. The counters of the three levels are one map
  from \<open>counter_key\<close>; a key that was never used counts 0, as \<open>or_insert_with\<close> makes it. The
  compare-and-swap loop of \<open>try_take\<close> is a step relation over the threads that run it, so that
  every interleaving of their loads, swaps and drops is a path.
\<close>

definition DEFAULT_GLOBAL :: u32 where "DEFAULT_GLOBAL = 64"
definition DEFAULT_PER_AGENT :: u32 where "DEFAULT_PER_AGENT = 16"
definition DEFAULT_PER_PROVIDER :: u32 where "DEFAULT_PER_PROVIDER = 16"

record limits =
  lim_global :: u32
  lim_per_agent :: u32
  lim_per_provider :: u32

definition limits_default :: limits where
  "limits_default = \<lparr>lim_global = DEFAULT_GLOBAL, lim_per_agent = DEFAULT_PER_AGENT,
     lim_per_provider = DEFAULT_PER_PROVIDER\<rparr>"

datatype counter_key = Global | Agent string | Provider string

record admission =
  ad_limits :: limits
  ad_counters :: "counter_key \<Rightarrow> u32"

definition admission_new :: "limits \<Rightarrow> admission" where
  "admission_new l = \<lparr>ad_limits = l, ad_counters = (\<lambda>_. 0)\<rparr>"

definition global_limit :: "admission \<Rightarrow> u32" where
  "global_limit a = lim_global (ad_limits a)"

fun limit_of :: "limits \<Rightarrow> counter_key \<Rightarrow> u32" where
  "limit_of l Global = lim_global l"
| "limit_of l (Agent _) = lim_per_agent l"
| "limit_of l (Provider _) = lim_per_provider l"

section \<open>One thread\<close>

text \<open>Where a thread is in \<open>try_take\<close>, in holding its permit, and after dropping it.\<close>

datatype taking =
    Idle
  | Loaded counter_key u32
  | Refused counter_key
  | Holding counter_key
  | Dropped counter_key

text \<open>Up to the first load.\<close>

definition take_load :: "u32 \<Rightarrow> counter_key \<Rightarrow> u32 \<Rightarrow> taking" where
  "take_load limit k counter = (if limit = 0 then Refused k else Loaded k counter)"

text \<open>
  One round of the loop, with the value read last: \<open>compare_exchange_weak\<close> may fail even when the
  counter still holds it.
\<close>

definition take_round :: "u32 \<Rightarrow> counter_key \<Rightarrow> u32 \<Rightarrow> bool \<Rightarrow> u32 \<Rightarrow> taking \<times> u32" where
  "take_round limit k current spurious counter =
     (if limit \<le> current then (Refused k, counter)
      else if counter = current \<and> \<not> spurious then (Holding k, counter + 1)
      else (Loaded k counter, counter))"

text \<open>\<open>try_take\<close> run without interference: the counter after it, or a refusal.\<close>

definition try_take :: "u32 \<Rightarrow> u32 \<Rightarrow> u32 option" where
  "try_take counter limit =
     (if limit = 0 then None else if limit \<le> counter then None else Some (counter + 1))"

definition enter :: "admission \<Rightarrow> counter_key \<Rightarrow> admission option" where
  "enter a k = map_option (\<lambda>n. a\<lparr>ad_counters := (ad_counters a)(k := n)\<rparr>)
     (try_take (ad_counters a k) (limit_of (ad_limits a) k))"

definition enter_global :: "admission \<Rightarrow> admission option" where
  "enter_global a = enter a Global"

definition enter_agent :: "admission \<Rightarrow> string \<Rightarrow> admission option" where
  "enter_agent a agent = enter a (Agent agent)"

definition enter_provider :: "admission \<Rightarrow> string \<Rightarrow> admission option" where
  "enter_provider a upstream = enter a (Provider upstream)"

definition drop_permit :: "admission \<Rightarrow> counter_key \<Rightarrow> admission" where
  "drop_permit a k = a\<lparr>ad_counters := (ad_counters a)(k := ad_counters a k - 1)\<rparr>"

section \<open>All threads\<close>

record gate =
  gt_counters :: "counter_key \<Rightarrow> u32"
  gt_threads :: "nat \<Rightarrow> taking"

definition gate_start :: gate where
  "gate_start = \<lparr>gt_counters = (\<lambda>_. 0), gt_threads = (\<lambda>_. Idle)\<rparr>"

inductive gate_step :: "limits \<Rightarrow> gate \<Rightarrow> gate \<Rightarrow> bool" for l where
  Load: "gt_threads g i = Idle \<Longrightarrow>
    gate_step l g (g\<lparr>gt_threads := (gt_threads g)(i := take_load (limit_of l k) k (gt_counters g k))\<rparr>)"
| Round: "gt_threads g i = Loaded k current \<Longrightarrow>
    take_round (limit_of l k) k current spurious (gt_counters g k) = (next_phase, n) \<Longrightarrow>
    gate_step l g (g\<lparr>gt_counters := (gt_counters g)(k := n), gt_threads := (gt_threads g)(i := next_phase)\<rparr>)"
| Drop: "gt_threads g i = Holding k \<Longrightarrow>
    gate_step l g (g\<lparr>gt_counters := (gt_counters g)(k := gt_counters g k - 1),
      gt_threads := (gt_threads g)(i := Dropped k)\<rparr>)"

inductive_cases gate_stepE: "gate_step l g g'"

inductive gate_reach :: "limits \<Rightarrow> gate \<Rightarrow> bool" for l where
  start: "gate_reach l gate_start"
| step: "gate_reach l g \<Longrightarrow> gate_step l g g' \<Longrightarrow> gate_reach l g'"

definition holders :: "gate \<Rightarrow> counter_key \<Rightarrow> nat set" where
  "holders g k = {i. gt_threads g i = Holding k}"

text \<open>A thread is refused only at a limit of 0, or by a value it read that was at the limit.\<close>

lemma refused_at_limit:
  "gate_step l g g' \<Longrightarrow> gt_threads g i \<noteq> Refused k \<Longrightarrow> gt_threads g' i = Refused k \<Longrightarrow>
    limit_of l k = 0 \<or> (\<exists>current. gt_threads g i = Loaded k current \<and> limit_of l k \<le> current)"
  by (erule gate_stepE) (auto simp: take_load_def take_round_def split: if_splits)

text \<open>Every counter is the number of permits out, and never above its limit.\<close>

definition gate_ok :: "limits \<Rightarrow> gate \<Rightarrow> bool" where
  "gate_ok l g \<longleftrightarrow> (\<forall>k. finite (holders g k) \<and> unat (gt_counters g k) = card (holders g k)
     \<and> gt_counters g k \<le> limit_of l k)"

lemma gate_ok_start: "gate_ok l gate_start"
  by (simp add: gate_ok_def gate_start_def holders_def)

lemma holders_update:
  "holders (g\<lparr>gt_threads := (gt_threads g)(i := p)\<rparr>) k
     = (if p = Holding k then insert i (holders g k) else holders g k - {i})"
  "holders (g\<lparr>gt_counters := c, gt_threads := (gt_threads g)(i := p)\<rparr>) k
     = (if p = Holding k then insert i (holders g k) else holders g k - {i})"
  by (auto simp: holders_def)

lemma not_holder: "gt_threads g i \<noteq> Holding k \<Longrightarrow> holders g k - {i} = holders g k" "gt_threads g i \<noteq> Holding k \<Longrightarrow> i \<notin> holders g k"
  by (auto simp: holders_def)

lemma unat_succ_less: "a < b \<Longrightarrow> unat (a + 1) = Suc (unat a)" for a b :: u32
  using unat_add_lem [of a 1] unat_lt [of b] by (simp add: word_less_nat_alt)

lemma gate_ok_step:
  assumes "gate_step l g g'" and "gate_ok l g"
  shows "gate_ok l g'"
  using assms(1)
proof (cases rule: gate_step.cases)
  case (Load i k)
  have "take_load (limit_of l k) k (gt_counters g k) \<noteq> Holding k'" for k'
    by (simp add: take_load_def)
  then show ?thesis
    using assms(2) Load(2) unfolding Load(1) gate_ok_def
    by (simp add: holders_update not_holder)
next
  case (Round i k current spurious p n)
  show ?thesis
  proof (cases "p = Holding k")
    case True
    then have n: "n = gt_counters g k + 1" and less: "gt_counters g k < limit_of l k"
      using Round(3) by (auto simp: take_round_def not_le split: if_splits)
    have "unat n = Suc (unat (gt_counters g k))" unfolding n by (rule unat_succ_less [OF less])
    moreover have "n \<le> limit_of l k"
      using less calculation by (simp add: word_le_nat_alt word_less_nat_alt)
    ultimately show ?thesis
      using assms(2) Round(2) True unfolding Round(1) gate_ok_def
      by (auto simp: holders_update not_holder)
  next
    case False
    then have p: "p \<noteq> Holding k'" and "n = gt_counters g k" for k'
      using Round(3) by (auto simp: take_round_def split: if_splits)
    then show ?thesis
      using assms(2) Round(2) unfolding Round(1) gate_ok_def
      by (simp add: holders_update not_holder)
  qed
next
  case (Drop i k)
  have i: "i \<in> holders g k" using Drop(2) by (simp add: holders_def)
  have count: "unat (gt_counters g k) = card (holders g k)" "finite (holders g k)"
    and lim: "gt_counters g k \<le> limit_of l k"
    using assms(2) by (auto simp: gate_ok_def)
  have "0 < unat (gt_counters g k)" using i count by (auto simp: card_gt_0_iff)
  then have n: "unat (gt_counters g k - 1) = unat (gt_counters g k) - 1"
    by (subst unat_sub) (simp_all add: word_le_nat_alt)
  then have "gt_counters g k - 1 \<le> limit_of l k" using lim by (simp add: word_le_nat_alt)
  moreover have "unat (gt_counters g k - 1) = card (holders g k - {i})"
    using n count i by simp
  ultimately show ?thesis
    using assms(2) Drop(2) unfolding Drop(1) gate_ok_def
    by (auto simp: holders_update not_holder)
qed

lemma gate_ok_reach: "gate_reach l g \<Longrightarrow> gate_ok l g"
  by (induction rule: gate_reach.induct) (auto intro: gate_ok_start gate_ok_step)

text \<open>
  C13. Whatever the interleaving of loads, swaps (spurious failures included) and drops, each
  counter is exactly the number of permits out at its level, so at no moment are more requests
  admitted than its limit, no permit is lost, and none is returned twice: the counter neither
  wraps above nor below. A limit of 0 admits nobody.
\<close>

theorem admission_never_exceeds_limit:
  assumes "gate_reach l g"
  shows "card {i. gt_threads g i = Holding k} = unat (gt_counters g k)
    \<and> card {i. gt_threads g i = Holding k} \<le> unat (limit_of l k)"
  using gate_ok_reach [OF assms] unfolding gate_ok_def holders_def word_le_nat_alt by metis

lemma gate_reach_run: "gate_reach l g \<Longrightarrow> (gate_step l)\<^sup>*\<^sup>* g g' \<Longrightarrow> gate_reach l g'"
  by (rotate_tac, induction rule: rtranclp_induct) (auto intro: gate_reach.step)

text \<open>A call of \<open>enter\<close> that is not interfered with is a path of the relation.\<close>

lemma enter_is_path:
  assumes "enter a k = Some a'" and "gt_counters g = ad_counters a" and "gt_threads g i = Idle"
  shows "\<exists>g'. (gate_step (ad_limits a))\<^sup>*\<^sup>* g g' \<and> gt_counters g' = ad_counters a'
    \<and> gt_threads g' = (gt_threads g)(i := Holding k)"
proof -
  let ?c = "gt_counters g k" and ?l = "limit_of (ad_limits a) k"
  have lim: "?l \<noteq> 0" "\<not> ?l \<le> ?c" and a': "ad_counters a' = (gt_counters g)(k := ?c + 1)"
    using assms(1,2) by (auto simp: enter_def try_take_def split: if_splits)
  let ?g1 = "g\<lparr>gt_threads := (gt_threads g)(i := Loaded k ?c)\<rparr>"
  let ?g2 = "?g1\<lparr>gt_counters := (gt_counters ?g1)(k := ?c + 1),
      gt_threads := (gt_threads ?g1)(i := Holding k)\<rparr>"
  have "gate_step (ad_limits a) g ?g1"
    using gate_step.Load [of g i "ad_limits a" k] assms(3) lim by (simp add: take_load_def)
  moreover have "gate_step (ad_limits a) ?g1 ?g2"
    by (rule gate_step.Round [where current = ?c and spurious = False]) (use lim in \<open>simp_all add: take_round_def\<close>)
  ultimately have "(gate_step (ad_limits a))\<^sup>*\<^sup>* g ?g2" by (meson r_into_rtranclp rtranclp.rtrancl_into_rtrancl)
  then show ?thesis using a' by (intro exI [of _ ?g2]) simp
qed

lemma admission_never_exceeds_limit_witness:
  "\<exists>g :: gate. gt_threads g 7 = Holding Global \<and> card {i. gt_threads g i = Holding Global} \<le> unat (lim_global limits_default)"
proof -
  have "enter (admission_new limits_default) Global
      = Some ((admission_new limits_default)\<lparr>ad_counters := (\<lambda>_. 0)(Global := 1)\<rparr>)"
    by (simp add: enter_def try_take_def admission_new_def limits_default_def DEFAULT_GLOBAL_def word_le_nat_alt)
  from enter_is_path [OF this, of gate_start 7] obtain g where
    "(gate_step limits_default)\<^sup>*\<^sup>* gate_start g" and "gt_threads g 7 = Holding Global"
    by (auto simp: gate_start_def admission_new_def)
  with admission_never_exceeds_limit [OF gate_reach_run [OF gate_reach.start], of limits_default g Global]
  show ?thesis by auto
qed

text \<open>A permit that is taken and dropped leaves the gate as it was.\<close>

lemma enter_drop: "enter a k = Some a' \<Longrightarrow> drop_permit a' k = a"
  by (auto simp: enter_def drop_permit_def try_take_def split: if_splits)

end
