(* ===== verification/Cancel.thy ===== *)
theory Cancel
  imports Prelude
begin

text \<open>
  Cascading cancellation, \<open>apps/cli/src/cancel.rs\<close>. An \<open>Arc<AtomicU8>\<close> is an address of a store of
  cells, so that a child and its parent share the parent's cell. The Tokio token that only wakes
  asynchronous transports is not modelled.
\<close>

datatype cancel_reason = ClientDisconnect | ServerDrain | Deadline

fun reason_code :: "cancel_reason \<Rightarrow> u8" where
  "reason_code ClientDisconnect = 1"
| "reason_code ServerDrain = 2"
| "reason_code Deadline = 3"

definition decode :: "u8 \<Rightarrow> cancel_reason option" where
  "decode v = (if v = 1 then Some ClientDisconnect else if v = 2 then Some ServerDrain
     else if v = 3 then Some Deadline else None)"

record cells =
  cell_value :: "nat \<Rightarrow> u8"
  cell_next :: nat

definition cells_empty :: cells where
  "cells_empty = \<lparr>cell_value = (\<lambda>_. 0), cell_next = 0\<rparr>"

record cancel_token =
  tk_reason :: nat
  tk_parent :: "nat option"

text \<open>\<open>Arc::new(AtomicU8::new(0))\<close>.\<close>

definition new_cell :: "cells \<Rightarrow> nat \<times> cells" where
  "new_cell h = (cell_next h, h\<lparr>cell_value := (cell_value h)(cell_next h := 0),
     cell_next := cell_next h + 1\<rparr>)"

definition token_root :: "cells \<Rightarrow> cancel_token \<times> cells" where
  "token_root h = (let (a, h) = new_cell h in (\<lparr>tk_reason = a, tk_parent = None\<rparr>, h))"

definition token_child :: "cancel_token \<Rightarrow> cells \<Rightarrow> cancel_token \<times> cells" where
  "token_child t h = (let (a, h) = new_cell h in (\<lparr>tk_reason = a, tk_parent = Some (tk_reason t)\<rparr>, h))"

text \<open>\<open>compare_exchange(0, reason)\<close>, its result ignored.\<close>

definition cancel_with :: "cancel_token \<Rightarrow> cancel_reason \<Rightarrow> cells \<Rightarrow> cells" where
  "cancel_with t reason h =
     (if cell_value h (tk_reason t) = 0
      then h\<lparr>cell_value := (cell_value h)(tk_reason t := reason_code reason)\<rparr> else h)"

definition cancel :: "cancel_token \<Rightarrow> cells \<Rightarrow> cells" where
  "cancel t h = cancel_with t ClientDisconnect h"

definition token_cancel_reason :: "cancel_token \<Rightarrow> cells \<Rightarrow> cancel_reason option" where
  "token_cancel_reason t h = (case decode (cell_value h (tk_reason t)) of
      Some r \<Rightarrow> Some r
    | None \<Rightarrow> Option.bind (tk_parent t) (\<lambda>p. decode (cell_value h p)))"

definition token_is_cancelled :: "cancel_token \<Rightarrow> cells \<Rightarrow> bool" where
  "token_is_cancelled t h \<longleftrightarrow> token_cancel_reason t h \<noteq> None"

section \<open>Histories of cancellation\<close>

lemma decode_code [simp]: "decode (reason_code r) = Some r" "reason_code r \<noteq> 0"
  by (cases r; simp add: decode_def)+

lemma decode_zero [simp]: "decode 0 = None"
  by (simp add: decode_def)

definition cancel_all :: "(cancel_token \<times> cancel_reason) list \<Rightarrow> cells \<Rightarrow> cells" where
  "cancel_all es h = fold (\<lambda>(t, r). cancel_with t r) es h"

text \<open>The first reason given to a cell.\<close>

definition first_reason :: "(cancel_token \<times> cancel_reason) list \<Rightarrow> nat \<Rightarrow> cancel_reason option" where
  "first_reason es a = map_option snd (find (\<lambda>(t, _). tk_reason t = a) es)"

lemma cell_after_cancels:
  "cell_value (cancel_all es h) a =
    (if cell_value h a \<noteq> 0 then cell_value h a
     else case first_reason es a of None \<Rightarrow> 0 | Some r \<Rightarrow> reason_code r)"
proof (induction es arbitrary: h)
  case Nil
  show ?case by (simp add: cancel_all_def first_reason_def)
next
  case (Cons e es)
  obtain t r where e: "e = (t, r)" by fastforce
  have "cell_value (cancel_with t r h) a =
      (if cell_value h a = 0 \<and> tk_reason t = a then reason_code r else cell_value h a)"
    by (auto simp: cancel_with_def)
  then show ?case
    using Cons.IH [of "cancel_with t r h"] by (simp add: e cancel_all_def first_reason_def)
qed

text \<open>
  Cancellation is monotone and first-come: whatever cancellations happen, a token made live
  answers the first reason given to itself, otherwise the first one given to its parent, otherwise
  none. A later drain never overwrites a client's disconnect, and cancelling a token never shows on
  its parent or siblings.
\<close>

theorem first_reason_wins:
  assumes "cell_value h (tk_reason t) = 0" and "\<And>p. tk_parent t = Some p \<Longrightarrow> cell_value h p = 0"
  shows "token_cancel_reason t (cancel_all es h) =
    (case first_reason es (tk_reason t) of
       Some r \<Rightarrow> Some r
     | None \<Rightarrow> Option.bind (tk_parent t) (first_reason es))"
  using assms
  by (cases "tk_parent t") (auto simp: token_cancel_reason_def cell_after_cancels split: option.splits)

lemma first_reason_wins_witness:
  "token_cancel_reason \<lparr>tk_reason = 1, tk_parent = Some 0\<rparr>
     (cancel_all [(\<lparr>tk_reason = 0, tk_parent = None\<rparr>, ServerDrain)] cells_empty) = Some ServerDrain"
  using first_reason_wins [of cells_empty "\<lparr>tk_reason = 1, tk_parent = Some 0\<rparr>"
      "[(\<lparr>tk_reason = 0, tk_parent = None\<rparr>, ServerDrain)]"]
  by (simp add: cells_empty_def first_reason_def)

text \<open>Tokens start live, and a new token's cell is no other token's.\<close>

lemma token_child_fresh:
  assumes "token_child t h = (c, h')" and "tk_reason t < cell_next h"
  shows "cell_value h' (tk_reason c) = 0" and "tk_reason c \<noteq> tk_reason t"
    and "cell_value h' (tk_reason t) = cell_value h (tk_reason t)"
  using assms by (auto simp: token_child_def new_cell_def)

end
