(* ===== verification/Attempt.thy ===== *)
theory Attempt
  imports Gateway_Route Admission Cancel
begin

text \<open>
  The attempt machine, \<open>apps/cli/src/gateway/attempt_machine.rs\<close>, with the error marks and the
  observations of \<open>apps/cli/src/gateway.rs\<close> and the deadlines of \<open>apps/cli/src/request_context.rs\<close>: a
  routed request tries its targets in order under one budget, holding a provider permit and a
  quota lease for each attempt, and moves on only while the error allows it.

  Instants and durations are milliseconds. What the world does is the record \<open>env\<close>: the clocks,
  the cancellation cells, the outcome of the call to a provider (plug-ins, transport, parsing),
  and what other requests did to the shared state between the steps of this one. Each reading
  of it takes the next tick, so that no reading constrains another.
\<close>

section \<open>Requests and budgets\<close>

record request_context =
  cx_cancel :: cancel_token
  cx_deadline :: nat
  cx_per_attempt_timeout :: nat

definition cx_remaining :: "request_context \<Rightarrow> nat \<Rightarrow> nat" where
  "cx_remaining cx now = cx_deadline cx - now"

definition cx_cancel_reason :: "request_context \<Rightarrow> cells \<Rightarrow> nat \<Rightarrow> cancel_reason option" where
  "cx_cancel_reason cx h now = (case token_cancel_reason (cx_cancel cx) h of
      Some r \<Rightarrow> Some r
    | None \<Rightarrow> if cx_remaining cx now = 0 then Some Deadline else None)"

definition cx_is_cancelled :: "request_context \<Rightarrow> cells \<Rightarrow> nat \<Rightarrow> bool" where
  "cx_is_cancelled cx h now \<longleftrightarrow> cx_cancel_reason cx h now \<noteq> None"

text \<open>\<open>checked_add\<close> of an instant does not fail on the clocks modelled here.\<close>

definition attempt_deadline_for :: "request_context \<Rightarrow> nat \<Rightarrow> nat \<Rightarrow> nat" where
  "attempt_deadline_for cx attempt_timeout now = min (cx_deadline cx) (now + attempt_timeout)"

definition MAX_ATTEMPTS :: u32 where "MAX_ATTEMPTS = 6"

record attempt_budget =
  ab_max_attempts :: u32
  ab_max_elapsed :: nat
  ab_per_attempt_timeout :: nat
  ab_max_cost :: "u64 option"
  ab_started :: nat
  ab_attempts :: u32
  ab_reserved_cost :: u64

definition budget_for_request :: "request_context \<Rightarrow> nat \<Rightarrow> attempt_budget" where
  "budget_for_request cx now = \<lparr>ab_max_attempts = MAX_ATTEMPTS, ab_max_elapsed = cx_remaining cx now,
     ab_per_attempt_timeout = cx_per_attempt_timeout cx, ab_max_cost = None, ab_started = now,
     ab_attempts = 0, ab_reserved_cost = 0\<rparr>"

definition budget_remaining :: "attempt_budget \<Rightarrow> nat \<Rightarrow> nat" where
  "budget_remaining b now = ab_max_elapsed b - (now - ab_started b)"

text \<open>\<open>try_begin\<close>: the budget with the attempt taken, or a refusal that leaves it alone.\<close>

definition try_begin :: "attempt_budget \<Rightarrow> u64 option \<Rightarrow> nat \<Rightarrow> attempt_budget option" where
  "try_begin b estimated_cost now =
     (if ab_max_attempts b \<le> ab_attempts b \<or> budget_remaining b now = 0 then None
      else
        let reservation = (case (ab_max_cost b, estimated_cost) of
              (Some _, None) \<Rightarrow> None
            | (_, None) \<Rightarrow> Some 0
            | (_, Some cost) \<Rightarrow> Some cost)
        in case reservation of
             None \<Rightarrow> None
           | Some reservation \<Rightarrow>
               if (case ab_max_cost b of None \<Rightarrow> False
                   | Some maximum \<Rightarrow> maximum < sat_add (ab_reserved_cost b) reservation)
               then None
               else Some (b\<lparr>ab_attempts := ab_attempts b + 1,
                      ab_reserved_cost := sat_add (ab_reserved_cost b) reservation\<rparr>))"

definition retry_delay :: "attempt_budget \<Rightarrow> nat \<Rightarrow> request_context \<Rightarrow> nat \<Rightarrow> nat" where
  "retry_delay b requested cx now = min (min requested (budget_remaining b now)) (cx_remaining cx now)"

definition has_attempt_remaining :: "attempt_budget \<Rightarrow> bool" where
  "has_attempt_remaining b \<longleftrightarrow> ab_attempts b < ab_max_attempts b"

definition buffered_transport_timeout :: "nat \<Rightarrow> nat \<Rightarrow> error_envelope + nat" where
  "buffered_transport_timeout attempt_deadline now =
     (let remaining = attempt_deadline - now in
      if remaining = 0 then Err (error_envelope_new Timeout 504 ''request deadline exceeded'')
      else Ok (if remaining - 1 \<noteq> 0 then remaining - 1 else remaining))"

section \<open>Marks on errors\<close>

definition NO_ATTEMPT_FALLBACK_EXTENSION :: string where
  "NO_ATTEMPT_FALLBACK_EXTENSION = ''token_station_private_no_attempt_fallback''"

definition IMAGE_UNSUPPORTED_EXTENSION :: string where
  "IMAGE_UNSUPPORTED_EXTENSION = ''token_station_private_image_unsupported''"

definition forbid_attempt_fallback :: "error_envelope \<Rightarrow> error_envelope" where
  "forbid_attempt_fallback e =
     e\<lparr>ee_extensions := bt_insert NO_ATTEMPT_FALLBACK_EXTENSION (JBool True) (ee_extensions e)\<rparr>"

definition is_image_channel_refusal :: "error_envelope \<Rightarrow> bool" where
  "is_image_channel_refusal e \<longleftrightarrow> bt_get (ee_extensions e) IMAGE_UNSUPPORTED_EXTENSION = Some (JBool True)"

definition attempt_fallback_allowed :: "error_envelope \<Rightarrow> bool" where
  "attempt_fallback_allowed e \<longleftrightarrow>
     (is_retriable_elsewhere (ee_code e) \<or> is_image_channel_refusal e)
     \<and> bt_get (ee_extensions e) NO_ATTEMPT_FALLBACK_EXTENSION \<noteq> Some (JBool True)"

definition sanitize_attempt_error_for_render :: "error_envelope \<Rightarrow> error_envelope" where
  "sanitize_attempt_error_for_render e =
     e\<lparr>ee_extensions := bt_remove IMAGE_UNSUPPORTED_EXTENSION
         (bt_remove NO_ATTEMPT_FALLBACK_EXTENSION (ee_extensions e))\<rparr>"

definition take_attempt_fallback_policy :: "error_envelope \<Rightarrow> bool \<times> error_envelope" where
  "take_attempt_fallback_policy e = (attempt_fallback_allowed e, sanitize_attempt_error_for_render e)"

definition upstream_image_error :: error_envelope where
  "upstream_image_error =
     (let e = error_envelope_new Capability 400
            ''The current channel rejected image input. No available fallback completed the request. Open Token Station to select another channel.''
      in e\<lparr>ee_extensions := bt_insert IMAGE_UNSUPPORTED_EXTENSION (JBool True) (ee_extensions e)\<rparr>)"

definition image_request_guidance :: "error_envelope \<Rightarrow> error_envelope" where
  "image_request_guidance e =
     (if ee_code e = InvalidRequest \<and> ee_http_status e = 400
      then e\<lparr>ee_message := ''The model rejected this image request. Check the image format or switch to an image model in Token Station > Routing.''\<rparr>
      else e)"

definition conditional_image_hints :: "string list" where
  "conditional_image_hints = [''image size'', ''image format'', ''mime'', ''media_type'', ''media type'',
     ''base64'', ''decode'', ''image url'', ''image_url'', ''image resolution'', ''content policy'',
     ''content_policy'', ''safety'', ''moderation'']"

definition image_capability_statements :: "string list" where
  "image_capability_statements = [''this model does not support image attachments'',
     ''this model does not support images'', ''this model does not support image input'',
     ''image input is not supported'', ''image input is not yet supported'',
     ''image input is not yet supported (text + tools only)'', ''image input unsupported'',
     ''this model only supports text'', ''this model is text-only'']"

definition is_unsupported_media_error :: "error_envelope \<Rightarrow> bool" where
  "is_unsupported_media_error e =
     (if ee_code e \<in> {ContentPolicy, Auth, PaymentRequired} then False
      else if ee_http_status e \<notin> {400, 415, 422, 501} then False
      else
        let text = (case ee_provider_message e of Some m \<Rightarrow> m | None \<Rightarrow> ee_message e);
            message = map ascii_lower (utf8_decode (map of_char text))
        in if list_ex (\<lambda>hint. text_contains message (ascii hint)) conditional_image_hints then False
           else
             let statement = trim message;
                 statement = (if prefix (ascii ''kiro:'') statement then drop 5 statement else statement);
                 statement = rev (dropWhile (\<lambda>c. c = 46 \<or> c = 33) (rev (trim statement)))
             in list_ex (\<lambda>s. statement = ascii s) image_capability_statements)"

definition lifecycle_cancellation :: "request_context \<Rightarrow> cells \<Rightarrow> nat \<Rightarrow> error_envelope option" where
  "lifecycle_cancellation cx h now = (case cx_cancel_reason cx h now of
      Some ServerDrain \<Rightarrow> Some (error_envelope_new UpstreamUnavailable 503
        ''Token Station is restarting. Retry this request.'')
    | Some Deadline \<Rightarrow> Some (error_envelope_new Timeout 504 ''request deadline exceeded'')
    | Some ClientDisconnect \<Rightarrow> None
    | None \<Rightarrow> None)"

section \<open>Receipts\<close>

datatype stream_outcome = Complete | FailedAfterPartial | FailedBeforeOutput | ClientCancelled

text \<open>Which engine made the call and why it was not the other one: carried, never inspected.\<close>

type_synonym provider_call = "string \<times> string option"

record attempt_record =
  ar_ordinal :: u32
  ar_upstream :: string
  ar_model :: string
  ar_latency_ms :: u64
  ar_http_status :: "u16 option"
  ar_error_code :: "error_code option"
  ar_stream_outcome :: "stream_outcome option"
  ar_provider_call :: provider_call
  ar_fallback_allowed :: bool

datatype cost_kind = Actual | Estimated | UnknownCost

record request_record =
  rr_request_id :: string
  rr_error_code :: "error_code option"
  rr_attempts :: u32
  rr_routing :: "upstream_model option"
  rr_decision :: "decision option"
  rr_decision_quota :: "quota_state option"
  rr_attempt_records :: "attempt_record list"
  rr_usage :: "usage option"
  rr_usage_incomplete :: "bool option"
  rr_cost_micros :: "int option"
  rr_cost_kind :: cost_kind
  rr_price_version :: "u32 option"

definition attempt_receipt ::
  "upstream_model \<Rightarrow> u32 \<Rightarrow> u64 \<Rightarrow> u16 option \<Rightarrow> provider_call \<Rightarrow> error_envelope + stream_outcome
     \<Rightarrow> request_record \<Rightarrow> attempt_record" where
  "attempt_receipt target ordinal latency status engine result r = (case result of
      Inr outcome \<Rightarrow>
        let code = (if outcome = Complete \<or> outcome = ClientCancelled then None else rr_error_code r)
        in \<lparr>ar_ordinal = ordinal, ar_upstream = as_str (um_upstream target), ar_model = um_model target,
            ar_latency_ms = latency, ar_http_status = status, ar_error_code = code,
            ar_stream_outcome = Some outcome, ar_provider_call = engine,
            ar_fallback_allowed = (outcome = FailedBeforeOutput
              \<and> (case code of None \<Rightarrow> False | Some c \<Rightarrow> is_retriable_elsewhere c))\<rparr>
    | Inl e \<Rightarrow>
        \<lparr>ar_ordinal = ordinal, ar_upstream = as_str (um_upstream target), ar_model = um_model target,
         ar_latency_ms = latency, ar_http_status = status, ar_error_code = Some (ee_code e),
         ar_stream_outcome = Some FailedBeforeOutput, ar_provider_call = engine,
         ar_fallback_allowed = attempt_fallback_allowed e\<rparr>)"

section \<open>The world and the exchange\<close>

text \<open>
  What a provider call did: its result, what the accounting tap and the parsers left in the record,
  the windows of the provider's quota headers if the response got that far, whether any reply was
  emitted, and \<open>valid_image_response\<close> as the emit closure and the taps left it.
\<close>

record call_outcome =
  co_result :: "error_envelope + stream_outcome"
  co_error_code :: "error_code option"
  co_usage :: "usage option"
  co_usage_incomplete :: "bool option"
  co_cost_micros :: "int option"
  co_cost_kind :: cost_kind
  co_windows :: "window_snapshot list option"
  co_status :: "u16 option"
  co_provider_call :: provider_call
  co_output_started :: bool
  co_valid_image :: bool

record 'd shared =
  sh_admission :: admission
  sh_quota :: "'d quota_tracker"
  sh_health :: health_tracker
  sh_images :: "upstream_model \<rightharpoonup> capability_state"

record 'd env =
  en_clock :: "nat \<Rightarrow> nat"
  en_unix_millis :: "nat \<Rightarrow> u64"
  en_cells :: "nat \<Rightarrow> cells"
  en_call :: "nat \<Rightarrow> upstream_model \<Rightarrow> call_outcome"
  en_others :: "nat \<Rightarrow> 'd shared \<Rightarrow> 'd shared"
  en_db :: "'d quota_db"
  en_catalog :: "(upstream_model \<times> model_capability) list"

text \<open>
  The locals of \<open>dispatch\<close> and what it mutates. \<open>ex_log\<close> is a history variable: the calls made, in
  order. \<open>ex_cancel_reply\<close> tells that the reply with status 499 was emitted.
\<close>

record 'd exchange =
  ex_tick :: nat
  ex_shared :: "'d shared"
  ex_budget :: attempt_budget
  ex_record :: request_record
  ex_last_error :: "error_envelope option"
  ex_cancel_reply :: bool
  ex_log :: "(upstream_model \<times> call_outcome) list"

definition next_tick :: "'d exchange \<Rightarrow> 'd exchange" where
  "next_tick x = x\<lparr>ex_tick := Suc (ex_tick x)\<rparr>"

text \<open>Other requests run.\<close>

definition interfere :: "'d env \<Rightarrow> 'd exchange \<Rightarrow> 'd exchange" where
  "interfere E x = next_tick (x\<lparr>ex_shared := en_others E (ex_tick x) (ex_shared x)\<rparr>)"

definition now_of :: "'d env \<Rightarrow> 'd exchange \<Rightarrow> nat" where
  "now_of E x = en_clock E (ex_tick x)"

definition unix_of :: "'d env \<Rightarrow> 'd exchange \<Rightarrow> u64" where
  "unix_of E x = en_unix_millis E (ex_tick x)"

definition cells_of :: "'d env \<Rightarrow> 'd exchange \<Rightarrow> cells" where
  "cells_of E x = en_cells E (ex_tick x)"

definition is_cancelled_now :: "'d env \<Rightarrow> request_context \<Rightarrow> 'd exchange \<Rightarrow> bool" where
  "is_cancelled_now E cx x = cx_is_cancelled cx (cells_of E x) (now_of E x)"

definition lifecycle_now :: "'d env \<Rightarrow> request_context \<Rightarrow> 'd exchange \<Rightarrow> error_envelope option" where
  "lifecycle_now E cx x = lifecycle_cancellation cx (cells_of E x) (now_of E x)"

definition map_quota :: "('d quota_tracker \<Rightarrow> 'd quota_tracker) \<Rightarrow> 'd exchange \<Rightarrow> 'd exchange" where
  "map_quota f x = x\<lparr>ex_shared := (ex_shared x)\<lparr>sh_quota := f (sh_quota (ex_shared x))\<rparr>\<rparr>"

definition map_record :: "(request_record \<Rightarrow> request_record) \<Rightarrow> 'd exchange \<Rightarrow> 'd exchange" where
  "map_record f x = x\<lparr>ex_record := f (ex_record x)\<rparr>"

section \<open>One attempt\<close>

definition finish_attempt_accounting :: "call_outcome \<Rightarrow> request_record \<Rightarrow> request_record" where
  "finish_attempt_accounting c r =
     (let r = r\<lparr>rr_usage := co_usage c, rr_usage_incomplete := co_usage_incomplete c,
            rr_cost_micros := co_cost_micros c, rr_cost_kind := co_cost_kind c\<rparr>
      in if co_result c \<noteq> Inr Complete
         then let incomplete = (if rr_usage_incomplete r = None \<and> rr_usage r \<noteq> None then Some False
                    else rr_usage_incomplete r)
              in r\<lparr>rr_usage_incomplete := map_option (\<lambda>_. True) incomplete\<rparr>
         else r)"

text \<open>The receipt of one attempt: the request's id and the attempt's ordinal.\<close>

definition attempt_receipt_id :: "request_record \<Rightarrow> string" where
  "attempt_receipt_id r = rr_request_id r @ '':attempt:'' @ decimal (unat (rr_attempts r))"

definition settle_attempt_quota ::
  "'d env \<Rightarrow> upstream_model \<Rightarrow> error_envelope + stream_outcome \<Rightarrow> 'd exchange \<Rightarrow> 'd exchange" where
  "settle_attempt_quota E target result x = map_quota (\<lambda>q.
     record_settled (en_db E) q (as_str (um_upstream target)) (attempt_receipt_id (ex_record x))
       (unix_of E x) (rr_usage (ex_record x)) (result = Inr Complete)) x"

text \<open>
  \<open>try_upstream\<close>: the accounting is reset, the call is made, its response's quota headers are
  noted, and what it consumed is settled whatever its result.
\<close>

definition try_upstream ::
  "'d env \<Rightarrow> upstream_model \<Rightarrow> 'd exchange \<Rightarrow> call_outcome \<times> 'd exchange" where
  "try_upstream E target x =
     (let x = map_record (\<lambda>r. r\<lparr>rr_usage := None, rr_usage_incomplete := None, rr_cost_micros := None,
            rr_cost_kind := UnknownCost, rr_price_version := None\<rparr>) x;
          c = en_call E (ex_tick x) target;
          x = interfere E (x\<lparr>ex_log := ex_log x @ [(target, c)]\<rparr>);
          x = map_record (\<lambda>r. r\<lparr>rr_error_code := co_error_code c\<rparr>) x;
          x = (case co_windows c of
                 None \<Rightarrow> x
               | Some ws \<Rightarrow> map_quota (\<lambda>q.
                   note_authoritative q (as_str (um_upstream target)) (unix_of E x) ws) x);
          x = map_record (finish_attempt_accounting c) x
      in (c, settle_attempt_quota E target (co_result c) (next_tick x)))"

text \<open>What \<open>dispatch\<close> makes of an attempt's error.\<close>

definition image_error :: "bool \<Rightarrow> error_envelope \<Rightarrow> error_envelope" where
  "image_error has_images e =
     (if has_images \<and> is_unsupported_media_error e then
        if \<not> attempt_fallback_allowed e \<and> bt_contains (ee_extensions e) NO_ATTEMPT_FALLBACK_EXTENSION
        then forbid_attempt_fallback upstream_image_error else upstream_image_error
      else if has_images then image_request_guidance e
      else e)"

definition attempt_result :: "bool \<Rightarrow> call_outcome \<Rightarrow> error_envelope + stream_outcome" where
  "attempt_result has_images c =
     map_err (\<lambda>e. if co_output_started c then forbid_attempt_fallback e else e)
       (map_err (image_error has_images) (co_result c))"

definition image_observation ::
  "bool \<Rightarrow> call_outcome \<Rightarrow> error_envelope + stream_outcome \<Rightarrow> capability_state option" where
  "image_observation cancelled c result = (case result of
      Inl e \<Rightarrow> if \<not> cancelled \<and> is_image_channel_refusal e then Some Unsupported else None
    | Inr outcome \<Rightarrow>
        if outcome = Complete \<and> co_valid_image c
           \<and> (case co_status c of None \<Rightarrow> False | Some s \<Rightarrow> 200 \<le> s \<and> s < 300)
        then Some Declared else None)"

definition note_image ::
  "(upstream_model \<times> model_capability) list \<Rightarrow> upstream_model \<Rightarrow> capability_state
     \<Rightarrow> (upstream_model \<rightharpoonup> capability_state) \<Rightarrow> (upstream_model \<rightharpoonup> capability_state)" where
  "note_image catalog target state images =
     (if state = Unsupported
         \<or> list_ex (\<lambda>(known, capability). known = target \<and> vision_state capability = Unknown) catalog
      then images(target \<mapsto> (case images target of
              None \<Rightarrow> state
            | Some entry \<Rightarrow> if entry \<noteq> Unsupported then state else entry))
      else images)"

definition observe_images ::
  "'d env \<Rightarrow> request_context \<Rightarrow> bool \<Rightarrow> upstream_model \<Rightarrow> call_outcome
     \<Rightarrow> error_envelope + stream_outcome \<Rightarrow> 'd exchange \<Rightarrow> 'd exchange" where
  "observe_images E cx has_images target c result x =
     (if \<not> has_images then x
      else case image_observation (is_cancelled_now E cx x) c result of
        None \<Rightarrow> next_tick x
      | Some state \<Rightarrow> next_tick (x\<lparr>ex_shared := (ex_shared x)\<lparr>sh_images :=
            note_image (en_catalog E) target state (sh_images (ex_shared x))\<rparr>\<rparr>))"

text \<open>\<open>Gateway::observe\<close> for a failure: the health verdict, then the cooldown of a refused account.\<close>

definition observe_error ::
  "'d env \<Rightarrow> upstream_model \<Rightarrow> error_envelope \<Rightarrow> 'd exchange \<Rightarrow> 'd exchange" where
  "observe_error E target e x =
     (let x = x\<lparr>ex_shared := (ex_shared x)\<lparr>sh_health := snd (observe_failure (sh_health (ex_shared x))
            (um_upstream target) (um_model target) (ee_code e) (now_of E x))\<rparr>\<rparr>
      in if ee_code e = RateLimit \<or> ee_code e = PaymentRequired
         then map_quota (\<lambda>q. note_rate_limited q (as_str (um_upstream target)) (unix_of E x)
                (unwrap_or (ee_retry_after_ms e) DEFAULT_QUOTA_COOLDOWN_MS)) x
         else x)"

section \<open>The loop\<close>

definition cancel_before_attempt ::
  "'d env \<Rightarrow> request_context \<Rightarrow> upstream_model \<Rightarrow> 'd exchange
     \<Rightarrow> (error_envelope + upstream_model \<times> stream_outcome) \<times> 'd exchange" where
  "cancel_before_attempt E cx pending x = (case lifecycle_now E cx x of
      Some e \<Rightarrow> (Err e, x)
    | None \<Rightarrow>
        let served = (if rr_attempt_records (ex_record x) = [] then pending
              else let a = last (rr_attempt_records (ex_record x))
                   in upstream_model_new (UpstreamRef (ar_upstream a)) (ar_model a))
        in (Ok (served, ClientCancelled), x\<lparr>ex_cancel_reply := True\<rparr>))"

datatype turn = Finished "error_envelope + upstream_model \<times> stream_outcome" | Stop | Proceed

text \<open>The permit and the lease are guards: every way out of the attempt drops them.\<close>

definition drop_provider :: "upstream_model \<Rightarrow> 'd exchange \<Rightarrow> 'd exchange" where
  "drop_provider target x = x\<lparr>ex_shared := (ex_shared x)\<lparr>sh_admission :=
     drop_permit (sh_admission (ex_shared x)) (Provider (as_str (um_upstream target)))\<rparr>\<rparr>"

definition drop_lease :: "lease_id \<Rightarrow> 'd exchange \<Rightarrow> 'd exchange" where
  "drop_lease lease x = map_quota (\<lambda>q. tracker_release q lease) x"

text \<open>The part of an iteration that holds a permit and has its attempt granted.\<close>

definition run_attempt ::
  "'d env \<Rightarrow> request_context \<Rightarrow> bool \<Rightarrow> upstream_model \<Rightarrow> bool \<Rightarrow> 'd exchange \<Rightarrow> turn \<times> 'd exchange" where
  "run_attempt E cx has_images target others_left x =
     (let (lease, quota) = tracker_grant_for (sh_quota (ex_shared x)) (as_str (um_upstream target))
            (unix_of E x) (try_from_or (cx_remaining cx (now_of E x)) u_max);
          x = map_quota (\<lambda>_. quota) x;
          x = next_tick (map_record (\<lambda>r. r\<lparr>rr_attempts := ab_attempts (ex_budget x),
                rr_routing := Some target\<rparr>) x);
          started = now_of E x;
          (c, x) = try_upstream E target x;
          result = attempt_result has_images c;
          x = observe_images E cx has_images target c result x;
          latency = try_from_or (now_of E x - started) u_max;
          receipt = attempt_receipt target (ab_attempts (ex_budget x)) latency (co_status c)
            (co_provider_call c) result (ex_record x);
          x = next_tick (map_record (\<lambda>r. r\<lparr>rr_attempt_records := rr_attempt_records r @ [receipt]\<rparr>) x)
      in case result of
           Inr outcome \<Rightarrow> (Finished (Ok (target, outcome)), drop_lease lease x)
         | Inl e \<Rightarrow>
             (case lifecycle_now E cx x of
                Some lifecycle \<Rightarrow> (Finished (Err lifecycle), drop_lease lease x)
              | None \<Rightarrow>
                  let (allowed, e) = take_attempt_fallback_policy e;
                      x = observe_error E target e x;
                      x = drop_lease lease x
                  in if \<not> allowed then (Stop, x\<lparr>ex_last_error := Some e\<rparr>)
                     else
                       let wait = (case ee_retry_after_ms e of
                              None \<Rightarrow> 0
                            | Some ms \<Rightarrow>
                                if others_left \<and> has_attempt_remaining (ex_budget x)
                                then retry_delay (ex_budget x) (unat ms) cx (now_of E x) else 0);
                           x = (if wait = 0 then x else interfere E x)
                       in (Proceed, x\<lparr>ex_last_error := Some e\<rparr>)))"

definition take_turn ::
  "'d env \<Rightarrow> request_context \<Rightarrow> bool \<Rightarrow> upstream_model \<Rightarrow> bool \<Rightarrow> 'd exchange \<Rightarrow> turn \<times> 'd exchange" where
  "take_turn E cx has_images target others_left x =
     (let x = interfere E x in
      if is_cancelled_now E cx x
      then map_prod Finished id (cancel_before_attempt E cx target (next_tick x))
      else case enter_provider (sh_admission (ex_shared x)) (as_str (um_upstream target)) of
        None \<Rightarrow> (Proceed, x\<lparr>ex_last_error :=
            Some (error_envelope_new Capacity 429 ''provider concurrency limit reached'')\<rparr>)
      | Some admission \<Rightarrow>
          let x = next_tick (x\<lparr>ex_shared := (ex_shared x)\<lparr>sh_admission := admission\<rparr>\<rparr>) in
          (case try_begin (ex_budget x) None (now_of E x) of
             None \<Rightarrow> (Stop, drop_provider target x)
           | Some budget \<Rightarrow>
               map_prod id (drop_provider target)
                 (run_attempt E cx has_images target others_left (next_tick (x\<lparr>ex_budget := budget\<rparr>)))))"

fun dispatch_loop ::
  "'d env \<Rightarrow> request_context \<Rightarrow> bool \<Rightarrow> upstream_model list \<Rightarrow> 'd exchange
     \<Rightarrow> (error_envelope + upstream_model \<times> stream_outcome) option \<times> 'd exchange" where
  "dispatch_loop E cx has_images [] x = (None, x)"
| "dispatch_loop E cx has_images (target # targets) x =
     (case take_turn E cx has_images target (targets \<noteq> []) x of
        (Finished r, x) \<Rightarrow> (Some r, x)
      | (Stop, x) \<Rightarrow> (None, x)
      | (Proceed, x) \<Rightarrow> dispatch_loop E cx has_images targets x)"

definition dispatch ::
  "'d env \<Rightarrow> request_context \<Rightarrow> decision \<Rightarrow> 'd exchange
     \<Rightarrow> (error_envelope + upstream_model \<times> stream_outcome) \<times> 'd exchange" where
  "dispatch E cx d x =
     (let x = next_tick (x\<lparr>ex_budget := budget_for_request cx (now_of E x), ex_last_error := None\<rparr>)
      in case dispatch_loop E cx (rf_has_images (dec_features d)) (targets_of d) x of
           (Some r, x) \<Rightarrow> (r, x)
         | (None, x) \<Rightarrow> (Err (unwrap_or (ex_last_error x)
             (error_envelope_new Internal 500 ''no upstream was tried'')), x))"

section \<open>The routed exchange\<close>

definition settle_quota ::
  "string \<Rightarrow> error_envelope + upstream_model \<times> stream_outcome \<Rightarrow> 'd exchange \<Rightarrow> 'd exchange" where
  "settle_quota session result x = (case result of
      Inl _ \<Rightarrow> x
    | Inr (served, outcome) \<Rightarrow>
        if session \<noteq> [] \<and> (outcome = Complete \<or> rr_usage (ex_record x) \<noteq> None)
        then map_quota (\<lambda>q. remember q session served) x else x)"

definition execute_routed_attempt ::
  "'d env \<Rightarrow> request_context \<Rightarrow> decision \<Rightarrow> candidate list \<Rightarrow> u64 option \<Rightarrow> string \<Rightarrow> 'd exchange
     \<Rightarrow> (error_envelope + upstream_model \<times> stream_outcome) \<times> 'd exchange" where
  "execute_routed_attempt E cx d cands quota_now session x =
     (let x = map_record (\<lambda>r. r\<lparr>rr_decision := Some d\<rparr>) x;
          x = (case find (\<lambda>c. cand_target c = dec_chosen d) cands of
                 None \<Rightarrow> x
               | Some c \<Rightarrow>
                   if quota_now \<noteq> None
                   then map_record (\<lambda>r. r\<lparr>rr_decision_quota := Some (cand_quota c)\<rparr>) x else x);
          (result, x) = dispatch E cx d x
      in (result, settle_quota session result x))"

end
