(* ===== verification/Attempt_Properties.thy ===== *)
theory Attempt_Properties
  imports Attempt "HOL-Library.Sublist"
begin

text \<open>
  What the attempt machine guarantees: each turn of the loop either makes no call and leaves the
  history alone, or makes one call and appends its receipt; the properties are inductions over the
  turns of the dispatch loop.
\<close>

section \<open>What the steps leave alone\<close>

named_theorems exchange_frame "fields of the exchange that a step does not touch"

lemma next_tick_frame [exchange_frame]:
  "ex_shared (next_tick x) = ex_shared x" "ex_budget (next_tick x) = ex_budget x"
  "ex_record (next_tick x) = ex_record x" "ex_last_error (next_tick x) = ex_last_error x"
  "ex_cancel_reply (next_tick x) = ex_cancel_reply x" "ex_log (next_tick x) = ex_log x"
  by (simp_all add: next_tick_def)

lemma interfere_frame [exchange_frame]:
  "ex_shared (interfere E x) = en_others E (ex_tick x) (ex_shared x)"
  "ex_budget (interfere E x) = ex_budget x"
  "ex_record (interfere E x) = ex_record x" "ex_last_error (interfere E x) = ex_last_error x"
  "ex_cancel_reply (interfere E x) = ex_cancel_reply x" "ex_log (interfere E x) = ex_log x"
  by (simp_all add: interfere_def exchange_frame)

lemma map_quota_frame [exchange_frame]:
  "ex_shared (map_quota f x) = (ex_shared x)\<lparr>sh_quota := f (sh_quota (ex_shared x))\<rparr>"
  "ex_budget (map_quota f x) = ex_budget x"
  "ex_record (map_quota f x) = ex_record x" "ex_last_error (map_quota f x) = ex_last_error x"
  "ex_cancel_reply (map_quota f x) = ex_cancel_reply x" "ex_log (map_quota f x) = ex_log x"
  by (simp_all add: map_quota_def)

lemma map_record_frame [exchange_frame]:
  "ex_shared (map_record f x) = ex_shared x" "ex_budget (map_record f x) = ex_budget x"
  "ex_record (map_record f x) = f (ex_record x)" "ex_last_error (map_record f x) = ex_last_error x"
  "ex_cancel_reply (map_record f x) = ex_cancel_reply x" "ex_log (map_record f x) = ex_log x"
  by (simp_all add: map_record_def)

lemma drop_lease_frame [exchange_frame]:
  "ex_budget (drop_lease i x) = ex_budget x"
  "ex_record (drop_lease i x) = ex_record x" "ex_last_error (drop_lease i x) = ex_last_error x"
  "ex_cancel_reply (drop_lease i x) = ex_cancel_reply x" "ex_log (drop_lease i x) = ex_log x"
  by (simp_all add: drop_lease_def exchange_frame)

lemma drop_provider_frame [exchange_frame]:
  "ex_budget (drop_provider t x) = ex_budget x"
  "ex_record (drop_provider t x) = ex_record x" "ex_last_error (drop_provider t x) = ex_last_error x"
  "ex_cancel_reply (drop_provider t x) = ex_cancel_reply x" "ex_log (drop_provider t x) = ex_log x"
  by (simp_all add: drop_provider_def)

lemma observe_images_frame [exchange_frame]:
  "ex_budget (observe_images E cx h t c r x) = ex_budget x"
  "ex_record (observe_images E cx h t c r x) = ex_record x"
  "ex_last_error (observe_images E cx h t c r x) = ex_last_error x"
  "ex_cancel_reply (observe_images E cx h t c r x) = ex_cancel_reply x"
  "ex_log (observe_images E cx h t c r x) = ex_log x"
  by (simp_all add: observe_images_def exchange_frame split: option.splits)

lemma observe_error_frame [exchange_frame]:
  "ex_budget (observe_error E t e x) = ex_budget x"
  "ex_record (observe_error E t e x) = ex_record x"
  "ex_last_error (observe_error E t e x) = ex_last_error x"
  "ex_cancel_reply (observe_error E t e x) = ex_cancel_reply x"
  "ex_log (observe_error E t e x) = ex_log x"
  by (simp_all add: observe_error_def Let_def exchange_frame)

lemma settle_attempt_quota_frame [exchange_frame]:
  "ex_budget (settle_attempt_quota E t r x) = ex_budget x"
  "ex_record (settle_attempt_quota E t r x) = ex_record x"
  "ex_last_error (settle_attempt_quota E t r x) = ex_last_error x"
  "ex_cancel_reply (settle_attempt_quota E t r x) = ex_cancel_reply x"
  "ex_log (settle_attempt_quota E t r x) = ex_log x"
  by (simp_all add: settle_attempt_quota_def exchange_frame)

lemma finish_attempt_accounting_frame [exchange_frame]:
  "rr_request_id (finish_attempt_accounting c r) = rr_request_id r"
  "rr_attempts (finish_attempt_accounting c r) = rr_attempts r"
  "rr_attempt_records (finish_attempt_accounting c r) = rr_attempt_records r"
  by (simp_all add: finish_attempt_accounting_def Let_def)

lemma try_upstream_call: "fst (try_upstream E t x) = en_call E (ex_tick x) t"
  by (simp add: try_upstream_def Let_def map_record_def)

lemma try_upstream_frame [exchange_frame]:
  "ex_budget (snd (try_upstream E t x)) = ex_budget x"
  "rr_request_id (ex_record (snd (try_upstream E t x))) = rr_request_id (ex_record x)"
  "rr_attempts (ex_record (snd (try_upstream E t x))) = rr_attempts (ex_record x)"
  "rr_attempt_records (ex_record (snd (try_upstream E t x))) = rr_attempt_records (ex_record x)"
  "ex_last_error (snd (try_upstream E t x)) = ex_last_error x"
  "ex_cancel_reply (snd (try_upstream E t x)) = ex_cancel_reply x"
  "ex_log (snd (try_upstream E t x)) = ex_log x @ [(t, fst (try_upstream E t x))]"
  unfolding try_upstream_call
  by (simp_all add: try_upstream_def Let_def exchange_frame split: option.splits)
    (simp_all add: map_record_def)

section \<open>One turn\<close>

text \<open>The history: the calls made, the attempts counted and their receipts.\<close>

definition receipt_of :: "nat \<Rightarrow> upstream_model \<Rightarrow> attempt_record \<Rightarrow> bool" where
  "receipt_of n target a \<longleftrightarrow> unat (ar_ordinal a) = n \<and> ar_upstream a = as_str (um_upstream target)
     \<and> ar_model a = um_model target"

definition no_call :: "'d exchange \<Rightarrow> 'd exchange \<Rightarrow> bool" where
  "no_call x y \<longleftrightarrow> ex_log y = ex_log x \<and> ex_budget y = ex_budget x
     \<and> rr_attempts (ex_record y) = rr_attempts (ex_record x)
     \<and> rr_attempt_records (ex_record y) = rr_attempt_records (ex_record x)"

definition one_call :: "upstream_model \<Rightarrow> call_outcome \<Rightarrow> 'd exchange \<Rightarrow> 'd exchange \<Rightarrow> bool" where
  "one_call target c x y \<longleftrightarrow> ex_log y = ex_log x @ [(target, c)]
     \<and> ab_attempts (ex_budget x) < ab_max_attempts (ex_budget x)
     \<and> ab_max_attempts (ex_budget y) = ab_max_attempts (ex_budget x)
     \<and> ab_attempts (ex_budget y) = ab_attempts (ex_budget x) + 1
     \<and> rr_attempts (ex_record y) = ab_attempts (ex_budget y)
     \<and> (\<exists>a. rr_attempt_records (ex_record y) = rr_attempt_records (ex_record x) @ [a]
          \<and> receipt_of (unat (ab_attempts (ex_budget y))) target a)"

lemma attempt_receipt_of: "receipt_of (unat n) t (attempt_receipt t n l s p r rec)"
  by (simp add: attempt_receipt_def receipt_of_def Let_def split: sum.splits)

definition after_call ::
  "'d env \<Rightarrow> request_context \<Rightarrow> bool \<Rightarrow> upstream_model \<Rightarrow> call_outcome \<Rightarrow> turn \<Rightarrow> 'd exchange \<Rightarrow> bool" where
  "after_call E cx has_images target c t y \<longleftrightarrow> (case attempt_result has_images c of
      Inr outcome \<Rightarrow> t = Finished (Ok (target, outcome))
    | Inl e \<Rightarrow> (\<exists>l z. lifecycle_now E cx z = Some l \<and> t = Finished (Err l))
        \<or> t = (if attempt_fallback_allowed e then Proceed else Stop)
          \<and> ex_last_error y = Some (sanitize_attempt_error_for_render e))"

lemma run_attempt_frame:
  "ex_log (snd (run_attempt E cx hi target ol x)) = ex_log x @ [(target, en_call E (Suc (ex_tick x)) target)]
    \<and> ex_budget (snd (run_attempt E cx hi target ol x)) = ex_budget x
    \<and> ex_cancel_reply (snd (run_attempt E cx hi target ol x)) = ex_cancel_reply x
    \<and> rr_attempts (ex_record (snd (run_attempt E cx hi target ol x))) = ab_attempts (ex_budget x)
    \<and> (\<exists>a. rr_attempt_records (ex_record (snd (run_attempt E cx hi target ol x)))
            = rr_attempt_records (ex_record x) @ [a]
         \<and> receipt_of (unat (ab_attempts (ex_budget x))) target a)"
  by (simp add: run_attempt_def Let_def case_prod_beta exchange_frame take_attempt_fallback_policy_def
      split: sum.splits option.splits)
    (auto simp: attempt_receipt_of try_upstream_call next_tick_def map_record_def map_quota_def)

lemma run_attempt_turn:
  "after_call E cx hi target (en_call E (Suc (ex_tick x)) target)
     (fst (run_attempt E cx hi target ol x)) (snd (run_attempt E cx hi target ol x))"
  by (simp add: after_call_def run_attempt_def Let_def case_prod_beta exchange_frame
      take_attempt_fallback_policy_def try_upstream_call next_tick_def map_record_def map_quota_def
      split: sum.splits option.splits) blast

lemma cancel_before_attempt_frame [exchange_frame]:
  "ex_log (snd (cancel_before_attempt E cx t x)) = ex_log x"
  "ex_budget (snd (cancel_before_attempt E cx t x)) = ex_budget x"
  "ex_record (snd (cancel_before_attempt E cx t x)) = ex_record x"
  "ex_shared (snd (cancel_before_attempt E cx t x)) = ex_shared x"
  by (simp_all add: cancel_before_attempt_def Let_def split: option.splits)

text \<open>A turn that ends the exchange without a call: it was cancelled.\<close>

definition cancelled_turn :: "'d env \<Rightarrow> request_context \<Rightarrow> turn \<Rightarrow> 'd exchange \<Rightarrow> bool" where
  "cancelled_turn E cx t y \<longleftrightarrow> (\<exists>z. is_cancelled_now E cx z) \<and>
     ((\<exists>l z. lifecycle_now E cx z = Some l \<and> t = Finished (Err l))
      \<or> ex_cancel_reply y \<and> (\<exists>served. t = Finished (Ok (served, ClientCancelled))))"

lemma cancel_before_attempt_turn:
  "is_cancelled_now E cx z \<Longrightarrow>
    cancelled_turn E cx (Finished (fst (cancel_before_attempt E cx target x)))
      (snd (cancel_before_attempt E cx target x))"
  by (auto simp: cancelled_turn_def cancel_before_attempt_def Let_def split: option.splits)

definition capacity_error :: error_envelope where
  "capacity_error = error_envelope_new Capacity 429 ''provider concurrency limit reached''"

text \<open>What a turn may do.\<close>

definition turn_ok ::
  "'d env \<Rightarrow> request_context \<Rightarrow> bool \<Rightarrow> upstream_model \<Rightarrow> turn \<Rightarrow> 'd exchange \<Rightarrow> 'd exchange \<Rightarrow> bool" where
  "turn_ok E cx hi target t x y \<longleftrightarrow>
     no_call x y \<and> (cancelled_turn E cx t y
       \<or> t = Proceed \<and> ex_last_error y = Some capacity_error \<and> ex_cancel_reply y = ex_cancel_reply x
       \<or> t = Stop \<and> ex_last_error y = ex_last_error x \<and> ex_cancel_reply y = ex_cancel_reply x)
     \<or> (\<exists>c n. c = en_call E n target \<and> one_call target c x y \<and> after_call E cx hi target c t y
          \<and> ex_cancel_reply y = ex_cancel_reply x)"

lemma try_begin_budget:
  "try_begin b None now = Some b' \<Longrightarrow> ab_attempts b < ab_max_attempts b
     \<and> ab_max_attempts b' = ab_max_attempts b \<and> ab_attempts b' = ab_attempts b + 1
     \<and> ab_max_elapsed b' = ab_max_elapsed b \<and> ab_started b' = ab_started b"
  by (auto simp: try_begin_def Let_def not_le split: if_splits option.splits)

lemma after_call_last_error:
  "ex_last_error y' = ex_last_error y \<Longrightarrow>
    after_call E cx hi target c t y' = after_call E cx hi target c t y"
  by (simp add: after_call_def split: sum.split)

lemma take_turn_ok:
  "turn_ok E cx hi target (fst (take_turn E cx hi target ol x)) x (snd (take_turn E cx hi target ol x))"
proof -
  let ?x = "interfere E x"
  let ?enter = "enter_provider (sh_admission (ex_shared ?x)) (as_str (um_upstream target))"
  consider (cancelled) "is_cancelled_now E cx ?x"
    | (full) "\<not> is_cancelled_now E cx ?x" "?enter = None"
    | (entered) a where "\<not> is_cancelled_now E cx ?x" "?enter = Some a" by blast
  then show ?thesis
  proof cases
    case cancelled
    let ?z = "cancel_before_attempt E cx target (next_tick ?x)"
    have "take_turn E cx hi target ol x = (Finished (fst ?z), snd ?z)"
      using cancelled by (simp add: take_turn_def Let_def map_prod_def case_prod_beta)
    moreover have "no_call x (snd ?z)" by (simp add: no_call_def exchange_frame)
    ultimately show ?thesis
      using cancel_before_attempt_turn [OF cancelled] by (simp add: turn_ok_def)
  next
    case full
    then show ?thesis
      by (simp add: take_turn_def turn_ok_def no_call_def Let_def exchange_frame capacity_error_def)
  next
    case (entered a)
    let ?y = "next_tick (?x\<lparr>ex_shared := (ex_shared ?x)\<lparr>sh_admission := a\<rparr>\<rparr>)"
    show ?thesis
    proof (cases "try_begin (ex_budget ?y) None (now_of E ?y)")
      case None
      with entered show ?thesis
        by (simp add: take_turn_def turn_ok_def no_call_def Let_def exchange_frame)
    next
      case (Some b)
      let ?z = "next_tick (?y\<lparr>ex_budget := b\<rparr>)"
      let ?r = "run_attempt E cx hi target ol ?z"
      have turn: "take_turn E cx hi target ol x = (fst ?r, drop_provider target (snd ?r))"
        using entered Some by (simp add: take_turn_def Let_def map_prod_def case_prod_beta)
      let ?c = "en_call E (Suc (ex_tick ?z)) target"
      have "one_call target ?c x (drop_provider target (snd ?r))"
        using run_attempt_frame [of E cx hi target ol ?z] try_begin_budget [OF Some]
        by (simp add: one_call_def exchange_frame)
      moreover have "after_call E cx hi target ?c (fst ?r) (drop_provider target (snd ?r))"
        using run_attempt_turn [of E cx hi target ?z ol]
        by (simp only: after_call_last_error [OF drop_provider_frame(3)])
      moreover have "ex_cancel_reply (drop_provider target (snd ?r)) = ex_cancel_reply x"
        using run_attempt_frame [of E cx hi target ol ?z] by (simp add: exchange_frame)
      ultimately show ?thesis unfolding turn turn_ok_def fst_conv snd_conv by blast
    qed
  qed
qed

section \<open>The loop\<close>

text \<open>Induction over the turns of the loop.\<close>

lemma dispatch_loop_induct [consumes 1, case_names Empty Finished Stop Proceed]:
  assumes run: "dispatch_loop E cx hi targets x = (r, y)"
    and empty: "\<And>x. P [] None x x"
    and finished: "\<And>target targets x y f. turn_ok E cx hi target (Finished f) x y \<Longrightarrow>
      P (target # targets) (Some f) x y"
    and stop: "\<And>target targets x y. turn_ok E cx hi target Stop x y \<Longrightarrow> P (target # targets) None x y"
    and proceed: "\<And>target targets x y z r. turn_ok E cx hi target Proceed x y \<Longrightarrow>
      P targets r y z \<Longrightarrow> P (target # targets) r x z"
  shows "P targets r x y"
  using run
proof (induction targets arbitrary: x)
  case Nil
  then show ?case using empty by simp
next
  case (Cons target targets)
  obtain t z where t: "take_turn E cx hi target (targets \<noteq> []) x = (t, z)" by force
  from take_turn_ok [of E cx hi target "targets \<noteq> []" x] t have "turn_ok E cx hi target t x z" by simp
  then show ?case
    using Cons t finished stop proceed by (cases t) auto
qed

section \<open>Properties\<close>

text \<open>A dispatch starts its history from an empty one.\<close>

definition fresh_exchange :: "'d exchange \<Rightarrow> bool" where
  "fresh_exchange x \<longleftrightarrow> ex_log x = [] \<and> rr_attempt_records (ex_record x) = []
     \<and> rr_attempts (ex_record x) = 0 \<and> \<not> ex_cancel_reply x"

lemma dispatch_loop_run:
  assumes "dispatch E cx d x = (r, y)"
  obtains (settled) "dispatch_loop E cx (rf_has_images (dec_features d)) (targets_of d)
      (next_tick (x\<lparr>ex_budget := budget_for_request cx (now_of E x), ex_last_error := None\<rparr>)) = (Some r, y)"
    | (failed) "dispatch_loop E cx (rf_has_images (dec_features d)) (targets_of d)
      (next_tick (x\<lparr>ex_budget := budget_for_request cx (now_of E x), ex_last_error := None\<rparr>)) = (None, y)"
      "r = Err (unwrap_or (ex_last_error y) (error_envelope_new Internal 500 ''no upstream was tried''))"
  using assms by (auto simp: dispatch_def Let_def split: prod.splits option.splits)

text \<open>The receipts and the counters agree with the calls made.\<close>

definition history_ok :: "'d exchange \<Rightarrow> bool" where
  "history_ok x \<longleftrightarrow> unat (ab_attempts (ex_budget x)) = length (ex_log x)
     \<and> length (ex_log x) \<le> unat (ab_max_attempts (ex_budget x))
     \<and> unat (rr_attempts (ex_record x)) = length (ex_log x)
     \<and> list_all2 (\<lambda>(n, target) a. receipt_of (Suc n) target a)
         (enumerate 0 (map fst (ex_log x))) (rr_attempt_records (ex_record x))"

lemma history_ok_no_call: "no_call x y \<Longrightarrow> history_ok y = history_ok x"
  by (simp add: no_call_def history_ok_def)

lemma history_ok_one_call:
  assumes "one_call target c x y" and "history_ok x"
  shows "history_ok y"
proof -
  have less: "ab_attempts (ex_budget x) < ab_max_attempts (ex_budget x)"
    using assms(1) by (simp add: one_call_def)
  from word_succ_less [OF less] less
  have "unat (ab_attempts (ex_budget x) + 1) = Suc (unat (ab_attempts (ex_budget x)))"
    and "unat (ab_attempts (ex_budget x)) < unat (ab_max_attempts (ex_budget x))"
    by (simp_all add: word_less_nat_alt)
  with assms show ?thesis
    by (auto simp: one_call_def history_ok_def enumerate_append_eq intro!: list_all2_appendI)
qed

lemma turn_ok_history: "turn_ok E cx hi target t x y \<Longrightarrow> history_ok x \<Longrightarrow> history_ok y"
  using history_ok_one_call history_ok_no_call unfolding turn_ok_def by blast

lemma turn_ok_max: "turn_ok E cx hi target t x y \<Longrightarrow>
    ab_max_attempts (ex_budget y) = ab_max_attempts (ex_budget x)"
  unfolding turn_ok_def by (elim disjE exE conjE) (simp_all add: no_call_def one_call_def)

lemma turn_ok_log: "turn_ok E cx hi target t x y \<Longrightarrow>
    \<exists>cs. ex_log y = ex_log x @ cs \<and> (cs = [] \<or> (\<exists>c. cs = [(target, c)]))"
  unfolding turn_ok_def by (elim disjE exE conjE) (simp_all add: no_call_def one_call_def)

lemma dispatch_loop_history:
  "dispatch_loop E cx hi targets x = (r, y) \<Longrightarrow> history_ok x \<Longrightarrow>
    history_ok y \<and> ab_max_attempts (ex_budget y) = ab_max_attempts (ex_budget x)"
  by (induction rule: dispatch_loop_induct) (simp_all add: turn_ok_history turn_ok_max)

lemma dispatch_loop_subseq:
  "dispatch_loop E cx hi targets x = (r, y) \<Longrightarrow>
    \<exists>cs. ex_log y = ex_log x @ cs \<and> subseq (map fst cs) targets"
proof (induction rule: dispatch_loop_induct)
  case (Proceed target targets x y z r)
  then obtain cs cs' where "ex_log z = ex_log x @ cs @ cs'" "subseq (map fst cs') targets"
    "cs = [] \<or> (\<exists>c. cs = [(target, c)])" by (metis append.assoc turn_ok_log)
  then show ?case by (auto intro!: exI [of _ "cs @ cs'"])
qed (fastforce dest!: turn_ok_log)+

lemma receipts_of_history:
  "list_all2 (\<lambda>(n, target) a. receipt_of (Suc n) target a) (enumerate k ts) as \<Longrightarrow>
    map (\<lambda>a. (unat (ar_ordinal a), ar_upstream a, ar_model a)) as
      = map (\<lambda>(n, t). (Suc n, as_str (um_upstream t), um_model t)) (enumerate k ts)"
  by (induction ts arbitrary: as k) (auto simp: list_all2_Cons1 receipt_of_def)

text \<open>
  C3. However the providers answer and whatever other requests do, a request makes at most six calls,
  to targets of its decision in their order, and accounts for every one: the receipts carry the
  ordinals 1, 2, ... and the targets called, and the attempt count of the record is their number.
\<close>

theorem attempts_bounded_ordered_receipted:
  assumes "dispatch E cx d x = (r, y)" and "fresh_exchange x"
  shows "length (ex_log y) \<le> 6 \<and> subseq (map fst (ex_log y)) (targets_of d)
    \<and> unat (rr_attempts (ex_record y)) = length (ex_log y)
    \<and> map (\<lambda>a. (unat (ar_ordinal a), ar_upstream a, ar_model a)) (rr_attempt_records (ex_record y))
      = map (\<lambda>(n, t). (Suc n, as_str (um_upstream t), um_model t)) (enumerate 0 (map fst (ex_log y)))"
proof -
  let ?x = "next_tick (x\<lparr>ex_budget := budget_for_request cx (now_of E x), ex_last_error := None\<rparr>)"
  obtain s where run: "dispatch_loop E cx (rf_has_images (dec_features d)) (targets_of d) ?x = (s, y)"
    using assms(1) by (rule dispatch_loop_run) blast+
  have "history_ok ?x"
    using assms(2) by (simp add: history_ok_def fresh_exchange_def exchange_frame budget_for_request_def)
  from dispatch_loop_history [OF run this] have "history_ok y" and "ab_max_attempts (ex_budget y) = 6"
    by (simp_all add: exchange_frame budget_for_request_def MAX_ATTEMPTS_def)
  moreover have "subseq (map fst (ex_log y)) (targets_of d)"
    using dispatch_loop_subseq [OF run] assms(2) by (simp add: fresh_exchange_def exchange_frame)
  ultimately show ?thesis by (simp add: history_ok_def receipts_of_history)
qed

section \<open>When the loop moves on\<close>

lemma attempt_result_Inr: "attempt_result hi c = Inr outcome \<longleftrightarrow> co_result c = Inr outcome"
  by (cases "co_result c") (simp_all add: attempt_result_def)

lemma marked_get: "bt_get (ee_extensions (forbid_attempt_fallback e)) NO_ATTEMPT_FALLBACK_EXTENSION = Some (JBool True)"
  by (simp add: forbid_attempt_fallback_def bt.get_put)

lemma marked_not_allowed: "\<not> attempt_fallback_allowed (forbid_attempt_fallback e)"
  by (simp add: attempt_fallback_allowed_def marked_get)

lemma image_refusal_allowed: "attempt_fallback_allowed upstream_image_error"
  by (simp add: attempt_fallback_allowed_def upstream_image_error_def error_envelope_new_def Let_def
      is_image_channel_refusal_def bt_get_def IMAGE_UNSUPPORTED_EXTENSION_def
      NO_ATTEMPT_FALLBACK_EXTENSION_def)

lemma guidance_keeps:
  "ee_code (image_request_guidance e) = ee_code e"
  "ee_extensions (image_request_guidance e) = ee_extensions e"
  by (simp_all add: image_request_guidance_def)

text \<open>The failures after which another target may be tried.\<close>

definition may_move_on :: "bool \<Rightarrow> call_outcome \<Rightarrow> bool" where
  "may_move_on has_images c \<longleftrightarrow> (\<exists>e. co_result c = Inl e \<and> \<not> co_output_started c
     \<and> bt_get (ee_extensions e) NO_ATTEMPT_FALLBACK_EXTENSION \<noteq> Some (JBool True)
     \<and> (is_retriable_elsewhere (ee_code e) \<or> is_image_channel_refusal e
        \<or> has_images \<and> is_unsupported_media_error e))"

lemma may_move_on_iff:
  assumes "attempt_result hi c = Inl e'" and "attempt_fallback_allowed e'"
  shows "may_move_on hi c"
proof -
  obtain e where e: "co_result c = Inl e"
    using assms(1) by (cases "co_result c") (auto simp: attempt_result_def)
  have quiet: "\<not> co_output_started c"
    using assms e by (auto simp: attempt_result_def marked_not_allowed)
  then have e': "e' = image_error hi e" using assms(1) e by (simp add: attempt_result_def)
  have unmarked: "bt_get (ee_extensions e) NO_ATTEMPT_FALLBACK_EXTENSION \<noteq> Some (JBool True)"
  proof
    assume marked: "bt_get (ee_extensions e) NO_ATTEMPT_FALLBACK_EXTENSION = Some (JBool True)"
    then have "\<not> attempt_fallback_allowed (image_error hi e)"
      by (auto simp: image_error_def marked_not_allowed bt_contains_def guidance_keeps
          attempt_fallback_allowed_def [of e] attempt_fallback_allowed_def [of "image_request_guidance e"])
    with assms(2) e' show False by simp
  qed
  have "is_retriable_elsewhere (ee_code e) \<or> is_image_channel_refusal e
      \<or> hi \<and> is_unsupported_media_error e"
    using assms(2) unfolding e' image_error_def
    by (auto simp: attempt_fallback_allowed_def guidance_keeps is_image_channel_refusal_def
        split: if_splits)
  with e quiet unmarked show ?thesis by (simp add: may_move_on_def)
qed

lemma allowed_stays_allowed:
  assumes "co_result c = Inl e" and "\<not> co_output_started c" and "attempt_fallback_allowed e"
  shows "\<exists>e'. attempt_result hi c = Inl e' \<and> attempt_fallback_allowed e'"
  using assms
  by (auto simp: attempt_result_def image_error_def image_refusal_allowed guidance_keeps
      attempt_fallback_allowed_def [of e] attempt_fallback_allowed_def [of "image_request_guidance e"]
      is_image_channel_refusal_def)

lemma after_call_proceed: "after_call E cx hi target c Proceed y \<Longrightarrow> may_move_on hi c"
  by (auto simp: after_call_def may_move_on_iff split: sum.splits if_splits)

lemma after_call_ok: "after_call E cx hi target c (Finished (Ok (t, outcome))) y \<Longrightarrow>
    t = target \<and> co_result c = Inr outcome"
  by (auto simp: after_call_def attempt_result_Inr split: sum.splits if_splits)

lemma turn_ok_proceed:
  assumes "turn_ok E cx hi target Proceed x y"
  obtains cs where "ex_log y = ex_log x @ cs" "\<forall>p \<in> set cs. may_move_on hi (snd p)"
proof -
  have "ex_log y = ex_log x \<or> (\<exists>c. ex_log y = ex_log x @ [(target, c)] \<and> may_move_on hi c)"
    using assms unfolding turn_ok_def
    by (elim disjE exE conjE) (auto simp: no_call_def one_call_def dest: after_call_proceed)
  then show ?thesis using that [of "[]"] that by fastforce
qed

text \<open>What the calls of a run look like, and who served it.\<close>

definition calls_ok ::
  "bool \<Rightarrow> (upstream_model \<times> call_outcome) list \<Rightarrow> (error_envelope + upstream_model \<times> stream_outcome) option
     \<Rightarrow> bool \<Rightarrow> bool" where
  "calls_ok hi cs r cancelled \<longleftrightarrow> (\<forall>p \<in> set (butlast cs). may_move_on hi (snd p))
     \<and> (case r of Some (Inr (t, outcome)) \<Rightarrow>
           cancelled \<or> cs \<noteq> [] \<and> fst (last cs) = t \<and> co_result (snd (last cs)) = Inr outcome
        | _ \<Rightarrow> True)"

lemma calls_ok_append:
  "calls_ok hi cs' r b \<Longrightarrow> \<forall>p \<in> set cs. may_move_on hi (snd p) \<Longrightarrow> calls_ok hi (cs @ cs') r b"
  by (auto simp: calls_ok_def butlast_append split: option.splits sum.splits dest: in_set_butlastD)

lemma turn_ok_finished:
  "turn_ok E cx hi target (Finished f) x y \<Longrightarrow>
    \<exists>cs. ex_log y = ex_log x @ cs \<and> calls_ok hi cs (Some f) (ex_cancel_reply y)"
  unfolding turn_ok_def
  by (elim disjE exE conjE)
    (auto simp: no_call_def one_call_def calls_ok_def cancelled_turn_def split: sum.splits dest: after_call_ok)

lemma turn_ok_stop:
  "turn_ok E cx hi target Stop x y \<Longrightarrow>
    \<exists>cs. ex_log y = ex_log x @ cs \<and> calls_ok hi cs None b"
  using turn_ok_log by (fastforce simp: calls_ok_def)

lemma dispatch_loop_calls:
  "dispatch_loop E cx hi targets x = (r, y) \<Longrightarrow>
    \<exists>cs. ex_log y = ex_log x @ cs \<and> calls_ok hi cs r (ex_cancel_reply y)"
proof (induction rule: dispatch_loop_induct)
  case (Proceed target targets x y z r)
  then show ?case by (metis append.assoc calls_ok_append turn_ok_proceed)
qed (auto simp: calls_ok_def [of _ "[]"] dest: turn_ok_finished turn_ok_stop)

text \<open>
  C1. A request moves to another target only after a failure that allows it: every call but the last
  ended in an error, before any output reached the client, that is retriable elsewhere or refuses
  images, and that the host did not mark as final. A success names the target of the last call and
  its outcome, unless the request was cancelled before a call.
\<close>

theorem fallback_only_before_output:
  assumes "dispatch E cx d x = (r, y)" and "fresh_exchange x"
  shows "(\<forall>p \<in> set (butlast (ex_log y)). may_move_on (rf_has_images (dec_features d)) (snd p))
    \<and> (case r of Inl _ \<Rightarrow> True | Inr (target, outcome) \<Rightarrow> ex_cancel_reply y
         \<or> ex_log y \<noteq> [] \<and> fst (last (ex_log y)) = target
           \<and> co_result (snd (last (ex_log y))) = Inr outcome)"
  using assms(1)
proof (cases rule: dispatch_loop_run)
  case settled
  from dispatch_loop_calls [OF this] show ?thesis
    using assms(2) by (simp add: calls_ok_def fresh_exchange_def exchange_frame split: sum.splits)
next
  case failed
  from dispatch_loop_calls [OF failed(1)] show ?thesis
    using assms(2) failed(2) by (simp add: calls_ok_def fresh_exchange_def exchange_frame)
qed

section \<open>Errors\<close>

definition unmarked :: "error_envelope \<Rightarrow> bool" where
  "unmarked e \<longleftrightarrow> \<not> bt_contains (ee_extensions e) NO_ATTEMPT_FALLBACK_EXTENSION
     \<and> \<not> bt_contains (ee_extensions e) IMAGE_UNSUPPORTED_EXTENSION"

lemma unmarked_sanitized: "unmarked (sanitize_attempt_error_for_render e)"
  by (simp add: unmarked_def sanitize_attempt_error_for_render_def bt_contains_def bt.get_del)

lemma unmarked_new: "unmarked (error_envelope_new c s m)"
  by (simp add: unmarked_def error_envelope_new_def bt_contains_def bt.get_empty)

lemma unmarked_lifecycle: "lifecycle_now E cx x = Some e \<Longrightarrow> unmarked e"
  by (auto simp: lifecycle_now_def lifecycle_cancellation_def unmarked_new
      split: option.splits cancel_reason.splits)

definition errors_ok ::
  "(error_envelope + upstream_model \<times> stream_outcome) option \<Rightarrow> error_envelope option \<Rightarrow> bool" where
  "errors_ok r last_error \<longleftrightarrow> (\<forall>e. r = Some (Err e) \<longrightarrow> unmarked e) \<and> (\<forall>e. last_error = Some e \<longrightarrow> unmarked e)"

lemma turn_ok_errors:
  "turn_ok E cx hi target t x y \<Longrightarrow> errors_ok None (ex_last_error x) \<Longrightarrow>
    (case t of Finished f \<Rightarrow> errors_ok (Some f) None | _ \<Rightarrow> errors_ok None (ex_last_error y))"
  unfolding turn_ok_def after_call_def cancelled_turn_def
  by (elim disjE exE conjE)
    (auto simp: errors_ok_def unmarked_sanitized unmarked_new capacity_error_def
      split: sum.splits turn.splits if_splits dest: unmarked_lifecycle)

lemma dispatch_loop_errors:
  "dispatch_loop E cx hi targets x = (r, y) \<Longrightarrow> errors_ok None (ex_last_error x) \<Longrightarrow>
    errors_ok r (if r = None then ex_last_error y else None)"
proof (induction rule: dispatch_loop_induct)
  case (Finished target targets x y f)
  then show ?case using turn_ok_errors by fastforce
next
  case (Stop target targets x y)
  then show ?case using turn_ok_errors by fastforce
next
  case (Proceed target targets x y z r)
  then show ?case using turn_ok_errors by fastforce
qed simp

text \<open>
  C29. The host's private marks never leave the dispatch: whatever a provider's error carried, the
  error returned to the caller has neither the mark that forbids a fallback nor the mark of an image
  refusal among its extensions.
\<close>

theorem private_marks_never_leave:
  assumes "dispatch E cx d x = (Err e, y)"
  shows "\<not> bt_contains (ee_extensions e) NO_ATTEMPT_FALLBACK_EXTENSION
    \<and> \<not> bt_contains (ee_extensions e) IMAGE_UNSUPPORTED_EXTENSION"
proof -
  have "unmarked e"
    using assms
  proof (cases rule: dispatch_loop_run)
    case settled
    from dispatch_loop_errors [OF this] show ?thesis by (simp add: errors_ok_def exchange_frame)
  next
    case failed
    from dispatch_loop_errors [OF failed(1)] failed(2) show ?thesis
      by (auto simp: errors_ok_def exchange_frame unwrap_or_def unmarked_new split: option.splits)
  qed
  then show ?thesis by (simp add: unmarked_def)
qed

section \<open>What is given back\<close>

text \<open>No other request runs meanwhile.\<close>

definition alone :: "'d env \<Rightarrow> bool" where
  "alone E \<longleftrightarrow> (\<forall>n s. en_others E n s = s)"

abbreviation leases_in :: "'d exchange \<Rightarrow> inflight_leases" where
  "leases_in x \<equiv> qt_leases (sh_quota (ex_shared x))"

abbreviation admission_in :: "'d exchange \<Rightarrow> admission" where
  "admission_in x \<equiv> sh_admission (ex_shared x)"

lemma tracker_leases_frame [tracker_frame]:
  "qt_leases (record_settled D q u i now us b) = qt_leases q"
  "qt_leases (note_rate_limited q u now ms) = qt_leases q"
  "qt_leases (note_authoritative q u now ws) = qt_leases q"
  by (simp_all add: record_settled_def note_rate_limited_def note_authoritative_def Let_def tracker_frame)

lemma try_upstream_shared:
  "alone E \<Longrightarrow> leases_in (snd (try_upstream E t x)) = leases_in x
    \<and> admission_in (snd (try_upstream E t x)) = admission_in x"
  by (simp add: try_upstream_def Let_def settle_attempt_quota_def exchange_frame tracker_frame alone_def
      map_record_def split: option.splits)

lemma observe_shared:
  "leases_in (observe_images E cx hi t c r x) = leases_in x"
  "admission_in (observe_images E cx hi t c r x) = admission_in x"
  "leases_in (observe_error E t e x) = leases_in x"
  "admission_in (observe_error E t e x) = admission_in x"
  by (simp_all add: observe_images_def observe_error_def Let_def exchange_frame tracker_frame
      split: option.splits)

lemma drop_lease_shared:
  "leases_in (drop_lease i x) = release (leases_in x) i"
  "admission_in (drop_lease i x) = admission_in x"
  by (simp_all add: drop_lease_def exchange_frame tracker_release_def)

lemma run_attempt_shared:
  assumes "alone E"
  shows "\<exists>now life. leases_in (snd (run_attempt E cx hi target ol x))
      = release (snd (grant_for (leases_in x) now (as_str (um_upstream target)) life))
          (fst (grant_for (leases_in x) now (as_str (um_upstream target)) life))
    \<and> (\<exists>n. now = en_unix_millis E n)
    \<and> admission_in (snd (run_attempt E cx hi target ol x)) = admission_in x"
  using assms try_upstream_shared [OF assms] unfolding alone_def
  by (simp add: run_attempt_def Let_def case_prod_beta exchange_frame tracker_grant_for_def
      take_attempt_fallback_policy_def drop_lease_shared observe_shared unix_of_def
      split: sum.splits option.splits) blast

text \<open>A lease granted and released, at an instant no later than \<open>later\<close>.\<close>

definition lent_and_returned :: "u64 \<Rightarrow> inflight_leases \<Rightarrow> inflight_leases \<Rightarrow> bool" where
  "lent_and_returned later l l' \<longleftrightarrow> l' = l \<or> (\<exists>now a life. now \<le> later
     \<and> l' = release (snd (grant_for l now a life)) (fst (grant_for l now a life)))"

lemma take_turn_shared:
  assumes "alone E" and "\<forall>n. en_unix_millis E n \<le> later"
  shows "admission_in (snd (take_turn E cx hi target ol x)) = admission_in x
    \<and> lent_and_returned later (leases_in x) (leases_in (snd (take_turn E cx hi target ol x)))"
proof -
  let ?x = "interfere E x"
  have same: "ex_shared ?x = ex_shared x" using assms(1) by (simp add: exchange_frame alone_def)
  let ?enter = "enter_provider (admission_in x) (as_str (um_upstream target))"
  consider (refused) "is_cancelled_now E cx ?x \<or> ?enter = None"
    | (entered) a where "\<not> is_cancelled_now E cx ?x" "?enter = Some a" by blast
  then show ?thesis
  proof cases
    case refused
    then show ?thesis
      using same by (auto simp: take_turn_def Let_def exchange_frame case_prod_beta lent_and_returned_def)
  next
    case (entered a)
    have dropped: "drop_permit a (Provider (as_str (um_upstream target))) = admission_in x"
      using entered(2) by (auto simp: enter_provider_def intro: enter_drop)
    let ?y = "next_tick (?x\<lparr>ex_shared := (ex_shared ?x)\<lparr>sh_admission := a\<rparr>\<rparr>)"
    show ?thesis
    proof (cases "try_begin (ex_budget ?y) None (now_of E ?y)")
      case None
      then show ?thesis using entered dropped same
        by (simp add: take_turn_def Let_def exchange_frame drop_provider_def lent_and_returned_def)
    next
      case (Some b)
      let ?z = "next_tick (?y\<lparr>ex_budget := b\<rparr>)"
      have "snd (take_turn E cx hi target ol x) = drop_provider target (snd (run_attempt E cx hi target ol ?z))"
        using entered Some same by (simp add: take_turn_def Let_def case_prod_beta)
      moreover have "leases_in ?z = leases_in x" "admission_in ?z = a"
        using same by (simp_all add: exchange_frame)
      ultimately show ?thesis
        using run_attempt_shared [OF assms(1), of cx hi target ol ?z] dropped assms(2)
        by (auto simp: drop_provider_def lent_and_returned_def)
    qed
  qed
qed

text \<open>Nothing of it is left at \<open>later\<close>, and at most one more serial is used.\<close>

lemma lent_and_returned_ok:
  assumes "lent_and_returned later l l'" and "leases_ok l" and "unat (il_next_serial l) + n < 2 ^ 64 - 1"
  shows "leases_ok l' \<and> (\<forall>a. inflight l' later a = inflight l later a)
    \<and> unat (il_next_serial l') \<le> Suc (unat (il_next_serial l))"
proof (cases "l' = l")
  case False
  then obtain now a life where now: "now \<le> later"
    and l': "l' = release (snd (grant_for l now a life)) (fst (grant_for l now a life))"
    using assms(1) by (auto simp: lent_and_returned_def)
  have table: "table_ok l" using assms(2) by (simp add: leases_ok_def table_ok_def)
  have small: "il_next_serial l \<noteq> u_max" using assms(3) by (auto simp: unat_inject [symmetric] unat_u_max)
  have fresh: "held l (fst (grant_for l now a life)) = None"
    using leases_ok_fresh [OF assms(2)] by (simp add: grant_for_def Let_def)
  have "live (held l') later b = live (held l) later b" for b
    unfolding l' by (rule lease.lend_give_back [OF table now fresh])
  moreover have "table_ok l'" unfolding l' using table by (simp add: table_ok_grant table_ok_release)
  ultimately have "inflight l' later b = inflight l later b" for b
    using inflight_count table by (simp add: unat_inject [symmetric])
  moreover have "il_next_serial l' = il_next_serial l + 1"
    unfolding l' by (simp add: grant_for_def release_def Let_def split: option.splits)
  moreover have "unat (il_next_serial l + 1) \<le> Suc (unat (il_next_serial l))"
    by (simp add: unat_word_ariths)
  moreover have "leases_ok l'" unfolding l' using leases_ok_grant [OF assms(2) small] leases_ok_release by blast
  ultimately show ?thesis by simp
qed (use assms(2) in simp)

lemma dispatch_loop_returns:
  assumes "alone E" and "\<forall>n. en_unix_millis E n \<le> later"
  shows "leases_ok (leases_in x) \<Longrightarrow> unat (il_next_serial (leases_in x)) + length targets < 2 ^ 64 - 1 \<Longrightarrow>
    admission_in (snd (dispatch_loop E cx hi targets x)) = admission_in x
    \<and> (\<forall>a. inflight (leases_in (snd (dispatch_loop E cx hi targets x))) later a = inflight (leases_in x) later a)"
proof (induction targets arbitrary: x)
  case (Cons target targets)
  obtain t z where t: "take_turn E cx hi target (targets \<noteq> []) x = (t, z)" by force
  from take_turn_shared [OF assms, of cx hi target "targets \<noteq> []" x] t
  have turn: "admission_in z = admission_in x" "lent_and_returned later (leases_in x) (leases_in z)" by simp_all
  from lent_and_returned_ok [OF turn(2) Cons.prems]
  have z: "leases_ok (leases_in z)" "\<forall>a. inflight (leases_in z) later a = inflight (leases_in x) later a"
    "unat (il_next_serial (leases_in z)) \<le> Suc (unat (il_next_serial (leases_in x)))" by simp_all
  have "unat (il_next_serial (leases_in z)) + length targets < 2 ^ 64 - 1"
    using z(3) Cons.prems(2) by simp
  from Cons.IH [OF z(1) this] show ?case using t turn(1) z(2) by (cases t) simp_all
qed simp

text \<open>
  C10. Every way out of a dispatch gives back what it took: with no other request running, the
  concurrency permits are as they were, and every account's in-flight count, at any instant no
  earlier than the clock readings, is as it was, whether the request was served, failed on every
  target, was cancelled or ran out of budget.
\<close>

theorem permits_and_leases_returned:
  assumes "\<forall>n s. en_others E n s = s" and "\<forall>n. en_unix_millis E n \<le> later"
    and "leases_ok (qt_leases (sh_quota (ex_shared x)))"
    and "unat (il_next_serial (qt_leases (sh_quota (ex_shared x)))) + length (targets_of d) < 2 ^ 64 - 1"
    and "dispatch E cx d x = (r, y)"
  shows "sh_admission (ex_shared y) = sh_admission (ex_shared x)
    \<and> (\<forall>a. inflight (qt_leases (sh_quota (ex_shared y))) later a
          = inflight (qt_leases (sh_quota (ex_shared x))) later a)"
proof -
  let ?x = "next_tick (x\<lparr>ex_budget := budget_for_request cx (now_of E x), ex_last_error := None\<rparr>)"
  have same: "ex_shared ?x = ex_shared x" by (simp add: exchange_frame)
  have y: "y = snd (dispatch_loop E cx (rf_has_images (dec_features d)) (targets_of d) ?x)"
    using assms(5) by (cases rule: dispatch_loop_run) simp_all
  have "alone E" using assms(1) by (simp add: alone_def)
  from dispatch_loop_returns [OF this assms(2), of ?x "targets_of d"] show ?thesis
    unfolding y same using assms(3,4) by simp
qed

section \<open>Fallback finds the target that works\<close>

text \<open>The budget of a request that is not out of time.\<close>

definition budget_ok :: "request_context \<Rightarrow> nat \<Rightarrow> attempt_budget \<Rightarrow> bool" where
  "budget_ok cx start b \<longleftrightarrow> ab_max_attempts b = MAX_ATTEMPTS \<and> ab_max_cost b = None
     \<and> ab_max_elapsed b = cx_remaining cx start \<and> ab_started b = start"

lemma try_begin_succeeds:
  assumes "budget_ok cx start b" and "unat (ab_attempts b) < 6" and "start \<le> now" and "cx_remaining cx now \<noteq> 0"
  shows "try_begin b None now = Some (b\<lparr>ab_attempts := ab_attempts b + 1,
    ab_reserved_cost := sat_add (ab_reserved_cost b) 0\<rparr>)"
  using assms by (auto simp: try_begin_def budget_ok_def budget_remaining_def cx_remaining_def MAX_ATTEMPTS_def
      word_le_nat_alt)

text \<open>A world in which a request is never cancelled and finds a permit everywhere.\<close>

definition calm :: "'d env \<Rightarrow> request_context \<Rightarrow> nat \<Rightarrow> bool" where
  "calm E cx start \<longleftrightarrow> (\<forall>n. \<not> cx_is_cancelled cx (en_cells E n) (en_clock E n))
     \<and> (\<forall>n. start \<le> en_clock E n)
     \<and> (\<forall>n s u. enter_provider (sh_admission (en_others E n s)) u \<noteq> None)"

lemma calm_now:
  assumes "calm E cx start"
  shows "\<not> is_cancelled_now E cx x" "lifecycle_now E cx x = None" "start \<le> now_of E x"
    "cx_remaining cx (now_of E x) \<noteq> 0"
proof -
  have none: "cx_cancel_reason cx (cells_of E x) (now_of E x) = None"
    using assms by (simp add: calm_def cx_is_cancelled_def cells_of_def now_of_def)
  then show "\<not> is_cancelled_now E cx x" "lifecycle_now E cx x = None"
    by (simp_all add: is_cancelled_now_def cx_is_cancelled_def lifecycle_now_def lifecycle_cancellation_def)
  from none show "cx_remaining cx (now_of E x) \<noteq> 0"
    by (auto simp: cx_cancel_reason_def split: option.splits if_splits)
  show "start \<le> now_of E x" using assms by (simp add: calm_def now_of_def)
qed

lemma take_turn_calm:
  assumes "calm E cx start" and "budget_ok cx start (ex_budget x)" and "unat (ab_attempts (ex_budget x)) < 6"
  shows "\<exists>n. after_call E cx hi target (en_call E n target) (fst (take_turn E cx hi target ol x))
        (snd (take_turn E cx hi target ol x))
    \<and> budget_ok cx start (ex_budget (snd (take_turn E cx hi target ol x)))
    \<and> unat (ab_attempts (ex_budget (snd (take_turn E cx hi target ol x)))) = Suc (unat (ab_attempts (ex_budget x)))"
proof -
  let ?x = "interfere E x"
  obtain a where enter: "enter_provider (admission_in ?x) (as_str (um_upstream target)) = Some a"
    using assms(1) by (force simp: calm_def exchange_frame)
  let ?y = "next_tick (?x\<lparr>ex_shared := (ex_shared ?x)\<lparr>sh_admission := a\<rparr>\<rparr>)"
  have budget: "ex_budget ?y = ex_budget x" by (simp add: exchange_frame)
  let ?b = "(ex_budget x)\<lparr>ab_attempts := ab_attempts (ex_budget x) + 1,
    ab_reserved_cost := sat_add (ab_reserved_cost (ex_budget x)) 0\<rparr>"
  have begin_ok: "try_begin (ex_budget ?y) None (now_of E ?y) = Some ?b"
    unfolding budget using assms(2,3) calm_now(3,4) [OF assms(1)] by (rule try_begin_succeeds)
  let ?z = "next_tick (?y\<lparr>ex_budget := ?b\<rparr>)"
  let ?r = "run_attempt E cx hi target ol ?z"
  have turn: "take_turn E cx hi target ol x = (fst ?r, drop_provider target (snd ?r))"
    using enter begin_ok calm_now(1) [OF assms(1)]
    by (simp add: take_turn_def Let_def map_prod_def case_prod_beta)
  have "ex_budget (drop_provider target (snd ?r)) = ?b"
    using run_attempt_frame [of E cx hi target ol ?z] by (simp add: exchange_frame)
  moreover have "unat (ab_attempts (ex_budget x) + 1) = Suc (unat (ab_attempts (ex_budget x)))"
    using assms(3) by (simp add: unat_word_ariths)
  moreover have "after_call E cx hi target (en_call E (Suc (ex_tick ?z)) target) (fst ?r)
      (drop_provider target (snd ?r))"
    using run_attempt_turn [of E cx hi target ?z ol]
    by (simp only: after_call_last_error [OF drop_provider_frame(3)])
  ultimately show ?thesis using assms(2) unfolding turn by (auto simp: budget_ok_def)
qed

lemma after_call_failing:
  assumes "calm E cx start" and "after_call E cx hi target c t y"
    and "co_result c = Inl e" and "\<not> co_output_started c" and "attempt_fallback_allowed e"
  shows "t = Proceed"
proof -
  obtain e' where "attempt_result hi c = Inl e'" "attempt_fallback_allowed e'"
    using allowed_stays_allowed [OF assms(3-5)] by blast
  with assms(2) calm_now(2) [OF assms(1)] show ?thesis by (simp add: after_call_def)
qed

lemma dispatch_loop_finds:
  assumes "calm E cx start"
    and "\<forall>t \<in> set failing. \<forall>n. \<exists>e. co_result (en_call E n t) = Inl e
      \<and> \<not> co_output_started (en_call E n t) \<and> attempt_fallback_allowed e"
    and "\<forall>n. co_result (en_call E n target) = Inr outcome"
  shows "budget_ok cx start (ex_budget x) \<Longrightarrow> unat (ab_attempts (ex_budget x)) + length failing < 6 \<Longrightarrow>
    fst (dispatch_loop E cx hi (failing @ target # others) x) = Some (Ok (target, outcome))"
  using assms(2)
proof (induction failing arbitrary: x)
  case Nil
  obtain t z where t: "take_turn E cx hi target (others \<noteq> []) x = (t, z)" by force
  with take_turn_calm [OF assms(1) Nil.prems(1), of hi target "others \<noteq> []"] Nil.prems(2) obtain n where
    "after_call E cx hi target (en_call E n target) t z" by auto
  then have "t = Finished (Ok (target, outcome))"
    using assms(3) attempt_result_Inr [of hi "en_call E n target" outcome] by (simp add: after_call_def)
  with t show ?case by simp
next
  case (Cons f failing)
  let ?ol = "failing @ target # others \<noteq> []"
  obtain t z where t: "take_turn E cx hi f ?ol x = (t, z)" by force
  with take_turn_calm [OF assms(1) Cons.prems(1), of hi f ?ol] Cons.prems(2) obtain n where
    call: "after_call E cx hi f (en_call E n f) t z" and z: "budget_ok cx start (ex_budget z)"
    "unat (ab_attempts (ex_budget z)) = Suc (unat (ab_attempts (ex_budget x)))" by auto
  obtain e where "co_result (en_call E n f) = Inl e" "\<not> co_output_started (en_call E n f)"
    "attempt_fallback_allowed e" using Cons.prems(3) by (meson list.set_intros(1))
  then have "t = Proceed" by (rule after_call_failing [OF assms(1) call])
  moreover have "fst (dispatch_loop E cx hi (failing @ target # others) z) = Some (Ok (target, outcome))"
    using Cons.IH [of z] z Cons.prems by simp
  ultimately show ?case using t by simp
qed

text \<open>
  C11. Fallback works: when the request is not cancelled and finds its permits, and the targets before
  one of the first six fail in a way that allows another attempt, the request is served by that
  target with the outcome it gives, whatever the failing targets return and however long the
  retries wait within the deadline.
\<close>

theorem fallback_reaches_working_target:
  assumes "targets_of d = failing @ target # others" and "length failing < 6"
    and "\<forall>n. \<not> cx_is_cancelled cx (en_cells E n) (en_clock E n)"
    and "\<forall>n. en_clock E (ex_tick x) \<le> en_clock E n"
    and "\<forall>n s u. enter_provider (sh_admission (en_others E n s)) u \<noteq> None"
    and "\<forall>t \<in> set failing. \<forall>n. \<exists>e. co_result (en_call E n t) = Inl e
      \<and> \<not> co_output_started (en_call E n t) \<and> attempt_fallback_allowed e"
    and "\<forall>n. co_result (en_call E n target) = Inr outcome"
  shows "fst (dispatch E cx d x) = Ok (target, outcome)"
proof -
  let ?x = "next_tick (x\<lparr>ex_budget := budget_for_request cx (now_of E x), ex_last_error := None\<rparr>)"
  have "calm E cx (now_of E x)" using assms(3-5) by (simp add: calm_def now_of_def)
  from dispatch_loop_finds [OF this assms(6,7), of ?x "rf_has_images (dec_features d)" others] assms(1,2)
  have "fst (dispatch_loop E cx (rf_has_images (dec_features d)) (targets_of d) ?x) = Some (Ok (target, outcome))"
    by (simp add: budget_ok_def exchange_frame budget_for_request_def)
  then show ?thesis by (simp add: dispatch_def Let_def case_prod_beta)
qed

section \<open>A worked exchange\<close>

text \<open>
  The decision of \<open>example_route\<close>: its chosen target is unavailable, the first fallback answers. The
  tracker knows no plan, so its store is never asked.
\<close>

definition answer :: "error_envelope + stream_outcome \<Rightarrow> call_outcome" where
  "answer r = \<lparr>co_result = r, co_error_code = None, co_usage = None, co_usage_incomplete = None,
     co_cost_micros = None, co_cost_kind = UnknownCost, co_windows = None, co_status = Some 200,
     co_provider_call = (''south'', None), co_output_started = (r = Inr Complete),
     co_valid_image = False\<rparr>"

definition no_db :: "unit quota_db" where
  "no_db = \<lparr>db_begin = (\<lambda>_. Err []), db_select = (\<lambda>_ _ _. Err []), db_exists = (\<lambda>_ _. Err []),
     db_count = (\<lambda>_. Err []), db_insert = (\<lambda>_ _ _ _. Err []), db_update = (\<lambda>_ _ _ _. Err []),
     db_commit = (\<lambda>_. Err []), db_mark = (\<lambda>_. ()), js_parse = (\<lambda>_. Err []), js_print = (\<lambda>_. Err []),
     js_plan = (\<lambda>_. [])\<rparr>"

definition example_shared :: "unit shared" where
  "example_shared = \<lparr>sh_admission = admission_new limits_default, sh_quota = fresh_tracker,
     sh_health = health_tracker_new \<lparr>hp_eject_after = 3, hp_cooldown = 1000\<rparr>, sh_images = Map.empty\<rparr>"

definition example_env :: "(unit shared \<Rightarrow> unit shared) \<Rightarrow> unit env" where
  "example_env others = \<lparr>en_clock = (\<lambda>_. 7), en_unix_millis = (\<lambda>_. 5), en_cells = (\<lambda>_. cells_empty),
     en_call = (\<lambda>_ t. answer (if t = example_target ''b'' ''m1''
       then Err (error_envelope_new UpstreamUnavailable 503 ''down'') else Ok Complete)),
     en_others = (\<lambda>_. others), en_db = no_db, en_catalog = []\<rparr>"

definition example_context :: request_context where
  "example_context = \<lparr>cx_cancel = \<lparr>tk_reason = 0, tk_parent = None\<rparr>, cx_deadline = 1000,
     cx_per_attempt_timeout = 100\<rparr>"

definition example_exchange :: "unit exchange" where
  "example_exchange = \<lparr>ex_tick = 0, ex_shared = example_shared,
     ex_budget = budget_for_request example_context 7,
     ex_record = \<lparr>rr_request_id = ''r'', rr_error_code = None, rr_attempts = 0, rr_routing = None,
       rr_decision = None, rr_decision_quota = None, rr_attempt_records = [], rr_usage = None,
       rr_usage_incomplete = None, rr_cost_micros = None, rr_cost_kind = UnknownCost,
       rr_price_version = None\<rparr>,
     ex_last_error = None, ex_cancel_reply = False, ex_log = []\<rparr>"

lemma example_fresh: "fresh_exchange example_exchange"
  by (simp add: fresh_exchange_def example_exchange_def)

definition example_run :: "(error_envelope + upstream_model \<times> stream_outcome) \<times> unit exchange" where
  "example_run = dispatch (example_env id) example_context example_decision example_exchange"

lemma example_run_eq:
  "dispatch (example_env id) example_context example_decision example_exchange = (fst example_run, snd example_run)"
  by (simp add: example_run_def)

lemma example_targets:
  "targets_of example_decision = [example_target ''b'' ''m1''] @ example_target ''a'' ''m1'' # [example_target ''c'' ''m2'']"
  by (simp add: targets_of_def example_decision_def)

lemma attempts_bounded_ordered_receipted_witness:
  "length (ex_log (snd example_run)) \<le> 6"
  using attempts_bounded_ordered_receipted [OF example_run_eq example_fresh] by blast

lemma fallback_only_before_output_witness:
  "list_all (\<lambda>p. may_move_on False (snd p)) (butlast (ex_log (snd example_run)))"
  using fallback_only_before_output [OF example_run_eq example_fresh]
  by (simp add: list_all_iff example_decision_def example_features_eq features_default_def)

lemma fallback_reaches_working_target_witness:
  "fst (dispatch (example_env (\<lambda>_. example_shared)) example_context example_decision example_exchange)
     = Ok (example_target ''a'' ''m1'', Complete)"
  by (rule fallback_reaches_working_target [OF example_targets])
    (simp_all add: example_env_def example_context_def cells_empty_def cx_is_cancelled_def cx_cancel_reason_def
      cx_remaining_def token_cancel_reason_def answer_def example_target_def example_shared_def
      enter_provider_def enter_def try_take_def admission_new_def limits_default_def DEFAULT_PER_PROVIDER_def
      attempt_fallback_allowed_def error_envelope_new_def bt.get_empty is_retriable_elsewhere_def)

lemma permits_and_leases_returned_witness:
  "sh_admission (ex_shared (snd example_run)) = sh_admission example_shared"
proof -
  have "qt_leases (sh_quota (ex_shared example_exchange)) = leases_new DEFAULT_LEASE_MS"
    by (simp add: example_exchange_def example_shared_def fresh_tracker_def)
  then have "leases_ok (qt_leases (sh_quota (ex_shared example_exchange)))"
    and "unat (il_next_serial (qt_leases (sh_quota (ex_shared example_exchange))))
        + length (targets_of example_decision) < 2 ^ 64 - 1"
    by (simp_all add: leases_ok_new example_targets) (simp add: leases_new_def)
  from permits_and_leases_returned [OF _ _ this example_run_eq, of 5] show ?thesis
    by (simp add: example_env_def example_exchange_def)
qed

lemma private_marks_never_leave_witness:
  "\<not> bt_contains (ee_extensions (error_envelope_new Auth 401 ''no'')) NO_ATTEMPT_FALLBACK_EXTENSION"
proof -
  let ?E = "(example_env id)\<lparr>en_call := (\<lambda>_ _. answer (Err (forbid_attempt_fallback (error_envelope_new Auth 401 ''no''))))\<rparr>"
  let ?r = "dispatch ?E example_context example_decision example_exchange"
  have "fst ?r = Err (error_envelope_new Auth 401 ''no'')" by code_simp
  then have "?r = (Err (error_envelope_new Auth 401 ''no''), snd ?r)" by (metis prod.collapse)
  from private_marks_never_leave [OF this] show ?thesis by blast
qed

end
