(* ===== verification/Source.thy ===== *)
theory Source
  imports Route
begin

text \<open>
  Where a router's configuration comes from, \<open>crates/router-core/src/source.rs\<close>. The trait
  \<open>ConfigSource\<close> is the function \<open>load\<close>, an argument of everything that uses it; what the outside
  world answers may differ at every call, so a run is a list of such functions.
\<close>

record static_config_source =
  scs_config :: router_config

definition static_source_new :: "router_config \<Rightarrow> static_config_source" where
  "static_source_new c = \<lparr>scs_config = c\<rparr>"

definition static_source_load :: "static_config_source \<Rightarrow> 'e + router_config" where
  "static_source_load s = Ok (scs_config s)"

datatype 'e cache_error = SourceFailed 'e | InvalidConfig config_error

record 's config_cache =
  cc_source :: 's
  cc_current :: router

definition cache_fetch :: "('s \<Rightarrow> 'e + router_config) \<Rightarrow> 's \<Rightarrow> 'e cache_error + router" where
  "cache_fetch load source = and_then (map_err SourceFailed (load source))
     (\<lambda>config. map_err InvalidConfig (router_new config))"

definition cache_load :: "('s \<Rightarrow> 'e + router_config) \<Rightarrow> 's \<Rightarrow> 'e cache_error + 's config_cache" where
  "cache_load load source = and_then (cache_fetch load source)
     (\<lambda>r. Ok \<lparr>cc_source = source, cc_current = r\<rparr>)"

text \<open>\<open>refresh\<close> returns the result and the cache, which an error leaves as it was.\<close>

definition cache_refresh ::
  "('s \<Rightarrow> 'e + router_config) \<Rightarrow> 's config_cache \<Rightarrow> ('e cache_error + unit) \<times> 's config_cache"
where
  "cache_refresh load c = (case cache_fetch load (cc_source c) of
      Err e \<Rightarrow> (Err e, c)
    | Ok r \<Rightarrow> (Ok (), c\<lparr>cc_current := r\<rparr>))"

definition cache_current :: "'s config_cache \<Rightarrow> router" where
  "cache_current c = cc_current c"

section \<open>What the request path relies on\<close>

text \<open>
  A provider of the current value: every value it serves is valid, and an update either
  installs the value offered or changes nothing.
\<close>

locale last_good =
  fixes valid :: "'v \<Rightarrow> bool"
    and current :: "'c \<Rightarrow> 'v"
    and update :: "'l \<Rightarrow> 'c \<Rightarrow> 'c"
    and offered :: "'l \<Rightarrow> 'c \<Rightarrow> 'v option"
  assumes offered_valid: "offered l c = Some v \<Longrightarrow> valid v"
    and update_current: "current (update l c) = (case offered l c of None \<Rightarrow> current c | Some v \<Rightarrow> v)"
    and offered_stable: "offered l (update l' c) = offered l c"
begin

lemma valid_update: "valid (current c) \<Longrightarrow> valid (current (update l c))"
  by (auto simp: update_current offered_valid split: option.split)

lemma valid_run: "valid (current c) \<Longrightarrow> valid (current (fold update ls c))"
  by (rule fold_invariant_simple [where P = "\<lambda>c. valid (current c)", OF valid_update])

lemma offered_run: "offered l (fold update ls c) = offered l c"
  by (induction ls arbitrary: c) (simp_all add: offered_stable)

text \<open>After a run the current value is the last one that was offered.\<close>

lemma current_run:
  "current (fold update ls c) =
     (case find (\<lambda>l. offered l c \<noteq> None) (rev ls) of
        None \<Rightarrow> current c | Some l \<Rightarrow> the (offered l c))"
proof (induction ls rule: rev_induct)
  case (snoc l ls)
  show ?case
  proof (cases "offered l c")
    case None
    with snoc show ?thesis by (simp add: update_current offered_run)
  next
    case (Some v)
    then show ?thesis by (simp add: update_current offered_run)
  qed
qed simp

end

definition router_valid :: "router \<Rightarrow> bool" where
  "router_valid r \<longleftrightarrow> config_ok (rt_config r)"

definition fetched :: "('s \<Rightarrow> 'e + router_config) \<Rightarrow> 's config_cache \<Rightarrow> router option" where
  "fetched load c = (case cache_fetch load (cc_source c) of Err _ \<Rightarrow> None | Ok r \<Rightarrow> Some r)"

lemma cache_fetch_Ok_iff [result_simps]:
  "cache_fetch load s = Ok r \<longleftrightarrow> (\<exists>config. load s = Ok config \<and> config_ok config \<and> r = Router config)"
  by (auto simp: cache_fetch_def result_simps)

lemma cache_refresh_source [simp]: "cc_source (snd (cache_refresh load c)) = cc_source c"
  by (simp add: cache_refresh_def split: sum.split)

interpretation cache: last_good router_valid cache_current "\<lambda>load c. snd (cache_refresh load c)" fetched
proof unfold_locales
  show "router_valid v" if "fetched l c = Some v" for l :: "'s \<Rightarrow> 'e + router_config" and c v
    using that by (auto simp: fetched_def router_valid_def result_simps split: sum.splits)
  show "cache_current (snd (cache_refresh l c))
      = (case fetched l c of None \<Rightarrow> cache_current c | Some v \<Rightarrow> v)"
    for l :: "'s \<Rightarrow> 'e + router_config" and c
    by (simp add: fetched_def cache_refresh_def cache_current_def split: sum.split)
  show "fetched l (snd (cache_refresh l' c)) = fetched l c"
    for l l' :: "'s \<Rightarrow> 'e + router_config" and c
    by (simp add: fetched_def)
qed

section \<open>Properties\<close>

text \<open>
  C38. The data plane does not depend on the configuration plane: once a cache has loaded, through
  any sequence of refreshes, failing or not, the router it serves is a validated one, namely that
  of the last refresh whose source answered with a valid document, or the initial one; and a
  refresh reports an error exactly when it changed nothing for want of such a document.
\<close>

theorem cache_keeps_last_good:
  assumes "cache_load load source = Ok c"
  shows "router_valid (cache_current (fold (\<lambda>l c. snd (cache_refresh l c)) ls c))
    \<and> cache_current (fold (\<lambda>l c. snd (cache_refresh l c)) ls c)
        = (case find (\<lambda>l. \<exists>r. cache_fetch l source = Ok r) (rev ls) of
            None \<Rightarrow> cache_current c
          | Some l \<Rightarrow> (case cache_fetch l source of Ok r \<Rightarrow> r | Err _ \<Rightarrow> cache_current c))
    \<and> (fst (cache_refresh l c) = Ok () \<longleftrightarrow> (\<exists>config. l source = Ok config \<and> config_ok config))"
proof -
  from assms obtain r where c: "c = \<lparr>cc_source = source, cc_current = r\<rparr>" and "config_ok (rt_config r)"
    by (auto simp: cache_load_def result_simps)
  then have valid: "router_valid (cache_current c)" by (simp add: router_valid_def cache_current_def)
  have pred: "(\<lambda>l. fetched l c \<noteq> None) = (\<lambda>l. \<exists>r. cache_fetch l source = Ok r)"
    by (auto simp: fetched_def c fun_eq_iff split: sum.split)
  have got: "the (fetched l c) = (case cache_fetch l source of Ok r \<Rightarrow> r | Err _ \<Rightarrow> cache_current c)"
    if "find (\<lambda>l. \<exists>r. cache_fetch l source = Ok r) (rev ls) = Some l" for l
    using find_SomeD [OF that] by (auto simp: fetched_def c)
  have res: "fst (cache_refresh l c) = Ok () \<longleftrightarrow> (\<exists>config. l source = Ok config \<and> config_ok config)"
    by (auto simp: cache_refresh_def c result_simps split: sum.splits)
      (metis cache_fetch_Ok_iff sum.distinct(1))
  have run: "cache_current (fold (\<lambda>l c. snd (cache_refresh l c)) ls c)
        = (case find (\<lambda>l. \<exists>r. cache_fetch l source = Ok r) (rev ls) of
            None \<Rightarrow> cache_current c
          | Some l \<Rightarrow> (case cache_fetch l source of Ok r \<Rightarrow> r | Err _ \<Rightarrow> cache_current c))"
    unfolding cache.current_run pred using got by (auto split: option.split)
  show ?thesis using cache.valid_run [OF valid] run res by blast
qed

definition minimal_config :: router_config where
  "minimal_config = \<lparr>rc_version = 1,
     rc_pools = [(''p'', [\<lparr>um_upstream = UpstreamRef ''a'', um_model = ''m''\<rparr>])],
     rc_rules = [], rc_hint_routes = [], rc_heuristic = None, rc_default_pool = ''p'',
     rc_assumed_context_window = 8192, rc_honor_exact_model = False, rc_recovery = Strict,
     rc_local_only = False, rc_allow_cloud_fallback = False, rc_routing_mode = Tiered,
     rc_quota = quota_config_default, rc_quota_accounts = []\<rparr>"

theorem cache_keeps_last_good_witness:
  "router_valid (cache_current (fold (\<lambda>l c. snd (cache_refresh l c))
      [\<lambda>_. Err ''down'', \<lambda>_. Ok (minimal_config\<lparr>rc_version := 2\<rparr>)]
      \<lparr>cc_source = (), cc_current = Router minimal_config\<rparr>))"
proof -
  have "cache_load (\<lambda>_. Ok minimal_config :: string + router_config) ()
      = Ok \<lparr>cc_source = (), cc_current = Router minimal_config\<rparr>"
    by code_simp
  from cache_keeps_last_good [OF this] show ?thesis by blast
qed

end
