(* ===== verification/Tracker_Properties.thy ===== *)
theory Tracker_Properties
  imports Tracker
begin

text \<open>
  What the quota tracker of \<open>Tracker\<close> promises the gateway: cooldowns, agreement of the viewer
  with the router, provider readings, conversation affinity and settlements counted once.
\<close>

section \<open>A concrete store\<close>

text \<open>
  A store for evaluating the model: rows in a map, and a printer for accounts without windows and
  with at most one receipt.
\<close>

definition plain_account :: "string list \<Rightarrow> saved_account" where
  "plain_account receipts = \<lparr>sa_ledger = \<lparr>al_windows = [], al_rate = None\<rparr>,
     sa_recent_requests = receipts, sa_unknown_usage_requests = 0, sa_plan_changed_baseline = False\<rparr>"

definition demo_db :: "(string \<times> string \<rightharpoonup> string) quota_db" where
  "demo_db = \<lparr>db_begin = (\<lambda>_. Ok ()), db_select = (\<lambda>d name plan. Ok (d (name, plan))),
     db_exists = (\<lambda>d name. Ok False), db_count = (\<lambda>d. Ok 0),
     db_insert = (\<lambda>d name plan s. Ok (if d (name, plan) = None then d((name, plan) \<mapsto> s) else d)),
     db_update = (\<lambda>d name plan s. Ok (d((name, plan) \<mapsto> s))),
     db_commit = (\<lambda>d. Ok d), db_mark = (\<lambda>d. d),
     js_parse = (\<lambda>s. case s of
        [] \<Rightarrow> Ok (plain_account [])
      | _ # receipt \<Rightarrow> Ok (plain_account [receipt])),
     js_print = (\<lambda>saved. if saved = plain_account [] then Ok []
        else (case sa_recent_requests saved of
            [receipt] \<Rightarrow> if saved = plain_account [receipt] then Ok (CHR ''r'' # receipt) else Err []
          | _ \<Rightarrow> Err [])),
     js_plan = (\<lambda>_. [])\<rparr>"

definition demo_plan :: quota_plan where
  "demo_plan = \<lparr>qp_windows = [], qp_rate_limit_per_min = None, qp_unit = Requests\<rparr>"

definition demo_tracker :: "(string \<times> string \<rightharpoonup> string) quota_tracker" where
  "demo_tracker = tracker_new demo_db [(''a'', demo_plan)]"

section \<open>Cooldowns\<close>

lemma cooling_exhausts:
  "is_cooling t u now \<Longrightarrow> qs_exhausted (fst (tracker_quota_state D t u now))"
  by (auto simp: tracker_quota_state_def Let_def current_ledger_split is_cooling_def tracker_frame
      split: option.splits)

lemma cooling_exhausts_snapshot:
  "is_cooling t u now \<Longrightarrow> qas_exhausted (fst (account_snapshot D t u now))"
  by (auto simp: account_snapshot_def Let_def current_ledger_split is_cooling_def tracker_frame
      case_prod_beta split: option.splits)

section \<open>The viewer and the router\<close>

text \<open>Creating the failure marker beside the database does not change what the table holds.\<close>

definition marker_is_separate :: "'d quota_db \<Rightarrow> bool" where
  "marker_is_separate D \<longleftrightarrow> (\<forall>d. db_select D (db_mark D d) = db_select D d)"

lemma current_saved_again:
  assumes "marker_is_separate D"
  shows "fst (current_saved D (snd (current_saved D t u a)) v b) = fst (current_saved D t v b)"
    and "snd (current_saved D (snd (current_saved D t u a)) u a) = snd (current_saved D t u a)"
  using assms
  by (auto simp: current_saved_def marker_is_separate_def store_load_def persistence_error_def
      split: option.splits sum.splits)

lemma min_by_key_map: "min_by_key f (map g xs) = map_option g (min_by_key (\<lambda>x. f (g x)) xs)"
  by (induction xs) (auto split: option.splits)

lemma ledger_binding:
  "binding_of (ledger_window_snapshots l now) =
    (qs_reset (ledger_quota_state l now), qs_exhausted (ledger_quota_state l now))"
  by (simp add: binding_of_def ledger_quota_state_def ledger_window_snapshots_def min_by_key_map
      window_snapshot_of_def Let_def option.map_comp comp_def list_ex_iff)

lemma ledger_headroom:
  "qs_rate_headroom_permille (ledger_quota_state l now) = ledger_rate_headroom l now"
  "qs_rate_pressured (ledger_quota_state l now)
     \<longleftrightarrow> ledger_rate_headroom l now \<le> RATE_PRESSURE_PERMILLE"
  by (simp_all add: ledger_quota_state_def ledger_rate_headroom_def Let_def split: option.splits)

lemma penalty_le: "apply_inflight_penalty h n r \<le> h"
  by (simp add: apply_inflight_penalty_def Let_def word_le_nat_alt sat_simps)

lemma penalty_pressure:
  "h \<le> p \<or> apply_inflight_penalty h n r \<le> p \<longleftrightarrow> apply_inflight_penalty h n r \<le> p"
  using penalty_le order_trans by blast

lemma quota_state_account:
  assumes "bt_get (qt_accounts t) u = Some a"
  shows "fst (tracker_quota_state D t u now) =
    (let (saved, t') = current_saved D t u a;
         l = sa_ledger saved;
         (reset, exhausted) = binding_of (case fresh_authoritative t u now of
            Some ws \<Rightarrow> ws | None \<Rightarrow> ledger_window_snapshots l now);
         headroom = apply_inflight_penalty (ledger_rate_headroom l now)
            (inflight (qt_leases t) now u) (ta_rate_limit_per_min a)
     in \<lparr>qs_reset = reset, qs_rate_headroom_permille = headroom,
         qs_rate_pressured = headroom \<le> RATE_PRESSURE_PERMILLE,
         qs_exhausted = exhausted \<or> is_cooling t u now \<or> qt_persistence_failed t'\<rparr>)"
proof -
  have frame: "fresh_authoritative (snd (current_saved D t u a)) u now = fresh_authoritative t u now"
    "is_cooling (snd (current_saved D t u a)) u now = is_cooling t u now"
    by (simp_all add: fresh_authoritative_def is_cooling_def tracker_frame)
  show ?thesis
    using assms
    by (cases "fresh_authoritative t u now")
      (auto simp: tracker_quota_state_def current_ledger_split Let_def case_prod_beta frame
        tracker_frame bt_contains_def ledger_headroom ledger_binding penalty_pressure
        intro!: quota_state.equality)
qed

lemma account_snapshot_account:
  assumes "marker_is_separate D" and "bt_get (qt_accounts t) u = Some a"
  shows "fst (account_snapshot D t u now) =
    (let (saved, t') = current_saved D t u a;
         l = sa_ledger saved;
         ws = (case fresh_authoritative t u now of
            Some ws \<Rightarrow> ws | None \<Rightarrow> ledger_window_snapshots l now);
         headroom = apply_inflight_penalty (ledger_rate_headroom l now)
            (inflight (qt_leases t) now u) (ta_rate_limit_per_min a);
         history = (if qt_persistence_failed t' then Unavailable else ta_history a)
     in \<lparr>qas_history = history, qas_unknown_usage_requests = sa_unknown_usage_requests saved,
         qas_upstream = u, qas_windows = map quota_window_snapshot_from ws,
         qas_rate_headroom_permille = headroom,
         qas_rate_pressured = headroom \<le> RATE_PRESSURE_PERMILLE,
         qas_inflight = inflight (qt_leases t) now u,
         qas_exhausted = snd (binding_of ws) \<or> is_cooling t u now \<or> history = Unavailable,
         qas_cooling_ms_remaining = (case qt_cooling_until_ms t u of
            None \<Rightarrow> 0 | Some until \<Rightarrow> sat_sub until now),
         qas_source = (if fresh_authoritative t u now \<noteq> None then Authoritative_Source
           else if ws = [] then No_Source else Estimated_Source)\<rparr>)"
proof -
  have frame: "is_cooling (snd (current_saved D t u a)) u now = is_cooling t u now"
    by (simp add: is_cooling_def tracker_frame)
  show ?thesis
    using assms(2)
    by (cases "fresh_authoritative t u now")
      (simp_all add: account_snapshot_def current_ledger_split Let_def case_prod_beta frame
        tracker_frame bt_contains_def current_saved_again [OF assms(1)])
qed

text \<open>An account is marked unavailable only in the viewer's answer, never in the tracker.\<close>

definition histories_known :: "(string, tracked_account) btree \<Rightarrow> bool" where
  "histories_known accounts \<longleftrightarrow> (\<forall>(name, a) \<in> set accounts. ta_history a \<noteq> Unavailable)"

lemma set_bt_insert: "set (bt_insert k v m) \<subseteq> insert (k, v) (set m)"
  by (induction k v m rule: bt_insert.induct) auto

lemma histories_known_get:
  "histories_known accounts \<Longrightarrow> bt_get accounts u = Some a \<Longrightarrow> ta_history a \<noteq> Unavailable"
  by (auto simp: histories_known_def dest: bt_get_SomeD)

lemma histories_known_set_saved:
  assumes "histories_known (qt_accounts t)"
  shows "histories_known (qt_accounts (set_saved u s t))"
proof (cases "bt_get (qt_accounts t) u")
  case (Some a)
  have "ta_history a \<noteq> Unavailable" using histories_known_get [OF assms Some] .
  with assms set_bt_insert [of u "a\<lparr>ta_saved := s\<rparr>" "qt_accounts t"] show ?thesis
    by (fastforce simp: set_saved_def Some histories_known_def)
qed (simp add: set_saved_def assms)

lemma histories_known_consumption:
  "histories_known (qt_accounts t) \<Longrightarrow> histories_known (qt_accounts (record_consumption D t u i now us))"
  by (auto simp: record_consumption_def Let_def persistence_error_frame intro!: histories_known_set_saved
      split: option.splits sum.splits)

lemma histories_known_step:
  "histories_known (qt_accounts t) \<Longrightarrow> histories_known (qt_accounts (quota_step D c t))"
  by (cases c) (simp_all add: tracker_ops tracker_frame note_rate_limited_def Let_def
      histories_known_consumption split: option.splits prod.splits)

lemma histories_known_prepare:
  "store_prepare D d name a = Ok (d', a') \<Longrightarrow> ta_history a \<noteq> Unavailable \<Longrightarrow> ta_history a' \<noteq> Unavailable"
  by (auto simp: store_prepare_def result_simps Let_def split: option.splits if_splits)

lemma histories_known_prepare_all:
  "prepare_all D d accounts = Ok (d', accounts') \<Longrightarrow> histories_known accounts \<Longrightarrow> histories_known accounts'"
proof (induction accounts arbitrary: d d' accounts')
  case (Cons p accounts)
  obtain name a where p: "p = (name, a)" by fastforce
  from Cons.prems(1) obtain d1 a1 rest where
    "store_prepare D d name a = Ok (d1, a1)" and rest: "prepare_all D d1 accounts = Ok (d', rest)"
    and accounts': "accounts' = (name, a1) # rest"
    by (auto simp: p result_simps)
  moreover have "histories_known rest"
    by (rule Cons.IH [OF rest]) (use Cons.prems(2) in \<open>simp add: histories_known_def\<close>)
  ultimately show ?case
    using Cons.prems(2) by (auto simp: p histories_known_def dest: histories_known_prepare)
qed simp

text \<open>The trackers a gateway starts with.\<close>

definition started :: "'d quota_db \<Rightarrow> (string, quota_plan) btree \<Rightarrow> string + 'd \<Rightarrow> 'd quota_tracker \<Rightarrow> bool" where
  "started D plans opened t \<longleftrightarrow> t = tracker_new D plans \<or> tracker_persistent D plans opened = Ok t"

lemma histories_known_new: "histories_known (qt_accounts (tracker_new D plans))"
  by (auto simp: histories_known_def tracker_new_def from_plan_def)

lemma persistent_Ok:
  "tracker_persistent D plans opened = Ok t \<Longrightarrow>
    t = tracker_new D plans
    \<or> (\<exists>accounts store d d'. t = (tracker_new D plans)\<lparr>qt_accounts := accounts, qt_store := store\<rparr>
         \<and> prepare_all D d (qt_accounts (tracker_new D plans)) = Ok (d', accounts))"
  by (auto simp: tracker_persistent_def Let_def result_simps split: if_splits prod.splits)

lemma histories_known_run:
  assumes "started D plans opened t0"
  shows "histories_known (qt_accounts (fold (quota_step D) calls t0))"
proof (rule fold_invariant_simple [where P = "\<lambda>t. histories_known (qt_accounts t)"])
  show "histories_known (qt_accounts t0)"
    using assms histories_known_new histories_known_prepare_all
    by (fastforce simp: started_def dest: persistent_Ok)
qed (rule histories_known_step)

lemma demo_started: "started demo_db [(''a'', demo_plan)] (Err []) demo_tracker"
  by (simp add: started_def demo_tracker_def)

lemma demo_marker: "marker_is_separate demo_db"
  by (simp add: marker_is_separate_def demo_db_def)

text \<open>
  C14. Whatever calls the gateway makes on a tracker it started, an account is cooling at an instant
  exactly if some refusal's cooldown, capped at an hour, reaches past it; a later shorter refusal
  never ends a longer one. While it is cooling, the router is told that the account is
  exhausted, and so is the viewer.
\<close>

theorem refused_account_is_out:
  assumes "started D plans opened t0" and "t = fold (quota_step D) calls t0"
  shows "(is_cooling t u later \<longleftrightarrow> (\<exists>now ms. Rate_Limited u now ms \<in> set calls
           \<and> later < sat_add now (min ms MAX_QUOTA_COOLDOWN_MS)))
    \<and> (is_cooling t u later \<longrightarrow> qs_exhausted (fst (tracker_quota_state D t u later))
           \<and> qas_exhausted (fst (account_snapshot D t u later)))"
proof -
  have "\<not> is_cooling t0 u later"
    using assms(1) by (auto simp: started_def is_cooling_def tracker_new_def dest!: persistent_Ok)
  then have "is_cooling t u later \<longleftrightarrow> (\<exists>now ms. Rate_Limited u now ms \<in> set calls
           \<and> later < sat_add now (min ms MAX_QUOTA_COOLDOWN_MS))"
    unfolding assms(2) is_cooling_run
    by (force simp: list_ex_iff refused_until_def split: quota_call.splits)
  then show ?thesis using cooling_exhausts cooling_exhausts_snapshot by blast
qed

lemma refused_account_is_out_witness:
  "qs_exhausted (fst (tracker_quota_state demo_db
      (fold (quota_step demo_db) [Rate_Limited ''a'' 5 60000] demo_tracker) ''a'' 9))"
proof -
  have "(9::u64) < sat_add 5 (min 60000 MAX_QUOTA_COOLDOWN_MS)"
    by (simp add: word_to_nat sat_simps MAX_QUOTA_COOLDOWN_MS_def)
  moreover have "Rate_Limited ''a'' 5 60000 \<in> set [Rate_Limited ''a'' 5 60000]" by simp
  ultimately show ?thesis
    using refused_account_is_out [OF demo_started refl, of "[Rate_Limited ''a'' 5 60000]" "''a''" 9]
    by blast
qed

text \<open>
  C32. The viewer's snapshot of an account agrees with what the router is told at the same instant: the
  same exhaustion, headroom and pressure, and the reset the router ranks by is the soonest of the
  windows shown, with provider readings, failed storage, cooldowns and unplanned accounts included.
\<close>

theorem viewer_agrees_with_router:
  assumes "marker_is_separate D" and "started D plans opened t0"
    and "t = fold (quota_step D) calls t0"
    and "s = fst (account_snapshot D t u now)" and "q = fst (tracker_quota_state D t u now)"
  shows "qas_exhausted s = qs_exhausted q
    \<and> qas_rate_headroom_permille s = qs_rate_headroom_permille q
    \<and> qas_rate_pressured s = qs_rate_pressured q
    \<and> qs_reset q = map_option (\<lambda>w. \<lparr>ms_until_reset = qws_ms_until_reset w,
         remaining_permille = qws_remaining_permille w\<rparr>)
       (min_by_key qws_ms_until_reset (qas_windows s))"
proof (cases "bt_get (qt_accounts t) u")
  case (Some a)
  then show ?thesis
    using histories_known_get [OF histories_known_run [OF assms(2)] Some [unfolded assms(3)]]
    unfolding assms(4,5)
    by (simp add: quota_state_account account_snapshot_account [OF assms(1)] Let_def case_prod_beta
        binding_of_def min_by_key_map quota_window_snapshot_from_def option.map_comp comp_def)
next
  case None
  then show ?thesis
    unfolding assms(4,5)
    by (cases "fresh_authoritative t u now")
      (auto simp: account_snapshot_def tracker_quota_state_def Let_def bt_contains_def
        quota_non_windowed_def binding_of_def min_by_key_map quota_window_snapshot_from_def
        option.map_comp comp_def RATE_PRESSURE_PERMILLE_def word_le_nat_alt)
qed

lemma viewer_agrees_with_router_witness:
  "qas_exhausted (fst (account_snapshot demo_db (fold (quota_step demo_db) [Grant ''a'' 3] demo_tracker) ''a'' 9))
    = qs_exhausted (fst (tracker_quota_state demo_db (fold (quota_step demo_db) [Grant ''a'' 3] demo_tracker) ''a'' 9))"
  using viewer_agrees_with_router [OF demo_marker demo_started refl refl refl] by blast

section \<open>Provider readings\<close>

text \<open>The windows of a reading that is \<open>elapsed\<close> old and has not reached its reset.\<close>

definition counted_down :: "u64 \<Rightarrow> window_snapshot list \<Rightarrow> window_snapshot list" where
  "counted_down elapsed ws =
     map (\<lambda>w. w\<lparr>ws_ms_until_reset := ws_ms_until_reset w - elapsed\<rparr>)
       (filter (\<lambda>w. elapsed < ws_ms_until_reset w) ws)"

lemma counted_down_map_filter:
  "List.map_filter (\<lambda>w. case checked_sub (ws_ms_until_reset w) elapsed of
       None \<Rightarrow> None
     | Some remaining \<Rightarrow>
         if 0 < remaining then Some (w\<lparr>ws_ms_until_reset := remaining\<rparr>) else None) ws
   = counted_down elapsed ws"
proof -
  have "(case checked_sub r elapsed of None \<Rightarrow> None
      | Some remaining \<Rightarrow> if 0 < remaining then Some (f remaining) else None)
      = (if elapsed < r then Some (f (r - elapsed)) else None)" for r and f :: "u64 \<Rightarrow> window_snapshot"
    by (auto simp: checked_sub_def word_to_nat unat_sub)
  then show ?thesis
    by (induction ws) (simp_all add: counted_down_def List.map_filter_simps)
qed

lemma case_checked_sub:
  "(case checked_sub a b of None \<Rightarrow> None | Some e \<Rightarrow> f e) = (if b \<le> a then f (a - b) else None)"
  by (simp add: checked_sub_def)

lemma fresh_after_reading:
  "fresh_authoritative (note_authoritative t u seen ws) u now =
    (if seen \<le> now \<and> now - seen < AUTHORITATIVE_TTL_MS \<and> counted_down (now - seen) ws \<noteq> []
     then Some (counted_down (now - seen) ws) else None)"
proof (cases "ws = []")
  case False
  then show ?thesis
    unfolding fresh_authoritative_def counted_down_map_filter
    by (simp add: note_authoritative_def case_checked_sub Let_def not_le [symmetric])
qed (simp add: fresh_authoritative_def note_authoritative_def counted_down_def)

lemma note_authoritative_frame [tracker_frame]:
  "qt_accounts (note_authoritative t u seen ws) = qt_accounts t"
  "qt_store (note_authoritative t u seen ws) = qt_store t"
  "qt_persistence_failed (note_authoritative t u seen ws) = qt_persistence_failed t"
  "qt_leases (note_authoritative t u seen ws) = qt_leases t"
  "is_cooling (note_authoritative t u seen ws) u now = is_cooling t u now"
  by (simp_all add: note_authoritative_def is_cooling_def)

lemma current_saved_cong:
  assumes "qt_store t = qt_store t'" and "qt_persistence_failed t = qt_persistence_failed t'"
  shows "fst (current_saved D t u a) = fst (current_saved D t' u a)"
    and "qt_persistence_failed (snd (current_saved D t u a))
      = qt_persistence_failed (snd (current_saved D t' u a))"
  using assms by (simp_all add: current_saved_def persistence_error_def split: option.splits sum.splits)

text \<open>
  A provider's reading replaces the reset and the exhaustion of the local estimate exactly while it
  is less than five minutes old and one of its windows has not reached its reset, with every
  reset counted down by the reading's age; at any other instant, and when the clock steps behind
  the reading, the state is the one without a reading. Headroom and pressure stay local.
\<close>

theorem provider_reading_overrides:
  "let unread = fst (tracker_quota_state D (note_authoritative t u seen []) u now);
       current = counted_down (now - seen) ws
   in fst (tracker_quota_state D (note_authoritative t u seen ws) u now) =
     (if seen \<le> now \<and> now - seen < AUTHORITATIVE_TTL_MS \<and> current \<noteq> []
      then unread\<lparr>qs_reset := fst (binding_of current),
           qs_exhausted := snd (binding_of current) \<or> is_cooling t u now
             \<or> bt_contains (qt_accounts t) u
               \<and> qt_persistence_failed (snd (tracker_quota_state D t u now))\<rparr>
      else unread)"
proof (cases "bt_get (qt_accounts t) u")
  case None
  then show ?thesis
    unfolding Let_def
    by (auto simp: tracker_quota_state_def fresh_after_reading tracker_frame Let_def bt_contains_def
        counted_down_def case_prod_beta)
next
  case (Some a)
  have cong: "fst (current_saved D (note_authoritative t u seen xs) u a) = fst (current_saved D t u a)"
    "qt_persistence_failed (snd (current_saved D (note_authoritative t u seen xs) u a))
      = qt_persistence_failed (snd (current_saved D t u a))" for xs
    by (rule current_saved_cong; simp add: tracker_frame)+
  show ?thesis
    unfolding Let_def
    by (simp add: quota_state_account [of _ u a] fresh_after_reading tracker_frame Let_def Some
        bt_contains_def case_prod_beta cong tracker_quota_state_effect)
      (simp add: counted_down_def)
qed

section \<open>Conversation affinity\<close>

lemma pop_front_until_drop: "pop_front_until n xs = drop (length xs - n) xs"
  by (induction xs) (auto simp: not_less Suc_diff_le)

lemma evict_drop:
  "evict n xs m = (drop (length xs - n) xs, m |` (- set (take (length xs - n) xs)))"
proof (induction xs arbitrary: m)
  case (Cons x xs)
  then show ?case
    by (auto simp: not_less Suc_diff_le restrict_map_def fun_eq_iff)
qed (simp add: restrict_map_def)

text \<open>The queue lists each remembered conversation once, and never more than fit.\<close>

definition sessions_ok :: "'d quota_tracker \<Rightarrow> bool" where
  "sessions_ok t \<longleftrightarrow> distinct (qt_session_order t) \<and> set (qt_session_order t) = dom (qt_sessions t)
     \<and> length (qt_session_order t) \<le> qt_session_capacity t \<and> 0 < qt_session_capacity t"

lemma remember_new:
  assumes "sessions_ok t" and "qt_sessions t s = None"
  shows "qt_session_order (remember t s a) =
      (if length (qt_session_order t) < qt_session_capacity t then qt_session_order t @ [s]
       else tl (qt_session_order t) @ [s])"
    and "qt_sessions (remember t s a) =
      (if length (qt_session_order t) < qt_session_capacity t then (qt_sessions t)(s \<mapsto> a)
       else (qt_sessions t)(s \<mapsto> a, hd (qt_session_order t) := None))"
proof -
  let ?xs = "qt_session_order t" and ?n = "qt_session_capacity t"
  have s: "s \<notin> set ?xs" using assms by (auto simp: sessions_ok_def)
  have *: "length (?xs @ [s]) - ?n = (if length ?xs < ?n then 0 else 1)"
    using assms(1) by (auto simp: sessions_ok_def)
  have ne: "?xs \<noteq> []" if "\<not> length ?xs < ?n"
    using that assms(1) by (auto simp: sessions_ok_def)
  have hd: "set (take (length ?xs + 1 - ?n) (?xs @ [s])) = (if length ?xs < ?n then {} else {hd ?xs})"
    using * ne by (cases ?xs) auto
  show "qt_session_order (remember t s a) = (if length ?xs < ?n then ?xs @ [s] else tl ?xs @ [s])"
    using * ne by (cases ?xs) (auto simp: remember_def evict_drop assms(2) Let_def)
  show "qt_sessions (remember t s a) =
      (if length ?xs < ?n then (qt_sessions t)(s \<mapsto> a)
       else (qt_sessions t)(s \<mapsto> a, hd ?xs := None))"
    using hd by (auto simp: remember_def evict_drop assms(2) Let_def restrict_map_def fun_eq_iff)
qed

lemma remember_known:
  "qt_sessions t s = Some b \<Longrightarrow>
    remember t s a = t\<lparr>qt_sessions := (qt_sessions t)(s \<mapsto> a)\<rparr>"
  by (simp add: remember_def Let_def)

lemma sessions_ok_remember:
  assumes "sessions_ok t"
  shows "sessions_ok (remember t s a)"
proof (cases "qt_sessions t s")
  case (Some b)
  then show ?thesis using assms by (auto simp: remember_known sessions_ok_def)
next
  case None
  then have s: "s \<notin> set (qt_session_order t)" using assms by (auto simp: sessions_ok_def)
  show ?thesis
    using assms s None
    unfolding sessions_ok_def remember_new [OF assms None] remember_frame
    by (cases "qt_session_order t") auto
qed

lemma sessions_ok_step: "sessions_ok t \<Longrightarrow> sessions_ok (quota_step D c t)"
proof (cases c)
  case (Remember s a)
  then show "sessions_ok t \<Longrightarrow> ?thesis" by (simp add: sessions_ok_remember)
qed (simp_all add: sessions_ok_def tracker_ops tracker_frame note_rate_limited_def Let_def
    split: option.splits prod.splits)

lemma sessions_ok_new: "sessions_ok (tracker_new D plans)"
  by (simp add: sessions_ok_def tracker_new_def DEFAULT_SESSION_CAPACITY_def)

lemma sessions_ok_run:
  assumes "t0 = (tracker_new D plans)\<lparr>qt_accounts := accounts, qt_store := store\<rparr>"
  shows "sessions_ok (fold (quota_step D) calls t0)
    \<and> qt_session_capacity (fold (quota_step D) calls t0) = DEFAULT_SESSION_CAPACITY"
proof (rule fold_invariant_simple [where P =
    "\<lambda>t. sessions_ok t \<and> qt_session_capacity t = DEFAULT_SESSION_CAPACITY"])
  show "sessions_ok t0 \<and> qt_session_capacity t0 = DEFAULT_SESSION_CAPACITY"
    by (simp add: assms sessions_ok_def tracker_new_def DEFAULT_SESSION_CAPACITY_def)
next
  fix c and t :: "'a quota_tracker"
  assume *: "sessions_ok t \<and> qt_session_capacity t = DEFAULT_SESSION_CAPACITY"
  have "qt_session_capacity (quota_step D c t) = qt_session_capacity t"
    by (cases c) (simp_all add: tracker_ops tracker_frame note_rate_limited_def Let_def
      split: option.splits prod.splits)
  with * show "sessions_ok (quota_step D c t)
      \<and> qt_session_capacity (quota_step D c t) = DEFAULT_SESSION_CAPACITY"
    by (simp add: sessions_ok_step)
qed

text \<open>
  However many conversations a tracker has seen, it remembers at most 4096; the account just
  remembered is what is looked up, and remembering forgets at most one other conversation, the
  oldest, and only when a new one arrives at a full table.
\<close>

theorem affinity_is_bounded_fifo:
  assumes "started D plans opened t0" and "t = fold (quota_step D) calls t0"
  shows "card (dom (qt_sessions t)) \<le> DEFAULT_SESSION_CAPACITY
    \<and> last_account (remember t s a) s = Some a
    \<and> (\<forall>s'. s' \<noteq> s \<longrightarrow> last_account (remember t s a) s' =
         (if last_account t s = None \<and> card (dom (qt_sessions t)) = DEFAULT_SESSION_CAPACITY
             \<and> s' = hd (qt_session_order t)
          then None else last_account t s'))"
proof -
  from assms(1) obtain accounts store
    where "t0 = (tracker_new D plans)\<lparr>qt_accounts := accounts, qt_store := store\<rparr>"
  proof (cases "t0 = tracker_new D plans")
    case True
    then show ?thesis
      using that [where accounts = "qt_accounts (tracker_new D plans)" and store = "qt_store (tracker_new D plans)"] by simp
  next
    case False
    then show ?thesis using assms(1) that by (auto simp: started_def dest: persistent_Ok)
  qed
  from sessions_ok_run [OF this, of calls] have ok: "sessions_ok t"
    and capacity: "qt_session_capacity t = DEFAULT_SESSION_CAPACITY"
    unfolding assms(2) [symmetric] by auto
  from ok have card: "card (dom (qt_sessions t)) = length (qt_session_order t)"
    by (metis sessions_ok_def distinct_card)
  have le: "length (qt_session_order t) \<le> DEFAULT_SESSION_CAPACITY"
    using ok capacity by (simp add: sessions_ok_def)
  have "s \<noteq> hd (qt_session_order t)" if "qt_sessions t s = None"
      "\<not> length (qt_session_order t) < DEFAULT_SESSION_CAPACITY"
  proof -
    have "qt_session_order t \<noteq> []" using that(2) by (auto simp: DEFAULT_SESSION_CAPACITY_def)
    then have "hd (qt_session_order t) \<in> dom (qt_sessions t)"
      using ok by (metis sessions_ok_def hd_in_set)
    with that(1) show ?thesis by auto
  qed
  then show ?thesis
    using le unfolding last_account_def card
    by (cases "qt_sessions t s") (auto simp: remember_known remember_new [OF ok] capacity)
qed

lemma affinity_is_bounded_fifo_witness:
  "last_account (remember (fold (quota_step demo_db) [] demo_tracker) ''s'' (upstream_model_new (UpstreamRef ''a'') ''m'')) ''s''
    = Some (upstream_model_new (UpstreamRef ''a'') ''m'')"
  using affinity_is_bounded_fifo [OF demo_started refl] by blast

section \<open>Settlements\<close>

lemma saved_count_recent [simp]: "sa_recent_requests (saved_count s now n m) = sa_recent_requests s"
  by (simp add: saved_count_def)

lemma saved_record_recent:
  "sa_recent_requests (saved_record s r now n m) = (case r of
      None \<Rightarrow> sa_recent_requests s
    | Some i \<Rightarrow> if i \<in> set (sa_recent_requests s) then sa_recent_requests s
        else drop (Suc (length (sa_recent_requests s)) - MAX_SETTLEMENT_IDS) (sa_recent_requests s @ [i]))"
  by (auto simp: saved_record_def pop_front_until_drop list_ex_iff split: option.splits)

lemma saved_record_known:
  "i \<in> set (sa_recent_requests s) \<Longrightarrow> saved_record s (Some i) now n m = s"
  by (auto simp: saved_record_def list_ex_iff)

text \<open>The receipt \<open>i\<close> is among the last \<open>k + 1\<close>.\<close>

definition recent_within :: "string \<Rightarrow> nat \<Rightarrow> string list \<Rightarrow> bool" where
  "recent_within i k xs \<longleftrightarrow> (\<exists>ys zs. xs = ys @ i # zs \<and> length zs \<le> k)"

lemma recent_within_mem: "recent_within i k xs \<Longrightarrow> i \<in> set xs"
  by (auto simp: recent_within_def)

lemma recent_within_mono: "recent_within i k xs \<Longrightarrow> k \<le> k' \<Longrightarrow> recent_within i k' xs"
  using order_trans by (fastforce simp: recent_within_def)

lemma recent_withinI: "length zs \<le> k \<Longrightarrow> recent_within i k (ys @ i # zs)"
  by (auto simp: recent_within_def)

lemma recent_within_new:
  "i \<notin> set (sa_recent_requests s) \<Longrightarrow>
    recent_within i 0 (sa_recent_requests (saved_record s (Some i) now n m))"
  by (auto simp: saved_record_recent recent_within_def MAX_SETTLEMENT_IDS_def)

lemma recent_within_record:
  assumes "recent_within i k (sa_recent_requests s)" and "Suc k < MAX_SETTLEMENT_IDS"
  shows "recent_within i (Suc k) (sa_recent_requests (saved_record s r now n m))"
proof -
  from assms(1) obtain ys zs where s: "sa_recent_requests s = ys @ i # zs" and zs: "length zs \<le> k"
    by (auto simp: recent_within_def)
  show ?thesis
  proof (cases "sa_recent_requests (saved_record s r now n m) = sa_recent_requests s")
    case True
    then show ?thesis using assms(1) by (auto intro: recent_within_mono)
  next
    case False
    then obtain j where "sa_recent_requests (saved_record s r now n m)
        = drop (Suc (length (ys @ i # zs)) - MAX_SETTLEMENT_IDS) (ys @ i # (zs @ [j]))"
      by (auto simp: saved_record_recent s split: option.splits if_splits)
    moreover have "Suc (length (ys @ i # zs)) - MAX_SETTLEMENT_IDS \<le> length ys"
      using assms(2) zs by simp
    ultimately have "sa_recent_requests (saved_record s r now n m)
        = drop (Suc (length (ys @ i # zs)) - MAX_SETTLEMENT_IDS) ys @ i # (zs @ [j])"
      by simp
    then show ?thesis using zs by (simp only:) (rule recent_withinI, simp)
  qed
qed

text \<open>A record moves the receipts only if it carries one.\<close>

definition moved :: "bool \<Rightarrow> nat \<Rightarrow> nat" where
  "moved settled k = (if settled then Suc k else k)"

lemma recent_within_moved:
  assumes "recent_within i k (sa_recent_requests s)" and "r \<noteq> None \<Longrightarrow> Suc k < MAX_SETTLEMENT_IDS"
  shows "recent_within i (moved (r \<noteq> None) k) (sa_recent_requests (saved_record s r now n m))"
  using assms by (cases r) (simp_all add: moved_def saved_record_recent [of _ None] recent_within_record)

definition settles :: "string \<Rightarrow> quota_call \<Rightarrow> bool" where
  "settles u c = (case c of Settle v _ _ _ _ \<Rightarrow> v = u | _ \<Rightarrow> False)"

definition amount_for :: "tracked_account \<Rightarrow> usage option \<Rightarrow> u64" where
  "amount_for a us = (case ta_unit a of
      Requests \<Rightarrow> 1
    | Tokens \<Rightarrow> (case us of None \<Rightarrow> 0 | Some us \<Rightarrow> account_amount a us))"

lemma record_consumption_cases:
  "record_consumption D t u r now us = (case bt_get (qt_accounts t) u of
      None \<Rightarrow> t
    | Some a \<Rightarrow>
        let in_memory = saved_record (ta_saved a) r now (amount_for a us) (us = None)
        in (case qt_store t of
              None \<Rightarrow> set_saved u in_memory t
            | Some d \<Rightarrow>
                (case store_record D d u a r now (amount_for a us) (us = None) of
                   Inr (d, saved) \<Rightarrow> set_saved u saved (t\<lparr>qt_store := Some d\<rparr>)
                 | Inl error \<Rightarrow> set_saved u in_memory (persistence_error D t))))"
  by (simp add: record_consumption_def Let_def amount_for_def split: option.splits)

section \<open>Settlements on disk\<close>

text \<open>
  What SQLite and serde document: an update of a row that exists replaces that row and no other, an
  insert that does nothing on conflict keeps the rows there are, a commit and the failure marker
  change no row, and parsing what was printed gives the value back.
\<close>

definition db_durable :: "'d quota_db \<Rightarrow> bool" where
  "db_durable D \<longleftrightarrow>
     (\<forall>d d' name plan s x. db_select D d name plan = Ok (Some x) \<longrightarrow> db_update D d name plan s = Ok d'
        \<longrightarrow> (\<forall>name' plan'. db_select D d' name' plan' =
               (if name' = name \<and> plan' = plan then Ok (Some s) else db_select D d name' plan')))
     \<and> (\<forall>d d' name plan s name' plan' x. db_insert D d name plan s = Ok d'
        \<longrightarrow> db_select D d name' plan' = Ok (Some x) \<longrightarrow> db_select D d' name' plan' = Ok (Some x))
     \<and> (\<forall>d d'. db_commit D d = Ok d' \<longrightarrow> db_select D d' = db_select D d)
     \<and> marker_is_separate D
     \<and> (\<forall>saved s. js_print D saved = Ok s \<longrightarrow> js_parse D s = Ok saved)"

lemma durable_commit: "db_durable D \<Longrightarrow> db_commit D d = Ok d' \<Longrightarrow> db_select D d' = db_select D d"
  by (simp add: db_durable_def)

lemma durable_mark: "db_durable D \<Longrightarrow> db_select D (db_mark D d) = db_select D d"
  by (simp add: db_durable_def marker_is_separate_def)

lemma durable_insert:
  "db_durable D \<Longrightarrow> db_insert D d name plan s = Ok d' \<Longrightarrow> db_select D d name' plan' = Ok (Some x) \<Longrightarrow>
    db_select D d' name' plan' = Ok (Some x)"
  unfolding db_durable_def by blast

lemma durable_update:
  assumes "db_durable D" and "db_select D d name plan = Ok (Some x)"
    and "db_update D d name plan s = Ok d1" and "db_commit D d1 = Ok d'"
  shows "db_select D d' name' plan' =
    (if name' = name \<and> plan' = plan then Ok (Some s) else db_select D d name' plan')"
proof -
  have "db_select D d1 name' plan' =
      (if name' = name \<and> plan' = plan then Ok (Some s) else db_select D d name' plan')"
    using assms(1-3) unfolding db_durable_def by blast
  then show ?thesis by (simp add: durable_commit [OF assms(1,4)])
qed

lemma durable_print: "db_durable D \<Longrightarrow> js_print D saved = Ok s \<Longrightarrow> js_parse D s = Ok saved"
  by (simp add: db_durable_def)

text \<open>Two ledgers are compatible when they count over the same windows.\<close>

definition window_shape :: "sliding_window \<Rightarrow> u64 \<times> u64" where
  "window_shape w = (sw_len_ms w, sw_limit w)"

definition ledger_shape :: "account_ledger \<Rightarrow> (u64 \<times> u64) list \<times> (u64 \<times> u64) option" where
  "ledger_shape l = (map window_shape (al_windows l), map_option window_shape (al_rate l))"

lemma compatible_with_shape: "compatible_with l e \<longleftrightarrow> ledger_shape l = ledger_shape e"
proof -
  have "length xs = length ys \<and> list_all (\<lambda>(a, b). same_window a b) (zip xs ys)
      \<longleftrightarrow> map window_shape xs = map window_shape ys" for xs ys
  proof (induction xs arbitrary: ys)
    case (Cons x xs)
    then show ?case by (cases ys) (auto simp: same_window_def window_shape_def)
  qed simp
  then show ?thesis
    by (auto simp: compatible_with_def ledger_shape_def same_window_def window_shape_def
        split: option.splits)
qed

lemma window_shape_record [simp]: "window_shape (sw_record w now n) = window_shape w"
  by (simp add: window_shape_def)

lemma ledger_shape_record [simp]: "ledger_shape (ledger_record l now n) = ledger_shape l"
  by (simp add: ledger_shape_def ledger_record_def option.map_comp comp_def)

lemma ledger_shape_saved [simp]:
  "ledger_shape (sa_ledger (saved_record s r now n m)) = ledger_shape (sa_ledger s)"
  by (simp add: saved_record_def saved_count_def split: option.splits)

lemma saved_validate_shape:
  "ledger_shape e = ledger_shape e' \<Longrightarrow> saved_validate s e = saved_validate s e'"
  by (simp add: saved_validate_def compatible_with_shape)

lemma saved_validate_record:
  assumes "saved_validate s e = Ok ()" and "\<And>i. r = Some i \<Longrightarrow> length i \<le> 512"
  shows "saved_validate (saved_record s r now n m) e = Ok ()"
proof -
  let ?s = "saved_record s r now n m"
  have "length (sa_recent_requests ?s) \<le> max (length (sa_recent_requests s)) MAX_SETTLEMENT_IDS"
    by (simp add: saved_record_recent MAX_SETTLEMENT_IDS_def split: option.splits) arith
  moreover have "i \<in> set (sa_recent_requests s) \<or> r = Some i" if "i \<in> set (sa_recent_requests ?s)" for i
    using that by (auto simp: saved_record_recent dest!: in_set_dropD split: option.splits if_splits)
  ultimately show ?thesis
    using assms
    by (fastforce simp: saved_validate_def compatible_with_shape list_ex_iff split: if_splits)
qed

lemma store_load_Some:
  "store_load D d name plan e = Ok (Some saved) \<longleftrightarrow>
    (\<exists>s. db_select D d name plan = Ok (Some s) \<and> length s \<le> MAX_ACCOUNT_STATE_BYTES
       \<and> js_parse D s = Ok saved \<and> saved_validate saved e = Ok ())"
proof
  assume "store_load D d name plan e = Ok (Some saved)"
  then show "\<exists>s. db_select D d name plan = Ok (Some s) \<and> length s \<le> MAX_ACCOUNT_STATE_BYTES
       \<and> js_parse D s = Ok saved \<and> saved_validate saved e = Ok ()"
    by (auto simp: store_load_def result_simps not_less split: option.splits if_splits)
qed (auto simp: store_load_def)

lemma store_load_select:
  "db_select D d' name plan = db_select D d name plan \<Longrightarrow>
    store_load D d' name plan e = store_load D d name plan e"
  by (simp add: store_load_def)

lemma store_load_shape:
  "ledger_shape e = ledger_shape e' \<Longrightarrow> store_load D d name plan e = store_load D d name plan e'"
  unfolding store_load_def using saved_validate_shape [of e e'] by presburger

lemma store_load_same:
  "store_load D d name plan e = Ok (Some s) \<Longrightarrow> store_load D d name plan e' = Ok (Some s') \<Longrightarrow> s' = s"
  by (auto simp: store_load_Some)

lemma store_record_Ok:
  "store_record D d name a r now n m = Ok (d', saved) \<longleftrightarrow>
    (\<exists>old d1 s. db_begin D d = Ok ()
      \<and> store_load D d name (ta_plan a) (sa_ledger (ta_saved a)) = Ok (Some old)
      \<and> saved = saved_record old r now n m \<and> js_print D saved = Ok s
      \<and> length s \<le> MAX_ACCOUNT_STATE_BYTES
      \<and> db_update D d name (ta_plan a) s = Ok d1 \<and> db_commit D d1 = Ok d')"
  by (auto simp: store_record_def result_simps Let_def not_less split: option.splits if_splits)

text \<open>What a record leaves in the file.\<close>

lemma store_record_stored:
  assumes "db_durable D" and "store_record D d name a r now n m = Ok (d', saved)"
    and "\<And>i. r = Some i \<Longrightarrow> length i \<le> 512"
  obtains old where "store_load D d name (ta_plan a) (sa_ledger (ta_saved a)) = Ok (Some old)"
    and "saved = saved_record old r now n m" and "ledger_shape (sa_ledger saved) = ledger_shape (sa_ledger (ta_saved a))"
    and "\<forall>e. saved_validate old e = Ok () \<longrightarrow> store_load D d' name (ta_plan a) e = Ok (Some saved)"
    and "\<forall>name' plan'. name' \<noteq> name \<or> plan' \<noteq> ta_plan a \<longrightarrow>
      db_select D d' name' plan' = db_select D d name' plan'"
proof -
  from assms(2) obtain old d1 s where
      old: "store_load D d name (ta_plan a) (sa_ledger (ta_saved a)) = Ok (Some old)"
    and saved: "saved = saved_record old r now n m"
    and s: "js_print D saved = Ok s" "length s \<le> MAX_ACCOUNT_STATE_BYTES"
    and written: "db_update D d name (ta_plan a) s = Ok d1" "db_commit D d1 = Ok d'"
    unfolding store_record_Ok by blast
  from old obtain x where "db_select D d name (ta_plan a) = Ok (Some x)"
    and valid: "saved_validate old (sa_ledger (ta_saved a)) = Ok ()" by (auto simp: store_load_Some)
  note row = durable_update [OF assms(1) this(1) written]
  show thesis
  proof (rule that [OF old saved])
    show "ledger_shape (sa_ledger saved) = ledger_shape (sa_ledger (ta_saved a))"
      using valid by (simp add: saved saved_validate_def compatible_with_shape split: if_splits)
    have "saved_validate saved e = Ok ()" if "saved_validate old e = Ok ()" for e
      unfolding saved using that by (rule saved_validate_record) (rule assms(3))
    then show "\<forall>e. saved_validate old e = Ok () \<longrightarrow> store_load D d' name (ta_plan a) e = Ok (Some saved)"
      by (simp add: store_load_Some row s durable_print [OF assms(1) s(1)])
  qed (auto simp: row)
qed

text \<open>The row of an account holds the receipt \<open>i\<close> among its last \<open>k + 1\<close>.\<close>

definition row_within ::
  "'d quota_db \<Rightarrow> 'd \<Rightarrow> string \<Rightarrow> string \<Rightarrow> account_ledger \<Rightarrow> string \<Rightarrow> nat \<Rightarrow> bool" where
  "row_within D d name plan e i k \<longleftrightarrow>
     (\<exists>row. store_load D d name plan e = Ok (Some row) \<and> recent_within i k (sa_recent_requests row))"

lemma row_within_select:
  "db_select D d' name plan = db_select D d name plan \<Longrightarrow>
    row_within D d' name plan e i k = row_within D d name plan e i k"
  by (simp add: row_within_def store_load_select [of D d'])

lemma row_within_shape:
  "ledger_shape e = ledger_shape e' \<Longrightarrow> row_within D d name plan e i k = row_within D d name plan e' i k"
  by (simp add: row_within_def store_load_shape [of e e'])

lemma row_within_mono: "row_within D d name plan e i k \<Longrightarrow> k \<le> k' \<Longrightarrow> row_within D d name plan e i k'"
  using recent_within_mono by (fastforce simp: row_within_def)

lemma le_moved: "k \<le> moved b k"
  by (simp add: moved_def)

lemma row_within_record:
  assumes "db_durable D" and "row_within D d name plan e i k"
    and "store_record D d v b r now n m = Ok (d', saved)" and "\<And>j. r = Some j \<Longrightarrow> length j \<le> 512"
    and "v = name \<Longrightarrow> r \<noteq> None \<Longrightarrow> Suc k < MAX_SETTLEMENT_IDS"
  shows "row_within D d' name plan e i (moved (v = name \<and> r \<noteq> None) k)"
proof -
  from assms(2) obtain row where row: "store_load D d name plan e = Ok (Some row)"
    and recent: "recent_within i k (sa_recent_requests row)" by (auto simp: row_within_def)
  obtain old where
      old: "store_load D d v (ta_plan b) (sa_ledger (ta_saved b)) = Ok (Some old)"
    and saved: "saved = saved_record old r now n m"
    and "ledger_shape (sa_ledger saved) = ledger_shape (sa_ledger (ta_saved b))"
    and stored: "\<forall>e. saved_validate old e = Ok () \<longrightarrow> store_load D d' v (ta_plan b) e = Ok (Some saved)"
    and others: "\<forall>name' plan'. name' \<noteq> v \<or> plan' \<noteq> ta_plan b \<longrightarrow>
      db_select D d' name' plan' = db_select D d name' plan'"
    by (rule store_record_stored [OF assms(1,3,4)])
  show ?thesis
  proof (cases "name = v \<and> plan = ta_plan b")
    case True
    then have "old = row" using store_load_same row old by auto
    with True row have "store_load D d' name plan e = Ok (Some saved)"
      using stored by (auto simp: store_load_Some)
    moreover have "recent_within i (moved (r \<noteq> None) k) (sa_recent_requests saved)"
      unfolding saved \<open>old = row\<close> by (rule recent_within_moved [OF recent]) (use assms(5) True in auto)
    ultimately show ?thesis using True by (auto simp: row_within_def)
  next
    case False
    then have "row_within D d' name plan e i k"
      using assms(2) others row_within_select [of D d' name plan d] by metis
    then show ?thesis by (rule row_within_mono) (rule le_moved)
  qed
qed

text \<open>The calls that only read, and a failed write, leave every row as it is.\<close>

definition table :: "'d quota_db \<Rightarrow> 'd quota_tracker \<Rightarrow> (string \<Rightarrow> string \<Rightarrow> string + string option) option" where
  "table D t = map_option (db_select D) (qt_store t)"

lemma table_error: "db_durable D \<Longrightarrow> table D (persistence_error D t) = table D t"
  by (simp add: table_def persistence_error_def durable_mark option.map_comp comp_def)

lemma table_saved: "db_durable D \<Longrightarrow> table D (snd (current_saved D t u a)) = table D t"
  using current_saved_effect [of D t u a] by (auto simp: table_error)

lemma table_account: "db_durable D \<Longrightarrow> table D (snd (account_snapshot D t u now)) = table D t"
  by (simp add: account_snapshot_def Let_def current_ledger_split case_prod_beta table_saved
      split: option.splits)

lemma table_snapshot: "db_durable D \<Longrightarrow> table D (snd (tracker_snapshot D t us now)) = table D t"
  by (induction us arbitrary: t) (simp_all add: Let_def case_prod_beta table_account)

lemma table_set_saved: "table D (set_saved u s t) = table D t"
  by (simp add: table_def tracker_frame)

lemma table_eq:
  "table D t' = table D t \<Longrightarrow> qt_store t = Some d \<Longrightarrow>
    \<exists>d'. qt_store t' = Some d' \<and> db_select D d' = db_select D d"
  by (auto simp: table_def)

lemma table_step:
  assumes "db_durable D" and "\<And>v now us. c \<noteq> Record v now us" and "\<And>v j now us q. c \<noteq> Settle v j now us q"
  shows "table D (quota_step D c t) = table D t"
proof (cases c)
  case (Record v now us)
  then show ?thesis using assms(2) by blast
next
  case (Settle v j now us q)
  then show ?thesis using assms(3) by blast
qed (use assms(1) in \<open>simp_all add: tracker_ops table_saved [unfolded table_def]
    table_snapshot [unfolded table_def] note_rate_limited_def Let_def table_def tracker_frame
    split: option.splits prod.splits\<close>)

lemma row_within_consumption:
  assumes "db_durable D" and "qt_store t = Some d" and "row_within D d name plan e i k"
    and "\<And>j. r = Some j \<Longrightarrow> length j \<le> 512" and "v = name \<Longrightarrow> r \<noteq> None \<Longrightarrow> Suc k < MAX_SETTLEMENT_IDS"
  shows "\<exists>d'. qt_store (record_consumption D t v r now us) = Some d'
    \<and> row_within D d' name plan e i (moved (v = name \<and> r \<noteq> None) k)"
proof (cases "bt_get (qt_accounts t) v")
  case None
  then show ?thesis
    using assms(2) row_within_mono [OF assms(3) le_moved]
    by (auto simp: record_consumption_cases)
next
  case (Some b)
  let ?t = "record_consumption D t v r now us"
  show ?thesis
  proof (cases "store_record D d v b r now (amount_for b us) (us = None)")
    case (Inl x)
    then have "table D ?t = table D t"
      by (simp add: record_consumption_cases Some assms(2) Let_def table_set_saved table_error [OF assms(1)])
    from table_eq [OF this assms(2)] obtain d' where "qt_store ?t = Some d'"
      and "db_select D d' = db_select D d" by blast
    then show ?thesis
      using row_within_mono [OF assms(3) le_moved] row_within_select [of D d' name plan d] by fastforce
  next
    case (Inr p)
    then have "store_record D d v b r now (amount_for b us) (us = None) = Ok (fst p, snd p)" by simp
    from row_within_record [OF assms(1,3) this assms(4,5)] Inr show ?thesis
      by (simp add: record_consumption_cases Some assms(2) Let_def case_prod_beta tracker_frame)
  qed
qed

text \<open>Any call of any gateway on the file.\<close>

lemma row_within_step:
  assumes "db_durable D" and "qt_store t = Some d" and "row_within D d name plan e i k"
    and "settles name c \<Longrightarrow> Suc k < MAX_SETTLEMENT_IDS"
  shows "\<exists>d'. qt_store (quota_step D c t) = Some d' \<and> row_within D d' name plan e i (moved (settles name c) k)"
proof -
  have reading: ?thesis if same: "table D (quota_step D c t) = table D t"
  proof -
    from table_eq [OF same assms(2)] obtain d' where "qt_store (quota_step D c t) = Some d'"
      and "db_select D d' = db_select D d" by blast
    then show ?thesis
      using row_within_mono [OF assms(3) le_moved] row_within_select [of D d' name plan d] by fastforce
  qed
  show ?thesis
  proof (cases c)
    case (Settle v j now us q)
    show ?thesis
    proof (cases "(q \<or> us \<noteq> None) \<and> length j \<le> 512")
      case True
      with row_within_consumption [OF assms(1-3), of "Some j" v now us] assms(4) Settle
      show ?thesis by (simp add: record_settled_def settles_def)
    next
      case False
      then have "quota_step D c t \<in> {t, persistence_error D t}"
        by (auto simp: Settle record_settled_def)
      then show ?thesis using reading table_error [OF assms(1), of t] by auto
    qed
  next
    case (Record v now us)
    with row_within_consumption [OF assms(1-3), of None v now "Some us"]
    show ?thesis by (simp add: tracker_record_def settles_def)
  qed (rule reading, rule table_step [OF assms(1)], simp, simp)+
qed

text \<open>A gateway that starts on the file adds rows and keeps the ones there are.\<close>

lemma row_within_kept:
  assumes "row_within D d name plan e i k"
    and "\<And>x. db_select D d name plan = Ok (Some x) \<Longrightarrow> db_select D d' name plan = Ok (Some x)"
  shows "row_within D d' name plan e i k"
  using assms by (auto simp: row_within_def store_load_Some)

lemma prepare_all_keeps:
  assumes "db_durable D" and "prepare_all D d accounts = Ok (d', accounts')"
    and "db_select D d name plan = Ok (Some x)"
  shows "db_select D d' name plan = Ok (Some x)"
  using assms(2,3)
proof (induction accounts arbitrary: d accounts')
  case (Cons p accounts)
  obtain v a where p: "p = (v, a)" by fastforce
  from Cons.prems(1) obtain d1 a1 rest where one: "store_prepare D d v a = Ok (d1, a1)"
    and rest: "prepare_all D d1 accounts = Ok (d', rest)" by (auto simp: p result_simps)
  have "db_select D d1 name plan = Ok (Some x)"
    using one Cons.prems(2) durable_insert [OF assms(1)]
    by (fastforce simp: store_prepare_def result_simps Let_def split: option.splits if_splits)
  from Cons.IH [OF rest this] show ?case .
qed simp

text \<open>What other gateways on the same file, and later starts of this one, do to it.\<close>

datatype 'd file_event =
    Starts "(string, quota_plan) btree"
  | Elsewhere "'d quota_tracker" quota_call

definition file_step :: "'d quota_db \<Rightarrow> 'd file_event \<Rightarrow> 'd \<Rightarrow> 'd" where
  "file_step D ev d = (case ev of
      Starts plans \<Rightarrow>
        (case tracker_persistent D plans (Ok d) of
           Inl error \<Rightarrow> d
         | Inr t \<Rightarrow> (case qt_store t of None \<Rightarrow> d | Some d' \<Rightarrow> d'))
    | Elsewhere t c \<Rightarrow>
        (case qt_store (quota_step D c (t\<lparr>qt_store := Some d\<rparr>)) of None \<Rightarrow> d | Some d' \<Rightarrow> d'))"

definition settles_on_file :: "string \<Rightarrow> 'd file_event \<Rightarrow> bool" where
  "settles_on_file u ev = (case ev of Starts _ \<Rightarrow> False | Elsewhere _ c \<Rightarrow> settles u c)"

lemma row_within_file_step:
  assumes "db_durable D" and "row_within D d name plan e i k"
    and "settles_on_file name ev \<Longrightarrow> Suc k < MAX_SETTLEMENT_IDS"
  shows "row_within D (file_step D ev d) name plan e i (moved (settles_on_file name ev) k)"
proof (cases ev)
  case (Starts plans)
  have "row_within D d' name plan e i k"
    if "tracker_persistent D plans (Ok d) = Ok t" and "qt_store t = Some d'" for t d'
  proof -
    from that obtain d1 accounts where "prepare_all D d (qt_accounts (tracker_new D plans)) = Ok (d1, accounts)"
      and "db_commit D d1 = Ok d'"
      by (auto simp: tracker_persistent_def Let_def result_simps tracker_new_def split: if_splits prod.splits)
    with assms(1) show ?thesis
      by (intro row_within_kept [OF assms(2)]) (simp add: durable_commit prepare_all_keeps)
  qed
  then show ?thesis
    using assms(2) by (auto simp: Starts file_step_def settles_on_file_def moved_def split: sum.splits option.splits)
next
  case (Elsewhere t c)
  have "settles name c \<Longrightarrow> Suc k < MAX_SETTLEMENT_IDS"
    using assms(3) by (simp add: Elsewhere settles_on_file_def)
  from row_within_step [where c = c and t = "t\<lparr>qt_store := Some d\<rparr>", OF assms(1) _ assms(2) this]
  show ?thesis by (auto simp: Elsewhere file_step_def settles_on_file_def)
qed

lemma row_within_file_run:
  assumes "db_durable D"
  shows "row_within D d name plan e i k \<Longrightarrow> k + length (filter (settles_on_file name) evs) < MAX_SETTLEMENT_IDS \<Longrightarrow>
    row_within D (fold (file_step D) evs d) name plan e i (k + length (filter (settles_on_file name) evs))"
proof (induction evs arbitrary: d k)
  case (Cons ev evs)
  have "row_within D (file_step D ev d) name plan e i (moved (settles_on_file name ev) k)"
    by (rule row_within_file_step [OF assms Cons.prems(1)]) (use Cons.prems(2) in simp)
  from Cons.IH [OF this] Cons.prems(2) show ?case by (simp add: moved_def split: if_splits)
qed simp

text \<open>
  C31. A settlement of a new receipt survives restarts: the row it wrote counts it and is what the account's
  next reader finds, and
  after any starts of gateways on the file and any of their calls, among which fewer than 256
  settle an account of this name, the account's row is still there, valid for the plan and with
  the receipt; a gateway that starts then goes on from it, and settling the receipt again through
  any gateway with the same plan leaves it as it is.
\<close>

theorem settlement_survives_restart:
  assumes "db_durable D" and "length i \<le> 512"
    and "store_record D d name a (Some i) now n m = Ok (d', saved)"
    and "i \<notin> set (sa_recent_requests old)"
    and "store_load D d name (ta_plan a) (sa_ledger (ta_saved a)) = Ok (Some old)"
    and "length (filter (settles_on_file name) evs) < MAX_SETTLEMENT_IDS"
    and "later = fold (file_step D) evs d'"
  shows "store_load D d' name (ta_plan a) (sa_ledger (ta_saved a)) = Ok (Some saved)
    \<and> saved = saved_record old (Some i) now n m
    \<and> (\<exists>row. store_load D later name (ta_plan a) (sa_ledger (ta_saved a)) = Ok (Some row)
         \<and> i \<in> set (sa_recent_requests row)
         \<and> (\<exists>h. store_prepare D later name a = Ok (later, a\<lparr>ta_saved := row, ta_history := h\<rparr>))
         \<and> (\<forall>b now' n' m' d'' saved'. ta_plan b = ta_plan a
              \<longrightarrow> store_record D later name b (Some i) now' n' m' = Ok (d'', saved')
              \<longrightarrow> saved' = row \<and> store_load D d'' name (ta_plan a) (sa_ledger (ta_saved a)) = Ok (Some row)))"
proof -
  let ?e = "sa_ledger (ta_saved a)"
  have short: "\<And>j. Some i = Some j \<Longrightarrow> length j \<le> 512" using assms(2) by simp
  obtain old' where "store_load D d name (ta_plan a) ?e = Ok (Some old')"
    and saved: "saved = saved_record old' (Some i) now n m"
    and "ledger_shape (sa_ledger saved) = ledger_shape ?e"
    and stored: "\<forall>e. saved_validate old' e = Ok () \<longrightarrow> store_load D d' name (ta_plan a) e = Ok (Some saved)"
    and "\<forall>name' plan'. name' \<noteq> name \<or> plan' \<noteq> ta_plan a \<longrightarrow>
      db_select D d' name' plan' = db_select D d name' plan'"
    by (rule store_record_stored [OF assms(1,3) short])
  with assms(5) have old: "old' = old" and load: "store_load D d' name (ta_plan a) ?e = Ok (Some saved)"
    by (auto simp: store_load_Some)
  have "row_within D d' name (ta_plan a) ?e i 0"
    using load recent_within_new [OF assms(4)] by (auto simp: row_within_def saved old)
  from row_within_file_run [OF assms(1) this, of evs] assms(6)
  obtain row where row: "store_load D later name (ta_plan a) ?e = Ok (Some row)"
    and known: "i \<in> set (sa_recent_requests row)"
    by (auto simp: row_within_def assms(7) dest: recent_within_mem)
  have again: "saved' = row \<and> store_load D d'' name (ta_plan a) ?e = Ok (Some row)"
    if plan: "ta_plan b = ta_plan a" and retry: "store_record D later name b (Some i) now' n' m' = Ok (d'', saved')"
    for b now' n' m' d'' saved'
  proof -
    obtain row' where "store_load D later name (ta_plan b) (sa_ledger (ta_saved b)) = Ok (Some row')"
      and saved': "saved' = saved_record row' (Some i) now' n' m'"
      and "ledger_shape (sa_ledger saved') = ledger_shape (sa_ledger (ta_saved b))"
      and stored': "\<forall>e. saved_validate row' e = Ok () \<longrightarrow> store_load D d'' name (ta_plan b) e = Ok (Some saved')"
      and "\<forall>name' plan'. name' \<noteq> name \<or> plan' \<noteq> ta_plan b \<longrightarrow>
        db_select D d'' name' plan' = db_select D later name' plan'"
      by (rule store_record_stored [OF assms(1) retry short])
    with plan row have "row' = row" and "saved_validate row ?e = Ok ()" by (auto simp: store_load_Some)
    with stored' \<open>row' = row\<close> \<open>saved_validate row ?e = Ok ()\<close> plan known show ?thesis by (auto simp: saved' saved_record_known)
  qed
  have "\<exists>h. store_prepare D later name a = Ok (later, a\<lparr>ta_saved := row, ta_history := h\<rparr>)"
    by (auto simp: store_prepare_def row)
  with load row known again show ?thesis by (auto simp: saved old)
qed

lemma demo_db_durable: "db_durable demo_db"
  unfolding db_durable_def using demo_marker by (auto simp: demo_db_def split: if_splits list.splits)

lemma demo_account [simp]:
  "ta_plan (from_plan demo_db demo_plan) = []"
  "ta_saved (from_plan demo_db demo_plan) = plain_account []"
  by (simp_all add: from_plan_def demo_db_def demo_plan_def plain_account_def ledger_new_def)

lemma demo_unit: "ta_unit (from_plan demo_db demo_plan) = Requests"
  by (simp add: from_plan_def demo_plan_def)

lemma demo_db_record:
  "store_record demo_db ((\<lambda>_. None)((''a'', []) \<mapsto> [])) ''a''
      (from_plan demo_db demo_plan) (Some ''r'') 5 1 False
      = Ok ((\<lambda>_. None)((''a'', []) \<mapsto> ''rr''), plain_account [''r''])"
  "store_load demo_db ((\<lambda>_. None)((''a'', []) \<mapsto> [])) ''a'' []
      (sa_ledger (plain_account [])) = Ok (Some (plain_account []))"
  unfolding store_record_def demo_account
  by (simp_all add: store_load_def demo_db_def saved_validate_def plain_account_def compatible_with_def saved_record_def saved_count_def
      ledger_record_def MAX_ACCOUNT_STATE_BYTES_def MAX_SETTLEMENT_IDS_def Let_def)

lemma settlement_survives_restart_witness:
  "\<exists>row. store_load demo_db (fold (file_step demo_db)
        [Starts [(''b'', demo_plan)], Elsewhere demo_tracker (Settle ''b'' ''s'' 7 None True)]
        ((\<lambda>_. None)((''a'', []) \<mapsto> ''rr''))) ''a'' [] (sa_ledger (plain_account [])) = Ok (Some row)
    \<and> ''r'' \<in> set (sa_recent_requests row)"
proof -
  let ?evs = "[Starts [(''b'', demo_plan)], Elsewhere demo_tracker (Settle ''b'' ''s'' 7 None True)]"
  have "length (filter (settles_on_file ''a'') ?evs) < MAX_SETTLEMENT_IDS"
    by (simp add: settles_on_file_def settles_def MAX_SETTLEMENT_IDS_def)
  from settlement_survives_restart [OF demo_db_durable _ demo_db_record(1) _ _ this refl,
      where old = "plain_account []"] show ?thesis
    by (simp add: demo_db_record(2)) (auto simp: plain_account_def)
qed

text \<open>
  The counters of the accounts as every reader of them gets them: the row of the file, or the
  memory of a tracker without a file or whose row cannot be read.
\<close>

definition counters :: "'d quota_db \<Rightarrow> 'd quota_tracker \<Rightarrow> string \<Rightarrow> saved_account option" where
  "counters D t u = map_option (\<lambda>a. fst (current_saved D t u a)) (bt_get (qt_accounts t) u)"

text \<open>The calls on a tracker, and what happens meanwhile to its file.\<close>

datatype 'd tracker_event = Here quota_call | On_File "'d file_event"

definition tracker_step :: "'d quota_db \<Rightarrow> 'd tracker_event \<Rightarrow> 'd quota_tracker \<Rightarrow> 'd quota_tracker" where
  "tracker_step D ev t = (case ev of
      Here c \<Rightarrow> quota_step D c t
    | On_File e \<Rightarrow> t\<lparr>qt_store := map_option (file_step D e) (qt_store t)\<rparr>)"

definition event_settles :: "string \<Rightarrow> 'd tracker_event \<Rightarrow> bool" where
  "event_settles u ev = (case ev of Here c \<Rightarrow> settles u c | On_File e \<Rightarrow> settles_on_file u e)"

text \<open>The receipt is among the last \<open>k + 1\<close> in memory and in the account's row.\<close>

definition settled_within :: "'d quota_db \<Rightarrow> string \<Rightarrow> string \<Rightarrow> nat \<Rightarrow> 'd quota_tracker \<Rightarrow> bool" where
  "settled_within D u i k t \<longleftrightarrow> (\<exists>a. bt_get (qt_accounts t) u = Some a
     \<and> recent_within i k (sa_recent_requests (ta_saved a))
     \<and> (\<forall>d. qt_store t = Some d \<longrightarrow> row_within D d u (ta_plan a) (sa_ledger (ta_saved a)) i k))"

lemma settled_within_mono:
  assumes "settled_within D u i k t" and "k \<le> k'"
  shows "settled_within D u i k' t"
proof -
  from assms(1) obtain a where "bt_get (qt_accounts t) u = Some a"
    and "recent_within i k (sa_recent_requests (ta_saved a))"
    and "\<forall>d. qt_store t = Some d \<longrightarrow> row_within D d u (ta_plan a) (sa_ledger (ta_saved a)) i k"
    unfolding settled_within_def by (elim exE conjE)
  then show ?thesis
    unfolding settled_within_def
    by (intro exI [of _ a]) (simp add: recent_within_mono [OF _ assms(2)] row_within_mono [OF _ assms(2)])
qed

text \<open>What a record does to the memory of its account.\<close>

lemma consumption_account:
  assumes "db_durable D" and "bt_get (qt_accounts t) u = Some a" and "\<And>j. r = Some j \<Longrightarrow> length j \<le> 512"
  obtains old where "bt_get (qt_accounts (record_consumption D t u r now us)) u
      = Some (a\<lparr>ta_saved := saved_record old r now (amount_for a us) (us = None)\<rparr>)"
    and "ledger_shape (sa_ledger old) = ledger_shape (sa_ledger (ta_saved a))"
    and "old = ta_saved a
      \<or> (\<exists>d. qt_store t = Some d \<and> store_load D d u (ta_plan a) (sa_ledger (ta_saved a)) = Ok (Some old))"
proof -
  let ?t = "record_consumption D t u r now us"
  let ?in = "saved_record (ta_saved a) r now (amount_for a us) (us = None)"
  note account = that
  have memory: thesis if "bt_get (qt_accounts ?t) u = Some (a\<lparr>ta_saved := ?in\<rparr>)"
    by (rule account [OF that refl]) simp
  show thesis
  proof (cases "qt_store t")
    case None
    then show ?thesis
      by (intro memory) (simp add: record_consumption_cases assms(2) Let_def set_saved_def bt.get_put)
  next
    case (Some d)
    show ?thesis
    proof (cases "store_record D d u a r now (amount_for a us) (us = None)")
      case (Inl x)
      then show ?thesis
        by (intro memory) (simp add: record_consumption_cases assms(2) Some Let_def set_saved_def
            tracker_frame bt.get_put)
    next
      case (Inr p)
      then have "store_record D d u a r now (amount_for a us) (us = None) = Ok (fst p, snd p)" by simp
      note stored = store_record_stored [OF assms(1) this assms(3)]
      have "bt_get (qt_accounts ?t) u = Some (a\<lparr>ta_saved := snd p\<rparr>)"
        by (simp add: record_consumption_cases assms(2) Some Inr Let_def case_prod_beta set_saved_def bt.get_put)
      then show ?thesis
        using stored account Some by (metis ledger_shape_saved)
    qed
  qed
qed

lemma consumption_others:
  "v \<noteq> u \<Longrightarrow> bt_get (qt_accounts (record_consumption D t v r now us)) u = bt_get (qt_accounts t) u"
  by (simp add: record_consumption_cases Let_def set_saved_def tracker_frame bt.get_put
      split: option.splits sum.splits prod.splits)

lemma consumption_store_None:
  "qt_store t = None \<Longrightarrow> qt_store (record_consumption D t v r now us) = None"
  by (simp add: record_consumption_cases Let_def tracker_frame split: option.splits)

lemma settled_within_consumption:
  assumes "db_durable D" and "settled_within D u i k t" and "\<And>j. r = Some j \<Longrightarrow> length j \<le> 512"
    and "v = u \<Longrightarrow> r \<noteq> None \<Longrightarrow> Suc k < MAX_SETTLEMENT_IDS"
  shows "settled_within D u i (moved (v = u \<and> r \<noteq> None) k) (record_consumption D t v r now us)"
proof -
  let ?t = "record_consumption D t v r now us" and ?k = "moved (v = u \<and> r \<noteq> None) k"
  from assms(2) obtain a where a: "bt_get (qt_accounts t) u = Some a"
    and recent: "recent_within i k (sa_recent_requests (ta_saved a))"
    and row: "\<And>d. qt_store t = Some d \<Longrightarrow> row_within D d u (ta_plan a) (sa_ledger (ta_saved a)) i k"
    by (auto simp: settled_within_def)
  have rows: "row_within D d' u (ta_plan a) (sa_ledger (ta_saved a)) i ?k" if "qt_store ?t = Some d'" for d'
  proof (cases "qt_store t")
    case None
    with that show ?thesis by (simp add: consumption_store_None)
  next
    case (Some d)
    from row_within_consumption [where v = v and r = r and now = now and us = us,
        OF assms(1) Some row [OF Some] assms(3,4)] that show ?thesis by auto
  qed
  show ?thesis
  proof (cases "v = u")
    case True
    from consumption_account [OF assms(1) a assms(3)] obtain old where
        b: "bt_get (qt_accounts ?t) u = Some (a\<lparr>ta_saved := saved_record old r now (amount_for a us) (us = None)\<rparr>)"
      and shape: "ledger_shape (sa_ledger old) = ledger_shape (sa_ledger (ta_saved a))"
      and old: "old = ta_saved a
        \<or> (\<exists>d. qt_store t = Some d \<and> store_load D d u (ta_plan a) (sa_ledger (ta_saved a)) = Ok (Some old))"
      unfolding True by metis
    have "recent_within i k (sa_recent_requests old)"
      using old recent row by (auto simp: row_within_def)
    then have "recent_within i ?k (sa_recent_requests (saved_record old r now (amount_for a us) (us = None)))"
      using recent_within_moved [of i k old r] assms(4) True by simp
    moreover have "row_within D d u (ta_plan a)
        (sa_ledger (saved_record old r now (amount_for a us) (us = None))) i ?k" if "qt_store ?t = Some d" for d
    proof -
      have shape: "ledger_shape (sa_ledger (saved_record old r now (amount_for a us) (us = None)))
          = ledger_shape (sa_ledger (ta_saved a))"
        using shape by simp
      from rows [OF that] show ?thesis by (subst row_within_shape [OF shape])
    qed
    ultimately show ?thesis
      unfolding settled_within_def b by simp
  next
    case False
    then show ?thesis
      using rows recent_within_mono [OF recent le_moved]
      by (simp add: settled_within_def consumption_others a)
  qed
qed

lemma settled_within_frame:
  assumes "settled_within D u i k t" and "qt_accounts t' = qt_accounts t" and "table D t' = table D t"
  shows "settled_within D u i k t'"
proof -
  have "row_within D d' u p e i k" if "qt_store t' = Some d'"
      and row: "\<forall>d. qt_store t = Some d \<longrightarrow> row_within D d u p e i k" for d' p e
  proof -
    from assms(3) that(1) obtain d where "qt_store t = Some d" and "db_select D d' = db_select D d"
      by (cases "qt_store t") (auto simp: table_def)
    with row show ?thesis by (simp add: row_within_select [of D d' u p d])
  qed
  with assms(1,2) show ?thesis unfolding settled_within_def by force
qed

lemma accounts_step:
  assumes "\<And>v now us. c \<noteq> Record v now us" and "\<And>v j now us q. c \<noteq> Settle v j now us q"
  shows "qt_accounts (quota_step D c t) = qt_accounts t"
proof (cases c)
  case (Record v now us)
  then show ?thesis using assms(1) by blast
next
  case (Settle v j now us q)
  then show ?thesis using assms(2) by blast
qed (simp_all add: tracker_ops tracker_frame note_rate_limited_def Let_def split: option.splits prod.splits)

lemma settled_within_call:
  assumes "db_durable D" and "settled_within D u i k t" and "settles u c \<Longrightarrow> Suc k < MAX_SETTLEMENT_IDS"
  shows "settled_within D u i (moved (settles u c) k) (quota_step D c t)"
proof -
  have reading: ?thesis if "qt_accounts (quota_step D c t) = qt_accounts t"
      and "table D (quota_step D c t) = table D t"
    using settled_within_frame [OF assms(2) that] settled_within_mono [OF _ le_moved] by blast
  show ?thesis
  proof (cases c)
  case (Settle v j now us q)
  show ?thesis
  proof (cases "(q \<or> us \<noteq> None) \<and> length j \<le> 512")
    case True
    with settled_within_consumption [OF assms(1,2), of "Some j" v now us] assms(3) Settle
    show ?thesis by (simp add: record_settled_def settles_def)
  next
    case False
    then show ?thesis
      by (intro reading) (auto simp: Settle record_settled_def tracker_frame table_error [OF assms(1)])
  qed
next
  case (Record v now us)
  with settled_within_consumption [OF assms(1,2), of None v now "Some us"]
  show ?thesis by (simp add: tracker_record_def settles_def)
  qed (rule reading, rule accounts_step, simp, simp, rule table_step [OF assms(1)], simp, simp)+
qed

lemma settled_within_event:
  assumes "db_durable D" and "settled_within D u i k t" and "event_settles u ev \<Longrightarrow> Suc k < MAX_SETTLEMENT_IDS"
  shows "settled_within D u i (moved (event_settles u ev) k) (tracker_step D ev t)"
proof (cases ev)
  case (Here c)
  then show ?thesis
    using settled_within_call [OF assms(1,2), of c] assms(3) by (simp add: tracker_step_def event_settles_def)
next
  case (On_File e)
  have few: "settles_on_file u e \<Longrightarrow> Suc k < MAX_SETTLEMENT_IDS"
    using assms(3) by (simp add: On_File event_settles_def)
  from assms(2) obtain a where a: "bt_get (qt_accounts t) u = Some a"
    and recent: "recent_within i k (sa_recent_requests (ta_saved a))"
    and row: "\<And>d. qt_store t = Some d \<Longrightarrow> row_within D d u (ta_plan a) (sa_ledger (ta_saved a)) i k"
    by (auto simp: settled_within_def)
  from row_within_file_step [OF assms(1) row few] recent_within_mono [OF recent le_moved] show ?thesis
    by (auto simp: On_File tracker_step_def event_settles_def settled_within_def a)
qed

lemma settled_within_run:
  assumes "db_durable D"
  shows "settled_within D u i k t \<Longrightarrow> k + length (filter (event_settles u) evs) < MAX_SETTLEMENT_IDS \<Longrightarrow>
    settled_within D u i (k + length (filter (event_settles u) evs)) (fold (tracker_step D) evs t)"
proof (induction evs arbitrary: k t)
  case (Cons ev evs)
  have "settled_within D u i (moved (event_settles u ev) k) (tracker_step D ev t)"
    by (rule settled_within_event [OF assms Cons.prems(1)]) (use Cons.prems(2) in simp)
  from Cons.IH [OF this] Cons.prems(2) show ?case by (simp add: moved_def split: if_splits)
qed simp


lemma current_saved_valid:
  "qt_store t = Some d \<Longrightarrow> store_load D d u (ta_plan a) (sa_ledger (ta_saved a)) = Ok (Some row) \<Longrightarrow>
    fst (current_saved D t u a) = row"
  by (simp add: current_saved_def)

lemma current_saved_table:
  assumes "table D t' = table D t"
  shows "fst (current_saved D t' u a) = fst (current_saved D t u a)"
proof (cases "qt_store t")
  case (Some d)
  from table_eq [OF assms Some] obtain d' where "qt_store t' = Some d'" and "db_select D d' = db_select D d"
    by blast
  then show ?thesis
    using Some by (simp add: current_saved_def store_load_def split: sum.splits option.splits)
qed (use assms in \<open>simp add: current_saved_def table_def\<close>)

text \<open>The first settlement counts, in memory and in the row.\<close>

lemma settled_first:
  assumes "db_durable D" and "bt_get (qt_accounts t) u = Some a" and "counters D t u = Some s"
    and "i \<notin> set (sa_recent_requests s)" and "length i \<le> 512"
    and "completed \<or> us \<noteq> None"
    and "t1 = record_settled D t u i now us completed" and "\<not> qt_persistence_failed t1"
  shows "counters D t1 u = Some (saved_record s (Some i) now (amount_for a us) (us = None))
    \<and> settled_within D u i 0 t1"
proof -
  let ?s = "saved_record s (Some i) now (amount_for a us) (us = None)"
  have t1: "t1 = record_consumption D t u (Some i) now us"
    using assms(5-7) by (simp add: record_settled_def)
  have s: "s = fst (current_saved D t u a)" using assms(2,3) by (simp add: counters_def)
  note recent = recent_within_new [OF assms(4), of now "amount_for a us" "us = None"]
  show ?thesis
  proof (cases "qt_store t")
    case None
    then have "t1 = set_saved u ?s t" and "qt_store t1 = None"
      by (simp_all add: t1 record_consumption_cases assms(2) s current_saved_def Let_def set_saved_def)
    then show ?thesis
      using recent by (simp add: counters_def settled_within_def set_saved_def assms(2) bt.get_put current_saved_def)
  next
    case (Some d)
    obtain d' saved where ok: "store_record D d u a (Some i) now (amount_for a us) (us = None) = Ok (d', saved)"
      using assms(8)
      by (cases "store_record D d u a (Some i) now (amount_for a us) (us = None)")
        (auto simp: t1 record_consumption_cases assms(2) Some Let_def tracker_frame)
    have short: "\<And>j. Some i = Some j \<Longrightarrow> length j \<le> 512" using assms(5) by simp
    obtain old where old: "store_load D d u (ta_plan a) (sa_ledger (ta_saved a)) = Ok (Some old)"
      and saved: "saved = saved_record old (Some i) now (amount_for a us) (us = None)"
      and shape: "ledger_shape (sa_ledger saved) = ledger_shape (sa_ledger (ta_saved a))"
      and stored: "\<forall>e. saved_validate old e = Ok () \<longrightarrow> store_load D d' u (ta_plan a) e = Ok (Some saved)"
      and "\<forall>name' plan'. name' \<noteq> u \<or> plan' \<noteq> ta_plan a \<longrightarrow>
        db_select D d' name' plan' = db_select D d name' plan'"
      by (rule store_record_stored [OF assms(1) ok short])
    have "saved = ?s" using saved s current_saved_valid [OF Some old] by simp
    moreover have load: "store_load D d' u (ta_plan a) (sa_ledger saved) = Ok (Some saved)"
      using stored old shape by (metis store_load_Some store_load_shape)
    moreover have "qt_store t1 = Some d'" and "bt_get (qt_accounts t1) u = Some (a\<lparr>ta_saved := saved\<rparr>)"
      by (simp_all add: t1 record_consumption_cases assms(2) Some ok set_saved_def bt.get_put)
    ultimately show ?thesis
      using recent by (simp add: counters_def settled_within_def row_within_def current_saved_valid)
  qed
qed

text \<open>Settling a receipt again that is still known changes nothing a reader gets.\<close>

lemma settled_retry:
  assumes "db_durable D" and "settled_within D u i k t" and "length i \<le> 512"
  shows "counters D (record_settled D t u i now us completed) = counters D t"
proof -
  let ?t = "record_consumption D t u (Some i) now us"
  have same: "counters D t' = counters D t" if "table D t' = table D t"
      and "bt_get (qt_accounts t') = bt_get (qt_accounts t)" for t'
    by (rule ext) (simp add: counters_def that(2) current_saved_table [OF that(1)])
  from assms(2) obtain a where a: "bt_get (qt_accounts t) u = Some a"
    and memory: "i \<in> set (sa_recent_requests (ta_saved a))"
    and row: "\<And>d. qt_store t = Some d \<Longrightarrow> row_within D d u (ta_plan a) (sa_ledger (ta_saved a)) i k"
    by (auto simp: settled_within_def dest: recent_within_mem)
  have kept: "bt_get (qt_accounts (set_saved u (ta_saved a) t')) = bt_get (qt_accounts t)"
    if "qt_accounts t' = qt_accounts t" for t' :: "'a quota_tracker"
    using a that by (auto simp: set_saved_def bt.get_put fun_eq_iff)
  have "counters D ?t = counters D t"
  proof (cases "qt_store t")
    case None
    then have "?t = set_saved u (ta_saved a) t"
      by (simp add: record_consumption_cases a Let_def saved_record_known [OF memory])
    then show ?thesis by (intro same) (simp_all add: kept table_set_saved)
  next
    case (Some d)
    show ?thesis
    proof (cases "store_record D d u a (Some i) now (amount_for a us) (us = None)")
      case (Inl x)
      then have "?t = set_saved u (ta_saved a) (persistence_error D t)"
        by (simp add: record_consumption_cases a Some Let_def saved_record_known [OF memory])
      then show ?thesis
        by (intro same) (simp_all add: kept table_set_saved table_error [OF assms(1)] tracker_frame)
    next
      case (Inr p)
      obtain d' saved where p: "p = (d', saved)" by fastforce
      have short: "\<And>j. Some i = Some j \<Longrightarrow> length j \<le> 512" using assms(3) by simp
      obtain old where old: "store_load D d u (ta_plan a) (sa_ledger (ta_saved a)) = Ok (Some old)"
        and saved: "saved = saved_record old (Some i) now (amount_for a us) (us = None)"
        and shape: "ledger_shape (sa_ledger saved) = ledger_shape (sa_ledger (ta_saved a))"
        and stored: "\<forall>e. saved_validate old e = Ok () \<longrightarrow> store_load D d' u (ta_plan a) e = Ok (Some saved)"
        and others: "\<forall>name' plan'. name' \<noteq> u \<or> plan' \<noteq> ta_plan a \<longrightarrow>
          db_select D d' name' plan' = db_select D d name' plan'"
        by (rule store_record_stored [OF assms(1) Inr [unfolded p] short])
      have "i \<in> set (sa_recent_requests old)"
        using row [OF Some] old by (auto simp: row_within_def dest: recent_within_mem)
      then have "saved = old" by (simp add: saved saved_record_known)
      have load: "store_load D d' u (ta_plan a) (sa_ledger old) = Ok (Some old)"
        using stored old shape \<open>saved = old\<close> by (metis store_load_Some store_load_shape)
      have t: "qt_store ?t = Some d'"
        "bt_get (qt_accounts ?t) v = (if v = u then Some (a\<lparr>ta_saved := old\<rparr>) else bt_get (qt_accounts t) v)" for v
        by (simp_all add: record_consumption_cases a Some Inr p set_saved_def bt.get_put \<open>saved = old\<close>)
      have "fst (current_saved D ?t v b) = fst (current_saved D t v b)" if "v \<noteq> u" for v b
        using others that
        by (simp add: current_saved_def t(1) Some store_load_def split: sum.splits option.splits)
      moreover have "fst (current_saved D ?t u (a\<lparr>ta_saved := old\<rparr>)) = fst (current_saved D t u a)"
        using current_saved_valid [OF t(1)] load current_saved_valid [OF Some old] by simp
      ultimately have "counters D ?t v = counters D t v" for v
        by (cases "v = u") (simp_all add: counters_def t(2) a cong: option.map_cong)
      then show ?thesis by (rule ext)
    qed
  qed
  then show ?thesis
    using assms(3) by (simp add: record_settled_def)
qed

text \<open>
  C4. A settlement that is retried counts once, whether the tracker keeps its accounts in memory or in
  a file it shares with other gateways. A receipt that is new for the account, and that the
  tracker could store, is counted exactly once: after any calls on the tracker and any starts
  and calls of other gateways on its file, among which fewer than 256 settle an account of this name,
  settling it again changes no account's counters, as every reader gets them.
\<close>

theorem settlement_counted_once:
  assumes "db_durable D" and "bt_get (qt_accounts t) u = Some a" and "counters D t u = Some s"
    and "i \<notin> set (sa_recent_requests s)" and "length i \<le> 512"
    and "completed \<or> us \<noteq> None"
    and "t1 = record_settled D t u i now us completed" and "\<not> qt_persistence_failed t1"
    and "length (filter (event_settles u) evs) < MAX_SETTLEMENT_IDS"
    and "t' = fold (tracker_step D) evs t1"
  shows "counters D t1 u = Some (saved_record s (Some i) now (amount_for a us) (us = None))
    \<and> counters D (record_settled D t' u i now' us' completed') = counters D t'"
proof -
  from settled_first [OF assms(1-8)]
  have first: "counters D t1 u = Some (saved_record s (Some i) now (amount_for a us) (us = None))"
    and "settled_within D u i 0 t1" by auto
  from settled_within_run [OF assms(1) this(2), of evs] assms(9)
  have "settled_within D u i (length (filter (event_settles u) evs)) t'" by (simp add: assms(10))
  from settled_retry [OF assms(1) this assms(5)] first show ?thesis by simp
qed

text \<open>A tracker on a file whose table has one account, as \<open>persistent\<close> opens it.\<close>

definition demo_on_file :: "(string \<times> string \<rightharpoonup> string) quota_tracker" where
  "demo_on_file = demo_tracker\<lparr>qt_store := Some ((\<lambda>_. None)((''a'', []) \<mapsto> []))\<rparr>"

lemma settlement_counted_once_witness:
  "counters demo_db (record_settled demo_db (fold (tracker_step demo_db)
        [Here (Grant ''a'' 3), On_File (Starts [(''b'', demo_plan)])]
        (record_settled demo_db demo_on_file ''a'' ''r'' 5 (Some usage_default) True)) ''a'' ''r'' 9 None True)
   = counters demo_db (fold (tracker_step demo_db)
        [Here (Grant ''a'' 3), On_File (Starts [(''b'', demo_plan)])]
        (record_settled demo_db demo_on_file ''a'' ''r'' 5 (Some usage_default) True))"
proof -
  let ?a = "from_plan demo_db demo_plan"
  let ?t1 = "record_settled demo_db demo_on_file ''a'' ''r'' 5 (Some usage_default) True"
  have a: "bt_get (qt_accounts demo_on_file) ''a'' = Some ?a"
    by (simp add: demo_on_file_def demo_tracker_def tracker_new_def bt_get_def)
  moreover have "counters demo_db demo_on_file ''a'' = Some (plain_account [])"
    unfolding counters_def a by (simp add: demo_on_file_def current_saved_def demo_db_record(2))
  moreover have "\<not> qt_persistence_failed ?t1"
    using demo_db_record(1) a
    by (simp add: record_settled_def record_consumption_cases demo_on_file_def amount_for_def
        demo_unit tracker_frame) (simp add: demo_tracker_def tracker_new_def)
  ultimately show ?thesis
    using settlement_counted_once [OF demo_db_durable, where t = demo_on_file and u = "''a''"
        and a = ?a and s = "plain_account []" and i = "''r''" and completed = True
        and us = "Some usage_default" and ?t1.0 = ?t1 and now = 5 and now' = 9 and us' = None
        and completed' = True and evs = "[Here (Grant ''a'' 3), On_File (Starts [(''b'', demo_plan)])]"]
    by (simp add: plain_account_def event_settles_def settles_def settles_on_file_def MAX_SETTLEMENT_IDS_def)
qed

end
