(* ===== verification/Pricing.thy ===== *)
theory Pricing
  imports Protocol
begin

text \<open>
  Versioned prices, \<open>apps/cli/src/pricing.rs\<close>: the cost of an exchange in micro-units, the lookup of a
  model's price by its id and normalised id, and the edits that make the next table version.
  Model ids are \<open>utext\<close> here, because the code trims and inspects them by \<open>char\<close>; a \<open>BTreeMap\<close> over
  them is ordered by scalar values, which is the byte order of their UTF-8.
\<close>

type_synonym u128 = "128 word"

definition MAX_PRICE_PER_MTOK :: u64 where "MAX_PRICE_PER_MTOK = 9000000000000000"
definition MAX_PRICING_MODEL_ID_BYTES :: nat where "MAX_PRICING_MODEL_ID_BYTES = 1024"

record model_price =
  input_per_mtok :: u64
  output_per_mtok :: u64
  cache_read_per_mtok :: u64
  cache_write_per_mtok :: u64
  cache_write_5m_per_mtok :: "u64 option"
  cache_write_1h_per_mtok :: "u64 option"
  reasoning_per_mtok :: "u64 option"

section \<open>Rates\<close>

text \<open>The error names the rate; its fixed wording is left out.\<close>

definition price_validate :: "model_price \<Rightarrow> string + unit" where
  "price_validate p = try_each (\<lambda>(name, rate).
     case rate of
       None \<Rightarrow> Ok ()
     | Some rate \<Rightarrow> if MAX_PRICE_PER_MTOK < rate then Err name else Ok ())
     [(''input_per_mtok'', Some (input_per_mtok p)),
      (''output_per_mtok'', Some (output_per_mtok p)),
      (''cache_read_per_mtok'', Some (cache_read_per_mtok p)),
      (''cache_write_per_mtok'', Some (cache_write_per_mtok p)),
      (''cache_write_5m_per_mtok'', cache_write_5m_per_mtok p),
      (''cache_write_1h_per_mtok'', cache_write_1h_per_mtok p),
      (''reasoning_per_mtok'', reasoning_per_mtok p)]"

definition uniform_cache_write_rate :: "model_price \<Rightarrow> u64 option" where
  "uniform_cache_write_rate p =
     (if list_all (\<lambda>rate. rate = cache_write_per_mtok p)
          (List.map_filter id [cache_write_5m_per_mtok p, cache_write_1h_per_mtok p])
      then Some (cache_write_per_mtok p) else None)"

definition cost_per :: "u64 \<Rightarrow> u64 \<Rightarrow> u128" where
  "cost_per tokens rate = sat_mul (ucast tokens) (ucast rate) div 1000000"

definition cost_weighted :: "u64 \<Rightarrow> u64 \<Rightarrow> u128" where
  "cost_weighted tokens rate = ucast tokens * ucast rate"

text \<open>The result is an \<open>i64\<close>: \<open>i64::try_from(total).unwrap_or(i64::MAX)\<close>.\<close>

definition cost_micros :: "model_price \<Rightarrow> usage \<Rightarrow> int" where
  "cost_micros p u =
     (let reasoning_rate = unwrap_or (reasoning_per_mtok p) (output_per_mtok p);
          fresh_input = sat_sub (sat_sub (input_tokens u) (cache_read_tokens u)) (cache_write_tokens u);
          fresh_output = sat_sub (output_tokens u) (reasoning_tokens u);
          short_cache = min (cache_write_5m_tokens u) (cache_write_tokens u);
          long_cache = min (cache_write_1h_tokens u) (cache_write_tokens u - short_cache);
          write_other = cache_write_tokens u - short_cache - long_cache;
          cache_cost = sat_add (sat_add
              (cost_weighted short_cache
                 (unwrap_or (cache_write_5m_per_mtok p) (cache_write_per_mtok p)))
              (cost_weighted long_cache
                 (unwrap_or (cache_write_1h_per_mtok p) (cache_write_per_mtok p))))
              (cost_weighted write_other (cache_write_per_mtok p)) div 1000000;
          total = sat_add (sat_add (sat_add (sat_add
              (cost_per fresh_input (input_per_mtok p))
              (cost_per fresh_output (output_per_mtok p)))
              (cost_per (cache_read_tokens u) (cache_read_per_mtok p)))
              cache_cost)
              (cost_per (reasoning_tokens u) reasoning_rate)
      in if uint total < 2 ^ 63 then uint total else 2 ^ 63 - 1)"

section \<open>Model ids\<close>

definition SLASH :: nat where "SLASH = 47"
definition COLON :: nat where "COLON = 58"
definition DASH :: nat where "DASH = 45"

text \<open>What is left of a model id after its channel prefix and its tag.\<close>

definition last_segment :: "utext \<Rightarrow> utext" where
  "last_segment model = rev (takeWhile (\<lambda>c. c \<noteq> SLASH) (rev model))"

definition replace_char :: "nat \<Rightarrow> nat \<Rightarrow> utext \<Rightarrow> utext" where
  "replace_char a b t = map (\<lambda>c. if c = a then b else c) t"

definition normalize_model_id :: "utext \<Rightarrow> utext" where
  "normalize_model_id model =
     (let normalized = map ascii_lower (replace_char 64 DASH
            (trim (takeWhile (\<lambda>c. c \<noteq> COLON) (last_segment model))))
      in if prefix (ascii ''claude-'') normalized then replace_char 46 DASH normalized
         else normalized)"

datatype price_error =
    Bad_Model_Id
  | Bad_Rate string
  | Bad_Model_Rate utext string
  | Price_Unchanged utext
  | Prices_Unchanged
  | Empty_Price_Batch
  | No_Configured_Price utext
  | Version_Exhausted

definition validate_model_id :: "utext \<Rightarrow> price_error + unit" where
  "validate_model_id model =
     (if model = [] \<or> MAX_PRICING_MODEL_ID_BYTES < str_len model \<or> trim model \<noteq> model
         \<or> list_ex is_control model
      then Err Bad_Model_Id else Ok ())"

section \<open>Price tables\<close>

record price_table =
  pt_version :: u32
  pt_models :: "(utext, model_price) btree"

definition price_table_default :: price_table where
  "price_table_default = \<lparr>pt_version = 0, pt_models = []\<rparr>"

definition list_price :: "u64 \<Rightarrow> u64 \<Rightarrow> u64 \<Rightarrow> u64 \<Rightarrow> model_price" where
  "list_price input output cache_read cache_write = \<lparr>input_per_mtok = input, output_per_mtok = output,
     cache_read_per_mtok = cache_read, cache_write_per_mtok = cache_write,
     cache_write_5m_per_mtok = None, cache_write_1h_per_mtok = None, reasoning_per_mtok = None\<rparr>"

definition price_table_builtin :: price_table where
  "price_table_builtin = \<lparr>pt_version = 1, pt_models = map (\<lambda>(m, p). (ascii m, p))
     [(''claude-opus-4-8'', list_price 5000000 25000000 500000 6250000),
      (''claude-sonnet-4'', list_price 3000000 15000000 300000 3750000),
      (''claude-sonnet-4-6'', list_price 3000000 15000000 300000 3750000),
      (''deepseek-chat'', list_price 270000 1100000 28000 0),
      (''deepseek-reasoner'', list_price 550000 2190000 140000 0),
      (''deepseek-v4-flash'', list_price 140000 280000 2800 0),
      (''deepseek-v4-pro'', list_price 435000 870000 3625 0),
      (''glm-5'', list_price 1000000 3200000 200000 0),
      (''gpt-5.5'', list_price 5000000 30000000 500000 0),
      (''minimax-m3'', list_price 600000 2400000 120000 0)]\<rparr>"

text \<open>\<open>Iterator::max_by_key\<close>: the last of the greatest elements.\<close>

fun max_by_key :: "('a \<Rightarrow> 'k::linorder) \<Rightarrow> 'a list \<Rightarrow> 'a option" where
  "max_by_key f [] = None"
| "max_by_key f (x # xs) = (case max_by_key f xs of
      None \<Rightarrow> Some x
    | Some y \<Rightarrow> if f y < f x then Some x else Some y)"

text \<open>A dated variant of a priced model: the model's own id and a suffix after a dash.\<close>

definition price_candidate :: "utext \<Rightarrow> utext \<times> model_price \<Rightarrow> (nat \<times> model_price) option" where
  "price_candidate normalized entry = (case entry of (candidate, price) \<Rightarrow>
     if SLASH \<in> set candidate then None
     else
       let candidate = normalize_model_id candidate in
       if prefix candidate normalized \<and> prefix [DASH] (drop (length candidate) normalized)
       then Some (str_len candidate, price) else None)"

definition model_price_of :: "price_table \<Rightarrow> utext \<Rightarrow> model_price option" where
  "model_price_of t model =
     (let normalized = normalize_model_id model in
      case bt_get (pt_models t) model of
        Some p \<Rightarrow> Some p
      | None \<Rightarrow> (case bt_get (pt_models t) normalized of
          Some p \<Rightarrow> Some p
        | None \<Rightarrow> map_option snd (max_by_key fst
            (List.map_filter (price_candidate normalized) (pt_models t)))))"

definition model_price_for_upstream :: "price_table \<Rightarrow> utext \<Rightarrow> utext \<Rightarrow> model_price option" where
  "model_price_for_upstream t upstream model =
     (case bt_get (pt_models t) (upstream @ [SLASH] @ model) of
        Some p \<Rightarrow> Some p
      | None \<Rightarrow>
          if SLASH \<in> set model then model_price_of t (normalize_model_id model)
          else model_price_of t model)"

definition table_price :: "price_table \<Rightarrow> utext \<Rightarrow> usage \<Rightarrow> (int \<times> u32) option" where
  "table_price t model u = map_option (\<lambda>p. (cost_micros p u, pt_version t)) (model_price_of t model)"

definition price_for_upstream ::
  "price_table \<Rightarrow> utext \<Rightarrow> utext \<Rightarrow> usage \<Rightarrow> (int \<times> u32) option" where
  "price_for_upstream t upstream model u =
     map_option (\<lambda>p. (cost_micros p u, pt_version t)) (model_price_for_upstream t upstream model)"

section \<open>Editing a table\<close>

definition validate_entry :: "utext \<times> model_price \<Rightarrow> price_error + unit" where
  "validate_entry entry = (case entry of (model, price) \<Rightarrow>
     and_then (validate_model_id model) (\<lambda>_. map_err (Bad_Model_Rate model) (price_validate price)))"

definition table_validate :: "price_table \<Rightarrow> price_error + unit" where
  "table_validate t = try_each validate_entry (pt_models t)"

definition next_version :: "price_table \<Rightarrow> price_error + u32" where
  "next_version t = (case checked_add (pt_version t) 1 of
     None \<Rightarrow> Err Version_Exhausted | Some v \<Rightarrow> Ok v)"

definition next_with_model :: "price_table \<Rightarrow> utext \<Rightarrow> model_price \<Rightarrow> price_error + price_table" where
  "next_with_model t model price =
     and_then (table_validate t) (\<lambda>_.
     and_then (validate_model_id model) (\<lambda>_.
     and_then (map_err Bad_Rate (price_validate price)) (\<lambda>_.
       if bt_get (pt_models t) model = Some price then Err (Price_Unchanged model)
       else and_then (next_version t) (\<lambda>version.
         Ok \<lparr>pt_version = version, pt_models = bt_insert model price (pt_models t)\<rparr>))))"

definition next_with_models ::
  "price_table \<Rightarrow> (utext, model_price) btree \<Rightarrow> price_error + price_table" where
  "next_with_models t additions =
     and_then (table_validate t) (\<lambda>_.
       if additions = [] then Err Empty_Price_Batch
       else and_then (try_each validate_entry additions) (\<lambda>_.
         if list_all (\<lambda>(model, price). bt_get (pt_models t) model = Some price) additions
         then Err Prices_Unchanged
         else and_then (next_version t) (\<lambda>version.
           Ok \<lparr>pt_version = version,
               pt_models = fold (\<lambda>(model, price). bt_insert model price) additions (pt_models t)\<rparr>)))"

definition next_without_model :: "price_table \<Rightarrow> utext \<Rightarrow> price_error + price_table" where
  "next_without_model t model =
     and_then (table_validate t) (\<lambda>_.
     and_then (validate_model_id model) (\<lambda>_.
       if \<not> bt_contains (pt_models t) model then Err (No_Configured_Price model)
       else and_then (next_version t) (\<lambda>version.
         Ok \<lparr>pt_version = version, pt_models = bt_remove model (pt_models t)\<rparr>)))"

section \<open>Exact costs\<close>

text \<open>The cost over the natural numbers, without any width.\<close>

definition exact_cost :: "model_price \<Rightarrow> usage \<Rightarrow> nat" where
  "exact_cost p u =
     (let read = unat (cache_read_tokens u); write = unat (cache_write_tokens u);
          short_cache = min (unat (cache_write_5m_tokens u)) write;
          long_cache = min (unat (cache_write_1h_tokens u)) (write - short_cache);
          legacy = unat (cache_write_per_mtok p);
          rate = (\<lambda>r. case r of None \<Rightarrow> legacy | Some r \<Rightarrow> unat r)
      in (unat (input_tokens u) - read - write) * unat (input_per_mtok p) div 1000000
       + (unat (output_tokens u) - unat (reasoning_tokens u)) * unat (output_per_mtok p) div 1000000
       + read * unat (cache_read_per_mtok p) div 1000000
       + (short_cache * rate (cache_write_5m_per_mtok p) + long_cache * rate (cache_write_1h_per_mtok p)
          + (write - short_cache - long_cache) * legacy) div 1000000
       + unat (reasoning_tokens u)
         * (case reasoning_per_mtok p of None \<Rightarrow> unat (output_per_mtok p) | Some r \<Rightarrow> unat r) div 1000000)"

lemma unat_unwrap_or: "unat (unwrap_or r d) = (case r of None \<Rightarrow> unat d | Some x \<Rightarrow> unat x)"
  by (simp add: unwrap_or_def split: option.splits)

lemma unat_ucast_128: "unat (ucast (x :: u64) :: u128) = unat x"
  using unat_lt [of x] by (simp add: unsigned_ucast_eq take_bit_nat_eq_self)

lemma u64_le: "unat (a :: u64) \<le> 2 ^ 64 - 1"
  using unat_bound [of a] by simp

lemma u64_product: "unat (a :: u64) * unat (b :: u64) \<le> (2 ^ 64 - 1) * (2 ^ 64 - 1)"
  using unat_bound [of a] unat_bound [of b] by (intro mult_le_mono) simp_all

lemma unat_numeral_u128: "unat (1000000 :: u128) = 1000000"
  by simp

lemma unat_cost_weighted: "unat (cost_weighted a b) = unat a * unat b"
proof -
  have "unat a * unat b < 2 ^ 128" using u64_product [of a b] by simp
  then show ?thesis
    using unat_mult_lem [of "ucast a :: u128" "ucast b"] by (simp add: cost_weighted_def unat_ucast_128)
qed

lemma unat_cost_per: "unat (cost_per a b) = unat a * unat b div 1000000"
proof -
  have "unat a * unat b < 2 ^ 128" using u64_product [of a b] by simp
  then show ?thesis by (simp add: cost_per_def unat_div_distrib sat_simps unat_ucast_128)
qed

lemma split_product_bound:
  fixes a b c :: nat
  assumes "a + b + c \<le> n" and "x \<le> m" "y \<le> m" "z \<le> m"
  shows "a * x + b * y + c * z \<le> n * m"
proof -
  have "a * x + b * y + c * z \<le> a * m + b * m + c * m"
    using assms(2-4) by (intro add_mono mult_le_mono) simp_all
  also have "\<dots> = (a + b + c) * m" by (simp add: distrib_right)
  finally show ?thesis using assms(1) order_trans mult_le_mono1 by blast
qed

lemma rate_bound: "(case r of None \<Rightarrow> unat (d :: u64) | Some x \<Rightarrow> unat (x :: u64)) \<le> 2 ^ 64 - 1"
  using unat_bound [of d] unat_bound [of "the r"] by (auto split: option.splits)

lemma per_bound: "unat (a :: u64) * unat (b :: u64) div 1000000 \<le> (2 ^ 64 - 1) * (2 ^ 64 - 1) div 1000000"
  by (rule div_le_mono) (rule u64_product)

lemma cost_per_bound: "unat (cost_per a b) \<le> (2 ^ 64 - 1) * (2 ^ 64 - 1) div 1000000"
  unfolding unat_cost_per by (rule per_bound)

text \<open>A saturating sum that fits is the sum.\<close>

lemma unat_sat_add_fits:
  "unat a + unat b < 2 ^ LENGTH('a) \<Longrightarrow> unat (sat_add a b) = unat a + unat b" for a b :: "'a::len word"
  by (simp add: sat_simps)

lemma cache_cost_exact:
  assumes "short_cache = min (cache_write_5m_tokens u) (cache_write_tokens u)"
    and "long_cache = min (cache_write_1h_tokens u) (cache_write_tokens u - short_cache)"
    and "other = cache_write_tokens u - short_cache - long_cache"
  shows "unat (sat_add (sat_add (cost_weighted short_cache x) (cost_weighted long_cache y))
      (cost_weighted other z))
    = unat short_cache * unat x + unat long_cache * unat y + unat other * unat z"
    and "unat short_cache = min (unat (cache_write_5m_tokens u)) (unat (cache_write_tokens u))"
    and "unat long_cache = min (unat (cache_write_1h_tokens u)) (unat (cache_write_tokens u) - unat short_cache)"
    and "unat other = unat (cache_write_tokens u) - unat short_cache - unat long_cache"
    and "unat short_cache * unat x + unat long_cache * unat y + unat other * unat z
      \<le> (2 ^ 64 - 1) * (2 ^ 64 - 1)"
proof -
  show s: "unat short_cache = min (unat (cache_write_5m_tokens u)) (unat (cache_write_tokens u))"
    by (simp add: assms(1) unat_min)
  have sub: "unat (cache_write_tokens u - short_cache) = unat (cache_write_tokens u) - unat short_cache"
    by (rule unat_sub) (simp add: assms(1))
  then show l: "unat long_cache = min (unat (cache_write_1h_tokens u)) (unat (cache_write_tokens u) - unat short_cache)"
    by (simp add: assms(2) unat_min)
  have "unat other = unat (cache_write_tokens u - short_cache) - unat long_cache"
    unfolding assms(3) by (rule unat_sub) (simp add: assms(2))
  then show o: "unat other = unat (cache_write_tokens u) - unat short_cache - unat long_cache"
    by (simp add: sub)
  have total: "unat short_cache + unat long_cache + unat other \<le> 2 ^ 64 - 1"
  proof -
    have "unat (cache_write_tokens u) \<le> 2 ^ 64 - 1" using unat_bound [of "cache_write_tokens u"] by simp
    with s l o show ?thesis by linarith
  qed
  then show bound: "unat short_cache * unat x + unat long_cache * unat y + unat other * unat z
      \<le> (2 ^ 64 - 1) * (2 ^ 64 - 1)"
    by (rule split_product_bound) (rule u64_le)+
  have first: "unat (sat_add (cost_weighted short_cache x) (cost_weighted long_cache y))
      = unat short_cache * unat x + unat long_cache * unat y"
    using bound by (subst unat_sat_add_fits) (simp_all add: unat_cost_weighted)
  then show "unat (sat_add (sat_add (cost_weighted short_cache x) (cost_weighted long_cache y))
      (cost_weighted other z))
    = unat short_cache * unat x + unat long_cache * unat y + unat other * unat z"
    using bound by (subst unat_sat_add_fits) (simp_all add: unat_cost_weighted)
qed

lemma five_sums:
  fixes a b c d e :: u128
  assumes "unat a \<le> k" "unat b \<le> k" "unat c \<le> k" "unat d \<le> k" "unat e \<le> k" and "5 * k < 2 ^ 128"
  shows "unat (sat_add (sat_add (sat_add (sat_add a b) c) d) e)
    = unat a + unat b + unat c + unat d + unat e"
proof -
  have "unat (sat_add a b) = unat a + unat b" using assms by (intro unat_sat_add_fits) simp
  moreover from this have "unat (sat_add (sat_add a b) c) = unat a + unat b + unat c"
    using assms by (subst unat_sat_add_fits) simp_all
  moreover from this have "unat (sat_add (sat_add (sat_add a b) c) d) = unat a + unat b + unat c + unat d"
    using assms by (subst unat_sat_add_fits) simp_all
  ultimately show ?thesis using assms by (subst unat_sat_add_fits) simp_all
qed

text \<open>No operation of the code overflows or saturates before the last conversion.\<close>

lemma cost_micros_nat: "cost_micros p u = int (min (exact_cost p u) (2 ^ 63 - 1))"
proof -
  define s where "s = min (cache_write_5m_tokens u) (cache_write_tokens u)"
  define l where "l = min (cache_write_1h_tokens u) (cache_write_tokens u - s)"
  define w where "w = cache_write_tokens u - s - l"
  define cache where "cache = sat_add (sat_add
      (cost_weighted s (unwrap_or (cache_write_5m_per_mtok p) (cache_write_per_mtok p)))
      (cost_weighted l (unwrap_or (cache_write_1h_per_mtok p) (cache_write_per_mtok p))))
      (cost_weighted w (cache_write_per_mtok p)) div 1000000"
  note exact = cache_cost_exact [OF s_def l_def w_def]
  have cache_le: "unat cache \<le> (2 ^ 64 - 1) * (2 ^ 64 - 1) div 1000000"
    unfolding cache_def unat_div_distrib exact(1) unat_numeral_u128 by (rule div_le_mono) (rule exact(5))
  define total where "total = sat_add (sat_add (sat_add (sat_add
      (cost_per (sat_sub (sat_sub (input_tokens u) (cache_read_tokens u)) (cache_write_tokens u)) (input_per_mtok p))
      (cost_per (sat_sub (output_tokens u) (reasoning_tokens u)) (output_per_mtok p)))
      (cost_per (cache_read_tokens u) (cache_read_per_mtok p))) cache)
      (cost_per (reasoning_tokens u) (unwrap_or (reasoning_per_mtok p) (output_per_mtok p)))"
  have "unat total =
      unat (cost_per (sat_sub (sat_sub (input_tokens u) (cache_read_tokens u)) (cache_write_tokens u)) (input_per_mtok p))
    + unat (cost_per (sat_sub (output_tokens u) (reasoning_tokens u)) (output_per_mtok p))
    + unat (cost_per (cache_read_tokens u) (cache_read_per_mtok p)) + unat cache
    + unat (cost_per (reasoning_tokens u) (unwrap_or (reasoning_per_mtok p) (output_per_mtok p)))"
    unfolding total_def
    by (rule five_sums [OF cost_per_bound cost_per_bound cost_per_bound cache_le cost_per_bound]) simp
  moreover have "unat cache = (unat s * unat (unwrap_or (cache_write_5m_per_mtok p) (cache_write_per_mtok p))
      + unat l * unat (unwrap_or (cache_write_1h_per_mtok p) (cache_write_per_mtok p))
      + unat w * unat (cache_write_per_mtok p)) div 1000000"
    unfolding cache_def unat_div_distrib exact(1) unat_numeral_u128 ..
  ultimately have "unat total = exact_cost p u"
    unfolding exact(4) exact(3) exact(2) unat_cost_per unat_sat_sub unat_unwrap_or
    by (simp only: exact_cost_def Let_def)
  moreover have "cost_micros p u = (if uint total < 2 ^ 63 then uint total else 2 ^ 63 - 1)"
    by (simp add: cost_micros_def Let_def total_def cache_def s_def l_def w_def)
  ultimately show ?thesis by (simp add: uint_nat)
qed

section \<open>Every token once\<close>

definition rates_within :: "nat \<Rightarrow> nat \<Rightarrow> model_price \<Rightarrow> bool" where
  "rates_within lo hi p \<longleftrightarrow> (\<forall>r \<in> {input_per_mtok p, output_per_mtok p, cache_read_per_mtok p,
       cache_write_per_mtok p} \<union> set_option (cache_write_5m_per_mtok p)
       \<union> set_option (cache_write_1h_per_mtok p) \<union> set_option (reasoning_per_mtok p).
     lo \<le> unat r \<and> unat r \<le> hi)"

text \<open>The details of a usage are parts of its aggregates.\<close>

definition details_are_parts :: "usage \<Rightarrow> bool" where
  "details_are_parts u \<longleftrightarrow>
     unat (cache_read_tokens u) + unat (cache_write_tokens u) \<le> unat (input_tokens u)
     \<and> unat (reasoning_tokens u) \<le> unat (output_tokens u)"

lemma div_sum5_le:
  fixes a :: nat
  shows "a div m + b div m + c div m + d div m + e div m \<le> (a + b + c + d + e) div m"
proof -
  have "x div m + y div m \<le> (x + y) div m" for x y
  proof (cases "m = 0")
    case False
    have "x div m * m \<le> x" "y div m * m \<le> y" by simp_all
    then have "(x div m + y div m) * m \<le> x + y" unfolding distrib_right by (rule add_mono)
    with False show ?thesis by (simp add: less_eq_div_iff_mult_less_eq)
  qed simp
  then show ?thesis by (meson add_mono order_refl order_trans)
qed

lemma sum5_less_div:
  fixes a :: nat
  assumes "0 < m"
  shows "a + b + c + d + e < (a div m + b div m + c div m + d div m + e div m + 5) * m"
proof -
  have "x < (x div m + 1) * m" for x
    using assms dividend_less_div_times [of m x] by (simp add: algebra_simps)
  from this [of a] this [of b] this [of c] this [of d] this [of e] show ?thesis
    by (simp add: algebra_simps)
qed

lemma rates_within_rate:
  assumes "rates_within lo hi p"
  shows "lo \<le> (case cache_write_5m_per_mtok p of None \<Rightarrow> unat (cache_write_per_mtok p) | Some r \<Rightarrow> unat r)"
    "(case cache_write_5m_per_mtok p of None \<Rightarrow> unat (cache_write_per_mtok p) | Some r \<Rightarrow> unat r) \<le> hi"
    "lo \<le> (case cache_write_1h_per_mtok p of None \<Rightarrow> unat (cache_write_per_mtok p) | Some r \<Rightarrow> unat r)"
    "(case cache_write_1h_per_mtok p of None \<Rightarrow> unat (cache_write_per_mtok p) | Some r \<Rightarrow> unat r) \<le> hi"
    "lo \<le> (case reasoning_per_mtok p of None \<Rightarrow> unat (output_per_mtok p) | Some r \<Rightarrow> unat r)"
    "(case reasoning_per_mtok p of None \<Rightarrow> unat (output_per_mtok p) | Some r \<Rightarrow> unat r) \<le> hi"
    "lo \<le> unat (input_per_mtok p)" "unat (input_per_mtok p) \<le> hi"
    "lo \<le> unat (output_per_mtok p)" "unat (output_per_mtok p) \<le> hi"
    "lo \<le> unat (cache_read_per_mtok p)" "unat (cache_read_per_mtok p) \<le> hi"
    "lo \<le> unat (cache_write_per_mtok p)" "unat (cache_write_per_mtok p) \<le> hi"
  using assms by (auto simp: rates_within_def split: option.splits)

lemma weigh_tokens:
  fixes f g h s l w k :: nat
  assumes "f + g + h + (s + l + w) + k = n"
    and "lo \<le> x1" "x1 \<le> hi" "lo \<le> x2" "x2 \<le> hi" "lo \<le> x3" "x3 \<le> hi" "lo \<le> x4" "x4 \<le> hi"
      "lo \<le> x5" "x5 \<le> hi" "lo \<le> x6" "x6 \<le> hi" "lo \<le> x7" "x7 \<le> hi"
  shows "f * x1 + g * x2 + h * x3 + (s * x4 + l * x5 + w * x6) + k * x7 \<le> n * hi"
    and "n * lo \<le> f * x1 + g * x2 + h * x3 + (s * x4 + l * x5 + w * x6) + k * x7"
proof -
  show "f * x1 + g * x2 + h * x3 + (s * x4 + l * x5 + w * x6) + k * x7 \<le> n * hi"
    unfolding assms(1) [symmetric] distrib_right
    by (intro add_mono mult_le_mono order_refl assms)
  show "n * lo \<le> f * x1 + g * x2 + h * x3 + (s * x4 + l * x5 + w * x6) + k * x7"
    unfolding assms(1) [symmetric] distrib_right
    by (intro add_mono mult_le_mono order_refl assms)
qed

text \<open>
  C23. Every token is billed once: when the cache and reasoning details are parts of their
  aggregates and all rates lie between \<open>lo\<close> and \<open>hi\<close>, the cost is at most all tokens at \<open>hi\<close> and, up to
  the five roundings, at least all tokens at \<open>lo\<close>, whatever way the cache writes are split into
  lifetimes. The only cap is the \<open>i64\<close> of the result.
\<close>

theorem every_token_is_billed_once:
  assumes "details_are_parts u" and "rates_within lo hi p"
    and "tokens = unat (input_tokens u) + unat (output_tokens u)"
  shows "cost_micros p u \<le> int (tokens * hi div 1000000)
    \<and> (cost_micros p u < 2 ^ 63 - 1 \<longrightarrow> int (tokens * lo) < (cost_micros p u + 5) * 1000000)"
proof -
  define s where "s = min (unat (cache_write_5m_tokens u)) (unat (cache_write_tokens u))"
  define l where "l = min (unat (cache_write_1h_tokens u)) (unat (cache_write_tokens u) - s)"
  define w where "w = unat (cache_write_tokens u) - s - l"
  define f where "f = unat (input_tokens u) - unat (cache_read_tokens u) - unat (cache_write_tokens u)"
  define g where "g = unat (output_tokens u) - unat (reasoning_tokens u)"
  let ?h = "unat (cache_read_tokens u)" and ?k = "unat (reasoning_tokens u)"
  let ?x5 = "case cache_write_5m_per_mtok p of None \<Rightarrow> unat (cache_write_per_mtok p) | Some r \<Rightarrow> unat r"
  let ?x1 = "case cache_write_1h_per_mtok p of None \<Rightarrow> unat (cache_write_per_mtok p) | Some r \<Rightarrow> unat r"
  let ?xr = "case reasoning_per_mtok p of None \<Rightarrow> unat (output_per_mtok p) | Some r \<Rightarrow> unat r"
  have cost: "exact_cost p u = f * unat (input_per_mtok p) div 1000000 + g * unat (output_per_mtok p) div 1000000
      + ?h * unat (cache_read_per_mtok p) div 1000000
      + (s * ?x5 + l * ?x1 + w * unat (cache_write_per_mtok p)) div 1000000 + ?k * ?xr div 1000000"
    by (simp only: exact_cost_def Let_def s_def l_def w_def f_def g_def)
  have sum: "f + g + ?h + (s + l + w) + ?k = tokens"
  proof -
    have "s + l + w = unat (cache_write_tokens u)" by (simp add: s_def l_def w_def)
    then show ?thesis using assms(1) unfolding assms(3) details_are_parts_def f_def g_def by linarith
  qed
  note weigh = weigh_tokens [OF sum, of lo "unat (input_per_mtok p)" hi "unat (output_per_mtok p)"
      "unat (cache_read_per_mtok p)" ?x5 ?x1 "unat (cache_write_per_mtok p)" ?xr]
  note rates = rates_within_rate [OF assms(2)]
  have "exact_cost p u \<le> tokens * hi div 1000000"
    unfolding cost by (rule order_trans [OF div_sum5_le div_le_mono]) (rule weigh(1); rule rates)
  moreover have "tokens * lo < (exact_cost p u + 5) * 1000000"
    unfolding cost by (rule le_less_trans [OF weigh(2) sum5_less_div]) (rule rates | simp)+
  then have "int (tokens * lo) < int ((exact_cost p u + 5) * 1000000)" by (simp only: of_nat_less_iff)
  ultimately show ?thesis
    unfolding cost_micros_nat by (auto simp: min_def)
qed

lemma every_token_is_billed_once_witness:
  "cost_micros (list_price 3 3 3 3) (usage_default\<lparr>input_tokens := 1000000, cache_read_tokens := 7\<rparr>)
    \<le> int (1000000 * 3 div 1000000)"
proof -
  let ?u = "usage_default\<lparr>input_tokens := 1000000, cache_read_tokens := 7\<rparr>"
  have "details_are_parts ?u" by (simp add: details_are_parts_def usage_default_def)
  moreover have "rates_within 3 3 (list_price 3 3 3 3)" by (simp add: rates_within_def list_price_def)
  moreover have "1000000 = unat (input_tokens ?u) + unat (output_tokens ?u)"
    by (simp add: usage_default_def)
  ultimately show ?thesis by (rule every_token_is_billed_once [THEN conjunct1])
qed

section \<open>Looking a price up\<close>

lemma max_by_key_mem: "max_by_key f xs = Some x \<Longrightarrow> x \<in> set xs"
  by (induction xs) (auto split: option.splits if_splits)

lemma last_segment_no_slash: "SLASH \<notin> set (last_segment m)"
  by (auto simp: last_segment_def dest: set_takeWhileD)

lemma set_trim: "set (trim t) \<subseteq> set t"
  by (auto simp: trim_def dest!: set_dropWhileD)

lemma ascii_lower_slash: "ascii_lower c = SLASH \<longleftrightarrow> c = SLASH"
  by (auto simp: ascii_lower_def is_ascii_upper_def SLASH_def)

lemma no_slash_map: "SLASH \<notin> set t \<Longrightarrow> (\<And>c. f c = SLASH \<Longrightarrow> c = SLASH) \<Longrightarrow> SLASH \<notin> set (map f t)"
  by (metis image_iff set_map)

lemma no_slash_replace: "SLASH \<notin> set t \<Longrightarrow> SLASH \<notin> set (replace_char a DASH t)"
  unfolding replace_char_def by (rule no_slash_map) (auto simp: DASH_def SLASH_def split: if_splits)

lemma normalize_no_slash: "SLASH \<notin> set (normalize_model_id m)"
proof -
  have "SLASH \<notin> set (trim (takeWhile (\<lambda>c. c \<noteq> COLON) (last_segment m)))"
    using set_trim last_segment_no_slash set_takeWhileD by (metis subsetD)
  then have "SLASH \<notin> set (map ascii_lower (replace_char 64 DASH
      (trim (takeWhile (\<lambda>c. c \<noteq> COLON) (last_segment m)))))"
    by (intro no_slash_map no_slash_replace) (auto dest: ascii_lower_slash [THEN iffD1])
  then show ?thesis by (simp add: normalize_model_id_def Let_def no_slash_replace)
qed

lemma map_filter_memD: "y \<in> set (List.map_filter f xs) \<Longrightarrow> \<exists>x \<in> set xs. f x = Some y"
  by (induction xs) (auto simp: List.map_filter_simps split: option.splits)

lemma model_price_of_key:
  assumes "model_price_of t m = Some p" and "SLASH \<notin> set m"
  shows "\<exists>key. SLASH \<notin> set key \<and> (key, p) \<in> set (pt_models t)"
proof (cases "bt_get (pt_models t) m")
  case (Some q)
  with assms show ?thesis by (auto simp: model_price_of_def Let_def dest!: bt_get_SomeD)
next
  case None
  show ?thesis
  proof (cases "bt_get (pt_models t) (normalize_model_id m)")
    case (Some q)
    with None assms(1) show ?thesis
      using normalize_no_slash [of m] by (auto simp: model_price_of_def Let_def dest!: bt_get_SomeD)
  next
    case none: None
    with None assms(1) obtain n where
      "max_by_key fst (List.map_filter (price_candidate (normalize_model_id m)) (pt_models t)) = Some (n, p)"
      by (auto simp: model_price_of_def Let_def)
    then have "(n, p) \<in> set (List.map_filter (price_candidate (normalize_model_id m)) (pt_models t))"
      by (rule max_by_key_mem)
    then show ?thesis
      by (auto simp: price_candidate_def Let_def dest!: map_filter_memD split: if_splits prod.splits)
  qed
qed

text \<open>
  An upstream's model is priced by the entry of exactly that upstream and model when there is
  one, and otherwise by an entry without a channel: whatever slashes a relay puts into its model
  ids, it is never billed at another channel's price.
\<close>

theorem scoped_prices_never_cross:
  assumes "model_price_for_upstream t upstream model = Some p"
  shows "if bt_contains (pt_models t) (upstream @ [SLASH] @ model)
    then bt_get (pt_models t) (upstream @ [SLASH] @ model) = Some p
    else \<exists>key. SLASH \<notin> set key \<and> (key, p) \<in> set (pt_models t)"
proof (cases "bt_get (pt_models t) (upstream @ [SLASH] @ model)")
  case (Some q)
  with assms show ?thesis by (simp add: model_price_for_upstream_def bt_contains_def)
next
  case None
  then have "\<exists>m. SLASH \<notin> set m \<and> model_price_of t m = Some p"
    using assms normalize_no_slash by (auto simp: model_price_for_upstream_def split: if_splits)
  with None model_price_of_key show ?thesis by (auto simp: bt_contains_def)
qed

lemma scoped_prices_never_cross_witness:
  "\<exists>key p. SLASH \<notin> set key \<and> (key, p :: model_price) \<in> set (pt_models price_table_builtin)"
proof -
  have "model_price_for_upstream price_table_builtin (ascii ''relay'') (ascii ''vendor/glm-5:free'')
      = Some (list_price 1000000 3200000 200000 0)"
    by code_simp
  from scoped_prices_never_cross [OF this]
  have "\<exists>key. SLASH \<notin> set key \<and> (key, list_price 1000000 3200000 200000 0) \<in> set (pt_models price_table_builtin)"
    by (simp add: price_table_builtin_def bt_contains_def bt_get_def ascii_def SLASH_def)
  then show ?thesis by blast
qed

section \<open>Editing a table\<close>

datatype price_edit =
    Set_Price utext model_price
  | Import_Prices "(utext, model_price) btree"
  | Drop_Price utext

fun edit_table :: "price_edit \<Rightarrow> price_table \<Rightarrow> price_error + price_table" where
  "edit_table (Set_Price model price) t = next_with_model t model price"
| "edit_table (Import_Prices additions) t = next_with_models t additions"
| "edit_table (Drop_Price model) t = next_without_model t model"

fun edited :: "price_edit \<Rightarrow> (utext \<rightharpoonup> model_price) \<Rightarrow> (utext \<rightharpoonup> model_price)" where
  "edited (Set_Price model price) m = m(model \<mapsto> price)"
| "edited (Import_Prices additions) m = m ++ map_of (rev additions)"
| "edited (Drop_Price model) m = m(model := None)"

definition entry_ok :: "utext \<times> model_price \<Rightarrow> bool" where
  "entry_ok e \<longleftrightarrow> validate_entry e = Ok ()"

lemma next_version_Ok [result_simps]: "next_version t = Ok v \<longleftrightarrow> unat v = unat (pt_version t) + 1"
proof -
  have "next_version t = Ok v \<longleftrightarrow> checked_add (pt_version t) 1 = Some v"
    by (simp add: next_version_def split: option.splits)
  then show ?thesis by (simp add: checked_add_Some_iff)
qed

fun edit_ok :: "price_edit \<Rightarrow> bool" where
  "edit_ok (Import_Prices additions) = bt_ok additions"
| "edit_ok _ = True"

lemma table_validate_iff: "table_validate t = Ok () \<longleftrightarrow> (\<forall>e \<in> set (pt_models t). entry_ok e)"
  by (simp add: table_validate_def result_simps entry_ok_def)

lemma entries_ok_get:
  "bt_ok m \<Longrightarrow> (\<forall>e \<in> set m. entry_ok e) \<longleftrightarrow> (\<forall>k p. bt_get m k = Some p \<longrightarrow> entry_ok (k, p))"
  by (auto simp: bt_get_Some_iff)

lemma entry_ok_iff: "entry_ok (m, p) \<longleftrightarrow> validate_model_id m = Ok () \<and> price_validate p = Ok ()"
  by (auto simp: entry_ok_def validate_entry_def result_simps)

lemma edit_table_Ok:
  assumes "edit_table e t = Ok t'"
  shows "table_validate t = Ok () \<and> unat (pt_version t') = unat (pt_version t) + 1
    \<and> (case e of
        Set_Price m p \<Rightarrow> entry_ok (m, p) \<and> bt_get (pt_models t) m \<noteq> Some p
          \<and> pt_models t' = bt_insert m p (pt_models t)
      | Import_Prices a \<Rightarrow> (\<forall>x \<in> set a. entry_ok x)
          \<and> (\<exists>(m, p) \<in> set a. bt_get (pt_models t) m \<noteq> Some p)
          \<and> pt_models t' = fold (\<lambda>(m, p). bt_insert m p) a (pt_models t)
      | Drop_Price m \<Rightarrow> bt_contains (pt_models t) m \<and> pt_models t' = bt_remove m (pt_models t))"
  using assms
  by (cases e) (auto simp: next_with_model_def next_with_models_def next_without_model_def result_simps
      entry_ok_iff entry_ok_def [symmetric] list_all_iff Bex_def split: if_splits)

text \<open>
  A price edit (one model set, a batch imported, one dropped) that succeeds moves the table to
  the next version without wrapping, leaves a valid table whose map is exactly the old one with
  that edit, and is a real change: no version is spent on an edit that changes nothing, and no
  price changes without a new version.
\<close>

theorem edits_are_versioned:
  assumes "edit_table e t = Ok t'" and "bt_ok (pt_models t)" and "edit_ok e"
  shows "unat (pt_version t') = unat (pt_version t) + 1 \<and> table_validate t' = Ok ()
    \<and> bt_get (pt_models t') = edited e (bt_get (pt_models t))
    \<and> bt_get (pt_models t') \<noteq> bt_get (pt_models t)"
proof -
  note Ok = edit_table_Ok [OF assms(1)]
  have ok: "bt_ok (pt_models t')"
    using Ok assms(2) by (cases e) (auto simp: bt.ok_put bt.ok_del bt.ok_fold_put)
  have get: "bt_get (pt_models t') = edited e (bt_get (pt_models t))"
    using Ok by (cases e) (auto simp: bt.get_put bt.get_del bt.get_fold_put map_add_def fun_eq_iff
        split: option.splits)
  have old: "\<forall>k p. bt_get (pt_models t) k = Some p \<longrightarrow> entry_ok (k, p)"
    using Ok assms(2) by (simp add: table_validate_iff entries_ok_get)
  then have "\<forall>k p. bt_get (pt_models t') k = Some p \<longrightarrow> entry_ok (k, p)"
    unfolding get using Ok
    by (cases e) (auto simp: map_add_def dest!: map_of_SomeD split: option.splits if_splits)
  moreover have "bt_get (pt_models t') \<noteq> bt_get (pt_models t)"
  proof (cases e)
    case (Import_Prices a)
    with Ok obtain m p where mp: "(m, p) \<in> set a" and "bt_get (pt_models t) m \<noteq> Some p" by auto
    moreover have "map_of (rev a) m = Some p"
      using mp assms(3) Import_Prices bt_ok_distinct [of a]
      by (intro map_of_is_SomeI) (simp_all add: rev_map [symmetric])
    ultimately have "edited e (bt_get (pt_models t)) m \<noteq> bt_get (pt_models t) m"
      by (simp add: Import_Prices map_add_def)
    then show ?thesis unfolding get by (rule contrapos_nn) simp
  next
    case (Set_Price m p)
    with Ok have "edited e (bt_get (pt_models t)) m \<noteq> bt_get (pt_models t) m" by auto
    then show ?thesis unfolding get by (rule contrapos_nn) simp
  next
    case (Drop_Price m)
    with Ok have "edited e (bt_get (pt_models t)) m \<noteq> bt_get (pt_models t) m"
      by (auto simp: bt_contains_def)
    then show ?thesis unfolding get by (rule contrapos_nn) simp
  qed
  ultimately show ?thesis using Ok ok get by (simp add: table_validate_iff entries_ok_get)
qed

lemma edits_are_versioned_witness:
  "\<exists>t'. edit_table (Drop_Price (ascii ''glm-5'')) price_table_builtin = Ok t' \<and> pt_version t' = 2
     \<and> table_validate t' = Ok ()"
proof -
  let ?t = "\<lparr>pt_version = 2, pt_models = bt_remove (ascii ''glm-5'') (pt_models price_table_builtin)\<rparr>"
  have edit: "edit_table (Drop_Price (ascii ''glm-5'')) price_table_builtin = Ok ?t" by code_simp
  have "bt_ok (pt_models price_table_builtin)" by code_simp
  from edits_are_versioned [OF edit this] edit show ?thesis by (auto simp: edit)
qed

end
