(* ===== verification/Sse.thy ===== *)
theory Sse
  imports Protocol
begin

text \<open>
  Framing of server-sent events at the network boundary, \<open>apps/cli/src/sse.rs\<close>. Bytes are \<open>u8\<close>; a
  frame is kept as the bytes of its UTF-8, validated as \<open>String::from_utf8\<close> does.
\<close>

definition MAX_SSE_FRAME_BYTES :: nat where "MAX_SSE_FRAME_BYTES = 1024 * 1024"

definition LF :: u8 where "LF = 10"
definition CR :: u8 where "CR = 13"

section \<open>Frames\<close>

text \<open>\<open>windows(n).position(...)\<close>: where the needle first occurs.\<close>

fun find_bytes :: "u8 list \<Rightarrow> u8 list \<Rightarrow> nat option" where
  "find_bytes needle [] = None"
| "find_bytes needle (b # bs) =
     (if prefix needle (b # bs) then Some 0 else map_option Suc (find_bytes needle bs))"

definition frame_boundary :: "u8 list \<Rightarrow> (nat \<times> nat) option" where
  "frame_boundary bytes =
     (case (find_bytes [LF, LF] bytes, find_bytes [CR, LF, CR, LF] bytes) of
        (Some left, Some right) \<Rightarrow> if left \<le> right then Some (left, 2) else Some (right, 4)
      | (None, Some right) \<Rightarrow> Some (right, 4)
      | (Some left, None) \<Rightarrow> Some (left, 2)
      | (None, None) \<Rightarrow> None)"

definition frame_too_large :: error_envelope where
  "frame_too_large = error_envelope_new ProviderProtocolError 502
     ''upstream SSE frame exceeds the local framing limit''"

text \<open>\<open>str::replace("\r\n", "\n")\<close>.\<close>

fun crlf_to_lf :: "u8 list \<Rightarrow> u8 list" where
  "crlf_to_lf (a # b # bs) =
     (if a = CR \<and> b = LF then LF # crlf_to_lf bs else a # crlf_to_lf (b # bs))"
| "crlf_to_lf bs = bs"

lemma find_bytes_Some: "find_bytes needle bs = Some i \<Longrightarrow> i + length needle \<le> length bs"
  by (induction bs arbitrary: i) (auto simp: split: if_splits dest: prefix_length_le)

lemma frame_boundary_bounds:
  assumes "frame_boundary bs = Some (e, s)"
  shows "0 < s" and "e + s \<le> length bs"
  using assms find_bytes_Some [of "[LF, LF]" bs] find_bytes_Some [of "[CR, LF, CR, LF]" bs]
  by (auto simp: frame_boundary_def split: option.splits if_splits)

lemma frame_boundary_shorter:
  "frame_boundary bs = Some (e, s) \<Longrightarrow> length (drop (e + s) bs) < length bs"
  using frame_boundary_bounds(1) [of bs e s] frame_boundary_bounds(2) [of bs e s]
  unfolding length_drop by linarith

text \<open>The loop of \<open>push\<close>: the frames cut off the tail, and what is left of it.\<close>

function cut_frames :: "u8 list \<Rightarrow> error_envelope + u8 list list \<times> u8 list" where
  "cut_frames tail = (case frame_boundary tail of
      None \<Rightarrow> Ok ([], tail)
    | Some (end_at, separator) \<Rightarrow>
        let raw = take end_at tail; rest = drop (end_at + separator) tail in
        if raw = [] then cut_frames rest
        else if MAX_SSE_FRAME_BYTES < length raw then Err frame_too_large
        else if \<not> utf8_ok raw then Err (error_envelope_new ProviderProtocolError 502
               ''upstream SSE frame is not valid UTF-8'')
        else and_then (cut_frames rest) (\<lambda>(frames, tail).
               Ok ((crlf_to_lf raw @ [LF, LF]) # frames, tail)))"
  by auto
termination
  by (relation "measure length") (auto simp del: length_drop dest!: frame_boundary_shorter)

declare cut_frames.simps [simp del]

record sse_decoder =
  sse_tail :: "u8 list"

definition sse_default :: sse_decoder where
  "sse_default = \<lparr>sse_tail = []\<rparr>"

definition sse_push :: "sse_decoder \<Rightarrow> u8 list \<Rightarrow> error_envelope + u8 list list \<times> sse_decoder" where
  "sse_push d bytes =
     and_then (cut_frames (sse_tail d @ bytes)) (\<lambda>(frames, tail).
       if MAX_SSE_FRAME_BYTES < length tail then Err frame_too_large
       else Ok (frames, d\<lparr>sse_tail := tail\<rparr>))"

definition sse_finish :: "sse_decoder \<Rightarrow> error_envelope + unit" where
  "sse_finish d =
     (if list_all (\<lambda>b. b = 32 \<or> b = 9 \<or> b = CR \<or> b = LF) (sse_tail d) then Ok ()
      else Err (error_envelope_new TransportTruncated 502
        ''upstream SSE connection closed with an incomplete frame''))"

section \<open>Boundaries do not move\<close>

lemma find_bytes_iff:
  "find_bytes needle bs = Some i \<longleftrightarrow>
    prefix needle (drop i bs) \<and> i < length bs \<and> (\<forall>j < i. \<not> prefix needle (drop j bs))"
proof (induction bs arbitrary: i)
  case (Cons b bs)
  show ?case
  proof (cases i)
    case (Suc k)
    have "(\<forall>j < Suc k. \<not> prefix needle (drop j (b # bs)))
        \<longleftrightarrow> \<not> prefix needle (b # bs) \<and> (\<forall>j < k. \<not> prefix needle (drop j bs))"
      by (auto simp: less_Suc_eq_0_disj)
    then show ?thesis using Cons.IH [of k] Suc by auto
  qed (auto split: if_splits)
qed simp

lemma prefix_take: "prefix xs ys \<longleftrightarrow> take (length xs) ys = xs"
  by (metis append_eq_conv_conj prefixE prefixI append_take_drop_id)

lemma prefix_drop_append:
  "i + length needle \<le> length bs \<Longrightarrow> prefix needle (drop i bs @ cs) \<longleftrightarrow> prefix needle (drop i bs)"
  by (simp add: prefix_take)

lemma prefix_drop_nth:
  assumes "prefix needle (drop i bs)" and "k < length needle"
  shows "bs ! (i + k) = needle ! k"
proof -
  obtain zs where zs: "drop i bs = needle @ zs" using assms(1) by (auto simp: prefix_def)
  have "i \<le> length bs"
  proof (rule ccontr)
    assume "\<not> i \<le> length bs"
    then have "drop i bs = []" by simp
    with zs assms(2) show False by simp
  qed
  then have "bs ! (i + k) = drop i bs ! k" by simp
  then show ?thesis using zs assms(2) by (simp add: nth_append)
qed

lemma find_bytes_append_iff:
  assumes "i + length needle \<le> length bs" and "needle \<noteq> []"
  shows "find_bytes needle (bs @ cs) = Some i \<longleftrightarrow> find_bytes needle bs = Some i"
proof -
  have "i < length bs" using assms by (cases needle) auto
  moreover have "prefix needle (drop j (bs @ cs)) = prefix needle (drop j bs)" if "j \<le> i" for j
    using that assms(1) \<open>i < length bs\<close> by (simp add: prefix_drop_append)
  ultimately show ?thesis unfolding find_bytes_iff by auto
qed

lemma find_bytes_append:
  assumes "find_bytes needle bs = Some i" and "needle \<noteq> []"
  shows "find_bytes needle (bs @ cs) = Some i"
  using assms find_bytes_Some [OF assms(1)] by (simp add: find_bytes_append_iff)

lemma find_bytes_later:
  assumes "find_bytes needle bs = None" and "find_bytes needle (bs @ cs) = Some i" and "needle \<noteq> []"
  shows "length bs < i + length needle"
  using assms find_bytes_append_iff [of i needle bs cs] by (rule_tac ccontr) simp

text \<open>Bytes that arrive later do not change a boundary that is there.\<close>

lemma frame_boundary_append:
  assumes "frame_boundary bs = Some b"
  shows "frame_boundary (bs @ cs) = Some b"
proof (cases "find_bytes [LF, LF] bs"; cases "find_bytes [CR, LF, CR, LF] bs")
  fix l r
  assume "find_bytes [LF, LF] bs = Some l" and "find_bytes [CR, LF, CR, LF] bs = Some r"
  then show ?thesis using assms by (simp add: frame_boundary_def find_bytes_append)
next
  fix r
  assume l: "find_bytes [LF, LF] bs = None" and r: "find_bytes [CR, LF, CR, LF] bs = Some r"
  have "r < l'" if "find_bytes [LF, LF] (bs @ cs) = Some l'" for l'
    using find_bytes_later [OF l that] find_bytes_Some [OF r] by simp
  then show ?thesis using assms l r
    by (fastforce simp: frame_boundary_def find_bytes_append split: option.splits)
next
  fix l
  assume l: "find_bytes [LF, LF] bs = Some l" and r: "find_bytes [CR, LF, CR, LF] bs = None"
  have "l \<le> r'" if r': "find_bytes [CR, LF, CR, LF] (bs @ cs) = Some r'" for r'
  proof (rule ccontr)
    assume "\<not> l \<le> r'"
    then have "r' + 2 = l + 1" using find_bytes_later [OF r r'] find_bytes_Some [OF l] by simp
    moreover have "(bs @ cs) ! (r' + 2) = CR"
      using r' prefix_drop_nth [of "[CR, LF, CR, LF]" r' "bs @ cs" 2] by (simp add: find_bytes_iff)
    moreover have "(bs @ cs) ! (l + 1) = LF"
      using find_bytes_append [OF l, of cs] prefix_drop_nth [of "[LF, LF]" l "bs @ cs" 1]
      by (simp add: find_bytes_iff)
    ultimately show False by (simp add: CR_def LF_def)
  qed
  then show ?thesis using assms l r
    by (auto simp: frame_boundary_def find_bytes_append split: option.splits)
qed (use assms in \<open>simp add: frame_boundary_def\<close>)

section \<open>Chunks\<close>

lemma and_then_assoc: "and_then (and_then r f) g = and_then r (\<lambda>x. and_then (f x) g)"
  by (cases r) simp_all

lemma cut_frames_append:
  "cut_frames (bs @ cs) = and_then (cut_frames bs) (\<lambda>(frames, tail).
     and_then (cut_frames (tail @ cs)) (\<lambda>(more, tail). Ok (frames @ more, tail)))"
proof (induction bs rule: measure_induct_rule [of length])
  case (less bs)
  show ?case
  proof (cases "frame_boundary bs")
    case None
    then have "cut_frames bs = Ok ([], bs)" by (subst cut_frames.simps) simp
    then show ?thesis by (cases "cut_frames (bs @ cs)") auto
  next
    case (Some b)
    obtain e s where b: "b = (e, s)" by fastforce
    have len: "e + s \<le> length bs" using frame_boundary_bounds(2) Some b by simp
    note IH = less.IH [of "drop (e + s) bs", OF frame_boundary_shorter [OF Some [unfolded b]]]
    have cut: "cut_frames (bs @ cs) =
      (let raw = take e bs; rest = drop (e + s) bs @ cs in
        if raw = [] then cut_frames rest
        else if MAX_SSE_FRAME_BYTES < length raw then Err frame_too_large
        else if \<not> utf8_ok raw then Err (error_envelope_new ProviderProtocolError 502
               ''upstream SSE frame is not valid UTF-8'')
        else and_then (cut_frames rest) (\<lambda>(frames, tail).
               Ok ((crlf_to_lf raw @ [LF, LF]) # frames, tail)))"
      using frame_boundary_append [OF Some, of cs] len b
      by (subst cut_frames.simps) (simp add: Let_def)
    have cut0: "cut_frames bs =
      (let raw = take e bs; rest = drop (e + s) bs in
        if raw = [] then cut_frames rest
        else if MAX_SSE_FRAME_BYTES < length raw then Err frame_too_large
        else if \<not> utf8_ok raw then Err (error_envelope_new ProviderProtocolError 502
               ''upstream SSE frame is not valid UTF-8'')
        else and_then (cut_frames rest) (\<lambda>(frames, tail).
               Ok ((crlf_to_lf raw @ [LF, LF]) # frames, tail)))"
      using Some b by (subst cut_frames.simps) simp
    consider "take e bs = []"
      | "take e bs \<noteq> []" "MAX_SSE_FRAME_BYTES < length (take e bs) \<or> \<not> utf8_ok (take e bs)"
      | "take e bs \<noteq> []" "\<not> MAX_SSE_FRAME_BYTES < length (take e bs)" "utf8_ok (take e bs)"
      by blast
    then show ?thesis
    proof cases
      case 1
      then show ?thesis unfolding cut cut0 Let_def using IH by simp
    next
      case 2
      then show ?thesis unfolding cut cut0 Let_def by auto
    next
      case 3
      then show ?thesis
        unfolding cut cut0 Let_def IH
        by (simp add: and_then_assoc case_prod_beta del: length_take)
    qed
  qed
qed

text \<open>What is left over holds no boundary.\<close>

lemma cut_frames_no_boundary: "frame_boundary bs = None \<Longrightarrow> cut_frames bs = Ok ([], bs)"
  by (subst cut_frames.simps) simp

lemma cut_frames_tail:
  "cut_frames bs = Ok (frames, tail) \<Longrightarrow> cut_frames tail = Ok ([], tail)"
proof (induction bs arbitrary: frames rule: measure_induct_rule [of length])
  case (less bs)
  show ?case
  proof (cases "frame_boundary bs")
    case None
    with less.prems show ?thesis by (simp add: cut_frames_no_boundary)
  next
    case (Some b)
    obtain e s where b: "b = (e, s)" by fastforce
    have "\<exists>fs. cut_frames (drop (e + s) bs) = Ok (fs, tail)"
      using less.prems Some b
      by (subst (asm) cut_frames.simps) (auto simp: Let_def result_simps split: if_splits)
    with less.IH [OF frame_boundary_shorter [OF Some [unfolded b]]] show ?thesis by blast
  qed
qed

text \<open>The chunks of a stream, pushed one after the other.\<close>

fun push_all :: "sse_decoder \<Rightarrow> u8 list list \<Rightarrow> error_envelope + u8 list list \<times> sse_decoder" where
  "push_all d [] = Ok ([], d)"
| "push_all d (c # cs) =
     and_then (sse_push d c) (\<lambda>(frames, d).
       and_then (push_all d cs) (\<lambda>(more, d). Ok (frames @ more, d)))"

lemma push_all_cut:
  assumes "push_all d cs = Ok (frames, d')" and "cut_frames (sse_tail d) = Ok ([], sse_tail d)"
  shows "cut_frames (sse_tail d @ concat cs) = Ok (frames, sse_tail d')"
  using assms
proof (induction cs arbitrary: d frames)
  case (Cons c cs)
  from Cons.prems(1) obtain fs more d1 where
    push: "sse_push d c = Ok (fs, d1)" and all: "push_all d1 cs = Ok (more, d')"
    and frames: "frames = fs @ more" by (auto simp: result_simps)
  then have cut: "cut_frames (sse_tail d @ c) = Ok (fs, sse_tail d1)"
    by (auto simp: sse_push_def result_simps split: if_splits)
  have "cut_frames (sse_tail d1) = Ok ([], sse_tail d1)"
    using cut cut_frames_tail by blast
  from Cons.IH [OF all this] show ?case
    using cut_frames_append [of "sse_tail d @ c" "concat cs"] cut frames by simp
qed simp

lemma push_all_tail:
  "push_all d cs = Ok (frames, d') \<Longrightarrow> length (sse_tail d) \<le> MAX_SSE_FRAME_BYTES \<Longrightarrow>
    length (sse_tail d') \<le> MAX_SSE_FRAME_BYTES"
  by (induction cs arbitrary: d frames)
    (fastforce simp: result_simps sse_push_def split: if_splits)+

text \<open>
  C28. Socket chunks are invisible: if a stream is decoded in any chunks, the frames and the state
  are those of pushing all its bytes at once. No boundary is found or missed, no character is cut,
  because of where a chunk ends.
\<close>

theorem chunking_is_invisible:
  assumes "push_all sse_default cs = Ok r"
  shows "sse_push sse_default (concat cs) = Ok r"
proof -
  obtain frames d where r: "r = (frames, d)" by fastforce
  have "cut_frames ([] @ concat cs) = Ok (frames, sse_tail d)"
    using push_all_cut [OF assms [unfolded r]] cut_frames_no_boundary [of "[]"]
    by (simp add: sse_default_def frame_boundary_def)
  moreover have "length (sse_tail d) \<le> MAX_SSE_FRAME_BYTES"
    using push_all_tail [OF assms [unfolded r]] by (simp add: sse_default_def)
  ultimately show ?thesis by (simp add: r sse_push_def sse_default_def)
qed

lemma chunking_is_invisible_witness:
  "sse_push sse_default (concat [[100, 13, 10], [13], [10, 101]]) = Ok ([[100, 10, 10]], \<lparr>sse_tail = [101]\<rparr>)"
  by (rule chunking_is_invisible) code_simp

section \<open>Two limits of the framing\<close>

lemma find_bytes_replicate:
  "a \<noteq> x \<Longrightarrow> find_bytes (x # xs) (replicate n a @ bs) = map_option ((+) n) (find_bytes (x # xs) bs)"
  by (induction n) (cases "find_bytes (x # xs) bs"; simp)+

lemma utf8_ok_ascii: "a \<le> 127 \<Longrightarrow> utf8_ok (replicate n a)"
  by (induction n) simp_all

lemma crlf_to_lf_no_cr: "a \<noteq> CR \<Longrightarrow> crlf_to_lf (replicate n a) = replicate n a"
proof (induction n)
  case (Suc n)
  then show ?case by (cases n) simp_all
qed simp

text \<open>
  A frame of exactly the limit is delivered when its CRLF separator arrives in one piece, and
  refused as too large when a chunk ends inside the separator: the tail check counts the bytes of
  an unfinished separator as part of the frame.
\<close>

theorem full_frame_depends_on_chunks:
  "let frame = replicate MAX_SSE_FRAME_BYTES 97
   in sse_push sse_default (frame @ [CR, LF, CR, LF]) = Ok ([frame @ [LF, LF]], sse_default)
    \<and> push_all sse_default [frame @ [CR, LF, CR], [LF]] = Err frame_too_large"
  unfolding Let_def
proof
  define frame :: "u8 list" where "frame = replicate MAX_SSE_FRAME_BYTES 97"
  have max_pos: "0 < MAX_SSE_FRAME_BYTES" by (simp add: MAX_SSE_FRAME_BYTES_def)
  have ne: "(97 :: u8) \<noteq> CR" "(97 :: u8) \<noteq> LF" by (simp_all add: CR_def LF_def)
  have ascii: "(97 :: u8) \<le> 127" by (simp add: word_le_nat_alt)
  have frame: "frame \<noteq> []" "length frame = MAX_SSE_FRAME_BYTES" "utf8_ok frame" "crlf_to_lf frame = frame"
    unfolding frame_def using ne ascii
    by (simp_all add: utf8_ok_ascii crlf_to_lf_no_cr) (simp add: MAX_SSE_FRAME_BYTES_def)
  have "find_bytes [LF, LF] (frame @ [CR, LF, CR, LF]) = None"
    "find_bytes [CR, LF, CR, LF] (frame @ [CR, LF, CR, LF]) = Some MAX_SSE_FRAME_BYTES"
    unfolding frame_def using ne by (simp_all add: find_bytes_replicate CR_def LF_def)
  then have "frame_boundary (frame @ [CR, LF, CR, LF]) = Some (MAX_SSE_FRAME_BYTES, 4)"
    by (simp add: frame_boundary_def)
  then have "cut_frames (frame @ [CR, LF, CR, LF]) = Ok ([frame @ [LF, LF]], [])"
    using frame cut_frames_no_boundary [of "[]"] max_pos
    by (subst cut_frames.simps) (simp add: Let_def, simp add: frame_boundary_def)
  then show "sse_push sse_default (replicate MAX_SSE_FRAME_BYTES 97 @ [CR, LF, CR, LF])
      = Ok ([replicate MAX_SSE_FRAME_BYTES 97 @ [LF, LF]], sse_default)"
    unfolding frame_def by (simp add: sse_push_def sse_default_def)
  have "find_bytes [LF, LF] (frame @ [CR, LF, CR]) = None"
    "find_bytes [CR, LF, CR, LF] (frame @ [CR, LF, CR]) = None"
    unfolding frame_def using ne by (simp_all add: find_bytes_replicate CR_def LF_def)
  then have "cut_frames (frame @ [CR, LF, CR]) = Ok ([], frame @ [CR, LF, CR])"
    by (intro cut_frames_no_boundary) (simp add: frame_boundary_def)
  then show "push_all sse_default [replicate MAX_SSE_FRAME_BYTES 97 @ [CR, LF, CR], [LF]]
      = Err frame_too_large"
    unfolding frame_def by (simp add: sse_push_def sse_default_def)
qed

text \<open>
  A blank line written with mixed line endings is no boundary to \<open>push\<close>, but becomes one in the
  frame it hands on: two events reach the adapter as one frame.
\<close>

lemma mixed_blank_line_merges_events:
  "sse_push sse_default [97, 10, 13, 10, 98, 10, 10]
    = Ok ([[97, 10, 10, 98, 10, 10]], sse_default)"
  by code_simp

end
