(* ===== verification/Files.thy ===== *)
theory Files
  imports Prelude
begin

text \<open>
  The part of \<open>std::fs\<close> that the owner-only files and the configuration transactions use, on Unix.
  A path is the list of its components. Every system call may fail for a reason of its own
  (\<open>os_fault\<close>, by the number of the call); one that succeeds changes the tree and appends it to
  \<open>w_trace\<close>, so that a property of all states a crash or a reader could see is a property of the
  trace. No other process writes to the tree meanwhile, and links are never followed: the code
  refuses them before it uses a path.
\<close>

type_synonym path = "string list"

type_synonym uid_gid = "u32 \<times> u32"

datatype node =
    File (file_bytes: "u8 list") (file_mode: u32) (file_owner: uid_gid)
  | Directory (dir_mode: u32) (dir_owner: uid_gid)
  | Link
  | Special

type_synonym tree = "path \<rightharpoonup> node"

datatype io_error = NotFound | AlreadyExists | PermissionDenied | InvalidInput | OtherError

record os =
  os_fault :: "nat \<Rightarrow> io_error option"
  os_partial :: "nat \<Rightarrow> nat"
  os_random :: "nat \<Rightarrow> io_error + (nat \<Rightarrow> u8)"
  os_umask :: u32
  os_user :: uid_gid

record world =
  w_tree :: tree
  w_calls :: nat
  w_trace :: "tree list"

type_synonym ('e, 'a) io = "world \<Rightarrow> ('e + 'a) \<times> world"

section \<open>Sequencing\<close>

definition io_return :: "'a \<Rightarrow> ('e, 'a) io" where
  "io_return a w = (Ok a, w)"

definition io_fail :: "'e \<Rightarrow> ('e, 'a) io" where
  "io_fail e w = (Err e, w)"

text \<open>\<open>m?\<close> and the rest.\<close>

definition io_then :: "('e, 'a) io \<Rightarrow> ('a \<Rightarrow> ('e, 'b) io) \<Rightarrow> ('e, 'b) io" where
  "io_then m f w = (case m w of (Inl e, w) \<Rightarrow> (Err e, w) | (Inr a, w) \<Rightarrow> f a w)"

text \<open>\<open>match m\<close> with an arm for errors.\<close>

definition io_match :: "('e, 'a) io \<Rightarrow> ('e \<Rightarrow> ('f, 'b) io) \<Rightarrow> ('a \<Rightarrow> ('f, 'b) io) \<Rightarrow> ('f, 'b) io" where
  "io_match m handler f w = (case m w of (Inl e, w) \<Rightarrow> handler e w | (Inr a, w) \<Rightarrow> f a w)"

definition io_map_err :: "('e \<Rightarrow> 'f) \<Rightarrow> ('e, 'a) io \<Rightarrow> ('f, 'a) io" where
  "io_map_err f m w = map_prod (map_err f) id (m w)"

definition io_lift :: "'e + 'a \<Rightarrow> ('e, 'a) io" where
  "io_lift r w = (r, w)"

named_theorems io_simps "inversion of file operations that succeed"

lemma io_return_iff [io_simps]: "io_return a w = (Ok b, w') \<longleftrightarrow> b = a \<and> w' = w"
  by (auto simp: io_return_def)

lemma io_fail_iff [io_simps]: "io_fail e w = (Ok b, w') \<longleftrightarrow> False"
  by (simp add: io_fail_def)

lemma io_lift_iff [io_simps]: "io_lift r w = (Ok b, w') \<longleftrightarrow> r = Ok b \<and> w' = w"
  by (auto simp: io_lift_def)

lemma io_then_iff [io_simps]:
  "io_then m f w = (Ok b, w') \<longleftrightarrow> (\<exists>a v. m w = (Ok a, v) \<and> f a v = (Ok b, w'))"
  by (cases "m w"; cases "fst (m w)") (auto simp: io_then_def)

lemma io_match_iff [io_simps]:
  "io_match m g f w = (Ok b, w') \<longleftrightarrow>
     (\<exists>e v. m w = (Err e, v) \<and> g e v = (Ok b, w')) \<or> (\<exists>a v. m w = (Ok a, v) \<and> f a v = (Ok b, w'))"
  by (cases "m w"; cases "fst (m w)") (auto simp: io_match_def)

lemma io_map_err_iff [io_simps]: "io_map_err f m w = (Ok b, w') \<longleftrightarrow> m w = (Ok b, w')"
  by (cases "m w"; cases "fst (m w)") (auto simp: io_map_err_def)

section \<open>System calls\<close>

definition step_tree :: "tree \<Rightarrow> world \<Rightarrow> world" where
  "step_tree t w = w\<lparr>w_tree := t, w_calls := w_calls w + 1, w_trace := w_trace w @ [t]\<rparr>"

definition step_call :: "world \<Rightarrow> world" where
  "step_call w = w\<lparr>w_calls := w_calls w + 1\<rparr>"

definition syscall :: "os \<Rightarrow> (tree \<Rightarrow> io_error + 'a \<times> tree) \<Rightarrow> (io_error, 'a) io" where
  "syscall os f w = (case os_fault os (w_calls w) of
      Some e \<Rightarrow> (Err e, step_call w)
    | None \<Rightarrow> (case f (w_tree w) of
        Inl e \<Rightarrow> (Err e, step_call w)
      | Inr (a, t) \<Rightarrow> (Ok a, step_tree t w)))"

text \<open>A call that only reads.\<close>

definition query :: "os \<Rightarrow> (tree \<Rightarrow> io_error + 'a) \<Rightarrow> (io_error, 'a) io" where
  "query os f = syscall os (\<lambda>t. and_then (f t) (\<lambda>a. Ok (a, t)))"

definition symlink_metadata :: "os \<Rightarrow> path \<Rightarrow> (io_error, node) io" where
  "symlink_metadata os p = query os (\<lambda>t. case t p of None \<Rightarrow> Err NotFound | Some n \<Rightarrow> Ok n)"

fun mode_of :: "node \<Rightarrow> u32" where
  "mode_of (File _ m _) = m"
| "mode_of (Directory m _) = m"
| "mode_of _ = 0"

definition set_permissions :: "os \<Rightarrow> path \<Rightarrow> u32 \<Rightarrow> (io_error, unit) io" where
  "set_permissions os p m = syscall os (\<lambda>t. case t p of
      Some (File b _ owner) \<Rightarrow> Ok ((), t(p \<mapsto> File b m owner))
    | Some (Directory _ owner) \<Rightarrow> Ok ((), t(p \<mapsto> Directory m owner))
    | Some _ \<Rightarrow> Err OtherError
    | None \<Rightarrow> Err NotFound)"

text \<open>\<open>and_not\<close> clears the bits of a \<open>umask\<close>.\<close>

definition and_not :: "u32 \<Rightarrow> u32 \<Rightarrow> u32" where
  "and_not m cleared = Bit_Operations.and m (Bit_Operations.not cleared)"

definition is_directory :: "tree \<Rightarrow> path \<Rightarrow> bool" where
  "is_directory t p \<longleftrightarrow> (case t p of Some (Directory _ _) \<Rightarrow> True | _ \<Rightarrow> False)"

text \<open>\<open>OpenOptions::create_new\<close> with a mode.\<close>

definition open_new :: "os \<Rightarrow> path \<Rightarrow> u32 \<Rightarrow> (io_error, unit) io" where
  "open_new os p m = syscall os (\<lambda>t.
     if p = [] \<or> \<not> is_directory t (butlast p) then Err NotFound
     else if t p \<noteq> None then Err AlreadyExists
     else Ok ((), t(p \<mapsto> File [] (and_not m (os_umask os)) (os_user os))))"

text \<open>\<open>write_all\<close> on the handle of a file just created; a failure leaves a prefix.\<close>

definition append_bytes :: "path \<Rightarrow> u8 list \<Rightarrow> tree \<Rightarrow> tree" where
  "append_bytes p bs t = (case t p of
      Some (File b m owner) \<Rightarrow> t(p \<mapsto> File (b @ bs) m owner)
    | _ \<Rightarrow> t)"

definition write_all :: "os \<Rightarrow> path \<Rightarrow> u8 list \<Rightarrow> (io_error, unit) io" where
  "write_all os p bs w = (case os_fault os (w_calls w) of
      Some e \<Rightarrow> (Err e, step_tree (append_bytes p (take (os_partial os (w_calls w)) bs) (w_tree w)) w)
    | None \<Rightarrow> (Ok (), step_tree (append_bytes p bs (w_tree w)) w))"

text \<open>\<open>flush\<close> and \<open>sync_all\<close>: no effect on the tree.\<close>

definition sync :: "os \<Rightarrow> (io_error, unit) io" where
  "sync os = query os (\<lambda>t. Ok ())"

definition rename :: "os \<Rightarrow> path \<Rightarrow> path \<Rightarrow> (io_error, unit) io" where
  "rename os a b = syscall os (\<lambda>t. case t a of
      None \<Rightarrow> Err NotFound
    | Some n \<Rightarrow> if is_directory t a \<or> is_directory t b then Err OtherError
        else Ok ((), t(a := None, b \<mapsto> n)))"

definition remove_file :: "os \<Rightarrow> path \<Rightarrow> (io_error, unit) io" where
  "remove_file os p = syscall os (\<lambda>t. case t p of
      None \<Rightarrow> Err NotFound
    | Some _ \<Rightarrow> if is_directory t p then Err OtherError else Ok ((), t(p := None)))"

definition read_file :: "os \<Rightarrow> path \<Rightarrow> (io_error, u8 list) io" where
  "read_file os p = query os (\<lambda>t. case t p of
      Some (File b _ _) \<Rightarrow> Ok b
    | Some _ \<Rightarrow> Err OtherError
    | None \<Rightarrow> Err NotFound)"

definition fchown :: "os \<Rightarrow> path \<Rightarrow> uid_gid \<Rightarrow> (io_error, unit) io" where
  "fchown os p owner = syscall os (\<lambda>t. case t p of
      Some (File b m _) \<Rightarrow> Ok ((), t(p \<mapsto> File b m owner))
    | _ \<Rightarrow> Err OtherError)"

text \<open>\<open>create_dir_all\<close>: the missing ancestors from the root down, one call each.\<close>

definition make_dir :: "os \<Rightarrow> path \<Rightarrow> (io_error, unit) io" where
  "make_dir os p = syscall os (\<lambda>t.
     if is_directory t p then Ok ((), t)
     else if t p \<noteq> None then Err AlreadyExists
     else if p \<noteq> [] \<and> \<not> is_directory t (butlast p) then Err NotFound
     else Ok ((), t(p \<mapsto> Directory (and_not 511 (os_umask os)) (os_user os))))"

fun io_each :: "('a \<Rightarrow> ('e, unit) io) \<Rightarrow> 'a list \<Rightarrow> ('e, unit) io" where
  "io_each f [] = io_return ()"
| "io_each f (x # xs) = io_then (f x) (\<lambda>_. io_each f xs)"

definition create_dir_all :: "os \<Rightarrow> path \<Rightarrow> (io_error, unit) io" where
  "create_dir_all os p = io_each (make_dir os) (prefixes p)"

text \<open>\<open>File::open(dir)?.sync_all()\<close>.\<close>

definition sync_directory :: "os \<Rightarrow> path \<Rightarrow> (io_error, unit) io" where
  "sync_directory os p =
     io_then (query os (\<lambda>t. if t p = None then Err NotFound else Ok ())) (\<lambda>_. sync os)"

text \<open>\<open>getrandom::fill\<close> of a buffer of \<open>n\<close> bytes.\<close>

definition random_bytes :: "os \<Rightarrow> nat \<Rightarrow> (io_error, u8 list) io" where
  "random_bytes os n w =
     (and_then (os_random os (w_calls w)) (\<lambda>f. Ok (map f [0..<n])), step_call w)"

section \<open>Rules\<close>

text \<open>
  A contract of an operation: from a tree in \<open>P\<close>, every tree it passes through is in \<open>I\<close>, a result
  leaves a tree in \<open>Q\<close> and an error one in \<open>R\<close>.
\<close>

definition contract ::
  "(tree \<Rightarrow> bool) \<Rightarrow> (tree \<Rightarrow> bool) \<Rightarrow> ('e, 'a) io \<Rightarrow> ('a \<Rightarrow> tree \<Rightarrow> bool) \<Rightarrow> ('e \<Rightarrow> tree \<Rightarrow> bool) \<Rightarrow> bool"
where
  "contract I P m Q R \<longleftrightarrow> (\<forall>w r w'. P (w_tree w) \<longrightarrow> m w = (r, w') \<longrightarrow>
     (\<exists>new. w_trace w' = w_trace w @ new \<and> list_all I new)
     \<and> (case r of Inl e \<Rightarrow> R e (w_tree w') | Inr a \<Rightarrow> Q a (w_tree w')))"

named_theorems contract_rules "contracts of file operations"

lemma contractI:
  assumes "\<And>w r w'. P (w_tree w) \<Longrightarrow> m w = (r, w') \<Longrightarrow> \<exists>new. w_trace w' = w_trace w @ new \<and> list_all I new"
    and "\<And>w e w'. P (w_tree w) \<Longrightarrow> m w = (Inl e, w') \<Longrightarrow> R e (w_tree w')"
    and "\<And>w a w'. P (w_tree w) \<Longrightarrow> m w = (Inr a, w') \<Longrightarrow> Q a (w_tree w')"
  shows "contract I P m Q R"
  using assms unfolding contract_def by (force split: sum.split)

lemma contractD:
  assumes "contract I P m Q R" and "P (w_tree w)" and "m w = (r, w')"
  obtains new where "w_trace w' = w_trace w @ new" "list_all I new"
    "case r of Inl e \<Rightarrow> R e (w_tree w') | Inr a \<Rightarrow> Q a (w_tree w')"
  using assms unfolding contract_def by blast

lemma contract_weaken:
  assumes "contract I P m Q R" and "\<And>t. P' t \<Longrightarrow> P t" and "\<And>a t. Q a t \<Longrightarrow> Q' a t"
    and "\<And>e t. R e t \<Longrightarrow> R' e t" and "\<And>t. I t \<Longrightarrow> I' t"
  shows "contract I' P' m Q' R'"
  unfolding contract_def
proof (intro allI impI)
  fix w r w'
  assume P: "P' (w_tree w)" and m: "m w = (r, w')"
  from contractD [OF assms(1) assms(2) [OF P] m] obtain new where
    "w_trace w' = w_trace w @ new" "list_all I new"
    "case r of Inl e \<Rightarrow> R e (w_tree w') | Inr a \<Rightarrow> Q a (w_tree w')" by blast
  with assms(3-5) show "(\<exists>new. w_trace w' = w_trace w @ new \<and> list_all I' new)
      \<and> (case r of Inl e \<Rightarrow> R' e (w_tree w') | Inr a \<Rightarrow> Q' a (w_tree w'))"
    by (auto simp: list_all_iff split: sum.splits)
qed

lemma contract_vacuous: "(\<And>t. \<not> P t) \<Longrightarrow> contract I P m Q R"
  by (simp add: contract_def)

lemma contract_return: "(\<And>t. P t \<Longrightarrow> Q a t) \<Longrightarrow> contract I P (io_return a) Q R"
  by (rule contractI) (auto simp: io_return_def)

lemma contract_fail: "(\<And>t. P t \<Longrightarrow> R e t) \<Longrightarrow> contract I P (io_fail e) Q R"
  by (rule contractI) (auto simp: io_fail_def)

lemma contract_lift:
  "(\<And>t e. P t \<Longrightarrow> r = Inl e \<Longrightarrow> R e t) \<Longrightarrow> (\<And>t a. P t \<Longrightarrow> r = Inr a \<Longrightarrow> Q a t) \<Longrightarrow> contract I P (io_lift r) Q R"
  by (rule contractI) (auto simp: io_lift_def)

lemma contract_match:
  assumes "contract I P m M N" and "\<And>e. contract I (N e) (g e) Q R" and "\<And>a. contract I (M a) (f a) Q R"
  shows "contract I P (io_match m g f) Q R"
  unfolding contract_def
proof (intro allI impI)
  fix w r w'
  assume P: "P (w_tree w)" and run: "io_match m g f w = (r, w')"
  obtain s v where m: "m w = (s, v)" by fastforce
  from contractD [OF assms(1) P m] obtain new where new: "w_trace v = w_trace w @ new" "list_all I new"
    and mid: "case s of Inl e \<Rightarrow> N e (w_tree v) | Inr a \<Rightarrow> M a (w_tree v)" by blast
  have "(\<exists>new. w_trace w' = w_trace v @ new \<and> list_all I new)
      \<and> (case r of Inl e \<Rightarrow> R e (w_tree w') | Inr a \<Rightarrow> Q a (w_tree w'))"
  proof (cases s)
    case (Inl e)
    then show ?thesis
      using contractD [OF assms(2) [of e], of v r w'] mid run m by (auto simp: io_match_def)
  next
    case (Inr a)
    then show ?thesis
      using contractD [OF assms(3) [of a], of v r w'] mid run m by (auto simp: io_match_def)
  qed
  with new show "(\<exists>new. w_trace w' = w_trace w @ new \<and> list_all I new)
      \<and> (case r of Inl e \<Rightarrow> R e (w_tree w') | Inr a \<Rightarrow> Q a (w_tree w'))"
    by auto
qed

lemma contract_then:
  assumes "contract I P m M R" and "\<And>a. contract I (M a) (f a) Q R"
  shows "contract I P (io_then m f) Q R"
proof -
  have "io_then m f = io_match m io_fail f"
    by (rule ext) (simp add: io_then_def io_match_def io_fail_def split: prod.split sum.split)
  moreover have "contract I P (io_match m io_fail f) Q R"
    by (rule contract_match [OF assms(1)]) (simp_all add: contract_fail assms(2))
  ultimately show ?thesis by simp
qed

lemma contract_map_err:
  assumes "contract I P m Q (\<lambda>e. R (f e))"
  shows "contract I P (io_map_err f m) Q R"
proof -
  have "io_map_err f m = io_match m (\<lambda>e. io_fail (f e)) io_return"
    by (rule ext) (simp add: io_map_err_def io_match_def io_fail_def io_return_def split: prod.split sum.split)
  moreover have "contract I P (io_match m (\<lambda>e. io_fail (f e)) io_return) Q R"
    by (rule contract_match [OF assms]) (simp_all add: contract_fail contract_return)
  ultimately show ?thesis by simp
qed

lemma contract_syscall:
  assumes "\<And>t e. P t \<Longrightarrow> R e t"
    and "\<And>t a t'. P t \<Longrightarrow> f t = Inr (a, t') \<Longrightarrow> I t' \<and> Q a t'"
  shows "contract I P (syscall os f) Q R"
  using assms unfolding contract_def syscall_def step_call_def step_tree_def
  by (auto split: option.splits sum.splits prod.splits)

lemma contract_query:
  assumes "\<And>t. P t \<Longrightarrow> I t" and "\<And>t e. P t \<Longrightarrow> R e t" and "\<And>t a. P t \<Longrightarrow> f t = Inr a \<Longrightarrow> Q a t"
  shows "contract I P (query os f) Q R"
  unfolding query_def
  by (rule contract_syscall) (use assms in \<open>auto simp: and_then_Ok_iff\<close>)

lemma contract_write_all:
  assumes "\<And>t. P t \<Longrightarrow> I (append_bytes p bs t) \<and> Q () (append_bytes p bs t)"
    and "\<And>t e k. P t \<Longrightarrow> I (append_bytes p (take k bs) t) \<and> R e (append_bytes p (take k bs) t)"
  shows "contract I P (write_all os p bs) Q R"
  using assms unfolding contract_def write_all_def step_tree_def by (auto split: option.splits)

lemma contract_random:
  assumes "\<And>t e. P t \<Longrightarrow> R e t" and "\<And>t a. P t \<Longrightarrow> length a = n \<Longrightarrow> Q a t"
  shows "contract I P (random_bytes os n) Q R"
  using assms unfolding contract_def random_bytes_def step_call_def
  by (auto simp: and_then_Ok_iff split: sum.splits)

lemma contract_each:
  assumes "\<And>x. x \<in> set xs \<Longrightarrow> contract I P (f x) (\<lambda>_. P) R"
  shows "contract I P (io_each f xs) (\<lambda>_. P) R"
  using assms by (induction xs) (auto intro: contract_return contract_then)

text \<open>A condition that an operation keeps, whatever happens.\<close>

definition preserves :: "(tree \<Rightarrow> bool) \<Rightarrow> ('e, 'a) io \<Rightarrow> bool" where
  "preserves K m \<longleftrightarrow> contract K K m (\<lambda>_. K) (\<lambda>_. K)"

lemma preserves_return: "preserves K (io_return a)"
  by (simp add: preserves_def contract_return)

lemma preserves_fail: "preserves K (io_fail e)"
  by (simp add: preserves_def contract_fail)

lemma preserves_lift: "preserves K (io_lift r)"
  by (simp add: preserves_def contract_lift)

lemma preserves_match: "preserves K m \<Longrightarrow> (\<And>e. preserves K (g e)) \<Longrightarrow> (\<And>a. preserves K (f a)) \<Longrightarrow> preserves K (io_match m g f)"
  unfolding preserves_def by (rule contract_match)

lemma preserves_then: "preserves K m \<Longrightarrow> (\<And>a. preserves K (f a)) \<Longrightarrow> preserves K (io_then m f)"
  unfolding preserves_def by (rule contract_then)

lemma preserves_map_err: "preserves K m \<Longrightarrow> preserves K (io_map_err f m)"
  unfolding preserves_def by (rule contract_map_err)

lemma preserves_each: "(\<And>x. x \<in> set xs \<Longrightarrow> preserves K (f x)) \<Longrightarrow> preserves K (io_each f xs)"
  unfolding preserves_def by (rule contract_each)

lemma preserves_query: "preserves K (query os f)"
  unfolding preserves_def by (rule contract_query) auto

lemma preserves_syscall:
  "(\<And>t a t'. K t \<Longrightarrow> f t = Inr (a, t') \<Longrightarrow> K t') \<Longrightarrow> preserves K (syscall os f)"
  unfolding preserves_def by (rule contract_syscall) auto

lemma preserves_metadata: "preserves K (symlink_metadata os p)"
  unfolding symlink_metadata_def by (rule preserves_query)

lemmas preserves_intros = preserves_return preserves_fail preserves_lift preserves_match preserves_then
  preserves_map_err preserves_each preserves_query preserves_metadata

end
