(* ===== verification/Private_Fs.thy ===== *)
theory Private_Fs
  imports Files
begin

text \<open>
  Owner-only files, \<open>crates/private-fs/src/lib.rs\<close>, its Unix half: modes 0700 and 0600 (448 and 384),
  files written to a temporary name and renamed into place. A path component is valid UTF-8 and no
  path ends in \<open>..\<close>, so \<open>file_name\<close> and \<open>parent\<close> fail only on the root.
\<close>

datatype private_kind = PrivateDirectory | PrivateFile

definition is_link :: "node \<Rightarrow> bool" where
  "is_link n \<longleftrightarrow> (case n of Link \<Rightarrow> True | _ \<Rightarrow> False)"

definition is_dir :: "node \<Rightarrow> bool" where
  "is_dir n \<longleftrightarrow> (case n of Directory _ _ \<Rightarrow> True | _ \<Rightarrow> False)"

definition is_file :: "node \<Rightarrow> bool" where
  "is_file n \<longleftrightarrow> (case n of File _ _ _ \<Rightarrow> True | _ \<Rightarrow> False)"

definition harden_path :: "os \<Rightarrow> path \<Rightarrow> (io_error, unit) io" where
  "harden_path os p = io_then (symlink_metadata os p)
     (\<lambda>n. set_permissions os p (if is_dir n then 448 else 384))"

fun expected_mode :: "private_kind \<Rightarrow> u32" where
  "expected_mode PrivateDirectory = 448"
| "expected_mode PrivateFile = 384"

definition verify_platform_private :: "node \<Rightarrow> private_kind \<Rightarrow> io_error + unit" where
  "verify_platform_private n kind = ensure (Bit_Operations.and (mode_of n) 511 = expected_mode kind) PermissionDenied"

definition verify_private_dir :: "os \<Rightarrow> path \<Rightarrow> (io_error, unit) io" where
  "verify_private_dir os p = io_then (symlink_metadata os p) (\<lambda>n.
     if is_link n \<or> \<not> is_dir n then io_fail InvalidInput
     else io_lift (verify_platform_private n PrivateDirectory))"

definition verify_private_file :: "os \<Rightarrow> path \<Rightarrow> (io_error, unit) io" where
  "verify_private_file os p = io_then (symlink_metadata os p) (\<lambda>n.
     if is_link n \<or> \<not> is_file n then io_fail InvalidInput
     else io_lift (verify_platform_private n PrivateFile))"

definition ensure_private_dir :: "os \<Rightarrow> path \<Rightarrow> (io_error, unit) io" where
  "ensure_private_dir os p = io_then
     (io_match (symlink_metadata os p)
        (\<lambda>e. if e = NotFound then create_dir_all os p else io_fail e)
        (\<lambda>n. if is_link n \<or> \<not> is_dir n then io_fail InvalidInput else io_return ()))
     (\<lambda>_. io_then (harden_path os p) (\<lambda>_. verify_private_dir os p))"

definition harden_private_file :: "os \<Rightarrow> path \<Rightarrow> (io_error, unit) io" where
  "harden_private_file os p = io_then (symlink_metadata os p) (\<lambda>n.
     if is_link n \<or> \<not> is_file n then io_fail InvalidInput
     else io_then (harden_path os p) (\<lambda>_. verify_private_file os p))"

definition ensure_real_parent_dir :: "os \<Rightarrow> path \<Rightarrow> (io_error, unit) io" where
  "ensure_real_parent_dir os p = io_match (symlink_metadata os p)
     (\<lambda>e. if e = NotFound then ensure_private_dir os p else io_fail e)
     (\<lambda>n. if is_link n \<or> \<not> is_dir n then io_fail InvalidInput else io_return ())"

definition create_new_private :: "os \<Rightarrow> path \<Rightarrow> (io_error, unit) io" where
  "create_new_private os p = open_new os p 384"

definition path_parent :: "path \<Rightarrow> path option" where
  "path_parent p = (if p = [] then None else Some (butlast p))"

definition with_file_name :: "path \<Rightarrow> string \<Rightarrow> path" where
  "with_file_name p n = butlast p @ [n]"

text \<open>
  \<open>Path::exists\<close> follows links, and the tree does not say where a link leads: a link counts as a file
  that is there. At a candidate name it counts as taken. The code would take a dangling link's name as free, fail to create the
  file there (\<open>create_new\<close> does not follow links either) and remove the link on its way out; such a link
  would have to be made at one of the random names while the loop runs.
\<close>

definition path_exists :: "path \<Rightarrow> ('e, bool) io" where
  "path_exists p w = (Ok (w_tree w p \<noteq> None), w)"

definition hex_digit :: "nat \<Rightarrow> char" where
  "hex_digit n = (if n < 10 then char_of (48 + n) else char_of (87 + n))"

definition hex_text :: "u8 list \<Rightarrow> string" where
  "hex_text bs = concat (map (\<lambda>b. [hex_digit (unat b div 16), hex_digit (unat b mod 16)]) bs)"

text \<open>The tries that are left of the sixteen.\<close>

fun allocate_temporary :: "os \<Rightarrow> (string \<Rightarrow> path) \<Rightarrow> nat \<Rightarrow> (io_error, path) io" where
  "allocate_temporary os candidate 0 = io_fail AlreadyExists"
| "allocate_temporary os candidate (Suc tries) =
     io_then (random_bytes os 12) (\<lambda>random.
       let p = candidate (hex_text random) in
       io_then (path_exists p) (\<lambda>taken. if taken then allocate_temporary os candidate tries else io_return p))"

definition unique_temporary_path :: "os \<Rightarrow> path \<Rightarrow> (io_error, path) io" where
  "unique_temporary_path os p =
     (if p = [] then io_fail InvalidInput
      else allocate_temporary os
        (\<lambda>suffix. with_file_name p (''.'' @ last p @ ''.'' @ suffix @ ''.tmp'')) 16)"

definition sync_parent :: "os \<Rightarrow> path \<Rightarrow> (io_error, unit) io" where
  "sync_parent os p = sync_directory os p"

text \<open>\<open>remove_file(\<dots>).ok()\<close> on the way out of a failure.\<close>

definition clean_up :: "os \<Rightarrow> path \<Rightarrow> ('e, 'a) io \<Rightarrow> ('e, 'a) io" where
  "clean_up os p m = io_match m
     (\<lambda>e. io_match (remove_file os p) (\<lambda>_. io_fail e) (\<lambda>_. io_fail e)) io_return"

definition create_private_file :: "os \<Rightarrow> path \<Rightarrow> u8 list \<Rightarrow> (io_error, bool) io" where
  "create_private_file os p bytes = (case path_parent p of
      None \<Rightarrow> io_fail InvalidInput
    | Some parent \<Rightarrow>
        io_then (ensure_real_parent_dir os parent) (\<lambda>_.
          io_match (create_new_private os p)
            (\<lambda>e. if e = AlreadyExists then io_then (verify_private_file os p) (\<lambda>_. io_return False)
                 else io_fail e)
            (\<lambda>_. clean_up os p
               (io_then (harden_private_file os p) (\<lambda>_.
                io_then (write_all os p bytes) (\<lambda>_.
                io_then (sync os) (\<lambda>_.
                io_then (sync os) (\<lambda>_.
                io_then (verify_private_file os p) (\<lambda>_.
                io_then (sync_parent os parent) (\<lambda>_. io_return True)))))))))) "

definition write_atomic_private :: "os \<Rightarrow> path \<Rightarrow> u8 list \<Rightarrow> (io_error, unit) io" where
  "write_atomic_private os p bytes = (case path_parent p of
      None \<Rightarrow> io_fail InvalidInput
    | Some parent \<Rightarrow>
        io_then (ensure_real_parent_dir os parent) (\<lambda>_.
        io_then (io_match (symlink_metadata os p)
            (\<lambda>e. if e = NotFound then io_return () else io_fail e)
            (\<lambda>_. harden_private_file os p)) (\<lambda>_.
        io_then (unique_temporary_path os p) (\<lambda>temporary.
          clean_up os temporary
            (io_then (create_new_private os temporary) (\<lambda>_.
             io_then (verify_private_file os temporary) (\<lambda>_.
             io_then (write_all os temporary bytes) (\<lambda>_.
             io_then (sync os) (\<lambda>_.
             io_then (sync os) (\<lambda>_.
             io_then (harden_private_file os temporary) (\<lambda>_.
             io_then (rename os temporary p) (\<lambda>_.
             io_then (verify_private_file os p) (\<lambda>_. sync_parent os parent)))))))))))))"

section \<open>Contracts\<close>

lemma contract_symlink_metadata:
  assumes "\<And>t. P t \<Longrightarrow> I t" and "\<And>t e. P t \<Longrightarrow> R e t" and "\<And>t n. P t \<Longrightarrow> t p = Some n \<Longrightarrow> Q n t"
  shows "contract I P (symlink_metadata os p) Q R"
  unfolding symlink_metadata_def
  by (rule contract_query) (use assms in \<open>auto split: option.splits\<close>)

lemma contract_sync:
  assumes "\<And>t. P t \<Longrightarrow> I t" and "\<And>t e. P t \<Longrightarrow> R e t" and "\<And>t. P t \<Longrightarrow> Q () t"
  shows "contract I P (sync os) Q R"
  unfolding sync_def by (rule contract_query) (use assms in auto)

lemma contract_sync_parent:
  assumes "\<And>t. P t \<Longrightarrow> I t" and "\<And>t e. P t \<Longrightarrow> R e t" and "\<And>t. P t \<Longrightarrow> Q () t"
  shows "contract I P (sync_parent os p) Q R"
  unfolding sync_parent_def sync_directory_def
  by (rule contract_then [where M = "\<lambda>_. P"])
    (auto intro!: contract_query contract_sync assms split: if_splits)

text \<open>Checking changes nothing.\<close>

lemma contract_verify_private_file:
  assumes "\<And>t. P t \<Longrightarrow> I t" and "\<And>t e. P t \<Longrightarrow> R e t"
    and "\<And>t b m owner. P t \<Longrightarrow> t p = Some (File b m owner) \<Longrightarrow> Bit_Operations.and m 511 = 384 \<Longrightarrow> Q () t"
  shows "contract I P (verify_private_file os p) Q R"
  unfolding verify_private_file_def
proof (rule contract_then [where M = "\<lambda>n t. P t \<and> t p = Some n"])
  show "contract I P (symlink_metadata os p) (\<lambda>n t. P t \<and> t p = Some n) R"
    by (rule contract_symlink_metadata) (use assms in auto)
  fix n show "contract I (\<lambda>t. P t \<and> t p = Some n)
      (if is_link n \<or> \<not> is_file n then io_fail InvalidInput
       else io_lift (verify_platform_private n PrivateFile)) Q R"
    using assms(2,3)
    by (cases n) (auto simp: is_link_def is_file_def verify_platform_private_def ensure_def
        intro!: contract_fail contract_lift split: if_splits)
qed

lemma contract_harden_private_file:
  assumes "\<And>t. P t \<Longrightarrow> I t" and "\<And>t e. P t \<Longrightarrow> R e t"
    and "\<And>t b m owner. P t \<Longrightarrow> t p = Some (File b m owner) \<Longrightarrow>
      I (t(p \<mapsto> File b 384 owner)) \<and> Q () (t(p \<mapsto> File b 384 owner)) \<and> (\<forall>e. R e (t(p \<mapsto> File b 384 owner)))"
  shows "contract I P (harden_private_file os p) Q R"
proof -
  let ?H = "\<lambda>t'. \<exists>t b m owner. P t \<and> t p = Some (File b m owner) \<and> t' = t(p \<mapsto> File b 384 owner)"
  have perm: "contract I (\<lambda>t. P t \<and> (\<exists>b m owner. t p = Some (File b m owner)))
      (harden_path os p) (\<lambda>_. ?H) R"
    unfolding harden_path_def
  proof (rule contract_then [where M = "\<lambda>n t. P t \<and> is_file n \<and> t p = Some n"])
    show "contract I (\<lambda>t. P t \<and> (\<exists>b m owner. t p = Some (File b m owner))) (symlink_metadata os p)
        (\<lambda>n t. P t \<and> is_file n \<and> t p = Some n) R"
      by (rule contract_symlink_metadata) (use assms in \<open>auto simp: is_file_def\<close>)
    fix n show "contract I (\<lambda>t. P t \<and> is_file n \<and> t p = Some n)
        (set_permissions os p (if is_dir n then 448 else 384)) (\<lambda>_. ?H) R"
      unfolding set_permissions_def
      by (rule contract_syscall)
        (use assms in \<open>auto simp: is_file_def is_dir_def split: node.splits\<close>, (fastforce+)?)
  qed
  show ?thesis
    unfolding harden_private_file_def
  proof (rule contract_then [where M = "\<lambda>n t. P t \<and> t p = Some n"])
    show "contract I P (symlink_metadata os p) (\<lambda>n t. P t \<and> t p = Some n) R"
      by (rule contract_symlink_metadata) (use assms in auto)
    fix n
    have "contract I (\<lambda>t. P t \<and> t p = Some n) (io_then (harden_path os p) (\<lambda>_. verify_private_file os p)) Q R"
      if "is_file n"
    proof (rule contract_then)
      show "contract I (\<lambda>t. P t \<and> t p = Some n) (harden_path os p) (\<lambda>_. ?H) R"
        by (rule contract_weaken [OF perm]) (use that in \<open>auto simp: is_file_def split: node.splits\<close>)
      show "contract I ?H (verify_private_file os p) Q R" for a :: unit
        by (rule contract_verify_private_file) (use assms(3) in blast)+
    qed
    then show "contract I (\<lambda>t. P t \<and> t p = Some n)
        (if is_link n \<or> \<not> is_file n then io_fail InvalidInput
         else io_then (harden_path os p) (\<lambda>_. verify_private_file os p)) Q R"
      using assms(2) by (auto intro: contract_fail)
  qed
qed

section \<open>What a write may leave behind\<close>

text \<open>A system call reports that a name is free, or taken, only when it is.\<close>

definition os_ok :: "os \<Rightarrow> bool" where
  "os_ok os \<longleftrightarrow> (\<forall>n. os_fault os n \<noteq> Some NotFound \<and> os_fault os n \<noteq> Some AlreadyExists)"

definition owner_only :: "u32 \<Rightarrow> bool" where
  "owner_only m \<longleftrightarrow> Bit_Operations.and m 63 = 0"

lemma owner_only_created: "owner_only (and_not 384 u)"
proof -
  have "Bit_Operations.and (and_not 384 u) 63 = Bit_Operations.and (Bit_Operations.and (384 :: u32) 63) (Bit_Operations.not u)"
    by (simp only: and_not_def and.assoc and.commute and.left_commute)
  then show ?thesis by (simp add: owner_only_def)
qed

lemma owner_only_384 [simp]: "owner_only 384"
  by (simp add: owner_only_def)

lemma owner_only_verified: "Bit_Operations.and m 511 = 384 \<Longrightarrow> owner_only m"
proof -
  assume m: "Bit_Operations.and m 511 = (384 :: u32)"
  have "Bit_Operations.and m 63 = Bit_Operations.and (Bit_Operations.and m 511) (63 :: u32)"
    by (simp add: and.assoc)
  with m show ?thesis by (simp add: owner_only_def)
qed

text \<open>Missing directories above the file have been created, nothing else has changed.\<close>

definition only_new_dirs :: "path \<Rightarrow> tree \<Rightarrow> tree \<Rightarrow> bool" where
  "only_new_dirs p t0 t \<longleftrightarrow> (\<forall>q. t q = t0 q
     \<or> t0 q = None \<and> prefix q (butlast p) \<and> (\<exists>n. t q = Some n \<and> is_dir n))"

lemma only_new_dirs_refl [simp]: "only_new_dirs p t t"
  by (simp add: only_new_dirs_def)

lemma only_new_dirs_free: "only_new_dirs p t0 t \<Longrightarrow> t q = None \<Longrightarrow> t0 q = None"
  unfolding only_new_dirs_def by (metis option.distinct(1))

lemma only_new_dirs_node: "only_new_dirs p t0 t \<Longrightarrow> t0 q = None \<Longrightarrow> t q = Some n \<Longrightarrow> is_dir n"
  unfolding only_new_dirs_def by (metis option.distinct(1) option.inject)

lemma only_new_dirs_put:
  "only_new_dirs p t0 t \<Longrightarrow> t0 q = None \<Longrightarrow> prefix q (butlast p) \<Longrightarrow> is_dir n \<Longrightarrow>
    only_new_dirs p t0 (t(q \<mapsto> n))"
  by (simp add: only_new_dirs_def)

text \<open>The file is the old one, perhaps with a stricter mode.\<close>

definition old_file :: "path \<Rightarrow> tree \<Rightarrow> tree \<Rightarrow> bool" where
  "old_file p t0 t \<longleftrightarrow> t p = t0 p
     \<or> (\<exists>b m owner. t0 p = Some (File b m owner) \<and> t p = Some (File b 384 owner))"

definition untouched :: "path \<Rightarrow> tree \<Rightarrow> tree \<Rightarrow> bool" where
  "untouched p t0 t \<longleftrightarrow> old_file p t0 t \<and> only_new_dirs p t0 (t(p := t0 p))"

lemma untouched_refl: "untouched p t t"
  by (simp add: untouched_def old_file_def only_new_dirs_def)

lemma butlast_not_prefix: "p \<noteq> [] \<Longrightarrow> \<not> prefix p (butlast p)"
  by (metis append_butlast_last_id length_append_singleton lessI not_le prefix_length_le)

lemma only_new_dirs_untouched: "p \<noteq> [] \<Longrightarrow> only_new_dirs p t0 t \<Longrightarrow> untouched p t0 t"
  using butlast_not_prefix [of p] by (auto simp: untouched_def old_file_def only_new_dirs_def)

lemma contract_metadata_found:
  assumes "os_ok os" and "\<And>t. P t \<Longrightarrow> I t" and "\<And>t e. P t \<Longrightarrow> (e = NotFound \<Longrightarrow> t p = None) \<Longrightarrow> R e t"
    and "\<And>t n. P t \<Longrightarrow> t p = Some n \<Longrightarrow> Q n t"
  shows "contract I P (symlink_metadata os p) Q R"
  using assms(2-4) assms(1) [unfolded os_ok_def]
  unfolding contract_def symlink_metadata_def query_def syscall_def
  by (auto simp: step_call_def step_tree_def split: option.splits) (metis assms(3))

lemma contract_make_dir:
  assumes "prefix q (butlast p)"
  shows "contract (only_new_dirs p t0) (only_new_dirs p t0) (make_dir os q) (\<lambda>_. only_new_dirs p t0)
    (\<lambda>_. only_new_dirs p t0)"
  unfolding make_dir_def
  by (rule contract_syscall)
    (use assms in \<open>auto simp: is_dir_def intro: only_new_dirs_put dest: only_new_dirs_free split: if_splits\<close>)

lemma contract_ensure_private_dir:
  assumes "os_ok os" and "t0 (butlast p) = None"
  shows "contract (only_new_dirs p t0) (\<lambda>t. t = t0) (ensure_private_dir os (butlast p))
    (\<lambda>_. only_new_dirs p t0) (\<lambda>_. only_new_dirs p t0)"
proof -
  let ?D = "only_new_dirs p t0"
  have start: "?D t0" by (simp add: only_new_dirs_def)
  have found: "contract ?D (\<lambda>t. t = t0) (symlink_metadata os (butlast p)) (\<lambda>_ _. False)
      (\<lambda>e t. t = t0)"
    by (rule contract_symlink_metadata) (use assms start in auto)
  have created: "contract ?D (\<lambda>t. t = t0) (create_dir_all os (butlast p)) (\<lambda>_. ?D) (\<lambda>_. ?D)"
    unfolding create_dir_all_def
    by (rule contract_weaken [OF contract_each [where P = ?D and R = "\<lambda>_. ?D" and I = ?D]])
      (use start in \<open>auto intro: contract_make_dir simp: in_set_prefixes\<close>)
  have harden: "contract ?D ?D (harden_path os (butlast p)) (\<lambda>_. ?D) (\<lambda>_. ?D)"
    unfolding harden_path_def set_permissions_def
  proof (rule contract_then [where M = "\<lambda>_. ?D"])
    have dir: "?D (t(butlast p \<mapsto> Directory m owner))" if "?D t" for t m owner
      using that assms(2) by (intro only_new_dirs_put) (simp_all add: is_dir_def)
    have "\<not> (?D t \<and> t (butlast p) = Some (File b m owner))" for t b m owner
      using only_new_dirs_node [of p t0 t "butlast p"] assms(2) by (auto simp: is_dir_def)
    with dir show "contract ?D ?D (syscall os (\<lambda>t. case t (butlast p) of
        Some (File b _ owner) \<Rightarrow> Ok ((), t(butlast p \<mapsto> File b (if is_dir n then 448 else 384) owner))
      | Some (Directory _ owner) \<Rightarrow> Ok ((), t(butlast p \<mapsto> Directory (if is_dir n then 448 else 384) owner))
      | Some _ \<Rightarrow> Err OtherError | None \<Rightarrow> Err NotFound)) (\<lambda>_. ?D) (\<lambda>_. ?D)" for n
      by (intro contract_syscall) (auto split: option.splits node.splits)
  qed (auto intro: contract_symlink_metadata)
  show ?thesis
    unfolding ensure_private_dir_def
  proof (rule contract_then [where M = "\<lambda>_. ?D"])
    show "contract ?D (\<lambda>t. t = t0) (io_match (symlink_metadata os (butlast p))
        (\<lambda>e. if e = NotFound then create_dir_all os (butlast p) else io_fail e)
        (\<lambda>n. if is_link n \<or> \<not> is_dir n then io_fail InvalidInput else io_return ())) (\<lambda>_. ?D) (\<lambda>_. ?D)"
      by (rule contract_match [OF found])
        (auto intro!: created contract_fail contract_return simp: start)
    show "contract ?D ?D (io_then (harden_path os (butlast p)) (\<lambda>_. verify_private_dir os (butlast p)))
        (\<lambda>_. ?D) (\<lambda>_. ?D)" for a :: unit
      by (rule contract_then [OF harden], unfold verify_private_dir_def,
          rule contract_then [where M = "\<lambda>_. ?D"])
        (auto intro!: contract_symlink_metadata contract_fail contract_lift)
  qed
qed

lemma contract_ensure_real_parent_dir:
  assumes "os_ok os"
  shows "contract (only_new_dirs p t0) (\<lambda>t. t = t0) (ensure_real_parent_dir os (butlast p))
    (\<lambda>_. only_new_dirs p t0) (\<lambda>_. only_new_dirs p t0)"
  unfolding ensure_real_parent_dir_def
proof (rule contract_match)
  let ?D = "only_new_dirs p t0"
  have start: "?D t0" by (simp add: only_new_dirs_def)
  show "contract ?D (\<lambda>t. t = t0) (symlink_metadata os (butlast p)) (\<lambda>_ t. t = t0)
      (\<lambda>e t. t = t0 \<and> (e = NotFound \<longrightarrow> t0 (butlast p) = None))"
    by (rule contract_metadata_found [OF assms]) (use start in auto)
  fix e
  show "contract ?D (\<lambda>t. t = t0 \<and> (e = NotFound \<longrightarrow> t0 (butlast p) = None))
      (if e = NotFound then ensure_private_dir os (butlast p) else io_fail e) (\<lambda>_. ?D) (\<lambda>_. ?D)"
  proof (cases "e = NotFound \<and> t0 (butlast p) = None")
    case True
    then show ?thesis by (auto intro: contract_weaken [OF contract_ensure_private_dir [OF assms]])
  next
    case False
    then have "e \<noteq> NotFound \<or> (\<forall>t. \<not> (t = t0 \<and> (e = NotFound \<longrightarrow> t0 (butlast p) = None)))" by auto
    then show ?thesis by (auto intro: contract_fail simp: start) (auto simp: contract_def)
  qed
next
  fix n
  show "contract (only_new_dirs p t0) (\<lambda>t. t = t0)
      (if is_link n \<or> \<not> is_dir n then io_fail InvalidInput else io_return ())
      (\<lambda>_. only_new_dirs p t0) (\<lambda>_. only_new_dirs p t0)"
    by (auto intro!: contract_fail contract_return simp: only_new_dirs_def)
qed

text \<open>
  The trees a replacement of the file at \<open>p\<close> by \<open>bytes\<close> may pass through: the file is the old one or
  the whole new one, and any other file is a sibling with a prefix of the bytes that only the owner
  can read.
\<close>

definition private_draft :: "u8 list \<Rightarrow> node \<Rightarrow> bool" where
  "private_draft bytes n \<longleftrightarrow> (\<exists>k m owner. n = File (take k bytes) m owner \<and> owner_only m)"

definition replacing :: "path \<Rightarrow> u8 list \<Rightarrow> uid_gid \<Rightarrow> tree \<Rightarrow> tree \<Rightarrow> bool" where
  "replacing p bytes user t0 t \<longleftrightarrow>
     (old_file p t0 t \<or> t p = Some (File bytes 384 user))
     \<and> (\<forall>q. q \<noteq> p \<longrightarrow> t q = t0 q \<or> t0 q = None \<and> (\<exists>n. t q = Some n
          \<and> (prefix q (butlast p) \<and> is_dir n \<or> butlast q = butlast p \<and> private_draft bytes n)))"

text \<open>The same with the temporary file and the directories named.\<close>

definition draft_at :: "path \<Rightarrow> path \<Rightarrow> tree \<Rightarrow> node \<Rightarrow> tree \<Rightarrow> bool" where
  "draft_at p tmp t0 n t \<longleftrightarrow> (\<exists>t1. untouched p t0 t1 \<and> t1 tmp = None \<and> t = t1(tmp \<mapsto> n))"

definition replaced :: "path \<Rightarrow> u8 list \<Rightarrow> uid_gid \<Rightarrow> tree \<Rightarrow> tree \<Rightarrow> bool" where
  "replaced p bytes user t0 t \<longleftrightarrow> t p = Some (File bytes 384 user) \<and> only_new_dirs p t0 (t(p := t0 p))"

lemma untouched_free: "untouched p t0 t \<Longrightarrow> q \<noteq> p \<Longrightarrow> t q = None \<Longrightarrow> t0 q = None"
  using only_new_dirs_free [of p t0 "t(p := t0 p)" q] by (simp add: untouched_def)

lemma untouched_replacing: "untouched p t0 t \<Longrightarrow> replacing p bytes user t0 t"
  unfolding untouched_def replacing_def only_new_dirs_def by (metis fun_upd_other)

lemma replaced_replacing: "replaced p bytes user t0 t \<Longrightarrow> replacing p bytes user t0 t"
  unfolding replaced_def replacing_def only_new_dirs_def by (metis fun_upd_other)

lemma draft_replacing:
  assumes "draft_at p tmp t0 n t" and "tmp \<noteq> p" and "butlast tmp = butlast p" and "private_draft bytes n"
  shows "replacing p bytes user t0 t"
proof -
  obtain t1 where t1: "untouched p t0 t1" "t1 tmp = None" "t = t1(tmp \<mapsto> n)"
    using assms(1) by (auto simp: draft_at_def)
  have "t0 tmp = None" using untouched_free [OF t1(1) assms(2) t1(2)] .
  with untouched_replacing [OF t1(1), of bytes user] show ?thesis
    using assms(2-4) t1(3) by (auto simp: replacing_def old_file_def)
qed

lemma draft_get: "draft_at p tmp t0 n t \<Longrightarrow> t tmp = Some n"
  by (auto simp: draft_at_def)

lemma draft_put: "draft_at p tmp t0 n t \<Longrightarrow> draft_at p tmp t0 n' (t(tmp \<mapsto> n'))"
  by (auto simp: draft_at_def)

lemma draft_remove: "draft_at p tmp t0 n t \<Longrightarrow> untouched p t0 (t(tmp := None))"
  by (auto simp: draft_at_def) (metis fun_upd_triv)

lemma draft_rename:
  assumes "draft_at p tmp t0 (File bytes 384 user) t" and "tmp \<noteq> p"
  shows "replaced p bytes user t0 (t(tmp := None, p \<mapsto> File bytes 384 user))"
proof -
  obtain t1 where t1: "untouched p t0 t1" "t1 tmp = None" "t = t1(tmp \<mapsto> File bytes 384 user)"
    using assms(1) by (auto simp: draft_at_def)
  then have "(t(tmp := None, p \<mapsto> File bytes 384 user)) = t1(p \<mapsto> File bytes 384 user)"
    using fun_upd_triv [of t1 tmp] by auto
  with t1(1) show ?thesis by (simp add: replaced_def untouched_def)
qed

section \<open>Atomic replacement\<close>

lemma hex_text_length: "length (hex_text bs) = 2 * length bs"
  by (simp add: hex_text_def length_concat comp_def sum_list_triv)

lemma contract_allocate:
  assumes "\<And>t. P t \<Longrightarrow> I t" and "\<And>t e. P t \<Longrightarrow> R e t"
  shows "contract I P (allocate_temporary os candidate tries)
    (\<lambda>q t. P t \<and> t q = None \<and> q \<in> range candidate) R"
proof (induction tries)
  case (Suc tries)
  have ask: "contract I P (path_exists q) (\<lambda>taken t. P t \<and> (\<not> taken \<longrightarrow> t q = None)) R" for q
    by (auto simp: contract_def path_exists_def)
  show ?case
    unfolding allocate_temporary.simps Let_def
    by (rule contract_then [OF contract_random [where Q = "\<lambda>_. P"]], simp_all add: assms(2))
      (rule contract_then [OF ask], auto intro!: contract_return contract_weaken [OF Suc.IH])
qed (auto intro: contract_fail assms(2))

lemma contract_unique_temporary:
  assumes "p \<noteq> []" and "\<And>t. P t \<Longrightarrow> I t" and "\<And>t e. P t \<Longrightarrow> R e t"
  shows "contract I P (unique_temporary_path os p)
    (\<lambda>q t. P t \<and> t q = None \<and> q \<noteq> p \<and> butlast q = butlast p) R"
proof -
  let ?c = "\<lambda>suffix. with_file_name p (''.'' @ last p @ ''.'' @ suffix @ ''.tmp'')"
  have "?c s \<noteq> p \<and> butlast (?c s) = butlast p" for s
  proof -
    have "length (last (?c s)) > length (last p)" by (simp add: with_file_name_def)
    then have "?c s \<noteq> p" by force
    then show ?thesis by (simp add: with_file_name_def)
  qed
  then show ?thesis
    unfolding unique_temporary_path_def using assms(1)
    by (auto intro!: contract_weaken [OF contract_allocate [where P = P and I = I and R = R]] assms(2,3))
qed

text \<open>The part of a write that has its temporary file.\<close>

definition fill_and_rename :: "os \<Rightarrow> path \<Rightarrow> path \<Rightarrow> path \<Rightarrow> u8 list \<Rightarrow> (io_error, unit) io" where
  "fill_and_rename os parent p temporary bytes =
     io_then (create_new_private os temporary) (\<lambda>_.
     io_then (verify_private_file os temporary) (\<lambda>_.
     io_then (write_all os temporary bytes) (\<lambda>_.
     io_then (sync os) (\<lambda>_.
     io_then (sync os) (\<lambda>_.
     io_then (harden_private_file os temporary) (\<lambda>_.
     io_then (rename os temporary p) (\<lambda>_.
     io_then (verify_private_file os p) (\<lambda>_. sync_parent os parent))))))))"

text \<open>Where it may stop: before the temporary file, with a draft of it, or after the replacement.\<close>

definition stopped :: "path \<Rightarrow> path \<Rightarrow> u8 list \<Rightarrow> uid_gid \<Rightarrow> tree \<Rightarrow> tree \<Rightarrow> bool" where
  "stopped p tmp bytes user t0 t \<longleftrightarrow> untouched p t0 t \<and> t tmp = None
     \<or> (\<exists>n. draft_at p tmp t0 n t \<and> private_draft bytes n) \<or> replaced p bytes user t0 t"

lemma stopped_replacing:
  assumes "stopped p tmp bytes user t0 t" and "tmp \<noteq> p" and "butlast tmp = butlast p"
  shows "replacing p bytes user t0 t"
  using assms untouched_replacing replaced_replacing draft_replacing unfolding stopped_def by blast

lemma contract_fill_and_rename:
  assumes p: "tmp \<noteq> p" "butlast tmp = butlast p"
  shows "contract (replacing p bytes (os_user os) t0) (\<lambda>t. untouched p t0 t \<and> t tmp = None)
    (fill_and_rename os parent p tmp bytes) (\<lambda>_. replaced p bytes (os_user os) t0)
    (\<lambda>_. stopped p tmp bytes (os_user os) t0)"
proof -
  let ?I = "replacing p bytes (os_user os) t0"
  let ?R = "\<lambda>_ :: io_error. stopped p tmp bytes (os_user os) t0"
  let ?draft = "\<lambda>k t. \<exists>m. draft_at p tmp t0 (File (take k bytes) m (os_user os)) t \<and> owner_only m"
  let ?full = "?draft (length bytes)"
  let ?done = "replaced p bytes (os_user os) t0"
  have I: "?I t" if "?R e t" for e t using stopped_replacing that p by blast
  have draft: "?R e t" if "?draft k t" for e k t
    using that unfolding stopped_def private_draft_def by blast
  have finished: "?R e t" if "?done t" for e t using that by (simp add: stopped_def)
  have "contract ?I (\<lambda>t. untouched p t0 t \<and> t tmp = None) (create_new_private os tmp) (\<lambda>_. ?draft 0) ?R"
    unfolding create_new_private_def open_new_def
  proof (rule contract_syscall)
    fix t e assume t: "untouched p t0 t \<and> t tmp = None"
    then show "?R e t" by (simp add: stopped_def)
    fix a t' assume "(if tmp = [] \<or> \<not> is_directory t (butlast tmp) then Err NotFound
        else if t tmp \<noteq> None then Err AlreadyExists
        else Ok ((), t(tmp \<mapsto> File [] (and_not 384 (os_umask os)) (os_user os)))) = Inr (a, t')"
    then have "t' = t(tmp \<mapsto> File [] (and_not 384 (os_umask os)) (os_user os))" by (auto split: if_splits)
    then have "?draft 0 t'" using t owner_only_created by (auto simp: draft_at_def)
    then show "?I t' \<and> ?draft 0 t'" using I draft by blast
  qed
  moreover have "contract ?I (?draft 0) (verify_private_file os tmp) (\<lambda>_. ?draft 0) ?R"
    by (rule contract_verify_private_file) (use I draft in blast)+
  moreover have "contract ?I (?draft 0) (write_all os tmp bytes) (\<lambda>_. ?full) ?R"
  proof (rule contract_write_all)
    have app: "?draft k (append_bytes tmp (take k bytes) t)" if "?draft 0 t" for t k
      using that draft_put by (fastforce simp: append_bytes_def dest: draft_get)
    fix t assume "?draft 0 t"
    with app [OF this, of "length bytes"] I draft show "?I (append_bytes tmp bytes t) \<and> ?full (append_bytes tmp bytes t)"
      by (metis order_refl take_all)
    fix e k from app [OF \<open>?draft 0 t\<close>, of k] I draft
    show "?I (append_bytes tmp (take k bytes) t) \<and> ?R e (append_bytes tmp (take k bytes) t)" by blast
  qed
  moreover have "contract ?I ?full (sync os) (\<lambda>_. ?full) ?R"
    by (rule contract_sync) (use I draft in blast)+
  moreover have "contract ?I ?full (harden_private_file os tmp)
      (\<lambda>_. draft_at p tmp t0 (File bytes 384 (os_user os))) ?R"
  proof (rule contract_harden_private_file)
    fix t b m owner assume t: "?full t" and f: "t tmp = Some (File b m owner)"
    then have "b = bytes" "owner = os_user os" by (auto dest: draft_get)
    with t have d: "draft_at p tmp t0 (File bytes 384 (os_user os)) (t(tmp \<mapsto> File b 384 owner))"
      by (auto intro: draft_put)
    then have "?full (t(tmp \<mapsto> File b 384 owner))" by auto
    with I draft d show "?I (t(tmp \<mapsto> File b 384 owner))
        \<and> draft_at p tmp t0 (File bytes 384 (os_user os)) (t(tmp \<mapsto> File b 384 owner))
        \<and> (\<forall>e. ?R e (t(tmp \<mapsto> File b 384 owner)))" by blast
  qed (use I draft in blast)+
  moreover have "contract ?I (draft_at p tmp t0 (File bytes 384 (os_user os))) (rename os tmp p) (\<lambda>_. ?done) ?R"
    unfolding rename_def
  proof (rule contract_syscall)
    fix t e assume t: "draft_at p tmp t0 (File bytes 384 (os_user os)) t"
    then have "?full t" by auto
    then show "?R e t" by (rule draft)
    fix a t' assume "(case t tmp of None \<Rightarrow> Err NotFound
        | Some n \<Rightarrow> if is_directory t tmp \<or> is_directory t p then Err OtherError
            else Ok ((), t(tmp := None, p \<mapsto> n))) = Inr (a, t')"
    then have "t' = t(tmp := None, p \<mapsto> File bytes 384 (os_user os))"
      using draft_get [OF t] by (auto split: if_splits)
    then have "?done t'" using draft_rename [OF t p(1)] by simp
    then show "?I t' \<and> ?done t'" using I finished by blast
  qed
  moreover have "contract ?I ?done (verify_private_file os p) (\<lambda>_. ?done) ?R"
    by (rule contract_verify_private_file) (use I finished in blast)+
  moreover have "contract ?I ?done (sync_parent os parent) (\<lambda>_. ?done) ?R"
    by (rule contract_sync_parent) (use I finished in blast)+
  ultimately show ?thesis
    unfolding fill_and_rename_def by (intro contract_then)
qed

lemma contract_clean_up:
  assumes m: "contract I P m Q S" and "\<And>e t. S e t \<Longrightarrow> R e t"
    and "\<And>e t. S e t \<Longrightarrow> R e (t(q := None)) \<and> I (t(q := None))"
  shows "contract I P (clean_up os q m) Q R"
  unfolding clean_up_def
proof (rule contract_match [OF m])
  have remove: "contract I (S e) (remove_file os q) (\<lambda>_. R e) (\<lambda>_. R e)" for e
    unfolding remove_file_def
    by (rule contract_syscall) (use assms(2,3) in \<open>auto split: option.splits if_splits\<close>)
  show "contract I (S e) (io_match (remove_file os q) (\<lambda>_. io_fail e) (\<lambda>_. io_fail e)) Q R" for e
    by (rule contract_match [OF remove]) (simp_all add: contract_fail)
qed (simp add: contract_return)

lemma replaced_drop:
  "replaced p bytes user t0 t \<Longrightarrow> q \<noteq> p \<Longrightarrow> t0 q = None \<Longrightarrow> replaced p bytes user t0 (t(q := None))"
  unfolding replaced_def only_new_dirs_def by (metis fun_upd_apply)

lemma untouched_drop: "untouched p t0 t \<Longrightarrow> t q = None \<Longrightarrow> untouched p t0 (t(q := None))"
  by (metis fun_upd_triv)

lemma untouched_harden:
  assumes "untouched p t0 t" and "t p = Some (File b m owner)"
  shows "untouched p t0 (t(p \<mapsto> File b 384 owner))"
proof -
  have "old_file p t0 (t(p \<mapsto> File b 384 owner))"
    using assms unfolding untouched_def old_file_def by (metis fun_upd_same node.inject(1) option.inject)
  with assms(1) show ?thesis by (simp add: untouched_def)
qed

lemma write_atomic_private_eq:
  "p \<noteq> [] \<Longrightarrow> write_atomic_private os p bytes =
    io_then (ensure_real_parent_dir os (butlast p)) (\<lambda>_.
    io_then (io_match (symlink_metadata os p)
        (\<lambda>e. if e = NotFound then io_return () else io_fail e)
        (\<lambda>_. harden_private_file os p)) (\<lambda>_.
    io_then (unique_temporary_path os p) (\<lambda>temporary.
      clean_up os temporary (fill_and_rename os (butlast p) p temporary bytes))))"
  by (simp add: write_atomic_private_def path_parent_def fill_and_rename_def)

lemma contract_write_atomic_private:
  assumes "os_ok os" and "p \<noteq> []"
  shows "contract (replacing p bytes (os_user os) t0) (\<lambda>t. t = t0) (write_atomic_private os p bytes)
    (\<lambda>_. replaced p bytes (os_user os) t0) (\<lambda>_. replacing p bytes (os_user os) t0)"
proof -
  let ?I = "replacing p bytes (os_user os) t0"
  let ?U = "untouched p t0"
  have I: "?I t" if "?U t" for t using untouched_replacing [OF that] .
  have parent: "contract ?I (\<lambda>t. t = t0) (ensure_real_parent_dir os (butlast p)) (\<lambda>_. ?U) (\<lambda>_. ?I)"
    by (rule contract_weaken [OF contract_ensure_real_parent_dir [OF assms(1)]])
      (use only_new_dirs_untouched [OF assms(2)] I in auto)
  have old: "contract ?I ?U (io_match (symlink_metadata os p)
      (\<lambda>e. if e = NotFound then io_return () else io_fail e) (\<lambda>_. harden_private_file os p)) (\<lambda>_. ?U) (\<lambda>_. ?I)"
    by (rule contract_match [OF contract_symlink_metadata [where P = ?U and Q = "\<lambda>_. ?U" and R = "\<lambda>_. ?U"]])
      (auto intro!: contract_return contract_fail contract_harden_private_file I untouched_harden)
  have fill: "contract ?I (\<lambda>t. ?U t \<and> t tmp = None \<and> tmp \<noteq> p \<and> butlast tmp = butlast p)
      (clean_up os tmp (fill_and_rename os (butlast p) p tmp bytes))
      (\<lambda>_. replaced p bytes (os_user os) t0) (\<lambda>_. ?I)" for tmp
  proof (cases "tmp \<noteq> p \<and> butlast tmp = butlast p \<and> t0 tmp = None")
    case True
    have drop: "?I (t(tmp := None))" if "stopped p tmp bytes (os_user os) t0 t" for t
      using that True unfolding stopped_def
      by (auto intro: I untouched_drop draft_remove replaced_replacing replaced_drop)
    have "contract ?I (\<lambda>t. ?U t \<and> t tmp = None) (clean_up os tmp (fill_and_rename os (butlast p) p tmp bytes))
        (\<lambda>_. replaced p bytes (os_user os) t0) (\<lambda>_. ?I)"
      by (rule contract_clean_up [OF contract_fill_and_rename])
        (use True drop stopped_replacing in blast)+
    then show ?thesis by (rule contract_weaken) simp_all
  next
    case False
    have "\<not> (?U t \<and> t tmp = None \<and> tmp \<noteq> p \<and> butlast tmp = butlast p)" for t
      using False untouched_free by blast
    then show ?thesis by (rule contract_vacuous)
  qed
  have temporary: "contract ?I ?U (unique_temporary_path os p)
      (\<lambda>q t. ?U t \<and> t q = None \<and> q \<noteq> p \<and> butlast q = butlast p) (\<lambda>_. ?I)"
    by (rule contract_unique_temporary [OF assms(2)]) (simp_all add: I)
  show ?thesis
    unfolding write_atomic_private_eq [OF assms(2)]
    by (rule contract_then [OF parent]) (rule contract_then [OF old], rule contract_then [OF temporary fill])
qed

text \<open>
  C39. A private file is replaced atomically and its bytes are never exposed: in every tree the write
  passes through, where a crash may leave it, the file is the old one (perhaps with a stricter mode)
  or holds all the new bytes with mode 0600, and every other file that appeared is a sibling with a
  prefix of them that no one but its owner can read. A write that succeeds leaves no such sibling.
\<close>

theorem private_write_is_atomic:
  assumes "os_ok os" and "p \<noteq> []" and "write_atomic_private os p bytes w = (r, w')"
  shows "\<exists>new. w_trace w' = w_trace w @ new
    \<and> list_all (replacing p bytes (os_user os) (w_tree w)) new
    \<and> (case r of Inl _ \<Rightarrow> replacing p bytes (os_user os) (w_tree w) (w_tree w')
       | Inr _ \<Rightarrow> w_tree w' p = Some (File bytes 384 (os_user os))
          \<and> (\<forall>q. q \<noteq> p \<longrightarrow> w_tree w' q = w_tree w q
              \<or> w_tree w q = None \<and> prefix q (butlast p) \<and> (\<exists>n. w_tree w' q = Some n \<and> is_dir n)))"
proof -
  obtain new where "w_trace w' = w_trace w @ new" "list_all (replacing p bytes (os_user os) (w_tree w)) new"
    and "case r of Inl _ \<Rightarrow> replacing p bytes (os_user os) (w_tree w) (w_tree w')
      | Inr _ \<Rightarrow> replaced p bytes (os_user os) (w_tree w) (w_tree w')"
    by (rule contractD [OF contract_write_atomic_private [OF assms(1,2)] refl assms(3)])
  moreover have "w_tree w' q = w_tree w q
      \<or> w_tree w q = None \<and> prefix q (butlast p) \<and> (\<exists>n. w_tree w' q = Some n \<and> is_dir n)"
    if "replaced p bytes (os_user os) (w_tree w) (w_tree w')" "q \<noteq> p" for q
    using that unfolding replaced_def only_new_dirs_def by (metis fun_upd_other)
  ultimately show ?thesis by (auto simp: replaced_def split: sum.splits)
qed

section \<open>Creation\<close>

text \<open>The trees a creation may pass through.\<close>

definition creating :: "path \<Rightarrow> u8 list \<Rightarrow> tree \<Rightarrow> tree \<Rightarrow> bool" where
  "creating p bytes t0 t \<longleftrightarrow> only_new_dirs p t0 (t(p := t0 p))
     \<and> (t p = t0 p \<or> t0 p = None \<and> (\<exists>n. t p = Some n \<and> private_draft bytes n))"

text \<open>The part that owns the file it created.\<close>

definition fill_created :: "os \<Rightarrow> path \<Rightarrow> path \<Rightarrow> u8 list \<Rightarrow> (io_error, bool) io" where
  "fill_created os parent p bytes =
     io_then (harden_private_file os p) (\<lambda>_.
     io_then (write_all os p bytes) (\<lambda>_.
     io_then (sync os) (\<lambda>_.
     io_then (sync os) (\<lambda>_.
     io_then (verify_private_file os p) (\<lambda>_.
     io_then (sync_parent os parent) (\<lambda>_. io_return True))))))"

definition created_at :: "path \<Rightarrow> tree \<Rightarrow> node \<Rightarrow> tree \<Rightarrow> bool" where
  "created_at p t0 n t \<longleftrightarrow> t0 p = None \<and> t p = Some n \<and> only_new_dirs p t0 (t(p := None))"

lemma created_creating: "created_at p t0 n t \<Longrightarrow> private_draft bytes n \<Longrightarrow> creating p bytes t0 t"
  by (simp add: created_at_def creating_def)

lemma created_put: "created_at p t0 n t \<Longrightarrow> created_at p t0 n' (t(p \<mapsto> n'))"
  by (simp add: created_at_def)

lemma contract_fill_created:
  shows "contract (creating p bytes t0) (\<lambda>t. \<exists>m. created_at p t0 (File [] m user) t \<and> owner_only m)
    (fill_created os parent p bytes) (\<lambda>b t. b \<and> created_at p t0 (File bytes 384 user) t)
    (\<lambda>_ t. \<exists>n. created_at p t0 n t \<and> private_draft bytes n)"
proof -
  let ?I = "creating p bytes t0"
  let ?draft = "\<lambda>t. \<exists>n. created_at p t0 n t \<and> private_draft bytes n"
  let ?R = "\<lambda>_ :: io_error. ?draft"
  have I: "?I t" if "?draft t" for t using that created_creating by blast
  have part: "private_draft bytes (File (take k bytes) m user)" if "owner_only m" for k m
    using that by (auto simp: private_draft_def)
  let ?empty = "created_at p t0 (File [] 384 user)"
  let ?full = "created_at p t0 (File bytes 384 user)"
  have empty: "?draft t" if "?empty t" for t using that part [of 384 0] by auto
  have full: "?draft t" if "?full t" for t using that part [of 384 "length bytes"] by auto
  have "contract ?I (\<lambda>t. \<exists>m. created_at p t0 (File [] m user) t \<and> owner_only m) (harden_private_file os p)
      (\<lambda>_. ?empty) ?R"
  proof (rule contract_harden_private_file)
    fix t assume "\<exists>m. created_at p t0 (File [] m user) t \<and> owner_only m"
    then obtain m where m: "created_at p t0 (File [] m user) t" "owner_only m" by blast
    then have d: "?draft t" using part [OF m(2), of 0] by auto
    then show "?I t" "\<And>e. ?R e t" using I by blast+
    fix b m' owner assume "t p = Some (File b m' owner)"
    with m(1) have "b = []" "owner = user" by (simp_all add: created_at_def)
    then have "?empty (t(p \<mapsto> File b 384 owner))" using created_put [OF m(1)] by simp
    then show "?I (t(p \<mapsto> File b 384 owner)) \<and> ?empty (t(p \<mapsto> File b 384 owner))
        \<and> (\<forall>e. ?R e (t(p \<mapsto> File b 384 owner)))" using I empty by blast
  qed
  moreover have "contract ?I ?empty (write_all os p bytes) (\<lambda>_. ?full) ?R"
  proof (rule contract_write_all)
    fix t assume t: "?empty t"
    then have app: "append_bytes p bs t = t(p \<mapsto> File bs 384 user)" for bs
      by (simp add: append_bytes_def created_at_def)
    then show "?I (append_bytes p bytes t) \<and> ?full (append_bytes p bytes t)"
      using created_put [OF t] full I by simp
    fix e k have "?draft (append_bytes p (take k bytes) t)"
      unfolding app using created_put [OF t] part [of 384 k] by auto
    then show "?I (append_bytes p (take k bytes) t) \<and> ?R e (append_bytes p (take k bytes) t)"
      using I by blast
  qed
  moreover have "contract ?I ?full (sync os) (\<lambda>_. ?full) ?R"
    by (rule contract_sync) (use I full in blast)+
  moreover have "contract ?I ?full (verify_private_file os p) (\<lambda>_. ?full) ?R"
    by (rule contract_verify_private_file) (use I full in blast)+
  moreover have "contract ?I ?full (sync_parent os parent) (\<lambda>_. ?full) ?R"
    by (rule contract_sync_parent) (use I full in blast)+
  moreover have "contract ?I ?full (io_return True) (\<lambda>b t. b \<and> ?full t) ?R"
    by (rule contract_return) simp
  ultimately show ?thesis unfolding fill_created_def by (intro contract_then)
qed

lemma contract_create_private_file:
  assumes "os_ok os" and "p \<noteq> []"
  shows "contract (creating p bytes t0) (\<lambda>t. t = t0) (create_private_file os p bytes)
    (\<lambda>b t. if b then created_at p t0 (File bytes 384 (os_user os)) t
       else t p = t0 p \<and> t0 p \<noteq> None \<and> only_new_dirs p t0 t)
    (\<lambda>_. creating p bytes t0)"
proof -
  let ?I = "creating p bytes t0"
  let ?D = "only_new_dirs p t0"
  let ?Q = "\<lambda>b t. if b then created_at p t0 (File bytes 384 (os_user os)) t else t p = t0 p \<and> t0 p \<noteq> None \<and> ?D t"
  have same: "t p = t0 p" if "?D t" for t
    using that butlast_not_prefix [OF assms(2)] by (auto simp: only_new_dirs_def)
  have I: "?I t" if "?D t" for t
    using that same [OF that] by (simp add: creating_def) (metis fun_upd_triv)
  have free: "created_at p t0 n (t(p \<mapsto> n))" if "?D t" "t p = None" for t n
    using that same by (simp add: created_at_def) (metis fun_upd_triv)
  have gone: "?I (t(p := None))" if "created_at p t0 n t" for t n
    using that by (simp add: created_at_def creating_def)
  have parent: "contract ?I (\<lambda>t. t = t0) (ensure_real_parent_dir os (butlast p)) (\<lambda>_. ?D) (\<lambda>_. ?I)"
    by (rule contract_weaken [OF contract_ensure_real_parent_dir [OF assms(1)]]) (use I in auto)
  have new: "contract ?I ?D (create_new_private os p)
      (\<lambda>_ t. \<exists>m. created_at p t0 (File [] m (os_user os)) t \<and> owner_only m)
      (\<lambda>e t. ?D t \<and> (e = AlreadyExists \<longrightarrow> t p \<noteq> None))"
    using assms(1) [unfolded os_ok_def] I free owner_only_created
    unfolding contract_def create_new_private_def open_new_def syscall_def step_call_def step_tree_def
    by (auto split: option.splits if_splits intro!: created_creating simp: private_draft_def) (metis take0)+
  have fill: "contract ?I (\<lambda>t. \<exists>m. created_at p t0 (File [] m (os_user os)) t \<and> owner_only m)
      (clean_up os p (fill_created os (butlast p) p bytes)) ?Q (\<lambda>_. ?I)"
    by (rule contract_weaken [OF contract_clean_up [OF contract_fill_created, where R = "\<lambda>_. ?I"]])
      (use created_creating gone in auto)
  have exists: "contract ?I (\<lambda>t. ?D t \<and> (e = AlreadyExists \<longrightarrow> t p \<noteq> None))
      (if e = AlreadyExists then io_then (verify_private_file os p) (\<lambda>_. io_return False) else io_fail e)
      ?Q (\<lambda>_. ?I)" for e
  proof (cases "e = AlreadyExists")
    case True
    have "contract ?I (\<lambda>t. ?D t \<and> t p \<noteq> None) (io_then (verify_private_file os p) (\<lambda>_. io_return False)) ?Q (\<lambda>_. ?I)"
      by (rule contract_then [OF contract_verify_private_file [where Q = "\<lambda>_ t. ?D t \<and> t p \<noteq> None"]])
        (use I same in \<open>auto intro!: contract_return\<close>)
    with True show ?thesis by simp
  qed (auto intro!: contract_fail I)
  have "create_private_file os p bytes = io_then (ensure_real_parent_dir os (butlast p)) (\<lambda>_.
      io_match (create_new_private os p)
        (\<lambda>e. if e = AlreadyExists then io_then (verify_private_file os p) (\<lambda>_. io_return False) else io_fail e)
        (\<lambda>_. clean_up os p (fill_created os (butlast p) p bytes)))"
    using assms(2) by (simp add: create_private_file_def path_parent_def fill_created_def)
  then show ?thesis
    by (simp only:) (rule contract_then [OF parent contract_match [OF new exists fill]])
qed

section \<open>A worked write\<close>

definition example_os :: os where
  "example_os = \<lparr>os_fault = (\<lambda>_. None), os_partial = (\<lambda>_. 0), os_random = (\<lambda>_. Ok (\<lambda>_. 7)),
     os_umask = 18, os_user = (1000, 1000)\<rparr>"

definition example_world :: world where
  "example_world = \<lparr>w_tree = [[] \<mapsto> Directory 493 (0, 0), [''d''] \<mapsto> Directory 448 (1000, 1000),
     [''d'', ''k''] \<mapsto> File [1] 420 (1000, 1000)], w_calls = 0, w_trace = []\<rparr>"

definition example_write :: "(io_error + unit) \<times> world" where
  "example_write = write_atomic_private example_os [''d'', ''k''] [5, 6] example_world"

lemma example_os_ok: "os_ok example_os"
  by (simp add: os_ok_def example_os_def)

lemma example_write_eq:
  "write_atomic_private example_os [''d'', ''k''] [5, 6] example_world = (Ok (), snd example_write)"
proof -
  have "fst example_write = Ok ()" by code_simp
  then show ?thesis by (simp add: example_write_def prod_eq_iff)
qed

lemma private_write_is_atomic_witness:
  "w_tree (snd example_write) [''d'', ''k''] = Some (File [5, 6] 384 (1000, 1000))"
  using private_write_is_atomic [OF example_os_ok _ example_write_eq]
  by (simp add: example_os_def) (elim exE conjE, assumption)

end
