(* ===== verification/Virtual_Key.thy ===== *)
theory Virtual_Key
  imports Private_Fs
begin

text \<open>
  The local virtual key, \<open>apps/cli/src/virtual_key.rs\<close>: created once in an owner-only file, read back by
  every later start, and compared in constant time. A key is a Rust \<open>str\<close>, the list of its scalar
  values; the messages for the operator are the constructors of \<open>key_error\<close>.
\<close>

definition KEY_BYTES :: nat where "KEY_BYTES = 24"

datatype key_error =
    KeyFile path io_error
  | KeyNotUtf8 path
  | KeyEmpty path
  | NoRandomness io_error

definition hex_bytes :: "u8 list \<Rightarrow> utext" where
  "hex_bytes bs = map of_char (hex_text bs)"

definition encode_ascii :: "utext \<Rightarrow> u8 list" where
  "encode_ascii t = map of_nat t"

definition read_existing :: "os \<Rightarrow> path \<Rightarrow> (key_error, utext \<times> bool) io" where
  "read_existing os p =
     io_then (io_map_err (KeyFile p) (read_file os p)) (\<lambda>bytes.
       if \<not> utf8_ok bytes then io_fail (KeyNotUtf8 p)
       else
         let existing = trim (utf8_decode (map unat bytes)) in
         if existing = [] then io_fail (KeyEmpty p) else io_return (existing, False))"

definition load_or_create :: "os \<Rightarrow> path \<Rightarrow> (key_error, utext \<times> bool) io" where
  "load_or_create os data_dir =
     (let p = data_dir @ [''virtual-key''] in
      io_match (symlink_metadata os p)
        (\<lambda>e. if e = NotFound then
             io_then (io_map_err NoRandomness (random_bytes os KEY_BYTES)) (\<lambda>random.
               let key = ascii ''ts-'' @ hex_bytes random in
               io_then (io_map_err (KeyFile p) (create_private_file os p (encode_ascii key)))
                 (\<lambda>created. if created then io_return (key, True) else read_existing os p))
           else io_fail (KeyFile p e))
        (\<lambda>_. io_then (io_map_err (KeyFile p) (harden_private_file os p)) (\<lambda>_. read_existing os p)))"

definition key_matches :: "u8 list \<Rightarrow> u8 list \<Rightarrow> bool" where
  "key_matches presented expected =
     (if length presented \<noteq> length expected then False
      else fold (\<lambda>(a, b) acc. Bit_Operations.or acc (Bit_Operations.xor a b)) (zip presented expected) 0 = 0)"

section \<open>Comparison\<close>

lemma or_eq_0: "Bit_Operations.or a b = 0 \<longleftrightarrow> a = 0 \<and> b = 0" for a b :: u8
  by (auto simp: bit_eq_iff bit_or_iff)

lemma xor_eq_0: "Bit_Operations.xor a b = 0 \<longleftrightarrow> a = b" for a b :: u8
  by (auto simp: bit_eq_iff bit_xor_iff)

lemma matches_fold:
  "fold (\<lambda>(a, b) acc. Bit_Operations.or acc (Bit_Operations.xor a b)) ps acc = 0
    \<longleftrightarrow> acc = (0 :: u8) \<and> (\<forall>(a, b) \<in> set ps. a = b)"
  by (induction ps arbitrary: acc) (auto simp: or_eq_0 xor_eq_0)

text \<open>
  The constant-time comparison decides equality: a presented key is accepted exactly when it is the
  expected one, although the loop never stops early.
\<close>

theorem key_comparison_exact: "key_matches presented expected = (presented = expected)"
proof (cases "length presented = length expected")
  case True
  then have "(\<forall>(a, b) \<in> set (zip presented expected). a = b) \<longleftrightarrow> presented = expected"
    by (induction rule: list_induct2) auto
  with True show ?thesis by (simp add: key_matches_def matches_fold)
qed (auto simp: key_matches_def)

section \<open>The key survives a restart\<close>

lemma hex_digit_ascii: "n < 16 \<Longrightarrow> 48 \<le> (of_char (hex_digit n) :: nat) \<and> (of_char (hex_digit n) :: nat) < 103"
  by (auto simp: hex_digit_def)

definition graphic :: "nat \<Rightarrow> bool" where
  "graphic c \<longleftrightarrow> 33 \<le> c \<and> c < 127"

lemma graphic_hex: "list_all graphic (hex_bytes bs)"
proof -
  have "graphic (of_char (hex_digit n))" if "n < 16" for n
    using hex_digit_ascii [OF that] by (simp add: graphic_def)
  moreover have "unat b div 16 < 16" for b :: u8 using unat_lt [of b] by simp
  ultimately show ?thesis
    by (auto simp: hex_bytes_def hex_text_def list_all_iff)
qed

definition key_text :: "u8 list \<Rightarrow> utext" where
  "key_text random = ascii ''ts-'' @ hex_bytes random"

lemma graphic_key: "list_all graphic (key_text random)"
  using graphic_hex by (simp add: key_text_def ascii_def graphic_def)

lemma utf8_graphic:
  "list_all graphic t \<Longrightarrow> utf8_ok (encode_ascii t) \<and> utf8_decode (map unat (encode_ascii t)) = t"
  by (induction t)
    (auto simp: encode_ascii_def graphic_def word_le_nat_alt unat_of_nat take_bit_nat_eq_self)

lemma trim_graphic: "list_all graphic t \<Longrightarrow> trim t = t"
proof -
  have keep: "dropWhile is_whitespace s = s" if "list_all graphic s" for s
    using that by (cases s) (auto simp: graphic_def is_whitespace_def)
  assume "list_all graphic t"
  then show ?thesis by (simp add: trim_def keep list_all_rev)
qed

lemma read_existing_key:
  assumes "w_tree w p = Some (File (encode_ascii (key_text random)) m owner)"
    and "read_existing os p w = (Ok (k, created), w')"
  shows "k = key_text random \<and> \<not> created"
proof -
  have "bytes = encode_ascii (key_text random)" if "read_file os p w = (Ok bytes, v)" for bytes v
    using that assms(1) by (auto simp: read_file_def query_def syscall_def and_then_Ok_iff split: option.splits sum.splits)
  then show ?thesis
    using assms(2) utf8_graphic [OF graphic_key, of random] trim_graphic [OF graphic_key, of random]
    by (auto simp: read_existing_def io_simps Let_def split: if_splits)
qed

text \<open>The two ways a start succeeds.\<close>

lemma load_or_create_Ok:
  assumes "load_or_create os dir w = (Ok (k, created), w')" and "p = dir @ [''virtual-key'']"
  obtains (missing) random v u fresh x where "symlink_metadata os p w = (Err NotFound, v)"
      "random_bytes os KEY_BYTES v = (Ok random, u)"
      "create_private_file os p (encode_ascii (key_text random)) u = (Ok fresh, x)"
      "if fresh then k = key_text random \<and> created \<and> w' = x else read_existing os p x = (Ok (k, created), w')"
    | (present) n v u where "symlink_metadata os p w = (Ok n, v)" "harden_private_file os p v = (Ok (), u)"
      "read_existing os p u = (Ok (k, created), w')"
proof -
  from assms(1) consider
      (err) e v where "symlink_metadata os p w = (Err e, v)"
        "(if e = NotFound then io_then (io_map_err NoRandomness (random_bytes os KEY_BYTES)) (\<lambda>random.
             io_then (io_map_err (KeyFile p) (create_private_file os p (encode_ascii (key_text random))))
               (\<lambda>created. if created then io_return (key_text random, True) else read_existing os p))
           else io_fail (KeyFile p e)) v = (Ok (k, created), w')"
    | (ok) n v where "symlink_metadata os p w = (Ok n, v)"
        "io_then (io_map_err (KeyFile p) (harden_private_file os p)) (\<lambda>_. read_existing os p) v = (Ok (k, created), w')"
    unfolding load_or_create_def Let_def io_match_iff assms(2) [symmetric] key_text_def [symmetric] by blast
  then show ?thesis
  proof cases
    case err
    then have e: "e = NotFound" by (auto simp: io_simps split: if_splits)
    from err(2) obtain random u fresh x where
      "random_bytes os KEY_BYTES v = (Ok random, u)"
      "create_private_file os p (encode_ascii (key_text random)) u = (Ok fresh, x)"
      "(if fresh then io_return (key_text random, True) else read_existing os p) x = (Ok (k, created), w')"
      unfolding e by (auto simp only: io_simps if_True simp_thms)
    then show ?thesis using err(1) e by (intro missing) (auto simp: io_simps split: if_splits)
  next
    case ok
    from ok(2) obtain u where "harden_private_file os p v = (Ok (), u)"
      "read_existing os p u = (Ok (k, created), w')" by (auto simp: io_simps)
    with ok(1) show ?thesis by (rule present)
  qed
qed

lemma read_existing_created: "read_existing os p v = (Ok (k, created), v') \<Longrightarrow> \<not> created"
  by (auto simp: read_existing_def io_simps Let_def split: if_splits)

text \<open>What a start that creates the key leaves on disk.\<close>

lemma create_key:
  assumes "os_ok os" and "load_or_create os dir w = (Ok (k, True), w')"
  shows "\<exists>random. length random = KEY_BYTES \<and> k = key_text random
    \<and> w_tree w' (dir @ [''virtual-key'']) = Some (File (encode_ascii k) 384 (os_user os))"
  using assms(2) refl
proof (cases rule: load_or_create_Ok)
  case (missing random v u fresh x)
  have fresh: "fresh" using missing(4) by (auto split: if_splits dest: read_existing_created)
  have "length random = KEY_BYTES" using missing(2) by (auto simp: random_bytes_def and_then_Ok_iff)
  moreover have "created_at (dir @ [''virtual-key'']) (w_tree u)
      (File (encode_ascii (key_text random)) 384 (os_user os)) (w_tree x)"
    using contractD [OF contract_create_private_file [OF assms(1)] refl missing(3)] fresh by auto
  ultimately show ?thesis using missing(4) fresh by (auto simp: created_at_def)
next
  case present
  from read_existing_created [OF present(3)] show ?thesis by simp
qed

lemma load_key:
  assumes stored: "w_tree w (dir @ [''virtual-key'']) = Some (File (encode_ascii (key_text random)) 384 owner)"
    and "os_ok os" and "load_or_create os dir w = (Ok (k, created), w')"
  shows "k = key_text random \<and> \<not> created"
proof -
  let ?p = "dir @ [''virtual-key'']"
  let ?F = "\<lambda>t. t ?p = Some (File (encode_ascii (key_text random)) 384 owner)"
  have found: "contract (\<lambda>_. True) ?F (symlink_metadata os ?p) (\<lambda>_. ?F) (\<lambda>e _. e \<noteq> NotFound)"
    by (rule contract_metadata_found [OF assms(2)]) auto
  have harden: "contract (\<lambda>_. True) ?F (harden_private_file os ?p) (\<lambda>_. ?F) (\<lambda>_ _. True)"
    by (rule contract_harden_private_file) auto
  from assms(3) refl show ?thesis
  proof (cases rule: load_or_create_Ok)
    case missing
    then show ?thesis using contractD [OF found stored missing(1)] by auto
  next
    case (present n v u)
    have v: "?F (w_tree v)" using contractD [OF found stored present(1)] by auto
    have "?F (w_tree u)" using contractD [OF harden v present(2)] by auto
    then show ?thesis using read_existing_key present(3) by blast
  qed
qed

text \<open>
  The key survives restarts: the start that creates it writes \<open>ts-\<close> and 48 hexadecimal digits to a
  file of mode 0600, and as long as that file stays, every later start that succeeds returns the same
  key and creates nothing.
\<close>

theorem key_survives_restart:
  assumes "os_ok os" and "load_or_create os dir w = (Ok (key, True), w1)"
    and "w_tree w2 (dir @ [''virtual-key'']) = w_tree w1 (dir @ [''virtual-key''])"
    and "load_or_create os dir w2 = (Ok (key', created), w3)"
  shows "key' = key \<and> \<not> created \<and> length key = 51 \<and> list_all graphic key
    \<and> w_tree w1 (dir @ [''virtual-key'']) = Some (File (encode_ascii key) 384 (os_user os))"
proof -
  obtain random where random: "length random = KEY_BYTES" "key = key_text random"
    and stored: "w_tree w1 (dir @ [''virtual-key'']) = Some (File (encode_ascii key) 384 (os_user os))"
    using create_key [OF assms(1,2)] by blast
  then have "key' = key \<and> \<not> created"
    using load_key [OF _ assms(1,4)] assms(3) by simp
  moreover have "length key = 51"
    using random by (simp add: key_text_def ascii_def hex_bytes_def hex_text_length KEY_BYTES_def)
  ultimately show ?thesis using random(2) graphic_key stored by simp
qed

definition first_start :: "(key_error + utext \<times> bool) \<times> world" where
  "first_start = load_or_create example_os [''d''] example_world"

definition second_start :: "(key_error + utext \<times> bool) \<times> world" where
  "second_start = load_or_create example_os [''d''] (snd first_start)"

definition started_with :: "(key_error + utext \<times> bool) \<times> world \<Rightarrow> (utext \<times> bool) option" where
  "started_with r = (case fst r of Inl _ \<Rightarrow> None | Inr k \<Rightarrow> Some k)"

lemma started_withD: "started_with r = Some (k, b) \<Longrightarrow> r = (Ok (k, b), snd r)"
  by (cases r) (auto simp: started_with_def split: sum.splits)

lemma key_survives_restart_witness:
  "map_option fst (started_with second_start) = map_option fst (started_with first_start)"
proof -
  have "map_option snd (started_with first_start) = Some True" by code_simp
  then obtain key where one: "started_with first_start = Some (key, True)" by auto
  have "started_with second_start \<noteq> None" by code_simp
  then obtain key' created where two: "started_with second_start = Some (key', created)" by auto
  have "key' = key"
    using key_survives_restart [OF example_os_ok started_withD [OF one, unfolded first_start_def] refl]
      started_withD [OF two, unfolded second_start_def first_start_def] by blast
  with one two show ?thesis by simp
qed

end
