(* ===== verification/Budget.thy ===== *)
theory Budget
  imports Prelude
begin

text \<open>
  Informational per-agent budgets, \<open>apps/cli/src/budget.rs\<close>.
\<close>

definition DAY_MS :: u64 where "DAY_MS = 24 * 60 * 60 * 1000"
definition MAX_LIMIT_MICROS :: u64 where "MAX_LIMIT_MICROS = 9000000000000000"

record agent_budget =
  bu_limit_micros :: u64
  bu_warning_percent :: u8
  bu_period_start_ms :: "u64 option"
  bu_period_end_ms :: "u64 option"
  bu_expiry_warning_days :: u16

datatype budget_error = BadLimit | BadWarningPercent | BadExpiryDays | ReversedPeriod

definition budget_validate :: "agent_budget \<Rightarrow> budget_error + unit" where
  "budget_validate b =
     (if bu_limit_micros b = 0 \<or> MAX_LIMIT_MICROS < bu_limit_micros b then Err BadLimit
      else if \<not> (1 \<le> bu_warning_percent b \<and> bu_warning_percent b \<le> 100) then Err BadWarningPercent
      else if 365 < bu_expiry_warning_days b then Err BadExpiryDays
      else if (case (bu_period_start_ms b, bu_period_end_ms b) of
            (Some start, Some finish) \<Rightarrow> finish \<le> start | _ \<Rightarrow> False) then Err ReversedPeriod
      else Ok ())"

datatype usage_level = HealthyBudget | Approaching | Exceeded | UnknownUsage
datatype expiry_level = NoExpiry | Active | Expiring | Expired
datatype enforcement = ObserveOnly

record budget_status =
  bs_agent_id :: string
  bs_limit_micros :: u64
  bs_used_micros :: u64
  bs_remaining_micros :: u64
  bs_warning_percent :: u8
  bs_usage_percent :: u16
  bs_unpriced_requests :: u64
  bs_period_start_ms :: "u64 option"
  bs_period_end_ms :: "u64 option"
  bs_expiry_warning_days :: u16
  bs_usage_level :: usage_level
  bs_expiry_level :: expiry_level
  bs_enforcement :: enforcement
  bs_routing_affected :: bool

definition budget_evaluate ::
  "string \<Rightarrow> agent_budget \<Rightarrow> u64 \<Rightarrow> u64 \<Rightarrow> u64 \<Rightarrow> budget_status" where
  "budget_evaluate agent b used unpriced now =
     (let usage_percent = try_from_or (unat (sat_mul used 100 div max (bu_limit_micros b) 1)) u_max;
          level = (if bu_limit_micros b \<le> used then Exceeded
            else if 0 < unpriced then UnknownUsage
            else if ucast (bu_warning_percent b) \<le> usage_percent then Approaching
            else HealthyBudget);
          expiry = (case bu_period_end_ms b of
              None \<Rightarrow> NoExpiry
            | Some finish \<Rightarrow>
                if finish \<le> now then Expired
                else if sat_sub finish now \<le> sat_mul (ucast (bu_expiry_warning_days b)) DAY_MS then Expiring
                else Active)
      in \<lparr>bs_agent_id = agent, bs_limit_micros = bu_limit_micros b, bs_used_micros = used,
          bs_remaining_micros = sat_sub (bu_limit_micros b) used,
          bs_warning_percent = bu_warning_percent b, bs_usage_percent = usage_percent,
          bs_unpriced_requests = unpriced, bs_period_start_ms = bu_period_start_ms b,
          bs_period_end_ms = bu_period_end_ms b, bs_expiry_warning_days = bu_expiry_warning_days b,
          bs_usage_level = level, bs_expiry_level = expiry, bs_enforcement = ObserveOnly,
          bs_routing_affected = False\<rparr>)"

section \<open>Exactness\<close>

lemma validate_limits:
  assumes "budget_validate b = Ok ()"
  shows "0 < unat (bu_limit_micros b)" "unat (bu_limit_micros b) \<le> 9000000000000000"
    "unat (bu_warning_percent b) \<le> 100" "unat (bu_expiry_warning_days b) \<le> 365"
  using assms
  by (auto simp: budget_validate_def MAX_LIMIT_MICROS_def word_le_nat_alt word_less_nat_alt unat_gt_0 not_le
      split: if_splits)

lemma usage_percent_exact:
  assumes "0 < unat limit" and "unat used < unat limit" and "unat limit \<le> 9000000000000000"
  shows "unat (try_from_or (unat (sat_mul used 100 div max limit 1 :: u64)) u_max :: u16)
    = unat used * 100 div unat limit"
proof -
  have "1 \<le> limit" using assms(1) by (simp add: word_le_nat_alt)
  then have max: "max limit 1 = limit" by (simp add: max_def)
  have fits: "unat (sat_mul used 100) = unat used * 100" using assms by (simp add: sat_simps)
  have "unat used * 100 \<le> unat limit * 100" using assms(2) by simp
  then have "unat used * 100 div unat limit \<le> 100"
    using assms(1) by (metis div_le_mono nonzero_mult_div_cancel_left not_less_zero)
  then show ?thesis by (simp add: max unat_try_from_or unat_div fits)
qed

text \<open>
  C40. The status of a valid budget says what it means in exact arithmetic: exceeded once the limit is
  used up; otherwise unknown when a request had no price, approaching from the warning share of the
  limit on, and healthy below it. The period is expired from its end on, expiring within the warning
  days before it; no saturation of the code shows, and routing is never affected.
\<close>

theorem budget_status_exact:
  assumes "budget_validate b = Ok ()"
  shows "let s = budget_evaluate agent b used unpriced now; limit = unat (bu_limit_micros b) in
    (bs_usage_level s = Exceeded \<longleftrightarrow> limit \<le> unat used)
    \<and> (bs_usage_level s = UnknownUsage \<longleftrightarrow> unat used < limit \<and> 0 < unpriced)
    \<and> (bs_usage_level s = Approaching \<longleftrightarrow> unat used < limit \<and> unpriced = 0
        \<and> limit * unat (bu_warning_percent b) \<le> unat used * 100)
    \<and> bs_remaining_micros s = (if used \<le> bu_limit_micros b then bu_limit_micros b - used else 0)
    \<and> (case bu_period_end_ms b of None \<Rightarrow> bs_expiry_level s = NoExpiry
       | Some finish \<Rightarrow> (bs_expiry_level s = Expired \<longleftrightarrow> unat finish \<le> unat now)
          \<and> (bs_expiry_level s = Expiring \<longleftrightarrow> unat now < unat finish
              \<and> unat finish \<le> unat now + unat (bu_expiry_warning_days b) * 86400000))
    \<and> \<not> bs_routing_affected s"
proof -
  note v = validate_limits [OF assms]
  have share: "ucast (bu_warning_percent b) \<le> (try_from_or (unat (sat_mul used 100 div max (bu_limit_micros b) 1 :: u64)) u_max :: u16)
      \<longleftrightarrow> unat (bu_limit_micros b) * unat (bu_warning_percent b) \<le> unat used * 100"
    if "unat used < unat (bu_limit_micros b)"
  proof -
    have "unat (ucast (bu_warning_percent b) :: u16) = unat (bu_warning_percent b)"
      using v(3) by (simp add: unsigned_ucast_eq take_bit_nat_eq_self)
    moreover note usage_percent_exact [OF v(1) that v(2)]
    ultimately show ?thesis
      unfolding word_le_nat_alt
      by (simp only: less_eq_div_iff_mult_less_eq [OF v(1)]) (simp add: mult.commute)
  qed
  have days: "unat (sat_mul (ucast (bu_expiry_warning_days b)) DAY_MS :: u64) = unat (bu_expiry_warning_days b) * 86400000"
  proof -
    have "unat (ucast (bu_expiry_warning_days b) :: u64) = unat (bu_expiry_warning_days b)"
      using v(4) by (simp add: unsigned_ucast_eq take_bit_nat_eq_self)
    then show ?thesis using v(4) by (simp add: sat_simps DAY_MS_def)
  qed
  have expiry: "sat_sub finish now \<le> sat_mul (ucast (bu_expiry_warning_days b)) DAY_MS
      \<longleftrightarrow> unat finish \<le> unat now + unat (bu_expiry_warning_days b) * 86400000" for finish
    by (simp only: word_le_nat_alt days unat_sat_sub) linarith
  let ?s = "budget_evaluate agent b used unpriced now"
  have level: "bs_usage_level ?s = (if unat (bu_limit_micros b) \<le> unat used then Exceeded
      else if 0 < unpriced then UnknownUsage
      else if unat (bu_limit_micros b) * unat (bu_warning_percent b) \<le> unat used * 100 then Approaching
      else HealthyBudget)"
    using share by (simp add: budget_evaluate_def Let_def word_le_nat_alt [of "bu_limit_micros b" used] not_le)
  have until: "bs_expiry_level ?s = (case bu_period_end_ms b of
        None \<Rightarrow> NoExpiry
      | Some finish \<Rightarrow> if unat finish \<le> unat now then Expired
          else if unat finish \<le> unat now + unat (bu_expiry_warning_days b) * 86400000 then Expiring
          else Active)"
    by (cases "bu_period_end_ms b")
      (simp_all add: budget_evaluate_def Let_def expiry word_le_nat_alt [of _ now])
  show ?thesis
    unfolding Let_def level until
    by (auto simp: budget_evaluate_def Let_def sat_sub_def not_le word_gt_0 split: option.splits)
qed

lemma budget_status_exact_witness:
  "bs_usage_level (budget_evaluate ''a'' \<lparr>bu_limit_micros = 1000, bu_warning_percent = 80,
     bu_period_start_ms = None, bu_period_end_ms = None, bu_expiry_warning_days = 7\<rparr> 800 0 5) = Approaching"
proof -
  have "budget_validate \<lparr>bu_limit_micros = 1000, bu_warning_percent = 80,
     bu_period_start_ms = None, bu_period_end_ms = None, bu_expiry_warning_days = 7\<rparr> = Ok ()"
    by code_simp
  from budget_status_exact [OF this, of "''a''" 800 0 5] show ?thesis by (simp add: Let_def)
qed

end
