(* ===== verification/Quota_Headers.thy ===== *)
theory Quota_Headers
  imports Complex_Main Ledger "HOL-Library.Signed_Division" "HOL-Library.Log_Nat"
begin

text \<open>
  A provider's own rate-limit headers, \<open>apps/cli/src/quota_headers.rs\<close>: the documented families of
  token windows, and the three spellings of a reset time. Header values are \<open>utext\<close>. The code's
  \<open>i64\<close> values stay below \<open>10 ^ 13\<close> because every field has at most four characters, so they are
  \<open>int\<close>s here; its \<open>f64\<close> values are rationals, rounded as IEEE 754 rounds after every operation.
\<close>

section \<open>Text and numbers of the standard library\<close>

text \<open>\<open>str::get(a..b)\<close>: the bytes from \<open>a\<close> to \<open>b\<close>, when both are boundaries of characters.\<close>

fun split_bytes :: "nat \<Rightarrow> utext \<Rightarrow> (utext \<times> utext) option" where
  "split_bytes n [] = (if n = 0 then Some ([], []) else None)"
| "split_bytes n (c # cs) =
     (if n = 0 then Some ([], c # cs)
      else if len_utf8 c \<le> n
      then map_option (\<lambda>(before, after). (c # before, after)) (split_bytes (n - len_utf8 c) cs)
      else None)"

definition str_get :: "utext \<Rightarrow> nat \<Rightarrow> nat \<Rightarrow> utext option" where
  "str_get t a b =
     (if b < a then None
      else Option.bind (split_bytes b t) (\<lambda>(upto, _). map_option snd (split_bytes a upto)))"

definition digits_value :: "utext \<Rightarrow> nat" where
  "digits_value ds = foldl (\<lambda>n c. n * 10 + (c - 48)) 0 ds"

definition all_digits :: "utext \<Rightarrow> bool" where
  "all_digits ds = (ds \<noteq> [] \<and> list_all is_ascii_digit ds)"

text \<open>\<open>str::parse::<u64>\<close> and \<open>str::parse::<i64>\<close>: an optional sign, then digits in range.\<close>

definition parse_u64 :: "utext \<Rightarrow> u64 option" where
  "parse_u64 t =
     (let ds = (case t of c # cs \<Rightarrow> if c = 43 then cs else t | [] \<Rightarrow> [])
      in if all_digits ds \<and> digits_value ds < 2 ^ 64 then Some (of_nat (digits_value ds)) else None)"

definition parse_i64 :: "utext \<Rightarrow> int option" where
  "parse_i64 t =
     (let minus = (case t of c # _ \<Rightarrow> c = 45 | [] \<Rightarrow> False);
          ds = (case t of c # cs \<Rightarrow> if c = 43 \<or> c = 45 then cs else t | [] \<Rightarrow> []);
          n = (if minus then - int (digits_value ds) else int (digits_value ds))
      in if all_digits ds \<and> - (2 ^ 63) \<le> n \<and> n < 2 ^ 63 then Some n else None)"

text \<open>
  The non-negative half of \<open>f64\<close>: round to nearest, ties to even, with 53 significant bits and
  exponents from -1074; from \<open>2 ^ 1024\<close> on, infinity.
\<close>

datatype f64 = Finite rat | Infinite

definition pow2 :: "int \<Rightarrow> rat" where
  "pow2 e = (if 0 \<le> e then of_int (2 ^ nat e) else 1 / of_int (2 ^ nat (- e)))"

definition binary_exponent :: "rat \<Rightarrow> int" where
  "binary_exponent x =
     (let (p, q) = quotient_of x;
          k = int (floorlog 2 (nat p)) - int (floorlog 2 (nat q))
      in if pow2 k \<le> x then k else k - 1)"

definition round_even :: "rat \<Rightarrow> int" where
  "round_even y =
     (let f = \<lfloor>y\<rfloor>; r = y - of_int f
      in if r < 1 / 2 then f else if 1 / 2 < r then f + 1 else if even f then f else f + 1)"

text \<open>A significand of 53 bits fits up to the exponent 971, where \<open>2 ^ 53\<close> itself is \<open>2 ^ 1024\<close>.\<close>

definition f64_round :: "rat \<Rightarrow> f64" where
  "f64_round x =
     (if x = 0 then Finite 0
      else let e = max (binary_exponent x - 52) (- 1074);
               m = round_even (x / pow2 e)
           in if e \<le> 970 \<or> e = 971 \<and> m < 2 ^ 53 then Finite (of_int m * pow2 e) else Infinite)"

fun f64_add :: "f64 \<Rightarrow> f64 \<Rightarrow> f64" where
  "f64_add (Finite a) (Finite b) = f64_round (a + b)"
| "f64_add _ _ = Infinite"

text \<open>A product with a positive constant.\<close>

fun f64_mul :: "f64 \<Rightarrow> rat \<Rightarrow> f64" where
  "f64_mul (Finite a) b = f64_round (a * b)"
| "f64_mul Infinite b = Infinite"

text \<open>\<open>x as u64\<close> truncates and saturates.\<close>

fun f64_as_u64 :: "f64 \<Rightarrow> u64" where
  "f64_as_u64 (Finite a) = try_from_or (nat \<lfloor>a\<rfloor>) u_max"
| "f64_as_u64 Infinite = u_max"

text \<open>\<open>str::parse::<f64>\<close> of a text of digits and points: at most one point, at least one digit.\<close>

definition parse_f64 :: "utext \<Rightarrow> f64 option" where
  "parse_f64 t =
     (let whole = takeWhile is_ascii_digit t; rest = dropWhile is_ascii_digit t
      in (case rest of
            [] \<Rightarrow> if whole = [] then None else Some (f64_round (of_nat (digits_value whole)))
          | c # fraction \<Rightarrow>
              if c = 46 \<and> list_all is_ascii_digit fraction \<and> (whole \<noteq> [] \<or> fraction \<noteq> [])
              then Some (f64_round (of_nat (digits_value (whole @ fraction)) / 10 ^ length fraction))
              else None))"

section \<open>Windows of a response\<close>

definition FAMILIES :: "(string \<times> string \<times> string) list" where
  "FAMILIES =
     [(''x-ratelimit-limit-tokens'', ''x-ratelimit-remaining-tokens'', ''x-ratelimit-reset-tokens''),
      (''anthropic-ratelimit-tokens-limit'', ''anthropic-ratelimit-tokens-remaining'',
       ''anthropic-ratelimit-tokens-reset''),
      (''anthropic-ratelimit-unified-limit'', ''anthropic-ratelimit-unified-remaining'',
       ''anthropic-ratelimit-unified-reset'')]"

definition get_u64 :: "(string, utext) btree \<Rightarrow> string \<Rightarrow> u64 option" where
  "get_u64 headers key = Option.bind (bt_get headers key) (\<lambda>v. parse_u64 (trim v))"

text \<open>Days since the epoch of a civil date; \<open>/\<close> on \<open>i64\<close> rounds towards zero.\<close>

definition days_from_civil :: "int \<Rightarrow> int \<Rightarrow> int \<Rightarrow> int" where
  "days_from_civil year month day =
     (let y = (if month \<le> 2 then year - 1 else year);
          era = (if 0 \<le> y then y else y - 399) sdiv 400;
          yoe = y - era * 400;
          doy = (153 * (if 2 < month then month - 3 else month + 9) + 2) sdiv 5 + day - 1;
          doe = yoe * 365 + yoe sdiv 4 - yoe sdiv 100 + doy
      in era * 146097 + doe - 719468)"

definition field :: "utext \<Rightarrow> nat \<Rightarrow> nat \<Rightarrow> int option" where
  "field t a b = Option.bind (str_get t a b) parse_i64"

definition epoch_ms :: "int \<Rightarrow> int \<Rightarrow> int \<Rightarrow> int \<Rightarrow> int \<Rightarrow> int \<Rightarrow> u64 option" where
  "epoch_ms year month day hour minute second =
     (if \<not> (1 \<le> month \<and> month \<le> 12) \<or> \<not> (1 \<le> day \<and> day \<le> 31)
         \<or> 23 < hour \<or> 59 < minute \<or> 60 < second
      then None
      else let secs = days_from_civil year month day * 86400 + hour * 3600 + minute * 60 + second
           in if 0 \<le> secs \<and> secs < 2 ^ 64 \<and> nat secs * 1000 < 2 ^ 64
              then Some (of_nat (nat secs) * 1000) else None)"

definition parse_rfc3339_ms :: "utext \<Rightarrow> u64 option" where
  "parse_rfc3339_ms value =
     (if str_len value < 19 then None
      else case (field value 0 4, field value 5 7, field value 8 10,
                 field value 11 13, field value 14 16, field value 17 19) of
          (Some year, Some month, Some day, Some hour, Some minute, Some second) \<Rightarrow>
            epoch_ms year month day hour minute second
        | _ \<Rightarrow> None)"

definition is_ascii_alphabetic :: "nat \<Rightarrow> bool" where
  "is_ascii_alphabetic c = (is_ascii_upper c \<or> is_ascii_lower c)"

definition is_number_char :: "nat \<Rightarrow> bool" where
  "is_number_char c = (is_ascii_digit c \<or> c = 46)"

definition per_unit_ms :: "utext \<Rightarrow> rat option" where
  "per_unit_ms unit =
     (if unit = ascii ''ms'' then Some 1 else if unit = ascii ''s'' then Some 1000
      else if unit = ascii ''m'' then Some 60000 else if unit = ascii ''h'' then Some 3600000
      else None)"

text \<open>One turn of the loop reads a number and its unit; a byte of another kind ends it with \<open>None\<close>.\<close>

definition read_component :: "utext \<Rightarrow> (f64 \<times> rat \<times> utext) option" where
  "read_component bytes =
     (let num = takeWhile is_number_char bytes; rest = dropWhile is_number_char bytes
      in if num = [] then None
         else Option.bind (parse_f64 num) (\<lambda>n.
                map_option (\<lambda>unit. (n, unit, dropWhile is_ascii_alphabetic rest))
                  (per_unit_ms (takeWhile is_ascii_alphabetic rest))))"

lemma read_component_shorter: "read_component bytes = Some (n, unit, rest) \<Longrightarrow> length rest < length bytes"
proof -
  assume "read_component bytes = Some (n, unit, rest)"
  then have "takeWhile is_number_char bytes \<noteq> []"
    and rest: "rest = dropWhile is_ascii_alphabetic (dropWhile is_number_char bytes)"
    by (auto simp: read_component_def Let_def bind_eq_Some_conv split: if_splits)
  moreover have "length (takeWhile is_number_char bytes) + length (dropWhile is_number_char bytes) = length bytes"
    by (metis length_append takeWhile_dropWhile_id)
  ultimately show ?thesis
    using length_dropWhile_le [of is_ascii_alphabetic "dropWhile is_number_char bytes"]
    by (cases "takeWhile is_number_char bytes") simp_all
qed

function parse_duration_loop :: "f64 \<Rightarrow> bool \<Rightarrow> utext \<Rightarrow> u64 option" where
  "parse_duration_loop acc saw [] = (if saw then Some (f64_as_u64 acc) else None)"
| "parse_duration_loop acc saw (b # bs) =
     (case read_component (b # bs) of
        None \<Rightarrow> None
      | Some (n, unit, rest) \<Rightarrow> parse_duration_loop (f64_add acc (f64_mul n unit)) True rest)"
  by pat_completeness auto
termination
  by (relation "measure (\<lambda>(_, _, bytes). length bytes)") (auto dest: read_component_shorter)

definition parse_duration_ms :: "utext \<Rightarrow> u64 option" where
  "parse_duration_ms value = parse_duration_loop (Finite 0) False value"

definition parse_reset_ms :: "utext \<Rightarrow> u64 \<Rightarrow> u64 option" where
  "parse_reset_ms text now =
     (let value = trim text
      in if value = [] then None
         else if of_char CHR ''T'' \<in> set value \<and> of_char CHR ''-'' \<in> set value
         then map_option (\<lambda>epoch. sat_sub epoch now) (parse_rfc3339_ms value)
         else if list_all is_ascii_digit value then map_option (\<lambda>s. sat_mul s 1000) (parse_u64 value)
         else parse_duration_ms value)"

definition window_from ::
  "(string, utext) btree \<Rightarrow> u64 \<Rightarrow> string \<times> string \<times> string \<Rightarrow> window_snapshot option" where
  "window_from headers now family =
     (case family of (limit_key, remaining_key, reset_key) \<Rightarrow>
        Option.bind (get_u64 headers limit_key) (\<lambda>limit.
          if limit = 0 then None
          else Option.bind (get_u64 headers remaining_key) (\<lambda>reported.
            let remaining = min reported limit;
                ms_until_reset = (case Option.bind (bt_get headers reset_key) (\<lambda>v. parse_reset_ms v now) of
                    Some ms \<Rightarrow> ms | None \<Rightarrow> 0)
            in Some \<lparr>ws_len_ms = 0, ws_limit = limit, ws_used = limit - remaining,
                 ws_remaining_permille = try_from_or (unat remaining * 1000 div unat limit) 1000,
                 ws_ms_until_reset = ms_until_reset\<rparr>)))"

definition parse_quota_windows :: "(string, utext) btree \<Rightarrow> u64 \<Rightarrow> window_snapshot list" where
  "parse_quota_windows headers now = List.map_filter (window_from headers now) FAMILIES"

section \<open>Windows\<close>

lemma window_from_Some:
  assumes "window_from headers now family = Some w"
  shows "ws_limit w \<noteq> 0 \<and> ws_used w \<le> ws_limit w \<and> ws_len_ms w = 0
    \<and> unat (ws_remaining_permille w) = (unat (ws_limit w) - unat (ws_used w)) * 1000 div unat (ws_limit w)"
proof -
  obtain limit reported where limit: "limit \<noteq> 0" and
    w: "ws_limit w = limit" "ws_used w = limit - min reported limit" "ws_len_ms w = 0"
      "ws_remaining_permille w = try_from_or (unat (min reported limit) * 1000 div unat limit) 1000"
    using assms by (auto simp: window_from_def bind_eq_Some_conv Let_def split: prod.splits if_splits)
  let ?r = "unat (min reported limit)"
  have le: "min reported limit \<le> limit" by simp
  then have used: "unat (limit - min reported limit) = unat limit - ?r" by (simp add: unat_sub)
  have r: "?r \<le> unat limit" using le by (simp add: word_le_nat_alt)
  have "?r * 1000 div unat limit \<le> 1000"
    using r limit by (metis div_le_mono mult.commute mult_le_mono1 nonzero_mult_div_cancel_left unat_eq_0)
  with limit used r le show ?thesis
    unfolding w by (simp add: unat_try_from_or word_sub_le)
qed

text \<open>
  A window read from a provider's headers is sound: at most one for each documented family, its limit
  is not zero, what is used does not exceed it, and the remaining share is exact and at most 1000
  permille, whatever the provider wrote.
\<close>

theorem quota_windows_sound:
  shows "list_all (\<lambda>w. ws_limit w \<noteq> 0 \<and> ws_used w \<le> ws_limit w \<and> ws_len_ms w = 0
      \<and> unat (ws_remaining_permille w) = (unat (ws_limit w) - unat (ws_used w)) * 1000 div unat (ws_limit w))
    (parse_quota_windows headers now) \<and> length (parse_quota_windows headers now) \<le> 3"
proof
  have "length (List.map_filter f xs) \<le> length xs" for f :: "'a \<Rightarrow> 'b option" and xs
    by (simp add: map_filter_def)
  from this [of "window_from headers now" FAMILIES] show "length (parse_quota_windows headers now) \<le> 3"
    by (simp add: parse_quota_windows_def FAMILIES_def del: List.map_filter_simps)
qed (auto simp: parse_quota_windows_def list_all_iff List.map_filter_def dest: window_from_Some)

section \<open>Timestamps\<close>

text \<open>The calendar, counted from the epoch.\<close>

definition leap :: "int \<Rightarrow> bool" where
  "leap y \<longleftrightarrow> 4 dvd y \<and> (\<not> 100 dvd y \<or> 400 dvd y)"

definition days_of_month :: "int \<Rightarrow> int \<Rightarrow> int" where
  "days_of_month y m =
     (if m = 2 then (if leap y then 29 else 28) else if m = 4 \<or> m = 6 \<or> m = 9 \<or> m = 11 then 30 else 31)"

definition day_number :: "int \<Rightarrow> int \<Rightarrow> int \<Rightarrow> int" where
  "day_number y m d =
     (\<Sum>k \<in> {1970..<y}. if leap k then 366 else 365) + (\<Sum>j \<in> {1..<m}. days_of_month y j) + d - 1"

definition days_before :: "int \<Rightarrow> int" where
  "days_before y = 365 * y + y div 4 - y div 100 + y div 400"

lemma days_before_step: "days_before y = days_before (y - 1) + (if leap y then 366 else 365)"
proof -
  have step: "y div k = (y - 1) div k + (if k dvd y then 1 else 0)" if "0 < k" for k
  proof (cases "k dvd y")
    case True
    then obtain q where y: "y = k * q" by blast
    have "(y - 1) div k = q - 1"
      by (rule int_div_pos_eq [where r = "k - 1"]) (use that in \<open>auto simp: y algebra_simps\<close>)
    with True that show ?thesis by (simp add: y)
  next
    case False
    then have "0 < y mod k" using that by (simp add: dvd_eq_mod_eq_0 order_less_le)
    then have "(y - 1) div k = y div k"
      using that pos_mod_bound [OF that, of y]
      by (intro int_div_pos_eq [where r = "y mod k - 1"]) (auto simp: mult_div_mod_eq algebra_simps)
    with False show ?thesis by simp
  qed
  have "100 dvd y \<Longrightarrow> 4 dvd y" by (rule dvd_trans [of 4 100]) simp_all
  moreover have "400 dvd y \<Longrightarrow> 100 dvd y" by (rule dvd_trans [of 100 400]) simp_all
  moreover have "days_before y = days_before (y - 1) + 365
      + (if 4 dvd y then 1 else 0) - (if 100 dvd y then 1 else 0) + (if 400 dvd y then 1 else 0)"
    by (simp only: days_before_def step [of 4, OF zero_less_numeral] step [of 100, OF zero_less_numeral]
        step [of 400, OF zero_less_numeral]) (simp add: algebra_simps)
  ultimately show ?thesis
    by (cases "4 dvd y"; cases "100 dvd y"; cases "400 dvd y") (simp_all add: leap_def)
qed

lemma days_of_years: "1970 \<le> y \<Longrightarrow> (\<Sum>k \<in> {1970..<y}. if leap k then 366 else 365) = days_before (y - 1) - 719162"
proof (induction y rule: int_ge_induct)
  case (step y)
  then have "{1970..<y + 1} = insert y {1970..<y}" by auto
  with step days_before_step [of y] show ?case by simp
qed (simp add: days_before_def)

lemma months_before:
  assumes "1 \<le> m" "m \<le> 12"
  shows "(\<Sum>j \<in> {1..<m}. days_of_month y j) =
    (if m \<le> 2 then 31 * (m - 1) else 59 + (if leap y then 1 else 0) + (153 * (m - 3) + 2) div 5)"
proof -
  have "m \<in> {1, 2, 3, 4, 5, 6, 7, 8, 9, 10, 11, 12}" unfolding insert_iff empty_iff using assms by presburger
  moreover have "{1..<2::int} = {1}" "{1..<3::int} = {1, 2}" "{1..<4::int} = {1, 2, 3}" "{1..<5::int} = {1, 2, 3, 4}"
    "{1..<6::int} = {1, 2, 3, 4, 5}" "{1..<7::int} = {1, 2, 3, 4, 5, 6}" "{1..<8::int} = {1, 2, 3, 4, 5, 6, 7}"
    "{1..<9::int} = {1, 2, 3, 4, 5, 6, 7, 8}" "{1..<10::int} = {1, 2, 3, 4, 5, 6, 7, 8, 9}"
    "{1..<11::int} = {1, 2, 3, 4, 5, 6, 7, 8, 9, 10}" "{1..<12::int} = {1, 2, 3, 4, 5, 6, 7, 8, 9, 10, 11}"
    by (auto; presburger)+
  ultimately show ?thesis by (auto simp: days_of_month_def)
qed

lemma sdiv_nonneg: "0 \<le> a \<Longrightarrow> 0 < b \<Longrightarrow> a sdiv b = a div b" for a b :: int
  by (cases "a = 0") (simp_all add: signed_divide_int_def sgn_if)

lemma days_before_era:
  "days_before y = (y div 400) * 146097 + (y mod 400) * 365 + (y mod 400) div 4 - (y mod 400) div 100"
proof -
  have y: "y = y mod 400 + (y div 400 * 100) * 4" "y = y mod 400 + (y div 400 * 4) * 100"
    "y = (y div 400) * 400 + y mod 400" by simp_all
  have "y div 4 = (y mod 400) div 4 + y div 400 * 100" using y(1) by (metis div_mult_self1 add.commute zero_neq_numeral)
  moreover have "y div 100 = (y mod 400) div 100 + y div 400 * 4" using y(2) by (metis div_mult_self1 add.commute zero_neq_numeral)
  ultimately show ?thesis using y(3) unfolding days_before_def by linarith
qed

lemma days_from_civil_eq:
  assumes "1 \<le> m" "m \<le> 12" "0 \<le> (if m \<le> 2 then y - 1 else y)"
  shows "days_from_civil y m d = days_before (if m \<le> 2 then y - 1 else y)
    + (153 * (if 2 < m then m - 3 else m + 9) + 2) div 5 + d - 1 - 719468"
proof -
  let ?y = "if m \<le> 2 then y - 1 else y"
  let ?era = "?y div 400" and ?yoe = "?y mod 400"
  have yoe: "?y - ?era * 400 = ?yoe" by (simp add: minus_div_mult_eq_mod)
  have yoe_pos: "0 \<le> ?yoe" by simp
  show ?thesis
    using assms by (simp only: days_from_civil_def Let_def sdiv_nonneg [OF assms(3)] yoe if_True
        days_before_era [of ?y]) (simp add: sdiv_nonneg yoe_pos)
qed

lemma days_from_civil_calendar:
  assumes "1970 \<le> y" "1 \<le> m" "m \<le> 12"
  shows "days_from_civil y m d = day_number y m d"
proof (cases "m \<le> 2")
  case True
  with assms have "m = 1 \<or> m = 2" by linarith
  with assms show ?thesis
    by (auto simp: days_from_civil_eq day_number_def days_of_years days_of_month_def)
next
  case False
  with assms days_before_step [of y] show ?thesis
    by (simp add: days_from_civil_eq day_number_def days_of_years months_before)
qed

text \<open>The spelling of a time of day: \<open>YYYY-MM-DDTHH:MM:SS\<close>, without what RFC 3339 puts behind it.\<close>

definition two :: "nat \<Rightarrow> utext" where "two n = [48 + n div 10, 48 + n mod 10]"

definition stamp :: "nat \<Rightarrow> nat \<Rightarrow> nat \<Rightarrow> nat \<Rightarrow> nat \<Rightarrow> nat \<Rightarrow> utext" where
  "stamp y mo d h mi s = two (y div 100) @ two (y mod 100) @ ascii ''-'' @ two mo @ ascii ''-'' @ two d
     @ ascii ''T'' @ two h @ ascii '':'' @ two mi @ ascii '':'' @ two s"

lemma parse_two: "n < 100 \<Longrightarrow> parse_i64 (two n) = Some (int n)"
  by (simp add: two_def parse_i64_def all_digits_def is_ascii_digit_def digits_value_def Let_def; linarith)

lemma parse_four:
  "y < 10000 \<Longrightarrow> parse_i64 (two (y div 100) @ two (y mod 100)) = Some (int y)"
proof -
  assume y: "y < 10000"
  have "digits_value (two (y div 100) @ two (y mod 100)) = y"
    by (simp add: two_def digits_value_def; linarith)
  moreover have "all_digits (two (y div 100) @ two (y mod 100))"
    using y by (simp add: two_def all_digits_def is_ascii_digit_def; linarith)
  ultimately show ?thesis using y by (simp add: two_def parse_i64_def Let_def)
qed

lemma split_bytes_ascii:
  "list_all is_ascii t \<Longrightarrow> n \<le> length t \<Longrightarrow> split_bytes n (t @ rest) = Some (take n t, drop n t @ rest)"
proof (induction t arbitrary: n)
  case (Cons c t)
  then show ?case by (cases n) (auto simp: len_utf8_def is_ascii_def)
qed (cases rest, simp_all)

lemma str_get_ascii:
  assumes "list_all is_ascii t" and "a \<le> b" "b \<le> length t"
  shows "str_get (t @ rest) a b = Some (drop a (take b t))"
proof -
  have "list_all is_ascii (take b t)" using assms(1) by (auto simp: list_all_iff dest: in_set_takeD)
  from split_bytes_ascii [OF this, of a "[]"] assms show ?thesis by (simp add: str_get_def split_bytes_ascii)
qed

lemma stamp_ascii:
  assumes "y < 10000" "mo < 100" "d < 100" "h < 100" "mi < 100" "s < 100"
  shows "list_all is_ascii (stamp y mo d h mi s)"
proof -
  have two: "n < 100 \<Longrightarrow> list_all is_ascii (two n)" for n by (simp add: two_def is_ascii_def; linarith)
  with assms show ?thesis by (simp add: stamp_def ascii_def is_ascii_def)
qed

lemma stamp_length: "length (stamp y mo d h mi s) = 19"
  by (simp add: stamp_def two_def ascii_def)

lemma str_len_ascii: "list_all is_ascii t \<Longrightarrow> length t \<le> str_len (t @ rest)"
  by (induction t) (simp_all add: str_len_def len_utf8_def is_ascii_def)

lemma stamp_fields:
  assumes "y < 10000" "mo < 100" "d < 100" "h < 100" "mi < 100" "s < 100"
    and "t = stamp y mo d h mi s @ rest"
  shows "field t 0 4 = Some (int y)" "field t 5 7 = Some (int mo)" "field t 8 10 = Some (int d)"
    "field t 11 13 = Some (int h)" "field t 14 16 = Some (int mi)" "field t 17 19 = Some (int s)"
proof -
  note get = str_get_ascii [OF stamp_ascii [OF assms(1-6)]]
  have "drop 0 (take 4 (stamp y mo d h mi s)) = two (y div 100) @ two (y mod 100)"
    "drop 5 (take 7 (stamp y mo d h mi s)) = two mo" "drop 8 (take 10 (stamp y mo d h mi s)) = two d"
    "drop 11 (take 13 (stamp y mo d h mi s)) = two h" "drop 14 (take 16 (stamp y mo d h mi s)) = two mi"
    "drop 17 (take 19 (stamp y mo d h mi s)) = two s"
    by (simp_all add: stamp_def two_def ascii_def)
  with get assms show "field t 0 4 = Some (int y)" "field t 5 7 = Some (int mo)" "field t 8 10 = Some (int d)"
    "field t 11 13 = Some (int h)" "field t 14 16 = Some (int mi)" "field t 17 19 = Some (int s)"
    by (simp_all add: field_def stamp_length parse_two parse_four)
qed

lemma trim_id:
  "t \<noteq> [] \<Longrightarrow> \<not> is_whitespace (hd t) \<Longrightarrow> \<not> is_whitespace (last t) \<Longrightarrow> trim t = t"
proof -
  assume ends: "t \<noteq> []" "\<not> is_whitespace (hd t)" "\<not> is_whitespace (last t)"
  then have "dropWhile is_whitespace t = t" by (cases t) auto
  moreover have "dropWhile is_whitespace (rev t) = rev t" using ends by (cases t rule: rev_cases) auto
  ultimately show ?thesis by (simp add: trim_def)
qed

text \<open>Trimming takes whitespace from behind the time of day only.\<close>

lemma stamp_trim:
  assumes "y < 10000"
  obtains rest' where "trim (stamp y mo d h mi s @ rest) = stamp y mo d h mi s @ rest'"
proof -
  have first: "dropWhile is_whitespace (stamp y mo d h mi s @ rest) = stamp y mo d h mi s @ rest"
  proof -
    from assms have "y div 100 div 10 < 10" by linarith
    then show ?thesis by (simp add: stamp_def two_def is_whitespace_def)
  qed
  let ?r = "dropWhile is_whitespace (rev rest)"
  have "s mod 10 < 10" by simp
  then have "\<not> is_whitespace (48 + s mod 10)" unfolding is_whitespace_def by auto
  then have last: "dropWhile is_whitespace (rev (stamp y mo d h mi s)) = rev (stamp y mo d h mi s)"
    by (simp add: stamp_def two_def)
  have "dropWhile is_whitespace (rev rest @ rev (stamp y mo d h mi s)) = ?r @ rev (stamp y mo d h mi s)"
  proof (cases "\<exists>c \<in> set (rev rest). \<not> is_whitespace c")
    case True
    then show ?thesis by (auto simp: dropWhile_append)
  next
    case False
    then have "\<forall>c \<in> set (rev rest). is_whitespace c" by simp
    with last show ?thesis using dropWhile_eq_Nil_conv [of is_whitespace "rev rest"]
      by (simp only: dropWhile_append2) simp
  qed
  with first show thesis by (intro that [of "rev ?r"]) (simp add: trim_def)
qed

lemma days_before_bounds:
  "1969 \<le> y \<Longrightarrow> 719162 \<le> days_before y \<and> days_before y \<le> 719162 + 366 * (y - 1969)"
proof (induction y rule: int_ge_induct)
  case (step y)
  then show ?case using days_before_step [of "y + 1"] by (simp split: if_splits)
qed (simp add: days_before_def)

lemma day_number_bounds:
  assumes "1970 \<le> y" "y \<le> 9999" "1 \<le> m" "m \<le> 12" "1 \<le> d" "d \<le> 31"
  shows "0 \<le> day_number y m d" "day_number y m d \<le> 4000000"
  using assms days_before_bounds [of "y - 1"] by (auto simp: day_number_def days_of_years months_before)

text \<open>
  C35. A reset time that begins \<open>YYYY-MM-DDTHH:MM:SS\<close> is read exactly as that instant in UTC, whatever
  follows it: the answer is the milliseconds from now to the instant the calendar gives the
  nineteen characters, zero when the instant has passed. A fraction or an offset behind them is
  ignored, as the function's comment says, so the exact reading is that of \<open>...Z\<close> timestamps without
  a fraction.
\<close>

theorem timestamp_read_exactly:
  assumes "1970 \<le> y" "y \<le> 9999" "1 \<le> mo" "mo \<le> 12" "1 \<le> d" "d \<le> 31" "h \<le> 23" "mi \<le> 59" "s \<le> 60"
  shows "map_option unat (parse_reset_ms (stamp y mo d h mi s @ rest) now)
    = Some (nat (day_number (int y) (int mo) (int d) * 86400 + int h * 3600 + int mi * 60 + int s) * 1000 - unat now)"
proof -
  let ?days = "day_number (int y) (int mo) (int d)"
  let ?secs = "?days * 86400 + int h * 3600 + int mi * 60 + int s"
  have small: "y < 10000" "mo < 100" "d < 100" "h < 100" "mi < 100" "s < 100" using assms by auto
  obtain rest' where trim: "trim (stamp y mo d h mi s @ rest) = stamp y mo d h mi s @ rest'"
    using stamp_trim [OF small(1)] by blast
  let ?t = "stamp y mo d h mi s @ rest'"
  have days: "days_from_civil (int y) (int mo) (int d) = ?days" using assms by (simp add: days_from_civil_calendar)
  have secs: "0 \<le> ?secs" "?secs < 400000000000"
    using day_number_bounds [of "int y" "int mo" "int d"] assms by linarith+
  then have fits: "nat ?secs * 1000 < 2 ^ 64" by simp
  moreover have "of_nat (nat ?secs) * 1000 = (of_nat (nat ?secs * 1000) :: u64)" by simp
  ultimately have ms: "unat (of_nat (nat ?secs) * 1000 :: u64) = nat ?secs * 1000"
    by (simp only: unat_of_nat take_bit_nat_eq_self len_bit0 len_num1) simp
  have "parse_rfc3339_ms ?t = epoch_ms (int y) (int mo) (int d) (int h) (int mi) (int s)"
    using stamp_fields [OF small refl] str_len_ascii [OF stamp_ascii [OF small], of rest']
    by (simp add: parse_rfc3339_ms_def stamp_length)
  also have "\<dots> = Some (of_nat (nat ?secs) * 1000)"
    using assms secs fits by (simp add: epoch_ms_def days Let_def)
  finally have read: "parse_rfc3339_ms ?t = Some (of_nat (nat ?secs) * 1000)" .
  have "?t \<noteq> []" "of_char CHR ''T'' \<in> set ?t" "of_char CHR ''-'' \<in> set ?t"
    by (simp_all add: stamp_def two_def ascii_def)
  then show ?thesis by (simp add: parse_reset_ms_def trim read Let_def sat_simps ms)
qed

lemma timestamp_read_exactly_witness:
  "map_option unat (parse_reset_ms (stamp 2024 2 29 23 59 60 @ ascii ''Z'') 1709251199000) = Some 1000"
proof -
  have "day_number 2024 2 29 = 19782"
    using days_from_civil_calendar [of 2024 2 29] by (simp add: days_from_civil_eq days_before_def)
  with timestamp_read_exactly [of 2024 2 29 23 59 60 "ascii ''Z''" 1709251199000] show ?thesis by simp
qed

section \<open>Durations\<close>

text \<open>Whole numbers up to \<open>2 ^ 53\<close> are exact in \<open>f64\<close>.\<close>

lemma round_even_of_int: "round_even (of_int z) = z"
  by (simp add: round_even_def Let_def)

lemma quotient_of_nat: "quotient_of (of_nat n) = (int n, 1)"
proof -
  have "(of_nat n :: rat) = Fract (int n) 1" by (simp add: Fract_of_nat_eq)
  then show ?thesis by (simp add: quotient_of_Fract)
qed

lemma binary_exponent_nat:
  assumes "0 < n" shows "binary_exponent (of_nat n) = int (floorlog 2 n) - 1" "2 ^ (floorlog 2 n - 1) \<le> n" "1 \<le> floorlog 2 n"
proof -
  show low: "2 ^ (floorlog 2 n - 1) \<le> n" using floorlog_bounds [of n 2] assms by simp
  show pos: "1 \<le> floorlog 2 n" 
    using assms by (cases "floorlog 2 n") (auto simp: floorlog_eq_zero_iff)
  have "floorlog 2 (Suc 0) = Suc 0" by code_simp
  moreover have "pow2 (int (floorlog 2 n) - 1) = of_nat (2 ^ (floorlog 2 n - 1))"
    using pos by (simp add: pow2_def nat_diff_distrib)
  moreover have "(of_nat (2 ^ (floorlog 2 n - 1)) :: rat) \<le> of_nat n" using low by (simp only: of_nat_le_iff)
  ultimately show "binary_exponent (of_nat n) = int (floorlog 2 n) - 1"
    by (simp add: binary_exponent_def quotient_of_nat Let_def)
qed

lemma pow2_minus: "pow2 (- int k) = 1 / of_nat (2 ^ k)"
  by (cases "k = 0") (simp_all add: pow2_def)

lemma f64_round_nat:
  assumes "n \<le> 2 ^ 53" shows "f64_round (of_nat n) = Finite (of_nat n)"
proof (cases "n = 0")
  case False
  then have n: "0 < n" by simp
  let ?b = "floorlog 2 n - 1"
  note b = binary_exponent_nat [OF n]
  have exponent: "binary_exponent (of_nat n) = int ?b" using b(1,3) by simp
  have "(2::nat) ^ ?b \<le> 2 ^ 53" using b(2) assms by linarith
  then have le: "?b \<le> 53" by (simp only: power_increasing_iff)
  show ?thesis
  proof (cases "?b \<le> 52")
    case True
    define k where "k = 52 - ?b"
    have e: "max (int ?b - 52) (- 1074) = - int k" using True by (simp add: k_def)
    have "of_nat n / pow2 (- int k) = of_int (int (n * 2 ^ k))" by (simp add: pow2_minus)
    then have "round_even (of_nat n / pow2 (- int k)) = int (n * 2 ^ k)" by (simp only: round_even_of_int)
    then show ?thesis unfolding f64_round_def Let_def exponent e using False by (simp add: pow2_minus)
  next
    case big: False
    have "?b = 53" using le big by simp
    then have "n = 2 ^ 53" using b(2) assms by simp
    moreover have "f64_round (2 ^ 53) = Finite (2 ^ 53)" by code_simp
    ultimately show ?thesis by simp
  qed
qed (simp add: f64_round_def)

lemma f64_as_u64_nat: "n < 2 ^ 64 \<Longrightarrow> f64_as_u64 (Finite (of_nat n)) = of_nat n"
  by (simp add: try_from_or_def)

text \<open>The spelling of a duration: whole numbers, each with its unit.\<close>

datatype duration_unit = Milli | Sec | Minute | Hour

fun unit_text :: "duration_unit \<Rightarrow> utext" where
  "unit_text Milli = ascii ''ms''"
| "unit_text Sec = ascii ''s''"
| "unit_text Minute = ascii ''m''"
| "unit_text Hour = ascii ''h''"

fun unit_ms :: "duration_unit \<Rightarrow> nat" where
  "unit_ms Milli = 1"
| "unit_ms Sec = 1000"
| "unit_ms Minute = 60000"
| "unit_ms Hour = 3600000"

definition spell :: "(utext \<times> duration_unit) list \<Rightarrow> utext" where
  "spell parts = concat (map (\<lambda>(ds, unit). ds @ unit_text unit) parts)"

definition span :: "(utext \<times> duration_unit) list \<Rightarrow> nat" where
  "span parts = sum_list (map (\<lambda>(ds, unit). digits_value ds * unit_ms unit) parts)"

lemma spell_simps [simp]: "spell [] = []" "spell ((ds, unit) # parts) = ds @ unit_text unit @ spell parts"
  by (simp_all add: spell_def)

lemma span_simps [simp]: "span [] = 0" "span ((ds, unit) # parts) = digits_value ds * unit_ms unit + span parts"
  by (simp_all add: span_def)

lemma unit_text_chars:
  "list_all is_ascii_alphabetic (unit_text unit)" "unit_text unit \<noteq> []"
  "per_unit_ms (unit_text unit) = Some (of_nat (unit_ms unit))"
  by (cases unit; simp add: ascii_def is_ascii_alphabetic_def is_ascii_lower_def per_unit_ms_def)+

lemma alphabetic_not_number: "is_ascii_alphabetic c \<Longrightarrow> \<not> is_number_char c \<and> \<not> is_ascii_digit c"
  by (auto simp: is_ascii_alphabetic_def is_number_char_def is_ascii_digit_def is_ascii_lower_def is_ascii_upper_def)

lemma digit_not_alphabetic: "is_ascii_digit c \<Longrightarrow> \<not> is_ascii_alphabetic c \<and> is_number_char c"
  by (auto simp: is_ascii_alphabetic_def is_number_char_def is_ascii_digit_def is_ascii_lower_def is_ascii_upper_def)

lemma takeWhile_block:
  assumes "list_all P a" and "b = [] \<or> \<not> P (hd b)"
  shows "takeWhile P (a @ b) = a" "dropWhile P (a @ b) = b"
  using assms by (induction a) (cases b; simp)+

definition whole_parts :: "(utext \<times> duration_unit) list \<Rightarrow> bool" where
  "whole_parts parts \<longleftrightarrow> list_all (\<lambda>(ds, unit). all_digits ds) parts"

lemma spell_start: "whole_parts parts \<Longrightarrow> spell parts = [] \<or> is_ascii_digit (hd (spell parts))"
  by (cases parts) (auto simp: whole_parts_def all_digits_def list_all_iff)

lemma read_component_part:
  assumes "all_digits ds" and "whole_parts parts" and "digits_value ds \<le> 2 ^ 53"
  shows "read_component (ds @ unit_text unit @ spell parts)
    = Some (Finite (of_nat (digits_value ds)), of_nat (unit_ms unit), spell parts)"
proof -
  have ds: "list_all is_number_char ds" "list_all is_ascii_digit ds" "ds \<noteq> []"
    using assms(1) digit_not_alphabetic by (auto simp: all_digits_def list_all_iff)
  have "\<not> is_number_char (hd (unit_text unit @ spell parts))"
    using unit_text_chars [of unit] alphabetic_not_number by (simp add: hd_append list_all_iff)
  note num = takeWhile_block [OF ds(1) disjI2 [OF this]]
  have "spell parts = [] \<or> \<not> is_ascii_alphabetic (hd (spell parts))"
    using spell_start [OF assms(2)] digit_not_alphabetic by blast
  note unit = takeWhile_block [OF unit_text_chars(1) [of unit] this]
  have "takeWhile is_ascii_digit ds = ds" "dropWhile is_ascii_digit ds = []"
    using takeWhile_block [OF ds(2), of "[]"] by simp_all
  then have "parse_f64 ds = Some (Finite (of_nat (digits_value ds)))"
    unfolding parse_f64_def Let_def using ds(3) f64_round_nat [OF assms(3)] by (simp only:) simp
  with ds(3) show ?thesis
    by (simp add: read_component_def num unit unit_text_chars(3) Let_def)
qed

lemma parse_duration_loop_parts:
  "whole_parts parts \<Longrightarrow> t + span parts \<le> 2 ^ 53 \<Longrightarrow> saw \<or> parts \<noteq> [] \<Longrightarrow>
    parse_duration_loop (Finite (of_nat t)) saw (spell parts) = Some (of_nat (t + span parts))"
proof (induction parts arbitrary: t saw)
  case Nil
  then show ?case using f64_as_u64_nat [of t] by simp
next
  case (Cons part parts)
  obtain ds unit where part: "part = (ds, unit)" by (cases part)
  let ?n = "digits_value ds" and ?u = "unit_ms unit"
  have parts: "all_digits ds" "whole_parts parts" using Cons.prems(1) by (simp_all add: part whole_parts_def)
  have u: "1 \<le> ?u" by (cases unit) simp_all
  have bound: "t + ?n * ?u + span parts \<le> 2 ^ 53" using Cons.prems(2) by (simp add: part)
  moreover have "?n \<le> ?n * ?u" using u by simp
  ultimately have "?n \<le> 2 ^ 53" "?n * ?u \<le> 2 ^ 53" "t + ?n * ?u \<le> 2 ^ 53" by linarith+
  note steps = read_component_part [OF parts this(1), of unit] f64_round_nat [OF this(2)] f64_round_nat [OF this(3)]
  obtain b bs where spelled: "spell (part # parts) = b # bs"
    using parts(1) by (cases ds) (auto simp: part all_digits_def)
  have "f64_add (Finite (of_nat t)) (f64_mul (Finite (of_nat ?n)) (of_nat ?u)) = Finite (of_nat (t + ?n * ?u))"
    using steps(2,3) by simp
  with Cons.IH [of "t + ?n * ?u" True] parts(2) bound steps(1) spelled show ?case
    by (simp add: part add.assoc)
qed

text \<open>
  A duration spelled in whole hours, minutes, seconds and milliseconds is read exactly, although the
  code adds it up in floating point, as long as it is at most \<open>2 ^ 53\<close> milliseconds.
\<close>

theorem duration_read_exactly:
  assumes "parts \<noteq> []" and "whole_parts parts" and "span parts \<le> 2 ^ 53"
  shows "parse_reset_ms (spell parts) now = Some (of_nat (span parts))"
proof -
  obtain ds unit more where parts: "parts = (ds, unit) # more" using assms(1) by (cases parts) auto
  have chars: "c \<in> set (spell ps) \<Longrightarrow> is_ascii_digit c \<or> c \<in> set (ascii ''msh'')" if "whole_parts ps" for c ps
    using that
  proof (induction ps)
    case (Cons p ps)
    obtain ds unit where p: "p = (ds, unit)" by (cases p)
    have "set (unit_text unit) \<subseteq> set (ascii ''msh'')" by (cases unit) (simp_all add: ascii_def)
    with Cons show ?case by (auto simp: p whole_parts_def all_digits_def list_all_iff)
  qed simp
  have white: "\<not> is_whitespace c" if "c \<in> set (spell parts)" for c
    using chars [OF assms(2) that] by (auto simp: ascii_def is_whitespace_def is_ascii_digit_def)
  have no_T: "of_char CHR ''T'' \<notin> set (spell parts)"
    using chars [OF assms(2), of "of_char CHR ''T''"] by (auto simp: ascii_def is_ascii_digit_def)
  have "hd (unit_text unit) \<in> set (spell parts)" "\<not> is_ascii_digit (hd (unit_text unit))"
    using unit_text_chars [of unit] alphabetic_not_number by (simp_all add: parts list_all_iff)
  then have unit: "\<not> list_all is_ascii_digit (spell parts)" by (auto simp: list_all_iff)
  have nonempty: "spell parts \<noteq> []" using unit_text_chars(2) [of unit] by (simp add: parts)
  then have "trim (spell parts) = spell parts" using white by (intro trim_id) auto
  then show ?thesis
    using nonempty no_T unit parse_duration_loop_parts [OF assms(2), of 0 False] assms
    by (simp add: parse_reset_ms_def parse_duration_ms_def Let_def)
qed

lemma duration_read_exactly_witness: "parse_reset_ms (ascii ''6m0s'') 7 = Some 360000"
proof -
  let ?parts = "[(ascii ''6'', Minute), (ascii ''0'', Sec)]"
  have "whole_parts ?parts" "span ?parts \<le> 2 ^ 53" "span ?parts = 360000"
    by (simp_all add: whole_parts_def all_digits_def is_ascii_digit_def digits_value_def ascii_def)
  with duration_read_exactly [of ?parts 7] show ?thesis by (simp add: ascii_def digits_value_def)
qed

end
