(* ===== verification/Http.thy ===== *)
theory Http
  imports Protocol
begin

text \<open>
  The boundary of the HTTP types, \<open>crates/protocol/src/http.rs\<close>, \<open>crates/protocol/src/envelope.rs\<close> and the
  header catalogues of \<open>crates/protocol/src/lib.rs\<close>: which headers an adapter may set, in which header
  the host may present a credential, and which inbound headers an adapter may read. Header names and
  values are the bytes of their strings.
\<close>

section \<open>Catalogues\<close>

definition CREDENTIAL_HEADERS :: "string list" where
  "CREDENTIAL_HEADERS =
     [''authorization'', ''proxy-authorization'', ''x-api-key'', ''api-key'', ''x-goog-api-key'',
      ''xi-api-key'', ''ocp-apim-subscription-key'', ''cookie'', ''set-cookie'']"

definition NEVER_CREDENTIAL_HEADERS :: "string list" where
  "NEVER_CREDENTIAL_HEADERS =
     [''accept'', ''accept-encoding'', ''connection'', ''content-encoding'', ''content-length'',
      ''content-type'', ''expect'', ''forwarded'', ''host'', ''http2-settings'', ''keep-alive'',
      ''proxy-authenticate'', ''proxy-connection'', ''te'', ''trailer'', ''transfer-encoding'', ''upgrade'',
      ''user-agent'', ''via'', ''www-authenticate'']"

definition MAX_AUTH_HEADER_NAME_BYTES :: nat where "MAX_AUTH_HEADER_NAME_BYTES = 64"

text \<open>\<open>str::to_ascii_lowercase\<close> and \<open>str::eq_ignore_ascii_case\<close>.\<close>

definition lower_char :: "char \<Rightarrow> char" where
  "lower_char c = char_of (ascii_lower (byte c))"

definition to_ascii_lowercase :: "string \<Rightarrow> string" where
  "to_ascii_lowercase s = map lower_char s"

definition eq_ignore_ascii_case :: "string \<Rightarrow> string \<Rightarrow> bool" where
  "eq_ignore_ascii_case a b \<longleftrightarrow> to_ascii_lowercase a = to_ascii_lowercase b"

definition is_credential_header :: "string \<Rightarrow> bool" where
  "is_credential_header name = list_ex (\<lambda>candidate. eq_ignore_ascii_case candidate name) CREDENTIAL_HEADERS"

section \<open>Presenting a credential\<close>

datatype http_method = Get | Post

datatype secret_ref = SecretRef (secret_as_str: string)

datatype auth_placement_reason = PlacementInvalid | NeverCredential | BearerCollision

record auth_placement_error =
  ape_header :: string
  ape_reason :: auth_placement_reason

datatype auth_wire =
    WireBearer secret_ref
  | WireHeader string secret_ref
  | WireBearerAndHeader string secret_ref
  | WireOauth secret_ref "string list"

datatype auth =
    Bearer secret_ref
  | Header string secret_ref
  | BearerAndHeader string secret_ref
  | OAuth secret_ref "string list"

definition is_lowercase_tchar :: "char \<Rightarrow> bool" where
  "is_lowercase_tchar c \<longleftrightarrow>
     is_ascii_lower (byte c) \<or> is_ascii_digit (byte c) \<or> c \<in> set ''!#$%&'' \<or> byte c = 39 \<or> c \<in> set ''*+-.^_`|~''"

definition admit_auth_header :: "string \<Rightarrow> auth_placement_error + string" where
  "admit_auth_header name =
     (if is_credential_header name then Ok name
      else if name = [] \<or> MAX_AUTH_HEADER_NAME_BYTES < length name \<or> \<not> list_all is_lowercase_tchar name
      then Err \<lparr>ape_header = name, ape_reason = PlacementInvalid\<rparr>
      else if name \<in> set NEVER_CREDENTIAL_HEADERS
      then Err \<lparr>ape_header = name, ape_reason = NeverCredential\<rparr>
      else Ok name)"

definition auth_bearer :: "secret_ref \<Rightarrow> auth" where "auth_bearer secret = Bearer secret"

definition auth_header :: "string \<Rightarrow> secret_ref \<Rightarrow> auth_placement_error + auth" where
  "auth_header name secret = and_then (admit_auth_header name) (\<lambda>name. Ok (Header name secret))"

definition auth_bearer_and_header :: "string \<Rightarrow> secret_ref \<Rightarrow> auth_placement_error + auth" where
  "auth_bearer_and_header name secret = and_then (admit_auth_header name) (\<lambda>name.
     if eq_ignore_ascii_case name ''authorization''
     then Err \<lparr>ape_header = name, ape_reason = BearerCollision\<rparr>
     else Ok (BearerAndHeader name secret))"

definition auth_oauth :: "secret_ref \<Rightarrow> string list \<Rightarrow> auth" where "auth_oauth secret scopes = OAuth secret scopes"

fun auth_secret :: "auth \<Rightarrow> secret_ref" where
  "auth_secret (Bearer secret) = secret"
| "auth_secret (Header _ secret) = secret"
| "auth_secret (BearerAndHeader _ secret) = secret"
| "auth_secret (OAuth secret _) = secret"

fun auth_try_from :: "auth_wire \<Rightarrow> auth_placement_error + auth" where
  "auth_try_from (WireBearer secret) = Ok (Bearer secret)"
| "auth_try_from (WireHeader name secret) = auth_header name secret"
| "auth_try_from (WireBearerAndHeader name secret) = auth_bearer_and_header name secret"
| "auth_try_from (WireOauth secret scopes) = Ok (OAuth secret scopes)"

fun auth_into :: "auth \<Rightarrow> auth_wire" where
  "auth_into (Bearer secret) = WireBearer secret"
| "auth_into (Header name secret) = WireHeader name secret"
| "auth_into (BearerAndHeader name secret) = WireBearerAndHeader name secret"
| "auth_into (OAuth secret scopes) = WireOauth secret scopes"

section \<open>Headers an adapter sets\<close>

datatype header_boundary_reason = CredentialHeader | HostOwned | InvalidName

record secret_boundary_error =
  sbe_header :: string
  sbe_reason :: header_boundary_reason

datatype safe_headers = SafeHeaders (sh_map: "(string, string) btree")

definition is_header_byte :: "char \<Rightarrow> bool" where
  "is_header_byte c \<longleftrightarrow>
     is_ascii_lower (byte c) \<or> is_ascii_upper (byte c) \<or> is_ascii_digit (byte c)
     \<or> c \<in> set ''!#$%&'' \<or> byte c = 39 \<or> c \<in> set ''*+-.^_`|~''"

definition host_owned :: "string list" where
  "host_owned =
     [''host'', ''content-length'', ''transfer-encoding'', ''connection'', ''proxy-authorization'',
      ''proxy-authenticate'', ''keep-alive'', ''te'', ''trailer'', ''upgrade'']"

definition check_safe_header :: "string \<Rightarrow> secret_boundary_error + string" where
  "check_safe_header name =
     (if is_credential_header name then Err \<lparr>sbe_header = name, sbe_reason = CredentialHeader\<rparr>
      else let normalized = to_ascii_lowercase name
           in if normalized = [] \<or> \<not> list_all is_header_byte normalized
              then Err \<lparr>sbe_header = name, sbe_reason = InvalidName\<rparr>
              else if normalized \<in> set host_owned
              then Err \<lparr>sbe_header = name, sbe_reason = HostOwned\<rparr>
              else Ok normalized)"

text \<open>The loop over the headers, with the map checked so far.\<close>

fun check_safe_headers ::
  "(string, string) btree \<Rightarrow> (string \<times> string) list \<Rightarrow> secret_boundary_error + (string, string) btree" where
  "check_safe_headers checked [] = Ok checked"
| "check_safe_headers checked ((name, v) # headers) =
     and_then (check_safe_header name) (\<lambda>normalized. check_safe_headers (bt_insert normalized v checked) headers)"

definition safe_headers_try_new :: "(string \<times> string) list \<Rightarrow> secret_boundary_error + safe_headers" where
  "safe_headers_try_new headers = and_then (check_safe_headers [] headers) (\<lambda>m. Ok (SafeHeaders m))"

definition safe_headers_get :: "safe_headers \<Rightarrow> string \<Rightarrow> string option" where
  "safe_headers_get h name = bt_get (sh_map h) name"

definition safe_headers_is_empty :: "safe_headers \<Rightarrow> bool" where "safe_headers_is_empty h \<longleftrightarrow> sh_map h = []"
definition safe_headers_len :: "safe_headers \<Rightarrow> nat" where "safe_headers_len h = length (sh_map h)"
definition safe_headers_iter :: "safe_headers \<Rightarrow> (string \<times> string) list" where "safe_headers_iter h = sh_map h"

definition safe_headers_try_from :: "(string, string) btree \<Rightarrow> secret_boundary_error + safe_headers" where
  "safe_headers_try_from m = safe_headers_try_new m"

definition safe_headers_into :: "safe_headers \<Rightarrow> (string, string) btree" where "safe_headers_into h = sh_map h"

record http_request_descriptor =
  hr_method :: http_method
  hr_url :: string
  hr_headers :: safe_headers
  hr_body :: "json option"
  hr_auth :: "auth option"
  hr_extensions :: extensions

definition http_request_new :: "http_method \<Rightarrow> string \<Rightarrow> http_request_descriptor" where
  "http_request_new meth url = \<lparr>hr_method = meth, hr_url = url, hr_headers = SafeHeaders [],
     hr_body = None, hr_auth = None, hr_extensions = []\<rparr>"

section \<open>Headers an adapter reads\<close>

record header_digest_wire =
  hw_names :: "string set"
  hw_values :: "(string, string) btree"

record header_digest =
  hd_names :: "string set"
  hd_values :: "(string, string) btree"

definition is_agent_metadata_value_header :: "string \<Rightarrow> bool" where
  "is_agent_metadata_value_header name \<longleftrightarrow>
     name \<in> set [''content-type'', ''anthropic-version'', ''x-agent-step'', ''anthropic-beta'', ''openai-beta'']"

definition digest_header :: "string \<times> string \<Rightarrow> header_digest \<Rightarrow> header_digest" where
  "digest_header header d =
     (case header of (raw, v) \<Rightarrow>
        let name = to_ascii_lowercase raw
        in d\<lparr>hd_values := (if \<not> is_credential_header name \<and> is_agent_metadata_value_header name \<and> length v \<le> 4096
                            then bt_insert name v (hd_values d) else hd_values d),
             hd_names := insert name (hd_names d)\<rparr>)"

definition redacting :: "(string \<times> string) list \<Rightarrow> header_digest" where
  "redacting headers = fold digest_header headers \<lparr>hd_names = {}, hd_values = []\<rparr>"

definition digest_value :: "header_digest \<Rightarrow> string \<Rightarrow> string option" where
  "digest_value d name = bt_get (hd_values d) name"

definition digest_contains :: "header_digest \<Rightarrow> string \<Rightarrow> bool" where
  "digest_contains d name \<longleftrightarrow> name \<in> hd_names d"

definition digest_from_wire :: "header_digest_wire \<Rightarrow> header_digest" where
  "digest_from_wire wire = (let d = redacting (hw_values wire) in d\<lparr>hd_names := hd_names d \<union> hw_names wire\<rparr>)"

definition digest_into_wire :: "header_digest \<Rightarrow> header_digest_wire" where
  "digest_into_wire d = \<lparr>hw_names = hd_names d, hw_values = hd_values d\<rparr>"

section \<open>Case folding\<close>

lemma byte_lower_char: "byte (lower_char c) = ascii_lower (byte c)"
proof -
  have "byte c < 256" using of_char_mod_256 [of c, where ?'a = nat] by (metis mod_less_divisor zero_less_numeral)
  then have "ascii_lower (byte c) < 256" by (auto simp: ascii_lower_def is_ascii_upper_def)
  then show ?thesis by (simp add: lower_char_def)
qed

lemma lower_char_idem [simp]: "lower_char (lower_char c) = lower_char c"
  by (simp add: lower_char_def [of "lower_char c"] byte_lower_char)
    (simp add: lower_char_def ascii_lower_def is_ascii_upper_def)

lemma to_ascii_lowercase_idem [simp]: "to_ascii_lowercase (to_ascii_lowercase s) = to_ascii_lowercase s"
  by (simp add: to_ascii_lowercase_def)

lemma to_ascii_lowercase_eq_Nil [simp]: "to_ascii_lowercase s = [] \<longleftrightarrow> s = []"
  by (simp add: to_ascii_lowercase_def)

lemma credential_lower: "list_all (\<lambda>n. to_ascii_lowercase n = n) CREDENTIAL_HEADERS"
  by code_simp

lemma is_credential_header_iff: "is_credential_header name \<longleftrightarrow> to_ascii_lowercase name \<in> set CREDENTIAL_HEADERS"
  using credential_lower
  by (auto simp: is_credential_header_def eq_ignore_ascii_case_def list_ex_iff list_all_iff)

lemma is_credential_header_lower [simp]: "is_credential_header (to_ascii_lowercase name) = is_credential_header name"
  by (simp add: is_credential_header_iff)

lemma lowercase_tchar_lower: "is_lowercase_tchar c \<Longrightarrow> lower_char c = c"
  by (auto simp: is_lowercase_tchar_def lower_char_def ascii_lower_def is_ascii_upper_def
      is_ascii_lower_def is_ascii_digit_def)

lemma lowercase_token_lower: "list_all is_lowercase_tchar s \<Longrightarrow> to_ascii_lowercase s = s"
  by (simp add: to_ascii_lowercase_def list_all_iff map_idI lowercase_tchar_lower)

section \<open>Presentation of credentials\<close>

lemma admit_auth_header_Ok_iff [result_simps]:
  "admit_auth_header name = Ok n \<longleftrightarrow> n = name \<and>
     (is_credential_header name
      \<or> name \<noteq> [] \<and> length name \<le> 64 \<and> list_all is_lowercase_tchar name \<and> name \<notin> set NEVER_CREDENTIAL_HEADERS)"
  by (auto simp: admit_auth_header_def MAX_AUTH_HEADER_NAME_BYTES_def)

lemma catalogues_disjoint: "list_all (\<lambda>n. n \<notin> set CREDENTIAL_HEADERS) NEVER_CREDENTIAL_HEADERS"
  by code_simp

lemma admitted_name: "admit_auth_header name = Ok n \<Longrightarrow> n = name"
  by (simp add: admit_auth_header_Ok_iff)

lemma admitted_not_never:
  assumes "admit_auth_header name = Ok n"
  shows "to_ascii_lowercase n \<notin> set NEVER_CREDENTIAL_HEADERS"
  using assms catalogues_disjoint
  by (auto simp: admit_auth_header_Ok_iff is_credential_header_iff list_all_iff lowercase_token_lower)

definition auth_names :: "auth \<Rightarrow> string list" where
  "auth_names a = (case a of Header n _ \<Rightarrow> [n] | BearerAndHeader n _ \<Rightarrow> [n, ''authorization''] | _ \<Rightarrow> [''authorization''])"

definition built_auth :: "auth \<Rightarrow> bool" where
  "built_auth a \<longleftrightarrow> (\<exists>w. auth_try_from w = Ok a)"

text \<open>
  C17. A credential is only ever written into a header that can carry one. Whatever arrives on the wire,
  the \<open>Auth\<close> it becomes names no framing, routing or content header in any case, never writes the same
  header twice, keeps the secret it named, and is what is read back when it is sent on.
\<close>

theorem auth_placement_is_safe:
  assumes "auth_try_from wire = Ok a"
  shows "list_all (\<lambda>n. to_ascii_lowercase n \<notin> set NEVER_CREDENTIAL_HEADERS) (auth_names a)
    \<and> distinct (map to_ascii_lowercase (auth_names a))
    \<and> auth_into a = wire \<and> auth_try_from (auth_into a) = Ok a"
proof -
  have "to_ascii_lowercase ''authorization'' = ''authorization''"
    and "''authorization'' \<notin> set NEVER_CREDENTIAL_HEADERS"
    by code_simp+
  with assms have "list_all (\<lambda>n. to_ascii_lowercase n \<notin> set NEVER_CREDENTIAL_HEADERS) (auth_names a)"
    and "distinct (map to_ascii_lowercase (auth_names a))"
    by (cases wire; auto simp: auth_names_def auth_header_def auth_bearer_and_header_def and_then_Ok_iff
        eq_ignore_ascii_case_def dest: admitted_not_never split: if_splits)+
  moreover have "auth_into a = wire"
    using assms by (cases wire) (auto simp: auth_header_def auth_bearer_and_header_def and_then_Ok_iff
        dest: admitted_name split: if_splits)
  ultimately show ?thesis using assms by simp
qed

lemma auth_placement_is_safe_witness:
  "auth_try_from (auth_into (BearerAndHeader ''X-Goog-Api-Key'' (SecretRef ''k'')))
    = Ok (BearerAndHeader ''X-Goog-Api-Key'' (SecretRef ''k''))"
proof -
  have "auth_try_from (WireBearerAndHeader ''X-Goog-Api-Key'' (SecretRef ''k''))
      = Ok (BearerAndHeader ''X-Goog-Api-Key'' (SecretRef ''k''))"
    by code_simp
  from auth_placement_is_safe [OF this] show ?thesis by blast
qed

section \<open>Safe headers\<close>

lemma check_safe_header_Ok_iff [result_simps]:
  "check_safe_header name = Ok n \<longleftrightarrow> n = to_ascii_lowercase name \<and> \<not> is_credential_header name \<and> name \<noteq> []
     \<and> list_all is_header_byte n \<and> n \<notin> set host_owned"
  by (auto simp: check_safe_header_def Let_def)

lemma check_safe_header_Err: "check_safe_header name = Err e \<Longrightarrow> sbe_header e = name"
  by (auto simp: check_safe_header_def Let_def split: if_splits)

text \<open>What an adapter may name: a lower-case token that neither carries a credential nor frames the request.\<close>

definition safe_name :: "string \<Rightarrow> bool" where
  "safe_name n \<longleftrightarrow> to_ascii_lowercase n = n \<and> n \<noteq> [] \<and> list_all is_header_byte n
     \<and> n \<notin> set CREDENTIAL_HEADERS \<and> n \<notin> set host_owned"

lemma check_safe_header_Ok:
  "check_safe_header name = Ok n \<longleftrightarrow> n = to_ascii_lowercase name \<and> safe_name n"
  by (auto simp: check_safe_header_Ok_iff safe_name_def is_credential_header_iff)

lemma check_safe_headers_Ok_iff:
  "check_safe_headers checked headers = Ok m \<longleftrightarrow>
     list_all (\<lambda>(name, v). safe_name (to_ascii_lowercase name)) headers
     \<and> m = fold (\<lambda>(n, v). bt_insert n v) (map (map_prod to_ascii_lowercase id) headers) checked"
  by (induction checked headers rule: check_safe_headers.induct)
    (auto simp: and_then_Ok_iff check_safe_header_Ok)

lemma check_safe_headers_Err:
  "check_safe_headers checked headers = Err e \<Longrightarrow>
     \<exists>before v after. headers = before @ (sbe_header e, v) # after \<and> check_safe_header (sbe_header e) = Err e
       \<and> list_all (\<lambda>(name, v). safe_name (to_ascii_lowercase name)) before"
proof (induction checked headers rule: check_safe_headers.induct)
  case (2 checked name v headers)
  show ?case
  proof (cases "check_safe_header name")
    case (Inl e')
    with 2 have "e' = e" by simp
    with check_safe_header_Err [OF Inl] Inl show ?thesis
      by (intro exI [of _ "[]"] exI [of _ v] exI [of _ headers]) simp
  next
    case (Inr n)
    with "2.IH" "2.prems" obtain before v' after
      where "headers = before @ (sbe_header e, v') # after" "check_safe_header (sbe_header e) = Err e"
        "list_all (\<lambda>(name, v). safe_name (to_ascii_lowercase name)) before"
      unfolding check_safe_headers.simps Inr and_then.simps by blast
    then have "(name, v) # headers = ((name, v) # before) @ (sbe_header e, v') # after"
      and "list_all (\<lambda>(name, v). safe_name (to_ascii_lowercase name)) ((name, v) # before)"
      using Inr by (auto simp: check_safe_header_Ok)
    with \<open>check_safe_header (sbe_header e) = Err e\<close> show ?thesis by blast
  qed
qed simp

text \<open>Inserting the entries of a map in its order rebuilds it.\<close>

lemma bt_insert_last: "list_all (\<lambda>p. fst p < k) m \<Longrightarrow> bt_insert k v m = m @ [(k, v)]"
  by (induction k v m rule: bt_insert.induct) auto

lemma fold_bt_insert_id: "bt_ok (acc @ m) \<Longrightarrow> fold (\<lambda>(n, v). bt_insert n v) m acc = acc @ m"
proof (induction m arbitrary: acc)
  case (Cons p m)
  obtain n v where p: "p = (n, v)" by (cases p)
  have "list_all (\<lambda>p. fst p < n) acc"
    using Cons.prems by (auto simp: p bt_ok_def sorted_wrt_append list_all_iff)
  with Cons p show ?case by (simp add: bt_insert_last)
qed simp

lemma keys_fold_bt_insert:
  "fst ` set (fold (\<lambda>(n, v). bt_insert n v) kvs m) = fst ` set kvs \<union> fst ` set m"
  by (induction kvs arbitrary: m) (auto simp: fst_set_bt_insert split: prod.splits)

text \<open>
  C16. The headers an adapter sets pass the boundary or the request is refused. Checked headers hold only
  lower-case tokens that carry no credential and frame nothing, one value each, the last that was given
  under any spelling of the name, and they read back as themselves; an error names the first header that
  may not be set.
\<close>

theorem safe_headers_boundary:
  shows "case safe_headers_try_new headers of
      Inr h \<Rightarrow> bt_ok (sh_map h) \<and> list_all (\<lambda>(n, v). safe_name n) (sh_map h)
        \<and> safe_headers_get h n = map_of (rev (map (map_prod to_ascii_lowercase id) headers)) n
        \<and> safe_headers_try_from (safe_headers_into h) = Ok h
    | Inl e \<Rightarrow> \<exists>before v after. headers = before @ (sbe_header e, v) # after
        \<and> \<not> safe_name (to_ascii_lowercase (sbe_header e))
        \<and> list_all (\<lambda>(name, v). safe_name (to_ascii_lowercase name)) before"
proof (cases "safe_headers_try_new headers")
  case (Inl e)
  then have "check_safe_headers [] headers = Err e" by (simp add: safe_headers_try_new_def result_simps)
  from check_safe_headers_Err [OF this] obtain before v after
    where "headers = before @ (sbe_header e, v) # after" "check_safe_header (sbe_header e) = Err e"
      "list_all (\<lambda>(name, v). safe_name (to_ascii_lowercase name)) before"
    by blast
  with Inl show ?thesis using check_safe_header_Ok [of "sbe_header e" "to_ascii_lowercase (sbe_header e)"] by auto
next
  case (Inr h)
  let ?kvs = "map (map_prod to_ascii_lowercase id) headers"
  obtain m where h: "h = SafeHeaders m" and m: "check_safe_headers [] headers = Ok m"
    using Inr by (auto simp: safe_headers_try_new_def result_simps)
  then have safe: "list_all (\<lambda>(name, v). safe_name (to_ascii_lowercase name)) headers"
    and eq: "m = fold (\<lambda>(n, v). bt_insert n v) ?kvs []"
    by (simp_all add: check_safe_headers_Ok_iff)
  have ok: "bt_ok m" unfolding eq by (rule bt.ok_fold_put) simp
  have keys: "fst ` set m = to_ascii_lowercase ` fst ` set headers"
    by (simp add: eq keys_fold_bt_insert image_image)
  have names: "list_all (\<lambda>(n, v). safe_name n) m"
    using safe keys unfolding list_all_iff by (force simp: image_iff)
  have "bt_get m n = map_of (rev ?kvs) n"
    using bt.get_fold_put [of ?kvs "[]" n] by (simp add: eq bt_get_def split: option.splits)
  moreover have "map (map_prod to_ascii_lowercase id) m = m"
    using names by (auto simp: list_all_iff safe_name_def intro!: map_idI)
  moreover have "list_all (\<lambda>(n, v). safe_name (to_ascii_lowercase n)) m"
    using names by (auto simp: list_all_iff safe_name_def)
  moreover have "safe_headers_try_from (safe_headers_into h) = Ok h"
    using calculation fold_bt_insert_id [of "[]" m] ok
    by (simp add: h safe_headers_into_def safe_headers_try_from_def safe_headers_try_new_def
        check_safe_headers_Ok_iff and_then_Ok_iff)
  ultimately show ?thesis unfolding Inr using ok names by (simp add: h safe_headers_get_def)
qed

lemma safe_headers_boundary_witness:
  "safe_headers_get (SafeHeaders [(''x-a'', ''2'')]) ''x-a'' = Some ''2''"
proof -
  have "safe_headers_try_new [(''X-A'', ''1''), (''x-a'', ''2'')] = Ok (SafeHeaders [(''x-a'', ''2'')])"
    by code_simp
  with safe_headers_boundary [of "[(''X-A'', ''1''), (''x-a'', ''2'')]" "''x-a''"]
  have "safe_headers_get (SafeHeaders [(''x-a'', ''2'')]) ''x-a''
      = map_of (rev (map (map_prod to_ascii_lowercase id) [(''X-A'', ''1''), (''x-a'', ''2'')])) ''x-a''"
    by simp
  also have "\<dots> = Some ''2''" by code_simp
  finally show ?thesis .
qed

section \<open>Header digests\<close>

definition visible :: "string \<Rightarrow> string \<Rightarrow> bool" where
  "visible n v \<longleftrightarrow> \<not> is_credential_header n \<and> is_agent_metadata_value_header n \<and> length v \<le> 4096"

lemma digest_header_simps [simp]:
  "hd_names (digest_header (raw, v) d) = insert (to_ascii_lowercase raw) (hd_names d)"
  "hd_values (digest_header (raw, v) d) =
     (if visible (to_ascii_lowercase raw) v then bt_insert (to_ascii_lowercase raw) v (hd_values d) else hd_values d)"
  by (simp_all add: digest_header_def visible_def Let_def)

lemma digest_names: "hd_names (fold digest_header headers d) = to_ascii_lowercase ` fst ` set headers \<union> hd_names d"
  by (induction headers arbitrary: d) auto

lemma digest_values:
  "hd_values (fold digest_header headers d) =
    fold (\<lambda>(n, v). bt_insert n v)
      (filter (\<lambda>(n, v). visible n v) (map (map_prod to_ascii_lowercase id) headers)) (hd_values d)"
  by (induction headers arbitrary: d) (auto split: if_splits)

lemma redacting_values:
  "hd_values (redacting headers) =
    fold (\<lambda>(n, v). bt_insert n v) (filter (\<lambda>(n, v). visible n v) (map (map_prod to_ascii_lowercase id) headers)) []"
  by (simp add: redacting_def digest_values)

lemma redacting_names: "hd_names (redacting headers) = to_ascii_lowercase ` fst ` set headers"
  by (simp add: redacting_def digest_names)

lemma entries_fold_bt_insert: "set (fold (\<lambda>(n, v). bt_insert n v) kvs m) \<subseteq> set kvs \<union> set m"
proof (induction kvs arbitrary: m)
  case (Cons p kvs)
  obtain n v where p: "p = (n, v)" by (cases p)
  show ?case using Cons [of "bt_insert n v m"] set_bt_insert_subset [of n v m] by (auto simp: p)
qed simp

lemma redacting_visible: "list_all (\<lambda>(n, v). visible n v \<and> to_ascii_lowercase n = n) (hd_values (redacting headers))"
  using entries_fold_bt_insert [of "filter (\<lambda>(n, v). visible n v) (map (map_prod to_ascii_lowercase id) headers)" "[]"]
  unfolding redacting_values list_all_iff by fastforce

lemma redacting_again:
  assumes "bt_ok m" and "list_all (\<lambda>(n, v). visible n v \<and> to_ascii_lowercase n = n) m"
  shows "hd_values (redacting m) = m"
proof -
  have "map (map_prod to_ascii_lowercase id) m = m"
    using assms(2) by (auto simp: list_all_iff intro!: map_idI)
  moreover have "filter (\<lambda>(n, v). visible n v) m = m"
    using assms(2) by (auto simp: list_all_iff intro!: filter_True)
  ultimately show ?thesis using fold_bt_insert_id [of "[]" m] assms(1) by (simp add: redacting_values)
qed

lemma redacting_sorted: "bt_ok (hd_values (redacting headers))"
  unfolding redacting_values by (rule bt.ok_fold_put) simp

text \<open>
  C15. An adapter never sees an inbound credential. However the values of credential headers are changed
  to \<open>secret\<close>, the digest is the same; it keeps every name, and values only of the metadata catalogue; the
  same holds of a digest read from the wire, and what a digest writes to the wire it reads back.
\<close>

theorem digest_hides_credentials:
  shows "redacting (map (\<lambda>(n, v). (n, if is_credential_header n then secret n v else v)) headers) = redacting headers
    \<and> hd_names (redacting headers) = to_ascii_lowercase ` fst ` set headers
    \<and> list_all (\<lambda>(n, v). \<not> is_credential_header n \<and> is_agent_metadata_value_header n) (hd_values (redacting headers))
    \<and> list_all (\<lambda>(n, v). \<not> is_credential_header n \<and> is_agent_metadata_value_header n) (hd_values (digest_from_wire wire))
    \<and> digest_from_wire (digest_into_wire (redacting headers)) = redacting headers
    \<and> digest_from_wire (digest_into_wire (digest_from_wire wire)) = digest_from_wire wire"
proof -
  let ?other = "map (\<lambda>(n, v). (n, if is_credential_header n then secret n v else v)) headers"
  have "filter (\<lambda>(n, v). visible n v) (map (map_prod to_ascii_lowercase id) ?other)
      = filter (\<lambda>(n, v). visible n v) (map (map_prod to_ascii_lowercase id) headers)"
    by (induction headers) (auto simp: visible_def)
  moreover have "fst ` set ?other = fst ` set headers" by force
  ultimately have same: "redacting ?other = redacting headers"
    using redacting_values [of ?other] redacting_values [of headers] redacting_names [of ?other]
      redacting_names [of headers]
    by (simp add: header_digest.equality)
  have shown: "list_all (\<lambda>(n, v). \<not> is_credential_header n \<and> is_agent_metadata_value_header n) (hd_values (redacting hs))" for hs
    using redacting_visible [of hs] by (auto simp: list_all_iff visible_def)
  have kept: "hd_values (digest_from_wire wire) = hd_values (redacting (hw_values wire))"
    by (simp add: digest_from_wire_def Let_def)
  have again: "digest_from_wire (digest_into_wire d) = d"
    if "hd_values d = hd_values (redacting hs)" "fst ` set (hd_values d) \<subseteq> hd_names d" for d hs
  proof (rule header_digest.equality)
    have lower: "list_all (\<lambda>(n, v). visible n v \<and> to_ascii_lowercase n = n) (hd_values d)"
      using redacting_visible [of hs] that(1) by simp
    show "hd_values (digest_from_wire (digest_into_wire d)) = hd_values d"
      using redacting_again [OF redacting_sorted [of hs]] lower that(1)
      by (simp add: digest_from_wire_def digest_into_wire_def Let_def)
    have "to_ascii_lowercase ` fst ` set (hd_values d) \<subseteq> hd_names d"
      using lower that(2) by (force simp: list_all_iff)
    then show "hd_names (digest_from_wire (digest_into_wire d)) = hd_names d"
      by (auto simp: digest_from_wire_def digest_into_wire_def Let_def redacting_names)
  qed simp
  have named: "fst ` set (hd_values (redacting hs)) \<subseteq> hd_names (redacting hs)" for hs
    unfolding redacting_values redacting_names keys_fold_bt_insert by force
  have "digest_from_wire (digest_into_wire (digest_from_wire wire)) = digest_from_wire wire"
    by (rule again [OF kept]) (use named [of "hw_values wire"] in \<open>auto simp: digest_from_wire_def Let_def\<close>)
  with same shown [of headers] shown [of "hw_values wire"] again [OF refl named] show ?thesis
    by (simp only: kept redacting_names simp_thms)
qed

end
