(* ===== verification/Endpoint.thy ===== *)
theory Endpoint
  imports Http
begin

text \<open>
  The upstream a provider adapter may address, \<open>crates/protocol/src/provider.rs\<close>: the parsed base URL, the
  test that a URL stays at or below it, and the gate the host runs before it attaches a credential. A URL
  is the list of the bytes of its string.
\<close>

section \<open>Operations on byte strings\<close>

definition strip_prefix :: "string \<Rightarrow> string \<Rightarrow> string option" where
  "strip_prefix p s = (if prefix p s then Some (drop (length p) s) else None)"

definition strip_suffix :: "string \<Rightarrow> string \<Rightarrow> string option" where
  "strip_suffix p s = (if suffix p s then Some (take (length s - length p) s) else None)"

definition trim_end_slashes :: "string \<Rightarrow> string" where
  "trim_end_slashes s = rev (dropWhile (\<lambda>c. c = CHR ''/'') (rev s))"

text \<open>\<open>Iterator::find_map\<close>.\<close>

fun find_map :: "('a \<Rightarrow> 'b option) \<Rightarrow> 'a list \<Rightarrow> 'b option" where
  "find_map f [] = None"
| "find_map f (x # xs) = (case f x of Some y \<Rightarrow> Some y | None \<Rightarrow> find_map f xs)"

section \<open>Paths\<close>

datatype provider_api = ChatCompletions | Responses | Messages | Models

definition ALL_APIS :: "provider_api list" where "ALL_APIS = [ChatCompletions, Responses, Messages, Models]"

fun api_path :: "provider_api \<Rightarrow> string" where
  "api_path ChatCompletions = ''chat/completions''"
| "api_path Responses = ''responses''"
| "api_path Messages = ''messages''"
| "api_path Models = ''models''"

definition normalize_api_root :: "string \<Rightarrow> string" where
  "normalize_api_root path =
     trim_end_slashes (unwrap_or (find_map (\<lambda>api. strip_suffix (''/'' @ api_path api) path) ALL_APIS) path)"

datatype encoded_slash = Refuse | AdmitInSegment

definition hex_nibble :: "char \<Rightarrow> nat option" where
  "hex_nibble c =
     (let b = byte c
      in if 48 \<le> b \<and> b \<le> 57 then Some (b - 48)
         else if 97 \<le> b \<and> b \<le> 102 then Some (b - 97 + 10)
         else if 65 \<le> b \<and> b \<le> 70 then Some (b - 65 + 10)
         else None)"

definition is_ascii_control :: "char \<Rightarrow> bool" where
  "is_ascii_control c \<longleftrightarrow> byte c < 32 \<or> byte c = 127"

text \<open>\<open>None\<close> where the loop over the bytes of a segment finds it ambiguous.\<close>

fun decode_segment :: "encoded_slash \<Rightarrow> string \<Rightarrow> string option" where
  "decode_segment es [] = Some []"
| "decode_segment es (c # cs) =
     (if c \<noteq> CHR ''%'' then map_option ((#) c) (decode_segment es cs)
      else (case cs of
          h # l # rest \<Rightarrow>
            (case (hex_nibble h, hex_nibble l) of
               (Some high, Some low) \<Rightarrow>
                 let b = char_of (high * 16 + low)
                 in if byte b = 92 \<or> is_ascii_control b \<or> b = CHR ''/'' \<and> es = Refuse then None
                    else map_option ((#) b) (decode_segment es rest)
             | _ \<Rightarrow> None)
        | _ \<Rightarrow> None))"

definition segment_is_ambiguous :: "encoded_slash \<Rightarrow> string \<Rightarrow> bool" where
  "segment_is_ambiguous es segment \<longleftrightarrow>
     segment = ''.'' \<or> segment = ''..''
     \<or> (case decode_segment es segment of
          None \<Rightarrow> True
        | Some decoded \<Rightarrow>
            if CHR ''/'' \<in> set decoded
            then list_ex (\<lambda>piece. piece = [] \<or> piece = ''.'' \<or> piece = ''..'') (split_by (\<lambda>c. c = CHR ''/'') decoded)
            else decoded = ''.'' \<or> decoded = ''..'')"

definition path_is_ambiguous :: "encoded_slash \<Rightarrow> string \<Rightarrow> bool" where
  "path_is_ambiguous es path \<longleftrightarrow>
     list_ex (\<lambda>c. byte c = 92) path \<or> text_contains path ''//''
     \<or> list_ex (\<lambda>c. is_ascii_control c \<or> c = CHR '' '') path
     \<or> list_ex (segment_is_ambiguous es) (split_by (\<lambda>c. c = CHR ''/'') path)"

section \<open>Endpoints\<close>

datatype endpoint_error =
    NotHttp | MissingHost | CarriesUserinfo | AuthorityCarriesWhitespace | CarriesQueryOrFragment | AmbiguousPath

record provider_endpoint =
  pe_origin :: string
  pe_path :: string

definition ends_authority :: "char \<Rightarrow> bool" where
  "ends_authority c \<longleftrightarrow> c \<in> set ''/?#''"

definition split_scheme :: "string \<Rightarrow> (string \<times> string) option" where
  "split_scheme url =
     find_map (\<lambda>scheme. map_option (Pair scheme) (strip_prefix scheme url)) [''https://'', ''http://'']"

definition split_origin :: "string \<Rightarrow> endpoint_error + string \<times> string" where
  "split_origin url =
     (case split_scheme url of
        None \<Rightarrow> Err NotHttp
      | Some (scheme, after_scheme) \<Rightarrow>
          let authority = takeWhile (\<lambda>c. \<not> ends_authority c) after_scheme;
              rest = dropWhile (\<lambda>c. \<not> ends_authority c) after_scheme
          in if authority = [] then Err MissingHost
             else if CHR ''@'' \<in> set authority then Err CarriesUserinfo
             else if list_ex is_whitespace (utf8_decode (map byte authority)) then Err AuthorityCarriesWhitespace
             else Ok (scheme @ to_ascii_lowercase authority, rest))"

definition endpoint_try_new :: "string \<Rightarrow> endpoint_error + provider_endpoint" where
  "endpoint_try_new url = and_then (split_origin url) (\<lambda>(origin, rest).
     if CHR ''?'' \<in> set rest \<or> CHR ''#'' \<in> set rest then Err CarriesQueryOrFragment
     else if path_is_ambiguous Refuse rest then Err AmbiguousPath
     else Ok \<lparr>pe_origin = origin, pe_path = normalize_api_root (trim_end_slashes rest)\<rparr>)"

definition endpoint_permits :: "provider_endpoint \<Rightarrow> string \<Rightarrow> bool" where
  "endpoint_permits e url =
     (case split_origin url of
        Inl _ \<Rightarrow> False
      | Inr (origin, rest) \<Rightarrow>
          if origin \<noteq> pe_origin e then False
          else (case strip_prefix (pe_path e) (takeWhile (\<lambda>c. c \<noteq> CHR ''?'' \<and> c \<noteq> CHR ''#'') rest) of
              None \<Rightarrow> False
            | Some rest_path \<Rightarrow>
                (rest_path = [] \<or> prefix ''/'' rest_path) \<and> \<not> path_is_ambiguous AdmitInSegment rest_path))"

definition endpoint_as_str :: "provider_endpoint \<Rightarrow> string" where
  "endpoint_as_str e = pe_origin e @ pe_path e"

definition uses_https :: "provider_endpoint \<Rightarrow> bool" where
  "uses_https e \<longleftrightarrow> prefix ''https://'' (pe_origin e)"

definition endpoint_resolve :: "provider_endpoint \<Rightarrow> provider_api \<Rightarrow> string" where
  "endpoint_resolve e api =
     (let root = (if pe_path e = [] then ''/v1'' else pe_path e)
      in pe_origin e @ root @ ''/'' @ api_path api)"

text \<open>The two directions of serde, \<open>TryFrom<String>\<close> and \<open>From<ProviderEndpoint>\<close>.\<close>

definition endpoint_try_from :: "string \<Rightarrow> endpoint_error + provider_endpoint" where
  "endpoint_try_from url = endpoint_try_new url"

definition endpoint_into :: "provider_endpoint \<Rightarrow> string" where
  "endpoint_into e = endpoint_as_str e"

section \<open>Loopback\<close>

text \<open>
  \<open>str::parse::<IpAddr>\<close> of the standard library. A reader takes a value from the front of the text or
  fails; a reader that fails consumes nothing.
\<close>

text \<open>At most \<open>limit\<close> digits of the radix, below \<open>bound\<close>.\<close>

definition read_number :: "(char \<Rightarrow> nat option) \<Rightarrow> nat \<Rightarrow> nat \<Rightarrow> nat \<Rightarrow> bool \<Rightarrow> string \<Rightarrow> (nat \<times> string) option" where
  "read_number digit radix limit bound zero_prefix s =
     (let ds = takeWhile (\<lambda>c. digit c \<noteq> None) s;
          n = foldl (\<lambda>n c. n * radix + the (digit c)) 0 ds
      in if ds = [] \<or> limit < length ds \<or> bound \<le> n
            \<or> \<not> zero_prefix \<and> prefix ''0'' ds \<and> 1 < length ds
         then None else Some (n, drop (length ds) s))"

definition decimal_digit :: "char \<Rightarrow> nat option" where
  "decimal_digit c = (if is_ascii_digit (byte c) then Some (byte c - 48) else None)"

definition read_given :: "char \<Rightarrow> string \<Rightarrow> string option" where
  "read_given c s = (case s of d # rest \<Rightarrow> if d = c then Some rest else None | [] \<Rightarrow> None)"

definition read_separator :: "char \<Rightarrow> bool \<Rightarrow> (string \<Rightarrow> ('a \<times> string) option) \<Rightarrow> string \<Rightarrow> ('a \<times> string) option" where
  "read_separator sep first inner s =
     (if first then inner s else (case read_given sep s of None \<Rightarrow> None | Some rest \<Rightarrow> inner rest))"

fun read_octets :: "nat \<Rightarrow> bool \<Rightarrow> string \<Rightarrow> (nat list \<times> string) option" where
  "read_octets 0 first s = Some ([], s)"
| "read_octets (Suc n) first s =
     (case read_separator CHR ''.'' first (read_number decimal_digit 10 3 256 False) s of
        None \<Rightarrow> None
      | Some (octet, rest) \<Rightarrow> map_option (\<lambda>(octets, rest). (octet # octets, rest)) (read_octets n False rest))"

definition read_ipv4 :: "string \<Rightarrow> (nat list \<times> string) option" where
  "read_ipv4 s = read_octets 4 True s"

text \<open>Up to \<open>limit\<close> groups of an IPv6 address, the last two perhaps as an IPv4 address.\<close>

fun read_groups :: "nat \<Rightarrow> bool \<Rightarrow> string \<Rightarrow> (nat list \<times> bool) \<times> string" where
  "read_groups 0 first s = (([], False), s)"
| "read_groups (Suc n) first s =
     (case (if 0 < n then read_separator CHR '':'' first read_ipv4 s else None) of
        Some ([a, b, c, d], rest) \<Rightarrow> (([a * 256 + b, c * 256 + d], True), rest)
      | _ \<Rightarrow>
          (case read_separator CHR '':'' first (read_number hex_nibble 16 4 65536 True) s of
             None \<Rightarrow> (([], False), s)
           | Some (g, rest) \<Rightarrow>
               (case read_groups n False rest of
                  ((groups, ipv4), rest) \<Rightarrow> ((g # groups, ipv4), rest))))"

definition read_ipv6 :: "string \<Rightarrow> (nat list \<times> string) option" where
  "read_ipv6 s =
     (case read_groups 8 True s of
        ((head, ipv4), rest) \<Rightarrow>
          if length head = 8 then Some (head, rest)
          else if ipv4 then None
          else (case read_given CHR '':'' rest of
              None \<Rightarrow> None
            | Some rest \<Rightarrow>
                (case read_given CHR '':'' rest of
                   None \<Rightarrow> None
                 | Some rest \<Rightarrow>
                     (case read_groups (8 - (length head + 1)) True rest of
                        ((tail, _), rest) \<Rightarrow>
                          Some (head @ replicate (8 - length head - length tail) 0 @ tail, rest)))))"

datatype ip_addr = V4 "nat list" | V6 "nat list"

definition parse_ip :: "string \<Rightarrow> ip_addr option" where
  "parse_ip s =
     (case (case read_ipv4 s of Some (octets, rest) \<Rightarrow> Some (V4 octets, rest)
            | None \<Rightarrow> map_option (map_prod V6 id) (read_ipv6 s)) of
        Some (address, rest) \<Rightarrow> if rest = [] then Some address else None
      | None \<Rightarrow> None)"

fun ip_is_loopback :: "ip_addr \<Rightarrow> bool" where
  "ip_is_loopback (V4 octets) = (octets \<noteq> [] \<and> hd octets = 127)"
| "ip_is_loopback (V6 groups) = (groups = [0, 0, 0, 0, 0, 0, 0, 1])"

text \<open>\<open>split_once\<close> and \<open>rsplit_once\<close> at a character.\<close>

definition split_once :: "char \<Rightarrow> string \<Rightarrow> (string \<times> string) option" where
  "split_once c s = (if c \<in> set s then Some (takeWhile (\<lambda>d. d \<noteq> c) s, tl (dropWhile (\<lambda>d. d \<noteq> c) s)) else None)"

definition rsplit_once :: "char \<Rightarrow> string \<Rightarrow> (string \<times> string) option" where
  "rsplit_once c s = map_option (\<lambda>(a, b). (rev b, rev a)) (split_once c (rev s))"

definition host_of_authority :: "string \<Rightarrow> string" where
  "host_of_authority authority =
     (case strip_prefix ''['' authority of
        Some bracketed \<Rightarrow> (case split_once CHR '']'' bracketed of None \<Rightarrow> [] | Some (host, _) \<Rightarrow> host)
      | None \<Rightarrow>
          (case rsplit_once CHR '':'' authority of
             Some (host, port) \<Rightarrow>
               if port \<noteq> [] \<and> list_all (\<lambda>c. is_ascii_digit (byte c)) port then host else authority
           | None \<Rightarrow> authority))"

definition is_loopback :: "provider_endpoint \<Rightarrow> bool" where
  "is_loopback e =
     (let authority = (case strip_prefix ''https://'' (pe_origin e) of
            Some a \<Rightarrow> a
          | None \<Rightarrow> (case strip_prefix ''http://'' (pe_origin e) of Some a \<Rightarrow> a | None \<Rightarrow> []));
          host = host_of_authority authority
      in host = ''localhost'' \<or> (case parse_ip host of Some address \<Rightarrow> ip_is_loopback address | None \<Rightarrow> False))"

section \<open>Authorization\<close>

record provider_config =
  pc_provider :: string
  pc_base_url :: provider_endpoint
  pc_auth :: "secret_ref option"
  pc_models :: "model_capability list"
  pc_declared :: component_values
  pc_extensions :: extensions

definition provider_config_new :: "string \<Rightarrow> provider_endpoint \<Rightarrow> provider_config" where
  "provider_config_new provider base_url = \<lparr>pc_provider = provider, pc_base_url = base_url, pc_auth = None,
     pc_models = [], pc_declared = cv_new, pc_extensions = []\<rparr>"

datatype descriptor_error =
    UrlOutsideEndpoint string string
  | UndeclaredCredential secret_ref secret_ref
  | UnexpectedCredential secret_ref
  | MissingCredential

definition authorize :: "provider_config \<Rightarrow> http_request_descriptor \<Rightarrow> descriptor_error + unit" where
  "authorize cfg d =
     (if \<not> endpoint_permits (pc_base_url cfg) (hr_url d)
      then Err (UrlOutsideEndpoint (hr_url d) (endpoint_as_str (pc_base_url cfg)))
      else (case (pc_auth cfg, hr_auth d) of
          (None, Some a) \<Rightarrow> Err (UnexpectedCredential (auth_secret a))
        | (Some _, None) \<Rightarrow> Err MissingCredential
        | (Some slot, Some a) \<Rightarrow>
            if auth_secret a \<noteq> slot then Err (UndeclaredCredential (auth_secret a) slot) else Ok ()
        | (None, None) \<Rightarrow> Ok ()))"

section \<open>Segments\<close>

abbreviation segments :: "string \<Rightarrow> string list" where
  "segments s \<equiv> split_by (\<lambda>c. c = CHR ''/'') s"

definition dot :: "string \<Rightarrow> bool" where "dot s \<longleftrightarrow> s = ''.'' \<or> s = ''..''"

lemma split_by_Cons: "\<not> sep c \<Longrightarrow> split_by sep (c # cs) = (c # hd (split_by sep cs)) # tl (split_by sep cs)"
  by (cases "split_by sep cs") auto

lemma split_by_append: "sep s \<Longrightarrow> split_by sep (a @ s # b) = split_by sep a @ split_by sep b"
  by (induction a) (auto split: list.splits)

lemma split_by_whole: "\<forall>c \<in> set s. \<not> sep c \<Longrightarrow> split_by sep s = [s]"
  by (induction s) auto

lemma set_split_by: "\<forall>w \<in> set (split_by sep s). set w \<subseteq> set s"
  by (induction s) (auto split: list.splits)

lemma split_by_sep: "sep c \<Longrightarrow> split_by sep (c # cs) = [] # split_by sep cs"
  by simp

text \<open>Reading a path segment by segment, or as a whole.\<close>

lemma decode_segment_append:
  "decode_segment es a = Some d \<Longrightarrow>
    decode_segment es (a @ CHR ''/'' # b) = map_option (\<lambda>e. d @ CHR ''/'' # e) (decode_segment es b)"
proof (induction es a arbitrary: d rule: decode_segment.induct)
  case (2 es c cs)
  show ?case
  proof (cases "c = CHR ''%''")
    case True
    with "2.prems" obtain h l rest high low where cs: "cs = h # l # rest"
      and hex: "hex_nibble h = Some high" "hex_nibble l = Some low"
      by (auto split: list.splits option.splits)
    with True "2.prems" "2.IH"(2) [OF _ cs refl refl hex(1) hex(2)] show ?thesis
      by (auto simp: Let_def option.map_comp comp_def split: if_splits)
  next
    case False
    with 2 show ?thesis by (auto simp: option.map_comp comp_def)
  qed
qed simp

lemma decode_segments:
  "list_all (\<lambda>s. decode_segment es s \<noteq> None) (segments path) \<Longrightarrow>
    \<exists>d. decode_segment es path = Some d
      \<and> set (segments d) = (\<Union>s \<in> set (segments path). set (segments (the (decode_segment es s))))"
proof (induction "length path" arbitrary: path rule: less_induct)
  case less
  show ?case
  proof (cases "CHR ''/'' \<in> set path")
    case False
    then have "segments path = [path]" by (intro split_by_whole) auto
    with less.prems show ?thesis by auto
  next
    case True
    then obtain a b where path: "path = a @ CHR ''/'' # b" and a: "CHR ''/'' \<notin> set a"
      by (meson split_list_first)
    have "segments a = [a]" using a by (intro split_by_whole) auto
    then have segs: "segments path = a # segments b" by (simp add: path split_by_append)
    with less.prems obtain e where e: "decode_segment es a = Some e" by auto
    from less.hyps [of b] less.prems segs path obtain d where "decode_segment es b = Some d"
      "set (segments d) = (\<Union>s \<in> set (segments b). set (segments (the (decode_segment es s))))"
      by auto
    moreover from this have "decode_segment es path = Some (e @ CHR ''/'' # d)"
      by (simp add: path decode_segment_append [OF e])
    moreover have "segments (e @ CHR ''/'' # d) = segments e @ segments d" by (rule split_by_append) simp
    ultimately show ?thesis by (simp add: segs e)
  qed
qed

lemma unambiguous_segment:
  assumes "\<not> segment_is_ambiguous es s"
  shows "\<exists>d. decode_segment es s = Some d \<and> list_all (\<lambda>p. \<not> dot p) (segments d)"
proof -
  obtain d where d: "decode_segment es s = Some d"
    using assms by (auto simp: segment_is_ambiguous_def split: option.splits)
  have "segments d = [d]" if "CHR ''/'' \<notin> set d"
    using that by (intro split_by_whole) auto
  then have "list_all (\<lambda>p. \<not> dot p) (segments d)"
    using assms d by (auto simp: segment_is_ambiguous_def dot_def list_all_iff list_ex_iff split: if_splits)
  with d show ?thesis by blast
qed

lemma unambiguous_path:
  assumes "\<not> path_is_ambiguous es path"
  shows "\<exists>d. decode_segment es path = Some d \<and> list_all (\<lambda>p. \<not> dot p) (segments d)"
proof -
  have each: "\<exists>d. decode_segment es s = Some d \<and> list_all (\<lambda>p. \<not> dot p) (segments d)"
    if "s \<in> set (segments path)" for s
    using assms that by (intro unambiguous_segment) (auto simp: path_is_ambiguous_def list_ex_iff)
  then have "list_all (\<lambda>s. decode_segment es s \<noteq> None) (segments path)"
    unfolding list_all_iff by fastforce
  from decode_segments [OF this] each show ?thesis
    unfolding list_all_iff by fastforce
qed

lemma decode_no_backslash: "decode_segment es s = Some d \<Longrightarrow> c \<in> set d \<Longrightarrow> c \<in> set s \<or> byte c \<noteq> 92"
proof (induction es s arbitrary: d rule: decode_segment.induct)
  case (2 es c' cs)
  show ?case
  proof (cases "c' = CHR ''%''")
    case True
    with "2.prems" obtain h l rest high low where cs: "cs = h # l # rest"
      and hex: "hex_nibble h = Some high" "hex_nibble l = Some low"
      by (auto split: list.splits option.splits)
    with True "2.prems" "2.IH"(2) [OF _ cs refl refl hex(1) hex(2)] show ?thesis
      by (fastforce simp: Let_def split: if_splits)
  next
    case False
    with 2 show ?thesis by auto
  qed
qed simp

section \<open>What an upstream may read\<close>

text \<open>
  A server or a client library may decode any of the escapes of a path, here those the list chooses, and
  then resolves dot segments as RFC 3986, section 5.2.4, does.
\<close>

fun reads_as :: "bool list \<Rightarrow> string \<Rightarrow> string" where
  "reads_as choices [] = []"
| "reads_as choices (c # cs) =
     (if c \<noteq> CHR ''%'' then c # reads_as choices cs
      else (case cs of
          h # l # rest \<Rightarrow>
            (case (hex_nibble h, hex_nibble l) of
               (Some high, Some low) \<Rightarrow>
                 (if choices \<noteq> [] \<and> hd choices then char_of (high * 16 + low) # reads_as (tl choices) rest
                  else c # h # l # reads_as (tl choices) rest)
             | _ \<Rightarrow> c # reads_as choices cs)
        | _ \<Rightarrow> c # reads_as choices cs))"

fun remove_dot_segments :: "string list \<Rightarrow> string list \<Rightarrow> string list" where
  "remove_dot_segments out [] = rev out"
| "remove_dot_segments out (s # ss) =
     (if s = ''.'' then remove_dot_segments out ss
      else if s = ''..'' then remove_dot_segments (tl out) ss
      else remove_dot_segments (s # out) ss)"

lemma remove_no_dots: "list_all (\<lambda>p. \<not> dot p) ss \<Longrightarrow> remove_dot_segments out ss = rev out @ ss"
  by (induction ss arbitrary: out) (auto simp: dot_def)

lemma hex_nibble_not_slash: "hex_nibble c = Some n \<Longrightarrow> c \<noteq> CHR ''/''"
  by (auto simp: hex_nibble_def)

text \<open>A piece of any reading is a piece of the full decoding or still holds an escape.\<close>

lemma reading_pieces:
  "decode_segment es s = Some d \<Longrightarrow>
    (hd (segments (reads_as choices s)) = hd (segments d) \<or> CHR ''%'' \<in> set (hd (segments (reads_as choices s))))
    \<and> (\<forall>p \<in> set (tl (segments (reads_as choices s))). p \<in> set (tl (segments d)) \<or> CHR ''%'' \<in> set p)"
proof (induction es s arbitrary: d choices rule: decode_segment.induct)
  case (2 es c cs)
  have set_hd_tl: "set xs = insert (hd xs) (set (tl xs))" if "xs \<noteq> []" for xs :: "string list"
    using that by (cases xs) auto
  show ?case
  proof (cases "c = CHR ''%''")
    case True
    with "2.prems" obtain h l rest high low where cs: "cs = h # l # rest"
      and hex: "hex_nibble h = Some high" "hex_nibble l = Some low"
      by (auto split: list.splits option.splits)
    let ?b = "char_of (high * 16 + low) :: char"
    from True "2.prems" cs hex obtain e where e: "decode_segment es rest = Some e" and d: "d = ?b # e"
      by (auto simp: Let_def split: if_splits)
    have ok: "\<not> (byte ?b = 92 \<or> is_ascii_control ?b \<or> ?b = CHR ''/'' \<and> es = Refuse)"
      using True "2.prems" cs hex by (auto simp: Let_def split: if_splits)
    have escape: "\<not> c \<noteq> CHR ''%''" using True by simp
    note IH = "2.IH"(2) [OF escape cs refl refl hex refl ok e, of "tl choices"]
    have slashes: "h \<noteq> CHR ''/''" "l \<noteq> CHR ''/''" using hex hex_nibble_not_slash by auto
    show ?thesis
    proof (cases "choices \<noteq> [] \<and> hd choices")
      case decoded: True
      then have "reads_as choices (c # cs) = ?b # reads_as (tl choices) rest" by (simp add: True cs hex)
      with IH show ?thesis unfolding d
        by (cases "?b = CHR ''/''")
          (auto simp: split_by_Cons split_by_sep set_hd_tl [OF split_by_nonempty]
            simp del: split_by.simps reads_as.simps)
    next
      case kept: False
      then have "reads_as choices (c # cs) = c # h # l # reads_as (tl choices) rest"
        by (simp add: True cs hex)
      with IH True slashes show ?thesis unfolding d
        by (cases "?b = CHR ''/''")
          (auto simp: split_by_Cons split_by_sep set_hd_tl [OF split_by_nonempty, of _ e]
            simp del: split_by.simps reads_as.simps)
    qed
  next
    case False
    with "2.prems" obtain e where e: "decode_segment es cs = Some e" "d = c # e" by auto
    have "reads_as choices (c # cs) = c # reads_as choices cs" using False by simp
    with "2.IH"(1) [OF False e(1), of choices] show ?thesis
      by (cases "c = CHR ''/''")
        (auto simp: e(2) split_by_Cons split_by_sep set_hd_tl [OF split_by_nonempty]
          simp del: split_by.simps reads_as.simps)
  qed
qed simp

lemma reading_chars: "decode_segment es s = Some d \<Longrightarrow> set (reads_as choices s) \<subseteq> set s \<union> set d"
proof (induction es s arbitrary: d choices rule: decode_segment.induct)
  case (2 es c cs)
  show ?case
  proof (cases "c = CHR ''%''")
    case True
    with "2.prems" obtain h l rest high low where cs: "cs = h # l # rest"
      and hex: "hex_nibble h = Some high" "hex_nibble l = Some low"
      by (auto split: list.splits option.splits)
    let ?b = "char_of (high * 16 + low) :: char"
    from True "2.prems" cs hex obtain e where e: "decode_segment es rest = Some e" and d: "d = ?b # e"
      by (auto simp: Let_def split: if_splits)
    have ok: "\<not> (byte ?b = 92 \<or> is_ascii_control ?b \<or> ?b = CHR ''/'' \<and> es = Refuse)"
      using True "2.prems" cs hex by (auto simp: Let_def split: if_splits)
    have escape: "\<not> c \<noteq> CHR ''%''" using True by simp
    from "2.IH"(2) [OF escape cs refl refl hex refl ok e, of "tl choices"] show ?thesis
      by (auto simp: True cs hex d)
  next
    case False
    with "2.prems" obtain e where e: "decode_segment es cs = Some e" "d = c # e" by auto
    from "2.IH"(1) [OF False e(1), of choices] False show ?thesis by (auto simp: e(2))
  qed
qed simp

section \<open>Parsed endpoints\<close>

lemma trim_end_split: "\<exists>n. s = trim_end_slashes s @ replicate n (CHR ''/'')"
proof -
  let ?p = "\<lambda>c. c = CHR ''/''"
  have "s = rev (dropWhile ?p (rev s)) @ rev (takeWhile ?p (rev s))"
    by (metis rev_append rev_rev_ident takeWhile_dropWhile_id)
  moreover have "takeWhile ?p (rev s) = replicate (length (takeWhile ?p (rev s))) (CHR ''/'')"
    by (rule replicate_eqI) (auto dest: set_takeWhileD)
  then have "rev (takeWhile ?p (rev s)) = replicate (length (takeWhile ?p (rev s))) (CHR ''/'')"
    by (metis rev_replicate)
  ultimately show ?thesis unfolding trim_end_slashes_def by metis
qed

lemma trim_end_last: "trim_end_slashes s \<noteq> [] \<Longrightarrow> last (trim_end_slashes s) \<noteq> CHR ''/''"
  unfolding trim_end_slashes_def using hd_dropWhile [of "\<lambda>c. c = CHR ''/''" "rev s"]
  by (simp add: last_rev)

lemma trim_end_id: "s = [] \<or> last s \<noteq> CHR ''/'' \<Longrightarrow> trim_end_slashes s = s"
  by (cases s rule: rev_cases) (auto simp: trim_end_slashes_def)

lemma utf8_decode_lower:
  "list_ex is_whitespace (utf8_decode (map ascii_lower bs)) = list_ex is_whitespace (utf8_decode bs)"
proof (induction bs rule: utf8_decode.induct)
  case (2 a bs)
  have low: "ascii_lower b - 128 = b - 128" "ascii_lower b < 128 \<longleftrightarrow> b < 128" "\<not> b < 128 \<Longrightarrow> ascii_lower b = b" for b
    by (auto simp: ascii_lower_def is_ascii_upper_def)
  have same: "is_whitespace (ascii_lower b) = is_whitespace b" for b
    by (auto simp: ascii_lower_def is_ascii_upper_def is_whitespace_def)
  show ?case
  proof (cases "a < 128")
    case True
    with 2(1) show ?thesis by (simp add: low same)
  next
    case False
    with 2(2-4) low show ?thesis by (auto split: list.splits)
  qed
qed simp

lemma lower_char_special: "c \<in> set ''/?#@'' \<Longrightarrow> lower_char d = c \<longleftrightarrow> d = c"
proof -
  assume c: "c \<in> set ''/?#@''"
  have "byte (lower_char d) = byte c \<longleftrightarrow> byte d = byte c"
    using c by (auto simp: byte_lower_char ascii_lower_def is_ascii_upper_def)
  then show ?thesis by (simp only: of_char_eq_iff)
qed

lemma ends_authority_lower: "ends_authority (lower_char c) = ends_authority c"
  using lower_char_special by (simp add: ends_authority_def)

text \<open>A URL is its origin and the rest; the origin with any rest is split in the same way.\<close>

definition http_scheme :: "string \<Rightarrow> bool" where
  "http_scheme scheme \<longleftrightarrow> scheme = ''https://'' \<or> scheme = ''http://''"

definition origin_ok :: "string \<Rightarrow> bool" where
  "origin_ok origin \<longleftrightarrow> (\<exists>scheme authority. origin = scheme @ authority
     \<and> http_scheme scheme \<and> authority \<noteq> [] \<and> list_all (\<lambda>c. \<not> ends_authority c) authority
     \<and> CHR ''@'' \<notin> set authority \<and> \<not> list_ex is_whitespace (utf8_decode (map byte authority))
     \<and> to_ascii_lowercase authority = authority)"

definition rest_ok :: "string \<Rightarrow> bool" where
  "rest_ok rest \<longleftrightarrow> rest = [] \<or> ends_authority (hd rest)"

lemma split_scheme_Some:
  "split_scheme url = Some (scheme, after) \<longleftrightarrow> url = scheme @ after \<and> http_scheme scheme"
  by (auto simp: split_scheme_def http_scheme_def strip_prefix_def prefix_def)

lemma split_origin_Ok_iff:
  "split_origin url = Ok (origin, rest) \<longleftrightarrow> (\<exists>scheme authority. url = scheme @ authority @ rest
     \<and> origin = scheme @ to_ascii_lowercase authority \<and> http_scheme scheme
     \<and> authority \<noteq> [] \<and> list_all (\<lambda>c. \<not> ends_authority c) authority \<and> rest_ok rest
     \<and> CHR ''@'' \<notin> set authority \<and> \<not> list_ex is_whitespace (utf8_decode (map byte authority)))"
  (is "?lhs \<longleftrightarrow> ?rhs")
proof
  assume ?lhs
  then obtain scheme after where found: "split_scheme url = Some (scheme, after)"
    by (auto simp: split_origin_def split: option.splits)
  let ?a = "takeWhile (\<lambda>c. \<not> ends_authority c) after" and ?r = "dropWhile (\<lambda>c. \<not> ends_authority c) after"
  have "rest_ok ?r" unfolding rest_ok_def using hd_dropWhile [of "\<lambda>c. \<not> ends_authority c" after] by blast
  moreover have "list_all (\<lambda>c. \<not> ends_authority c) ?a" by (auto simp: list_all_iff dest: set_takeWhileD)
  moreover have "url = scheme @ ?a @ ?r" "http_scheme scheme" using found by (simp_all add: split_scheme_Some)
  moreover have "origin = scheme @ to_ascii_lowercase ?a" "rest = ?r" "?a \<noteq> []" "CHR ''@'' \<notin> set ?a"
    "\<not> list_ex is_whitespace (utf8_decode (map byte ?a))"
    using \<open>?lhs\<close> unfolding split_origin_def found by (simp_all add: Let_def split: if_splits)
  ultimately show ?rhs by blast
next
  assume ?rhs
  then obtain scheme authority where url: "url = scheme @ authority @ rest"
    "origin = scheme @ to_ascii_lowercase authority" "http_scheme scheme"
    and parts: "authority \<noteq> []" "list_all (\<lambda>c. \<not> ends_authority c) authority" "rest_ok rest"
     "CHR ''@'' \<notin> set authority" "\<not> list_ex is_whitespace (utf8_decode (map byte authority))"
    by blast
  have "split_scheme url = Some (scheme, authority @ rest)"
    unfolding split_scheme_Some using url by simp
  moreover have "takeWhile (\<lambda>c. \<not> ends_authority c) (authority @ rest) = authority"
    "dropWhile (\<lambda>c. \<not> ends_authority c) (authority @ rest) = rest"
    using parts(2,3) by (cases rest; simp add: list_all_iff rest_ok_def takeWhile_append dropWhile_append)+
  ultimately show ?lhs unfolding split_origin_def using url parts by (simp add: Let_def)
qed

lemma split_origin_rest: "split_origin url = Ok (origin, rest) \<Longrightarrow> rest_ok rest"
  by (auto simp: split_origin_Ok_iff)

lemma split_origin_ok: "split_origin url = Ok (origin, rest) \<Longrightarrow> origin_ok origin"
proof -
  assume "split_origin url = Ok (origin, rest)"
  then obtain scheme authority where origin: "origin = scheme @ to_ascii_lowercase authority"
    "http_scheme scheme" "authority \<noteq> []" "list_all (\<lambda>c. \<not> ends_authority c) authority"
    "CHR ''@'' \<notin> set authority" "\<not> list_ex is_whitespace (utf8_decode (map byte authority))"
    by (auto simp: split_origin_Ok_iff)
  have "list_all (\<lambda>c. \<not> ends_authority c) (to_ascii_lowercase authority)"
    using origin(4) by (simp add: list_all_iff ends_authority_lower to_ascii_lowercase_def)
  moreover have "CHR ''@'' \<notin> set (to_ascii_lowercase authority)"
  proof
    assume "CHR ''@'' \<in> set (to_ascii_lowercase authority)"
    then obtain d where "d \<in> set authority" "lower_char d = CHR ''@''"
      unfolding to_ascii_lowercase_def by fastforce
    moreover have "lower_char d = CHR ''@'' \<longleftrightarrow> d = CHR ''@''" for d by (rule lower_char_special) simp
    ultimately show False using origin(5) by simp
  qed
  moreover have "map byte (to_ascii_lowercase authority) = map ascii_lower (map byte authority)"
    by (simp add: to_ascii_lowercase_def byte_lower_char)
  ultimately show ?thesis unfolding origin_ok_def
    using origin utf8_decode_lower [of "map byte authority"]
    by - (rule exI [of _ scheme], rule exI [of _ "to_ascii_lowercase authority"], simp)
qed

lemma split_origin_again: "origin_ok origin \<Longrightarrow> rest_ok rest \<Longrightarrow> split_origin (origin @ rest) = Ok (origin, rest)"
  unfolding origin_ok_def split_origin_Ok_iff
  by (elim exE conjE, rule_tac x = scheme in exI, rule_tac x = authority in exI) simp

definition path_ok :: "string \<Rightarrow> bool" where
  "path_ok p \<longleftrightarrow> (p = [] \<or> hd p = CHR ''/'' \<and> last p \<noteq> CHR ''/'') \<and> CHR ''?'' \<notin> set p \<and> CHR ''#'' \<notin> set p
     \<and> \<not> path_is_ambiguous Refuse p"

lemma path_is_ambiguous_Nil [simp]: "\<not> path_is_ambiguous es []"
  by (simp add: path_is_ambiguous_def segment_is_ambiguous_def)

lemma double_slash_append:
  "a = [] \<or> last a \<noteq> CHR ''/'' \<Longrightarrow>
    text_contains (a @ CHR ''/'' # b) ''//'' \<longleftrightarrow> text_contains a ''//'' \<or> text_contains (CHR ''/'' # b) ''//''"
proof (induction a)
  case (Cons c a)
  then show ?case by (cases a) auto
qed simp

lemma path_is_ambiguous_append:
  assumes "a = [] \<or> last a \<noteq> CHR ''/''"
  shows "path_is_ambiguous es (a @ CHR ''/'' # b) \<longleftrightarrow> path_is_ambiguous es a \<or> path_is_ambiguous es (CHR ''/'' # b)"
proof -
  have "segments (a @ CHR ''/'' # b) = segments a @ segments b" by (rule split_by_append) simp
  moreover have "segments (CHR ''/'' # b) = [] # segments b" by simp
  moreover have "\<not> segment_is_ambiguous es []" by (simp add: segment_is_ambiguous_def)
  ultimately show ?thesis
    unfolding path_is_ambiguous_def double_slash_append [OF assms] by (auto simp: is_ascii_control_def)
qed

lemma path_ok_parent:
  assumes "path_ok (p @ t)" and "t = [] \<or> hd t = CHR ''/''" and "p = [] \<or> last p \<noteq> CHR ''/''"
  shows "path_ok p"
proof (cases t)
  case (Cons c b)
  with assms have "\<not> path_is_ambiguous Refuse p"
    using path_is_ambiguous_append [of p Refuse b] by (auto simp: path_ok_def)
  with assms show ?thesis by (cases p) (auto simp: path_ok_def)
qed (use assms in simp)

lemma strip_suffix_Some: "strip_suffix p s = Some r \<longleftrightarrow> s = r @ p"
  by (auto simp: strip_suffix_def suffix_def)

lemma find_map_Some: "find_map f xs = Some y \<Longrightarrow> \<exists>x \<in> set xs. f x = Some y"
  by (induction xs) (auto split: option.splits)

lemma find_map_None: "find_map f xs = None \<longleftrightarrow> (\<forall>x \<in> set xs. f x = None)"
  by (induction xs) (auto split: option.splits)

lemma path_ok_trim:
  assumes "path_ok p" shows "trim_end_slashes p = p"
  using assms by (intro trim_end_id) (auto simp: path_ok_def)

lemma normalize_parts: "\<exists>t. s = normalize_api_root s @ t \<and> (t = [] \<or> hd t = CHR ''/'')"
proof -
  let ?m = "find_map (\<lambda>api. strip_suffix (''/'' @ api_path api) s) ALL_APIS"
  have "\<exists>t. s = unwrap_or ?m s @ t \<and> (t = [] \<or> hd t = CHR ''/'')"
  proof (cases ?m)
    case (Some r)
    from find_map_Some [OF this] obtain api where "s = r @ ''/'' @ api_path api"
      by (auto simp: strip_suffix_Some)
    moreover have "unwrap_or ?m s = r" by (simp only: Some unwrap_or_def option.case)
    ultimately show ?thesis by (intro exI [of _ "''/'' @ api_path api"]) simp
  qed (simp add: unwrap_or_def)
  then obtain t where t: "s = unwrap_or ?m s @ t" "t = [] \<or> hd t = CHR ''/''" by blast
  obtain n where "unwrap_or ?m s = normalize_api_root s @ replicate n (CHR ''/'')"
    unfolding normalize_api_root_def using trim_end_split by blast
  with t have "s = normalize_api_root s @ (replicate n (CHR ''/'') @ t)" by simp
  moreover have "replicate n (CHR ''/'') @ t = [] \<or> hd (replicate n (CHR ''/'') @ t) = CHR ''/''"
    using t(2) by (cases n) auto
  ultimately show ?thesis by blast
qed

lemma normalize_last: "normalize_api_root s \<noteq> [] \<Longrightarrow> last (normalize_api_root s) \<noteq> CHR ''/''"
  unfolding normalize_api_root_def by (rule trim_end_last)

lemma path_ok_normalize: "path_ok p \<Longrightarrow> path_ok (normalize_api_root p)"
  using normalize_parts [of p] normalize_last [of p] path_ok_parent [of "normalize_api_root p"] by metis

lemma no_double_slash_end:
  assumes "\<not> text_contains s ''//''" shows "s = trim_end_slashes s \<or> s = trim_end_slashes s @ ''/''"
proof -
  obtain n where n: "s = trim_end_slashes s @ replicate n (CHR ''/'')" using trim_end_split by blast
  have "n \<le> 1"
  proof (rule ccontr)
    assume "\<not> n \<le> 1"
    then obtain k where "replicate n (CHR ''/'') = ''//'' @ replicate k (CHR ''/'')"
      by (metis (no_types) One_nat_def append_Cons append_Nil not_less_eq_eq old.nat.exhaust replicate_Suc zero_le)
    with n have "sublist ''//'' s" by (metis sublist_appendI)
    with assms show False by (simp add: text_contains_iff)
  qed
  with n show ?thesis by (cases n) auto
qed

text \<open>Every parsed endpoint.\<close>

definition endpoint_ok :: "provider_endpoint \<Rightarrow> bool" where
  "endpoint_ok e \<longleftrightarrow> origin_ok (pe_origin e) \<and> path_ok (pe_path e)"

lemma endpoint_try_new_ok:
  assumes "endpoint_try_new url = Ok e" shows "endpoint_ok e"
proof -
  obtain origin rest where rest: "split_origin url = Ok (origin, rest)"
    and clean: "CHR ''?'' \<notin> set rest" "CHR ''#'' \<notin> set rest" "\<not> path_is_ambiguous Refuse rest"
    and e: "e = \<lparr>pe_origin = origin, pe_path = normalize_api_root (trim_end_slashes rest)\<rparr>"
    using assms by (auto simp: endpoint_try_new_def and_then_Ok_iff split: if_splits)
  have start: "rest = [] \<or> hd rest = CHR ''/''"
    using split_origin_rest [OF rest] clean by (cases rest) (auto simp: rest_ok_def ends_authority_def)
  have "\<not> text_contains rest ''//''" using clean(3) by (simp add: path_is_ambiguous_def)
  then have cases: "rest = trim_end_slashes rest \<or> rest = trim_end_slashes rest @ ''/''" by (rule no_double_slash_end)
  have "\<not> path_is_ambiguous Refuse (trim_end_slashes rest)"
    using cases clean(3) path_is_ambiguous_append [of "trim_end_slashes rest" Refuse "[]"] trim_end_last [of rest] by metis
  moreover have "set (trim_end_slashes rest) \<subseteq> set rest" using cases by (metis Un_upper1 set_append subset_refl)
  moreover have "trim_end_slashes rest \<noteq> [] \<Longrightarrow> hd (trim_end_slashes rest) = CHR ''/''"
    using cases start by (metis append_is_Nil_conv hd_append2)
  ultimately have "path_ok (trim_end_slashes rest)"
    using clean trim_end_last [of rest] unfolding path_ok_def by blast
  with e split_origin_ok [OF rest] show ?thesis by (simp add: endpoint_ok_def path_ok_normalize)
qed

lemma path_ok_rest: "path_ok p \<Longrightarrow> rest_ok p"
  by (auto simp: path_ok_def rest_ok_def ends_authority_def)

lemma endpoint_reparse:
  assumes "endpoint_ok e" and "path_ok p"
  shows "endpoint_try_new (pe_origin e @ p) = Ok (e\<lparr>pe_path := normalize_api_root p\<rparr>)"
  using assms split_origin_again [of "pe_origin e" p] path_ok_rest [OF assms(2)] path_ok_trim [OF assms(2)]
  by (simp add: endpoint_try_new_def endpoint_ok_def path_ok_def)

lemma permits_below:
  assumes "endpoint_ok e" and "\<not> path_is_ambiguous AdmitInSegment below" and "prefix ''/'' below"
    and "CHR ''?'' \<notin> set below" and "CHR ''#'' \<notin> set below"
  shows "endpoint_permits e (pe_origin e @ pe_path e @ below)"
proof -
  have path: "path_ok (pe_path e)" using assms(1) by (simp add: endpoint_ok_def)
  have "rest_ok (pe_path e @ below)"
    using path assms(3) by (auto simp: rest_ok_def path_ok_def ends_authority_def prefix_def hd_append)
  then have split: "split_origin (pe_origin e @ pe_path e @ below) = Ok (pe_origin e, pe_path e @ below)"
    using split_origin_again assms(1) by (simp add: endpoint_ok_def)
  have "takeWhile (\<lambda>c. c \<noteq> CHR ''?'' \<and> c \<noteq> CHR ''#'') (pe_path e @ below) = pe_path e @ below"
    using path assms(4,5) by (auto simp: takeWhile_eq_all_conv path_ok_def)
  then show ?thesis unfolding endpoint_permits_def split sum.case prod.case
    by (simp only:) (simp add: strip_prefix_def assms)
qed

lemma all_apis: "api \<in> set ALL_APIS"
  by (cases api) (simp_all add: ALL_APIS_def)

lemma api_paths:
  "list_all (\<lambda>api. \<not> path_is_ambiguous AdmitInSegment (''/'' @ api_path api)
     \<and> \<not> path_is_ambiguous AdmitInSegment (''/v1/'' @ api_path api) \<and> path_ok (''/'' @ api_path api)
     \<and> list_all (\<lambda>b. suffix (''/'' @ api_path api) (''/'' @ api_path b) \<longrightarrow> api = b) ALL_APIS) ALL_APIS"
  by code_simp

lemma api_below:
  "\<not> path_is_ambiguous AdmitInSegment (''/'' @ api_path api)"
  "\<not> path_is_ambiguous AdmitInSegment (''/v1/'' @ api_path api)" "path_ok (''/'' @ api_path api)"
  using api_paths all_apis [of api] by (simp_all add: list_all_iff)

lemma path_ok_api: "path_ok p \<Longrightarrow> path_ok (p @ ''/'' @ api_path api)"
  using api_below [of api] path_is_ambiguous_append [of p Refuse "api_path api"]
  by (cases p) (auto simp: path_ok_def)

lemma api_suffix_free: "suffix (''/'' @ api_path a) (''/'' @ api_path b) \<Longrightarrow> a = b"
  using api_paths all_apis [of a] all_apis [of b] unfolding list_all_iff by blast

lemma find_map_unique:
  assumes "x \<in> set xs" and "f x = Some y" and "\<And>x' y'. f x' = Some y' \<Longrightarrow> y' = y"
  shows "find_map f xs = Some y"
proof (cases "find_map f xs")
  case None
  with assms(1,2) show ?thesis by (simp add: find_map_None)
next
  case (Some y')
  with find_map_Some [OF Some] assms(3) show ?thesis by auto
qed

lemma strip_api: "strip_suffix (''/'' @ api_path a) (p @ ''/'' @ api_path b) = Some r \<Longrightarrow> r = p"
proof -
  assume "strip_suffix (''/'' @ api_path a) (p @ ''/'' @ api_path b) = Some r"
  then have eq: "p @ (''/'' @ api_path b) = r @ (''/'' @ api_path a)" by (simp add: strip_suffix_Some)
  then have "suffix (''/'' @ api_path a) (''/'' @ api_path b) \<or> suffix (''/'' @ api_path b) (''/'' @ api_path a)"
    by (metis suffixI suffix_same_cases)
  then have "a = b" using api_suffix_free by metis
  with eq show "r = p" by simp
qed

lemma normalize_api: "path_ok p \<Longrightarrow> normalize_api_root (p @ ''/'' @ api_path api) = p"
proof -
  assume "path_ok p"
  have "find_map (\<lambda>a. strip_suffix (''/'' @ api_path a) (p @ ''/'' @ api_path api)) ALL_APIS = Some p"
    by (rule find_map_unique [OF all_apis [of api]]) (simp only: strip_suffix_Some, erule strip_api)
  then show ?thesis using path_ok_trim [OF \<open>path_ok p\<close>] unfolding normalize_api_root_def by (simp add: unwrap_or_def)
qed

lemma normalize_fixed:
  assumes "path_ok p"
  shows "normalize_api_root p = p \<longleftrightarrow> (\<forall>api. \<not> suffix (''/'' @ api_path api) p)"
proof (cases "find_map (\<lambda>api. strip_suffix (''/'' @ api_path api) p) ALL_APIS")
  case None
  then have "\<not> suffix (''/'' @ api_path api) p" for api
    using all_apis [of api] unfolding find_map_None by (auto simp: strip_suffix_def split: if_splits)
  moreover have "normalize_api_root p = p"
    unfolding normalize_api_root_def None by (simp add: unwrap_or_def path_ok_trim [OF assms])
  ultimately show ?thesis by simp
next
  case (Some r)
  from find_map_Some [OF Some] obtain api where p: "p = r @ ''/'' @ api_path api"
    by (auto simp only: strip_suffix_Some)
  have "normalize_api_root p = trim_end_slashes r"
    unfolding normalize_api_root_def Some by (simp add: unwrap_or_def)
  moreover have "length (trim_end_slashes r) \<le> length r"
    using trim_end_split [of r] by (metis le_add1 length_append)
  moreover have "length r < length p" by (simp add: p)
  moreover have "suffix (''/'' @ api_path api) p" by (simp add: p suffix_def)
  ultimately show ?thesis by (metis not_less)
qed

section \<open>Properties\<close>

lemma no_dots_path:
  assumes "path_ok p" shows "list_all (\<lambda>s. \<not> dot s) (segments p)"
proof -
  have "\<not> dot s" if "s \<in> set (segments p)" for s
    using assms that unfolding path_ok_def path_is_ambiguous_def list_ex_iff segment_is_ambiguous_def dot_def by blast
  then show ?thesis by (simp add: list_all_iff)
qed

lemma reading_clean:
  assumes "\<not> path_is_ambiguous AdmitInSegment s"
  shows "list_all (\<lambda>p. \<not> dot p) (segments (reads_as choices s)) \<and> list_all (\<lambda>c. byte c \<noteq> 92) (reads_as choices s)"
proof -
  obtain d where d: "decode_segment AdmitInSegment s = Some d" "list_all (\<lambda>p. \<not> dot p) (segments d)"
    using unambiguous_path [OF assms] by blast
  have "\<not> dot p" if "p \<in> set (segments (reads_as choices s))" for p
  proof -
    have "p \<in> set (segments d) \<or> CHR ''%'' \<in> set p"
      using that reading_pieces [OF d(1), of choices]
      by (cases "segments (reads_as choices s)"; cases "segments d") auto
    moreover have "\<not> dot p" if "CHR ''%'' \<in> set p" using that by (auto simp: dot_def)
    ultimately show ?thesis using d(2) unfolding list_all_iff by blast
  qed
  moreover have "byte c \<noteq> 92" if "c \<in> set (reads_as choices s)" for c
    using that reading_chars [OF d(1)] decode_no_backslash [OF d(1)] assms
    by (auto simp: path_is_ambiguous_def list_ex_iff)
  ultimately show ?thesis by (simp add: list_all_iff)
qed

lemma reading_below:
  assumes "path_ok p" and "below = [] \<or> prefix ''/'' below" and "\<not> path_is_ambiguous AdmitInSegment below"
  shows "remove_dot_segments [] (segments (p @ reads_as choices below)) = segments (p @ reads_as choices below)
    \<and> prefix (segments p) (segments (p @ reads_as choices below))
    \<and> list_all (\<lambda>c. byte c \<noteq> 92) (reads_as choices below)"
proof (cases below)
  case Nil
  then show ?thesis using no_dots_path [OF assms(1)] by (simp add: remove_no_dots)
next
  case (Cons c b)
  with assms(2) have "below = CHR ''/'' # b" by simp
  then have reads: "reads_as choices below = CHR ''/'' # reads_as choices b" by simp
  note clean = reading_clean [OF assms(3), of choices]
  have segs: "segments (p @ reads_as choices below) = segments p @ segments (reads_as choices b)"
    unfolding reads by (rule split_by_append) simp
  have "list_all (\<lambda>p. \<not> dot p) (segments (reads_as choices b))" using clean by (simp add: reads)
  with no_dots_path [OF assms(1)] clean show ?thesis by (simp add: segs remove_no_dots)
qed

text \<open>
  C8. A credential leaves only for its own upstream. A request that passes the gate names exactly the
  configured credential slot, or none when there is none; its URL has the configured origin, with no
  userinfo, and however the receiver decodes the escapes of the path and resolves its dot segments, the
  target stays at or below the configured path.
\<close>

theorem authorized_request_stays_below_endpoint:
  assumes "endpoint_try_new base = Ok (pc_base_url cfg)" and "authorize cfg d = Ok ()"
  shows "\<exists>scheme authority below query.
    hr_url d = scheme @ authority @ pe_path (pc_base_url cfg) @ below @ query
    \<and> pe_origin (pc_base_url cfg) = scheme @ to_ascii_lowercase authority
    \<and> http_scheme scheme \<and> CHR ''@'' \<notin> set authority \<and> list_all (\<lambda>c. \<not> ends_authority c) authority
    \<and> (query = [] \<or> hd query = CHR ''?'' \<or> hd query = CHR ''#'')
    \<and> (let path = pe_path (pc_base_url cfg) @ reads_as choices below
        in remove_dot_segments [] (segments path) = segments path
           \<and> prefix (segments (pe_path (pc_base_url cfg))) (segments path)
           \<and> list_all (\<lambda>c. byte c \<noteq> 92) (reads_as choices below))
    \<and> map_option auth_secret (hr_auth d) = pc_auth cfg"
proof -
  let ?e = "pc_base_url cfg"
  have "endpoint_permits ?e (hr_url d)" and secret: "map_option auth_secret (hr_auth d) = pc_auth cfg"
    using assms(2) by (auto simp: authorize_def split: if_splits option.splits)
  then obtain rest below where split: "split_origin (hr_url d) = Ok (pe_origin ?e, rest)"
    and below: "takeWhile (\<lambda>c. c \<noteq> CHR ''?'' \<and> c \<noteq> CHR ''#'') rest = pe_path ?e @ below"
    and start: "below = [] \<or> prefix ''/'' below" and clean: "\<not> path_is_ambiguous AdmitInSegment below"
    by (auto simp: endpoint_permits_def strip_prefix_def prefix_def split: sum.splits if_splits option.splits)
  let ?q = "dropWhile (\<lambda>c. c \<noteq> CHR ''?'' \<and> c \<noteq> CHR ''#'') rest"
  have rest: "rest = pe_path ?e @ below @ ?q" using below by (metis append_assoc takeWhile_dropWhile_id)
  have query: "?q = [] \<or> hd ?q = CHR ''?'' \<or> hd ?q = CHR ''#''"
    using hd_dropWhile [of "\<lambda>c. c \<noteq> CHR ''?'' \<and> c \<noteq> CHR ''#''" rest] by blast
  obtain scheme authority where url: "hr_url d = scheme @ authority @ rest"
    and origin: "pe_origin ?e = scheme @ to_ascii_lowercase authority" "http_scheme scheme"
      "CHR ''@'' \<notin> set authority" "list_all (\<lambda>c. \<not> ends_authority c) authority"
    using split unfolding split_origin_Ok_iff by blast
  have "path_ok (pe_path ?e)" using endpoint_try_new_ok [OF assms(1)] by (simp add: endpoint_ok_def)
  from reading_below [OF this start clean, of choices] show ?thesis
    unfolding Let_def using url rest origin query secret
    by - (rule exI [of _ scheme], rule exI [of _ authority], rule exI [of _ below], rule exI [of _ ?q], simp)
qed

definition example_endpoint :: provider_endpoint where
  "example_endpoint = \<lparr>pe_origin = ''https://api.example'', pe_path = ''/v1''\<rparr>"

definition example_provider :: provider_config where
  "example_provider = (provider_config_new ''p'' example_endpoint)\<lparr>pc_auth := Some (SecretRef ''k'')\<rparr>"

definition example_request :: http_request_descriptor where
  "example_request = (http_request_new Post ''https://API.example/v1/models/a%2Fb?x=1'')
     \<lparr>hr_auth := Some (Bearer (SecretRef ''k''))\<rparr>"

lemma example_authorized:
  "endpoint_try_new ''https://API.example/v1/messages/'' = Ok (pc_base_url example_provider)"
  "authorize example_provider example_request = Ok ()"
  by code_simp+

lemma authorized_request_stays_below_endpoint_witness:
  "map_option auth_secret (hr_auth example_request) = pc_auth example_provider"
  using authorized_request_stays_below_endpoint [OF example_authorized] by blast

text \<open>
  Every API target an endpoint resolves to passes its own gate, and parsing that target gives the
  endpoint back, with the default root \<open>/v1\<close> in place of an empty one.
\<close>

theorem resolved_target_roundtrip:
  assumes "endpoint_try_new url = Ok e"
  shows "endpoint_permits e (endpoint_resolve e api)
    \<and> endpoint_try_new (endpoint_resolve e api)
      = Ok (e\<lparr>pe_path := (if pe_path e = [] then ''/v1'' else pe_path e)\<rparr>)"
proof -
  let ?root = "if pe_path e = [] then ''/v1'' else pe_path e"
  have ok: "endpoint_ok e" using assms by (rule endpoint_try_new_ok)
  have v1: "path_ok ''/v1''" by code_simp
  have root: "path_ok ?root" "?root \<noteq> []" using ok v1 by (simp_all add: endpoint_ok_def)
  have resolve: "endpoint_resolve e api = pe_origin e @ ?root @ ''/'' @ api_path api"
    by (simp add: endpoint_resolve_def Let_def)
  have "endpoint_permits e (endpoint_resolve e api)"
  proof (cases "pe_path e = []")
    case True
    with permits_below [OF ok api_below(2) [of api]] api_below(3) [of api] show ?thesis
      by (simp add: resolve path_ok_def)
  next
    case False
    with permits_below [OF ok api_below(1) [of api]] api_below(3) [of api] show ?thesis
      by (simp add: resolve path_ok_def)
  qed
  moreover have "endpoint_try_new (endpoint_resolve e api) = Ok (e\<lparr>pe_path := ?root\<rparr>)"
    unfolding resolve endpoint_reparse [OF ok path_ok_api [OF root(1)]] normalize_api [OF root(1)] by (rule refl)
  ultimately show ?thesis by (rule conjI)
qed

lemma resolved_target_roundtrip_witness:
  "endpoint_permits example_endpoint (endpoint_resolve example_endpoint Messages)"
  using resolved_target_roundtrip [OF example_authorized(1), of Messages]
  by (simp add: example_provider_def provider_config_new_def)

text \<open>
  An endpoint survives a trip through its serialised form unless its path still ends in the path of an
  API: then parsing strips that too, and the endpoint that comes back permits strictly more.
\<close>

theorem endpoint_reload:
  assumes "endpoint_try_new url = Ok e"
  shows "endpoint_try_from (endpoint_into e) = Ok (e\<lparr>pe_path := normalize_api_root (pe_path e)\<rparr>)
    \<and> (endpoint_try_from (endpoint_into e) = Ok e \<longleftrightarrow> (\<forall>api. \<not> suffix (''/'' @ api_path api) (pe_path e)))"
proof -
  have ok: "endpoint_ok e" using assms by (rule endpoint_try_new_ok)
  then have path: "path_ok (pe_path e)" by (simp add: endpoint_ok_def)
  have "endpoint_try_from (endpoint_into e) = Ok (e\<lparr>pe_path := normalize_api_root (pe_path e)\<rparr>)"
    using endpoint_reparse [OF ok path] by (simp add: endpoint_try_from_def endpoint_into_def endpoint_as_str_def)
  moreover have "e\<lparr>pe_path := p\<rparr> = e \<longleftrightarrow> p = pe_path e" for p by (cases e) auto
  ultimately show ?thesis using normalize_fixed [OF path] by simp
qed

definition nested_endpoint :: provider_endpoint where
  "nested_endpoint = \<lparr>pe_origin = ''https://h'', pe_path = ''/responses''\<rparr>"

lemma nested_parsed: "endpoint_try_new ''https://h/responses/models'' = Ok nested_endpoint"
  by code_simp

lemma endpoint_reload_witness:
  "endpoint_try_from (endpoint_into nested_endpoint) \<noteq> Ok nested_endpoint"
proof -
  have "suffix (''/'' @ api_path Responses) (pe_path nested_endpoint)" by code_simp
  with endpoint_reload [OF nested_parsed] show ?thesis by blast
qed

text \<open>
  What comes back may permit more: this endpoint refuses \<open>https://h/admin\<close>, its reloaded form does not.
\<close>

theorem reload_widens_endpoint:
  "\<not> endpoint_permits nested_endpoint ''https://h/admin''
    \<and> (case endpoint_try_from (endpoint_into nested_endpoint) of
         Inl _ \<Rightarrow> False | Inr e \<Rightarrow> endpoint_permits e ''https://h/admin'')"
  by code_simp

end
