(* ===== verification/Json_Doc.thy ===== *)
theory Json_Doc
  imports Prelude
begin

text \<open>
  Structured edits of JSON configuration, the \<open>Json\<close> variant of
  \<open>apps/desktop/src-tauri/src/agent_integration/config_codec.rs\<close>: applying a patch with its reverse,
  projecting the owned paths of a baseline into the current document, and recognising a document with
  nothing but owned remains. An edit that fails leaves a document that its caller drops, so an error
  carries none. Parsing and rendering (serde_json) and the other formats are not modelled.
\<close>

section \<open>Values and paths\<close>

datatype json_number = JInt int | JFloat u64

datatype json =
    JNull
  | JBool bool
  | JNumber json_number
  | JString string
  | JArray "json list"
  | JObject "(string \<times> json) list"

definition is_null :: "json \<Rightarrow> bool" where
  "is_null v \<longleftrightarrow> v = JNull"

definition as_object :: "json \<Rightarrow> (string, json) btree option" where
  "as_object v = (case v of JObject m \<Rightarrow> Some m | _ \<Rightarrow> None)"

definition as_array :: "json \<Rightarrow> json list option" where
  "as_array v = (case v of JArray vs \<Rightarrow> Some vs | _ \<Rightarrow> None)"

definition is_array :: "json \<Rightarrow> bool" where
  "is_array v \<longleftrightarrow> as_array v \<noteq> None"

definition is_empty_object :: "json \<Rightarrow> bool" where
  "is_empty_object v \<longleftrightarrow> v = JObject []"

text \<open>\<open>ConfigPath\<close>: its segments; \<open>config_path_text\<close> is its \<open>Display\<close>.\<close>

type_synonym config_path = "string list"

definition join_with :: "string \<Rightarrow> string list \<Rightarrow> string" where
  "join_with separator parts = concat (case parts of [] \<Rightarrow> [] | p # ps \<Rightarrow> p # map (\<lambda>p. separator @ p) ps)"

definition config_path_text :: "config_path \<Rightarrow> string" where
  "config_path_text p = ''/'' @ join_with ''/'' p"

fun value_at_path :: "json \<Rightarrow> config_path \<Rightarrow> json option" where
  "value_at_path v [] = Some v"
| "value_at_path v (s # p) = (case as_object v of
      None \<Rightarrow> None
    | Some m \<Rightarrow> (case bt_get m s of None \<Rightarrow> None | Some w \<Rightarrow> value_at_path w p))"

definition semantic_value_at :: "json \<Rightarrow> config_path \<Rightarrow> json option" where
  "semantic_value_at root p = (if is_array root \<and> p = [''models''] then Some root else value_at_path root p)"

section \<open>Patches\<close>

datatype patch_kind = PatchAdd | PatchReplace | PatchRemove | PatchTest

record patch_operation =
  po_operation :: patch_kind
  po_path :: config_path
  po_value :: "json option"

datatype patch_error = PathIsEmpty | PathIsInvalid | ParentIsNoObject | ValueIsMissing | OnlyArray | PreconditionChanged

text \<open>\<open>split_path\<close>: the leaf and its parents.\<close>

definition segment_refused :: "string \<Rightarrow> bool" where
  "segment_refused s \<longleftrightarrow> s = [] \<or> s = ''.'' \<or> s = ''..''
     \<or> CHR ''/'' \<in> set s \<or> CHR 0x5C \<in> set s \<or> CHR 0x00 \<in> set s"

definition split_path :: "config_path \<Rightarrow> patch_error + string \<times> config_path" where
  "split_path p = (if p = [] then Err PathIsEmpty
     else if list_ex segment_refused p then Err PathIsInvalid
     else Ok (last p, butlast p))"

definition object_or_null :: "json \<Rightarrow> patch_error + (string, json) btree" where
  "object_or_null v = (case v of JNull \<Rightarrow> Ok [] | JObject m \<Rightarrow> Ok m | _ \<Rightarrow> Err ParentIsNoObject)"

definition object_of :: "json \<Rightarrow> patch_error + (string, json) btree" where
  "object_of v = (case v of JObject m \<Rightarrow> Ok m | _ \<Rightarrow> Err ParentIsNoObject)"

fun put_value :: "config_path \<Rightarrow> string \<Rightarrow> json option \<Rightarrow> json \<Rightarrow> patch_error + json" where
  "put_value [] leaf v cursor = (case object_or_null cursor of
      Inl e \<Rightarrow> Err e
    | Inr m \<Rightarrow> (case v of None \<Rightarrow> Err ValueIsMissing | Some v \<Rightarrow> Ok (JObject (bt_insert leaf v m))))"
| "put_value (s # parents) leaf v cursor = (case object_or_null cursor of
      Inl e \<Rightarrow> Err e
    | Inr m \<Rightarrow> (case put_value parents leaf v (case bt_get m s of None \<Rightarrow> JObject [] | Some c \<Rightarrow> c) of
        Inl e \<Rightarrow> Err e
      | Inr c \<Rightarrow> Ok (JObject (bt_insert s c m))))"

fun remove_value :: "config_path \<Rightarrow> string \<Rightarrow> json \<Rightarrow> patch_error + json" where
  "remove_value [] leaf cursor = (case object_of cursor of
      Inl e \<Rightarrow> Err e
    | Inr m \<Rightarrow> Ok (JObject (bt_remove leaf m)))"
| "remove_value (s # parents) leaf cursor = (case object_of cursor of
      Inl e \<Rightarrow> Err e
    | Inr m \<Rightarrow> (case bt_get m s of
        None \<Rightarrow> Ok cursor
      | Some c \<Rightarrow> (case remove_value parents leaf c of
          Inl e \<Rightarrow> Err e
        | Inr c \<Rightarrow> Ok (JObject (bt_insert s c m)))))"

fun test_value :: "config_path \<Rightarrow> string \<Rightarrow> json option \<Rightarrow> json \<Rightarrow> patch_error + unit" where
  "test_value [] leaf v cursor = (case object_of cursor of
      Inl e \<Rightarrow> Err e
    | Inr m \<Rightarrow> ensure (bt_get m leaf = v) PreconditionChanged)"
| "test_value (s # parents) leaf v cursor = (case object_of cursor of
      Inl e \<Rightarrow> Err e
    | Inr m \<Rightarrow> (case bt_get m s of
        None \<Rightarrow> Err PreconditionChanged
      | Some c \<Rightarrow> test_value parents leaf v c))"

text \<open>A \<open>models.json\<close> that is an array is addressed by the path \<open>models\<close>.\<close>

definition apply_array_operation :: "json \<Rightarrow> patch_operation \<Rightarrow> patch_error + json" where
  "apply_array_operation root op = (case po_operation op of
      PatchRemove \<Rightarrow> Ok (JArray [])
    | PatchTest \<Rightarrow> (if root = (case po_value op of None \<Rightarrow> JNull | Some v \<Rightarrow> v) then Ok root else Err PreconditionChanged)
    | _ \<Rightarrow> (case po_value op of
        None \<Rightarrow> Err ValueIsMissing
      | Some v \<Rightarrow> if is_array v then Ok v else Err OnlyArray))"

definition apply_json_operation :: "json \<Rightarrow> patch_operation \<Rightarrow> patch_error + json" where
  "apply_json_operation root op =
     (if is_array root \<and> po_path op = [''models''] then apply_array_operation root op
      else if is_array root \<and> po_path op = [''availableModels''] then Ok root
      else and_then (split_path (po_path op)) (\<lambda>(leaf, parents). case po_operation op of
          PatchRemove \<Rightarrow> remove_value parents leaf root
        | PatchTest \<Rightarrow> and_then (test_value parents leaf (po_value op) root) (\<lambda>_. Ok root)
        | _ \<Rightarrow> put_value parents leaf (po_value op) root))"

fun apply_patch :: "json \<Rightarrow> patch_operation list \<Rightarrow> patch_error + json" where
  "apply_patch d [] = Ok d"
| "apply_patch d (op # ops) = (case apply_json_operation d op of Inl e \<Rightarrow> Err e | Inr d \<Rightarrow> apply_patch d ops)"

section \<open>Reverses\<close>

text \<open>The first of the lengths \<open>length..segments.len()\<close> at which there is nothing, or null.\<close>

fun materialized_from :: "json \<Rightarrow> config_path \<Rightarrow> nat list \<Rightarrow> patch_operation option" where
  "materialized_from before path [] = None"
| "materialized_from before path (n # ns) = (case semantic_value_at before (take n path) of
      None \<Rightarrow> Some \<lparr>po_operation = PatchRemove, po_path = take n path, po_value = None\<rparr>
    | Some v \<Rightarrow> if is_null v
        then Some \<lparr>po_operation = PatchReplace, po_path = take n path, po_value = Some JNull\<rparr>
        else materialized_from before path ns)"

definition materialized_parent_reverse :: "json \<Rightarrow> patch_operation \<Rightarrow> patch_operation option" where
  "materialized_parent_reverse before op =
     (if po_operation op \<notin> {PatchAdd, PatchReplace} \<or> length (po_path op) < 2 then None
      else materialized_from before (po_path op) [1..<length (po_path op)])"

text \<open>The undo of one step: what puts the leaf back, then what removes a parent made for it.\<close>

definition step_reverse :: "json \<Rightarrow> patch_operation \<Rightarrow> patch_operation list" where
  "step_reverse before op = (let previous = semantic_value_at before (po_path op) in
     if po_operation op = PatchTest then []
     else \<lparr>po_operation = (if previous = None then PatchRemove else PatchReplace),
           po_path = po_path op, po_value = previous\<rparr>
       # (case materialized_parent_reverse before op of None \<Rightarrow> [] | Some r \<Rightarrow> [r]))"

fun apply_patch_with_reverse :: "json \<Rightarrow> patch_operation list \<Rightarrow> patch_error + json \<times> patch_operation list" where
  "apply_patch_with_reverse d [] = Ok (d, [])"
| "apply_patch_with_reverse d (op # ops) = (case apply_json_operation d op of
      Inl e \<Rightarrow> Err e
    | Inr d1 \<Rightarrow> (case apply_patch_with_reverse d1 ops of
        Inl e \<Rightarrow> Err e
      | Inr (d2, reverse) \<Rightarrow> Ok (d2, reverse @ step_reverse d op)))"

section \<open>Null ancestors\<close>

fun promote_null_ancestors :: "config_path \<Rightarrow> json \<Rightarrow> json" where
  "promote_null_ancestors [] v = v"
| "promote_null_ancestors (s # p) v = (case as_object v of
      None \<Rightarrow> v
    | Some m \<Rightarrow> (case bt_get m s of
        None \<Rightarrow> v
      | Some child \<Rightarrow> (let child = (if is_null child then JObject [] else child) in
          JObject (bt_insert s (promote_null_ancestors p child) m))))"

fun prepare_owned_paths :: "json \<Rightarrow> config_path list \<Rightarrow> patch_error + json" where
  "prepare_owned_paths d [] = Ok d"
| "prepare_owned_paths d (p # ps) = (case split_path p of
      Inl e \<Rightarrow> Err e
    | Inr (leaf, parents) \<Rightarrow> prepare_owned_paths (promote_null_ancestors parents d) ps)"

section \<open>Projection\<close>

datatype baseline_path_state = BaselineMissing | BaselineNull | BaselineOther

fun baseline_state_at :: "json \<Rightarrow> config_path \<Rightarrow> baseline_path_state" where
  "baseline_state_at v [] = (if is_null v then BaselineNull else BaselineOther)"
| "baseline_state_at v (s # p) = (case as_object v of
      None \<Rightarrow> if is_null v then BaselineMissing else BaselineOther
    | Some m \<Rightarrow> (case bt_get m s of None \<Rightarrow> BaselineMissing | Some w \<Rightarrow> baseline_state_at w p))"

definition ancestors_of :: "config_path \<Rightarrow> config_path list" where
  "ancestors_of p = map (\<lambda>n. take n p) [1..<length p]"

definition restoration_of :: "json \<Rightarrow> config_path \<Rightarrow> patch_operation option" where
  "restoration_of baseline ancestor = (case baseline_state_at baseline ancestor of
      BaselineMissing \<Rightarrow> Some \<lparr>po_operation = PatchRemove, po_path = ancestor, po_value = None\<rparr>
    | BaselineNull \<Rightarrow> Some \<lparr>po_operation = PatchReplace, po_path = ancestor, po_value = Some JNull\<rparr>
    | BaselineOther \<Rightarrow> None)"

text \<open>
  Longer paths first, paths of one length in their order, and each path once: \<open>sort_by\<close> and
  \<open>dedup_by\<close>.
\<close>

definition deepest_first :: "config_path \<Rightarrow> int \<times> config_path" where
  "deepest_first p = (- int (length p), p)"

fun dedup_on :: "('a \<Rightarrow> 'b) \<Rightarrow> 'a list \<Rightarrow> 'a list" where
  "dedup_on f (x # y # xs) = (if f x = f y then dedup_on f (x # xs) else x # dedup_on f (y # xs))"
| "dedup_on f xs = xs"

definition materialized_ancestor_restorations :: "json \<Rightarrow> config_path list \<Rightarrow> patch_operation list" where
  "materialized_ancestor_restorations baseline owned_paths =
     dedup_on po_path (sort_key (\<lambda>op. deepest_first (po_path op))
       (List.map_filter (restoration_of baseline) (concat (map ancestors_of owned_paths))))"

fun collapse_ancestors :: "json \<Rightarrow> patch_operation list \<Rightarrow> patch_error + json" where
  "collapse_ancestors current [] = Ok current"
| "collapse_ancestors current (op # ops) =
     (case (case value_at_path current (po_path op) of
         Some v \<Rightarrow> if is_empty_object v then apply_json_operation current op else Ok current
       | None \<Rightarrow> Ok current) of
       Inl e \<Rightarrow> Err e
     | Inr current \<Rightarrow> collapse_ancestors current ops)"

definition collapse_empty_materialized_ancestors :: "json \<Rightarrow> json \<Rightarrow> config_path list \<Rightarrow> patch_error + json" where
  "collapse_empty_materialized_ancestors current baseline owned_paths =
     collapse_ancestors current (materialized_ancestor_restorations baseline owned_paths)"

definition projection_operation :: "json \<Rightarrow> config_path \<Rightarrow> patch_operation" where
  "projection_operation baseline p = (let v = semantic_value_at baseline p in
     \<lparr>po_operation = (if v = None then PatchRemove else PatchReplace), po_path = p, po_value = v\<rparr>)"

text \<open>\<open>restore_null_owned_ancestors\<close>: for one ancestor, then for all of them.\<close>

definition restore_null_ancestor :: "json \<Rightarrow> config_path list \<Rightarrow> json \<Rightarrow> config_path \<Rightarrow> patch_error + json" where
  "restore_null_ancestor baseline null_ancestors current ancestor =
     (if \<not> list_ex (\<lambda>a. prefix a ancestor) null_ancestors then Ok current
      else (case semantic_value_at current ancestor of
        None \<Rightarrow> Ok current
      | Some v \<Rightarrow>
          if \<not> is_empty_object v then Ok current
          else (case semantic_value_at baseline ancestor of
            None \<Rightarrow> apply_patch current [\<lparr>po_operation = PatchRemove, po_path = ancestor, po_value = None\<rparr>]
          | Some b \<Rightarrow>
              if is_null b
              then apply_patch current [\<lparr>po_operation = PatchReplace, po_path = ancestor, po_value = Some JNull\<rparr>]
              else Ok current)))"

fun try_fold :: "('b \<Rightarrow> 'a \<Rightarrow> 'e + 'b) \<Rightarrow> 'b \<Rightarrow> 'a list \<Rightarrow> 'e + 'b" where
  "try_fold f b [] = Ok b"
| "try_fold f b (x # xs) = (case f b x of Inl e \<Rightarrow> Err e | Inr b \<Rightarrow> try_fold f b xs)"

definition restore_null_owned_ancestors :: "json \<Rightarrow> json \<Rightarrow> config_path list \<Rightarrow> patch_error + json" where
  "restore_null_owned_ancestors current baseline owned_paths =
     (let ancestors = dedup_on id (sort_key deepest_first (concat (map ancestors_of owned_paths)));
          null_ancestors = filter (\<lambda>a. semantic_value_at baseline a = Some JNull) ancestors
      in try_fold (restore_null_ancestor baseline null_ancestors) current ancestors)"

definition project_owned_paths :: "json \<Rightarrow> json \<Rightarrow> config_path list \<Rightarrow> patch_error + json" where
  "project_owned_paths current baseline owned_paths =
     and_then (try_fold (\<lambda>d p. apply_json_operation d (projection_operation baseline p)) current owned_paths)
       (\<lambda>d. and_then (collapse_empty_materialized_ancestors d baseline owned_paths)
         (\<lambda>d. restore_null_owned_ancestors d baseline owned_paths))"

section \<open>Emptiness\<close>

fun prune_empty_owned_ancestors :: "config_path \<Rightarrow> json \<Rightarrow> json" where
  "prune_empty_owned_ancestors [] v = v"
| "prune_empty_owned_ancestors (s # p) v = (case as_object v of
      None \<Rightarrow> v
    | Some m \<Rightarrow> (case bt_get m s of
        None \<Rightarrow> v
      | Some child \<Rightarrow> (let child = prune_empty_owned_ancestors p child in
          if is_null child \<or> is_empty_object child then JObject (bt_remove s m)
          else JObject (bt_insert s child m))))"

fun prune_owned :: "json \<Rightarrow> config_path list \<Rightarrow> patch_error + json" where
  "prune_owned v [] = Ok v"
| "prune_owned v (p # ps) = (case split_path p of
      Inl e \<Rightarrow> Err e
    | Inr (leaf, parents) \<Rightarrow> prune_owned (prune_empty_owned_ancestors parents v) ps)"

definition is_empty_owned_projection :: "json \<Rightarrow> config_path list \<Rightarrow> patch_error + bool" where
  "is_empty_owned_projection d owned_paths = and_then (prune_owned d owned_paths) (\<lambda>v. Ok (is_empty_object v))"

section \<open>Well-formed documents\<close>

text \<open>The keys of every object are in order and distinct.\<close>

fun json_ok :: "json \<Rightarrow> bool" where
  "json_ok (JArray vs) = list_all json_ok vs"
| "json_ok (JObject m) = (bt_ok m \<and> list_all (\<lambda>p. json_ok (snd p)) m)"
| "json_ok _ = True"

definition operation_ok :: "patch_operation \<Rightarrow> bool" where
  "operation_ok op \<longleftrightarrow> (case po_value op of None \<Rightarrow> True | Some v \<Rightarrow> json_ok v)"

lemma bt_eqI:
  assumes "bt_ok m" and "bt_ok m'" and "\<And>k. bt_get m k = bt_get m' k"
  shows "m = m'"
proof (rule map_sorted_distinct_set_unique [where f = fst])
  have m: "inj_on fst (set m \<union> set m')"
  proof (rule inj_onI)
    fix x y assume "x \<in> set m \<union> set m'" "y \<in> set m \<union> set m'" "fst x = fst y"
    moreover have "bt_get m (fst z) = Some (snd z)" if "z \<in> set m \<union> set m'" for z
      using that assms by (metis Un_iff bt_get_Some_iff prod.collapse)
    ultimately show "x = y" by (metis option.inject prod.expand)
  qed
  then show "inj_on fst (set m \<union> set m')" .
  show "sorted (map fst m)" "sorted (map fst m')" "distinct (map fst m)" "distinct (map fst m')"
    using assms by (auto simp: bt_ok_def strict_sorted_iff)
  show "set m = set m'"
    using assms by (metis (no_types, opaque_lifting) bt_get_Some_iff subsetI subset_antisym surj_pair)
qed

lemma bt_insert_same: "bt_ok m \<Longrightarrow> bt_get m k = Some v \<Longrightarrow> bt_insert k v m = m"
  by (rule bt_eqI) (auto simp: bt.ok_put bt.get_put)

lemma bt_insert_insert: "bt_ok m \<Longrightarrow> bt_insert k v (bt_insert k w m) = bt_insert k v m"
  by (rule bt_eqI) (auto simp: bt.ok_put bt.get_put)

lemma bt_remove_insert: "bt_ok m \<Longrightarrow> bt_get m k = None \<Longrightarrow> bt_remove k (bt_insert k w m) = m"
  by (rule bt_eqI) (auto simp: bt.ok_put bt.ok_del bt.get_put bt.get_del)

lemma bt_insert_remove: "bt_ok m \<Longrightarrow> bt_insert k w (bt_remove k m) = bt_insert k w m"
  by (rule bt_eqI) (auto simp: bt.ok_put bt.ok_del bt.get_put bt.get_del)

lemma bt_remove_absent: "bt_get m k = None \<Longrightarrow> bt_remove k m = m"
  by (induction m) (auto simp: bt_remove_def bt_get_def split: if_splits)

lemmas bt_algebra = bt_insert_same bt_insert_insert bt_remove_insert bt_insert_remove bt_remove_absent
  bt.get_put bt.get_del bt.ok_put bt.ok_del

lemma json_ok_get: "json_ok (JObject m) \<Longrightarrow> bt_get m k = Some v \<Longrightarrow> json_ok v"
  using bt_get_SomeD by (fastforce simp: list_all_iff)

lemma json_ok_insert: "json_ok (JObject m) \<Longrightarrow> json_ok v \<Longrightarrow> json_ok (JObject (bt_insert k v m))"
proof -
  assume m: "json_ok (JObject m)" and v: "json_ok v"
  have "p = (k, v) \<or> p \<in> set m" if "p \<in> set (bt_insert k v m)" for p
    using that by (induction k v m rule: bt_insert.induct) (auto split: if_splits)
  with m v show ?thesis by (simp add: list_all_iff bt.ok_put) (metis snd_conv)
qed

lemma json_ok_remove: "json_ok (JObject m) \<Longrightarrow> json_ok (JObject (bt_remove k m))"
  by (auto simp: list_all_iff bt.ok_del bt_remove_def intro: bt_ok_remove [unfolded bt_remove_def])

lemma object_of_Ok: "object_of v = Ok m \<longleftrightarrow> v = JObject m"
  by (cases v) (auto simp: object_of_def)

lemma object_or_null_Ok: "object_or_null v = Ok m \<longleftrightarrow> v = JObject m \<or> v = JNull \<and> m = []"
  by (cases v) (auto simp: object_or_null_def)

lemma as_object_JObject [simp]: "as_object (JObject m) = Some m"
  by (simp add: as_object_def)

lemma as_object_JNull [simp]: "as_object JNull = None"
  by (simp add: as_object_def)

lemma put_value_ok:
  "put_value ps leaf (Some v) c = Ok d \<Longrightarrow> json_ok c \<Longrightarrow> json_ok v \<Longrightarrow> json_ok d \<and> (\<exists>m. d = JObject m)"
proof (induction ps arbitrary: c d)
  case Nil
  then show ?case
    by (auto simp: object_or_null_Ok intro: json_ok_insert split: sum.splits)
next
  case (Cons s ps)
  then obtain m e where m: "object_or_null c = Ok m"
    and e: "put_value ps leaf (Some v) (case bt_get m s of None \<Rightarrow> JObject [] | Some c \<Rightarrow> c) = Ok e"
    and d: "d = JObject (bt_insert s e m)" by (auto split: sum.splits)
  have "json_ok (JObject m)" using m Cons.prems(2) by (auto simp: object_or_null_Ok)
  moreover have "json_ok (case bt_get m s of None \<Rightarrow> JObject [] | Some c \<Rightarrow> c)"
    using json_ok_get [OF calculation, of s] by (simp split: option.split)
  ultimately show ?case using Cons.IH [OF e _ Cons.prems(3)] d by (blast intro: json_ok_insert)
qed

lemma remove_value_ok:
  "remove_value ps leaf c = Ok d \<Longrightarrow> json_ok c \<Longrightarrow> json_ok d \<and> (\<exists>m. d = JObject m)"
proof (induction ps arbitrary: c d)
  case Nil
  then show ?case by (auto simp: object_of_Ok intro: json_ok_remove split: sum.splits)
next
  case (Cons s ps)
  then obtain m where m: "c = JObject m" by (auto simp: object_of_Ok split: sum.splits)
  show ?case
  proof (cases "bt_get m s")
    case (Some e)
    with Cons.prems m obtain f where "remove_value ps leaf e = Ok f" "d = JObject (bt_insert s f m)"
      by (auto simp: object_of_def split: sum.splits)
    with Cons.IH [of e f] Cons.prems(2) m Some show ?thesis by (blast intro: json_ok_insert json_ok_get)
  qed (use Cons.prems m in \<open>auto simp: object_of_def\<close>)
qed

section \<open>Undoing a step\<close>

text \<open>The first parent, of a path below \<open>v\<close>, that is missing or null, as the operation that restores it.\<close>

definition below :: "string \<Rightarrow> patch_operation \<Rightarrow> patch_operation" where
  "below s op = op\<lparr>po_path := s # po_path op\<rparr>"

fun gap :: "json \<Rightarrow> config_path \<Rightarrow> patch_operation option" where
  "gap v [] = None"
| "gap v (s # ps) = (case value_at_path v [s] of
      None \<Rightarrow> Some \<lparr>po_operation = PatchRemove, po_path = [s], po_value = None\<rparr>
    | Some w \<Rightarrow> if is_null w then Some \<lparr>po_operation = PatchReplace, po_path = [s], po_value = Some JNull\<rparr>
        else map_option (below s) (gap w ps))"

lemma value_at_append: "value_at_path v (p @ q) = Option.bind (value_at_path v p) (\<lambda>w. value_at_path w q)"
  by (induction v p rule: value_at_path.induct) (auto split: option.splits)

lemma value_at_Cons: "value_at_path v (s # p) = Option.bind (value_at_path v [s]) (\<lambda>w. value_at_path w p)"
  using value_at_append [of v "[s]" p] by simp

fun gap_from :: "json \<Rightarrow> config_path \<Rightarrow> nat list \<Rightarrow> patch_operation option" where
  "gap_from v path [] = None"
| "gap_from v path (n # ns) = (case value_at_path v (take n path) of
      None \<Rightarrow> Some \<lparr>po_operation = PatchRemove, po_path = take n path, po_value = None\<rparr>
    | Some w \<Rightarrow> if is_null w
        then Some \<lparr>po_operation = PatchReplace, po_path = take n path, po_value = Some JNull\<rparr>
        else gap_from v path ns)"

lemma materialized_gap_from: "\<not> is_array v \<Longrightarrow> materialized_from v path ns = gap_from v path ns"
  by (induction ns) (simp_all add: semantic_value_at_def split: option.split)

lemma gap_from_below:
  "value_at_path v [s] = Some w \<Longrightarrow> gap_from v (s # p) (map Suc ns) = map_option (below s) (gap_from w p ns)"
  by (induction ns) (auto simp: value_at_Cons [of v s] below_def split: option.splits)

lemma gap_from_gap: "gap_from v (ps @ [leaf]) [1..<length ps + 1] = gap v ps"
proof (induction ps arbitrary: v)
  case (Cons s ps)
  have "[1..<length (s # ps) + 1] = 1 # map Suc [1..<length ps + 1]"
    by (simp add: map_Suc_upt upt_conv_Cons del: upt_Suc)
  then show ?case
    using Cons.IH gap_from_below [of v s _ "ps @ [leaf]" "[1..<length ps + 1]"]
    by (auto split: option.split simp del: upt_Suc)
qed simp

lemma put_value_gets:
  "put_value ps leaf (Some v) c = Ok d \<Longrightarrow> value_at_path d (ps @ [leaf]) = Some v"
proof (induction ps arbitrary: c d)
  case (Cons s ps)
  then show ?case by (auto simp: bt.get_put split: sum.splits)
qed (auto simp: bt.get_put split: sum.splits)

lemma put_value_back:
  assumes "put_value ps leaf v c = Ok d" and "json_ok c" and "value_at_path c (ps @ [leaf]) = Some w"
  shows "put_value ps leaf (Some w) d = Ok c"
  using assms
proof (induction ps arbitrary: c d)
  case Nil
  then show ?case
    by (auto simp: object_or_null_def as_object_def bt_algebra split: json.splits option.splits)
next
  case (Cons s ps)
  then obtain m e where m: "c = JObject m" "bt_ok m" and s: "bt_get m s = Some e" and w: "value_at_path e (ps @ [leaf]) = Some w"
    by (auto simp: as_object_def split: json.splits option.splits)
  with Cons.prems obtain f where "put_value ps leaf v e = Ok f" and d: "d = JObject (bt_insert s f m)"
    by (auto simp: object_or_null_def split: sum.splits)
  with Cons.IH [OF _ json_ok_get [OF _ s] w] Cons.prems(2) m s show ?case
    by (auto simp: object_or_null_def bt_algebra)
qed

lemma remove_put_back:
  assumes "remove_value ps leaf c = Ok d" and "json_ok c" and "value_at_path c (ps @ [leaf]) = Some w"
  shows "put_value ps leaf (Some w) d = Ok c"
  using assms
proof (induction ps arbitrary: c d)
  case Nil
  then show ?case
    by (auto simp: object_or_null_def object_of_def as_object_def bt_algebra split: json.splits option.splits)
next
  case (Cons s ps)
  then obtain m e where m: "c = JObject m" "bt_ok m" and s: "bt_get m s = Some e" and w: "value_at_path e (ps @ [leaf]) = Some w"
    by (auto simp: as_object_def split: json.splits option.splits)
  with Cons.prems obtain f where "remove_value ps leaf e = Ok f" and d: "d = JObject (bt_insert s f m)"
    by (auto simp: object_of_def split: sum.splits)
  with Cons.IH [OF _ json_ok_get [OF _ s] w] Cons.prems(2) m s show ?case
    by (auto simp: object_or_null_def bt_algebra)
qed

lemma remove_absent:
  assumes "remove_value ps leaf c = Ok d" and "json_ok c" and "value_at_path c (ps @ [leaf]) = None"
  shows "d = c"
  using assms
proof (induction ps arbitrary: c d)
  case Nil
  then show ?case
    by (auto simp: object_of_def as_object_def bt_algebra split: json.splits option.splits)
next
  case (Cons s ps)
  then obtain m where m: "c = JObject m" "bt_ok m" by (auto simp: object_of_Ok split: sum.splits)
  show ?case
  proof (cases "bt_get m s")
    case (Some e)
    with Cons.prems m obtain f where "remove_value ps leaf e = Ok f" "d = JObject (bt_insert s f m)"
      by (auto simp: object_of_def split: sum.splits)
    with Cons.IH [OF _ json_ok_get [OF _ Some]] Cons.prems m Some show ?thesis by (auto simp: bt_algebra)
  qed (use Cons.prems m in \<open>auto simp: object_of_def\<close>)
qed

text \<open>What a restoring operation does, without the checks on its path.\<close>

definition restore_raw :: "patch_operation \<Rightarrow> json \<Rightarrow> patch_error + json" where
  "restore_raw op d = (case po_operation op of
      PatchRemove \<Rightarrow> remove_value (butlast (po_path op)) (last (po_path op)) d
    | _ \<Rightarrow> put_value (butlast (po_path op)) (last (po_path op)) (po_value op) d)"

lemma restore_raw_below:
  assumes "restore_raw op e = Ok f" and "po_path op \<noteq> []" and "bt_ok m"
  shows "restore_raw (below s op) (JObject (bt_insert s e m)) = Ok (JObject (bt_insert s f m))"
  using assms by (cases "po_operation op") (auto simp: restore_raw_def below_def object_of_def object_or_null_def bt_algebra)

lemma gap_path: "gap v ps = Some r \<Longrightarrow> po_path r \<noteq> [] \<and> prefix (po_path r) ps"
  by (induction v ps arbitrary: r rule: gap.induct) (auto simp: below_def split: option.splits if_splits)

lemma put_fresh_undo:
  assumes "put_value ps leaf (Some v) (JObject m) = Ok d" and "bt_ok m" and "json_ok (JObject m)"
    and "value_at_path (JObject m) (ps @ [leaf]) = None"
  shows "\<exists>e. remove_value ps leaf d = Ok e
    \<and> (case gap (JObject m) ps of None \<Rightarrow> e = JObject m | Some r \<Rightarrow> restore_raw r e = Ok (JObject m))"
  using assms
proof (induction ps arbitrary: m d)
  case Nil
  then show ?case by (auto simp: object_or_null_def object_of_def bt_algebra split: option.splits)
next
  case (Cons s ps)
  let ?c = "case bt_get m s of None \<Rightarrow> JObject [] | Some c \<Rightarrow> c"
  obtain f where f: "put_value ps leaf (Some v) ?c = Ok f" and d: "d = JObject (bt_insert s f m)"
    using Cons.prems(1) by (auto simp: object_or_null_def split: sum.splits)
  have "json_ok ?c" using json_ok_get [OF Cons.prems(3), of s] by (simp split: option.split)
  show ?case
  proof (cases "bt_get m s = None \<or> bt_get m s = Some JNull")
    case True
    have absent: "value_at_path ?c (ps @ [leaf]) = None"
      using True by (cases ps) (auto simp: bt.get_empty)
    have "\<exists>e. remove_value ps leaf f = Ok e"
    proof -
      have "put_value ps leaf (Some v) (JObject []) = Ok f"
        using f True by (cases ps) (auto simp: object_or_null_def)
      from Cons.IH [OF this] show ?thesis by (cases ps) (auto simp: bt.get_empty)
    qed
    then obtain e where "remove_value ps leaf f = Ok e" by blast
    then show ?thesis
      using True d Cons.prems(2)
      by (auto simp: object_of_def restore_raw_def object_or_null_def is_null_def bt_algebra)
  next
    case False
    then obtain c where c: "bt_get m s = Some c" "c \<noteq> JNull" by auto
    then obtain mc where mc: "c = JObject mc" using f by (cases ps) (auto simp: object_or_null_Ok split: sum.splits)
    have ok: "json_ok (JObject mc)" using json_ok_get [OF Cons.prems(3) c(1)] mc by simp
    then have "bt_ok mc" by simp
    from Cons.IH [OF _ this ok] f c mc Cons.prems(4) obtain e where e: "remove_value ps leaf f = Ok e"
      and r: "case gap (JObject mc) ps of None \<Rightarrow> e = JObject mc | Some r \<Rightarrow> restore_raw r e = Ok (JObject mc)"
      by auto
    have "remove_value (s # ps) leaf d = Ok (JObject (bt_insert s e m))"
      using e d Cons.prems(2) by (simp add: object_of_def bt_algebra)
    moreover have "case gap (JObject m) (s # ps) of None \<Rightarrow> JObject (bt_insert s e m) = JObject m
        | Some r \<Rightarrow> restore_raw r (JObject (bt_insert s e m)) = Ok (JObject m)"
      using r c mc restore_raw_below [OF _ _ Cons.prems(2), of _ e "JObject mc" s] gap_path [of "JObject mc" ps] Cons.prems(2)
      by (auto simp: is_null_def bt_algebra split: option.splits)
    ultimately show ?thesis by blast
  qed
qed

lemma split_path_Ok: "split_path p = Ok (leaf, ps) \<longleftrightarrow> p = ps @ [leaf] \<and> \<not> list_ex segment_refused p"
  unfolding split_path_def by (cases p rule: rev_cases) auto

lemma not_array_JObject [simp]: "\<not> is_array (JObject m)"
  by (simp add: is_array_def as_array_def)

lemma apply_restoring:
  assumes "po_path r \<noteq> []" and "\<not> list_ex segment_refused (po_path r)"
    and "po_operation r = PatchRemove \<or> po_operation r = PatchReplace"
  shows "apply_json_operation (JObject m) r = restore_raw r (JObject m)"
  using assms by (auto simp: apply_json_operation_def restore_raw_def split_path_def)

lemma gap_restoring:
  "gap v ps = Some r \<Longrightarrow> po_operation r = PatchRemove \<or> po_operation r = PatchReplace"
proof (induction ps arbitrary: v r)
  case (Cons s ps)
  then show ?case by (fastforce simp: below_def split: option.splits if_splits)
qed simp

lemma object_root:
  assumes "apply_json_operation d op = Ok d1" and "\<not> is_array d" and "d \<noteq> JNull"
  shows "\<exists>m. d = JObject m"
proof -
  from assms obtain leaf ps where "split_path (po_path op) = Ok (leaf, ps)"
    by (auto simp: apply_json_operation_def and_then_Ok_iff)
  with assms show ?thesis
    by (cases d; cases ps; cases "po_operation op")
      (auto simp: apply_json_operation_def object_of_def object_or_null_def is_array_def as_array_def and_then_Ok_iff)
qed

lemma object_step_ok:
  assumes "apply_json_operation (JObject m) op = Ok d1" and "json_ok (JObject m)" and "operation_ok op"
  shows "json_ok d1 \<and> (\<exists>m'. d1 = JObject m')"
proof -
  from assms(1) obtain leaf ps where p: "split_path (po_path op) = Ok (leaf, ps)"
    by (auto simp: apply_json_operation_def and_then_Ok_iff)
  have none: "put_value ps leaf None c \<noteq> Ok d" for ps c d
    by (induction ps arbitrary: c d) (auto split: sum.splits)
  show ?thesis
  proof (cases "po_operation op = PatchAdd \<or> po_operation op = PatchReplace")
    case True
    with assms(1) p have put: "put_value ps leaf (po_value op) (JObject m) = Ok d1"
      by (auto simp: apply_json_operation_def)
    with none obtain v where "po_value op = Some v" by (cases "po_value op") auto
    with put assms(2,3) show ?thesis using put_value_ok by (auto simp: operation_ok_def)
  next
    case False
    with assms(1,2) p show ?thesis
      by (cases "po_operation op") (auto simp: apply_json_operation_def and_then_Ok_iff dest: remove_value_ok)
  qed
qed

lemma object_step_undo:
  assumes step: "apply_json_operation (JObject m) op = Ok d1" and ok: "json_ok (JObject m)" and op: "operation_ok op"
  shows "apply_patch d1 (step_reverse (JObject m) op) = Ok (JObject m)"
proof (cases "po_operation op = PatchTest")
  case True
  with step show ?thesis by (auto simp: step_reverse_def apply_json_operation_def and_then_Ok_iff)
next
  case False
  from step obtain leaf ps where "split_path (po_path op) = Ok (leaf, ps)"
    by (auto simp: apply_json_operation_def and_then_Ok_iff)
  then have path: "po_path op = ps @ [leaf]" and valid: "\<not> list_ex segment_refused (po_path op)"
    by (auto simp: split_path_Ok)
  then have split: "split_path (ps @ [leaf]) = Ok (leaf, ps)" by (simp add: split_path_Ok)
  obtain m1 where d1: "d1 = JObject m1" using object_step_ok [OF step ok op] by blast
  have leaf: "semantic_value_at (JObject m) (ps @ [leaf]) = value_at_path (JObject m) (ps @ [leaf])"
    by (simp add: semantic_value_at_def)
  have none: "put_value ps leaf None c \<noteq> Ok d" for ps c d
    by (induction ps arbitrary: c d) (auto split: sum.splits)
  show ?thesis
  proof (cases "po_operation op = PatchRemove")
    case True
    then have "materialized_parent_reverse (JObject m) op = None" by (simp add: materialized_parent_reverse_def)
    moreover have removed: "remove_value ps leaf (JObject m) = Ok d1"
      using step True split path by (simp add: apply_json_operation_def)
    moreover have "remove_value ps leaf d1 = Ok d1" if "value_at_path (JObject m) (ps @ [leaf]) = None"
      using remove_absent [OF removed ok that] removed by simp
    ultimately show ?thesis
      using remove_put_back [OF removed ok] remove_absent [OF removed ok] True split path d1
      by (cases "value_at_path (JObject m) (ps @ [leaf])")
        (auto simp: step_reverse_def Let_def leaf apply_json_operation_def)
  next
    case put: False
    with False step split path have put_op: "put_value ps leaf (po_value op) (JObject m) = Ok d1"
      by (cases "po_operation op") (auto simp: apply_json_operation_def)
    with none obtain v where v: "po_value op = Some v" by (cases "po_value op") auto
    have mat: "materialized_parent_reverse (JObject m) op = gap (JObject m) ps"
      using False put path gap_from_gap [of "JObject m" ps leaf]
      by (cases "po_operation op"; cases ps)
        (auto simp: materialized_parent_reverse_def materialized_gap_from simp del: upt_Suc)
    show ?thesis
    proof (cases "value_at_path (JObject m) (ps @ [leaf])")
      case (Some w)
      have "gap (JObject m) ps = None"
      proof (rule ccontr)
        have null: "value_at_path JNull (qs @ [leaf]) = None" for qs by (cases qs) simp_all
        have none: "value_at_path u (qs @ [leaf]) = None" if "gap u qs = Some r" for u qs r
          using that
        proof (induction qs arbitrary: u r)
          case (Cons s qs)
          then show ?case using null by (auto simp: is_null_def split: option.splits if_splits)
        qed simp
        assume "gap (JObject m) ps \<noteq> None"
        with none Some show False by fastforce
      qed
      with put_value_back [OF put_op ok Some] False put mat d1 split path Some show ?thesis
        by (simp add: step_reverse_def Let_def leaf apply_json_operation_def)
    next
      case None
      from ok have "bt_ok m" by simp
      from put_fresh_undo [OF put_op [unfolded v] this ok None] obtain e
        where e: "remove_value ps leaf d1 = Ok e"
          and r: "case gap (JObject m) ps of None \<Rightarrow> e = JObject m | Some r \<Rightarrow> restore_raw r e = Ok (JObject m)"
        by blast
      have "json_ok d1" using object_step_ok [OF step ok op] by blast
      then obtain me where me: "e = JObject me" using remove_value_ok [OF e] by blast
      have "apply_json_operation e r = Ok (JObject m)" if "gap (JObject m) ps = Some r" for r
      proof -
        have "prefix (po_path r) ps" "po_path r \<noteq> []" using gap_path [OF that] by auto
        then have "\<not> list_ex segment_refused (po_path r)"
          using valid path by (auto simp: list_ex_iff dest: set_mono_prefix)
        then show ?thesis
          using that r me gap_path [OF that] gap_restoring [OF that] by (simp add: apply_restoring)
      qed
      moreover have "apply_json_operation d1 \<lparr>po_operation = PatchRemove, po_path = po_path op, po_value = None\<rparr> = Ok e"
        using e split path d1 by (simp add: apply_json_operation_def)
      ultimately show ?thesis
        using r False put mat None path by (auto simp: step_reverse_def Let_def leaf split: option.splits)
    qed
  qed
qed

lemma array_step_undo:
  assumes "apply_json_operation (JArray vs) op = Ok d1" and "json_ok (JArray vs)" and "operation_ok op"
  shows "apply_patch d1 (step_reverse (JArray vs) op) = Ok (JArray vs) \<and> json_ok d1 \<and> d1 \<noteq> JNull"
proof -
  have arr: "is_array (JArray vs)" by (simp add: is_array_def as_array_def)
  have none: "put_value ps leaf v (JArray vs) \<noteq> Ok d" "remove_value ps leaf (JArray vs) \<noteq> Ok d"
    "test_value ps leaf v (JArray vs) \<noteq> Ok u" for ps leaf v d u
    by (cases ps; simp add: object_of_def object_or_null_def)+
  consider "po_path op = [''models'']" | "po_path op = [''availableModels'']"
    using assms(1) none arr
    by (cases "po_operation op") (auto simp: apply_json_operation_def and_then_Ok_iff split: if_splits prod.splits)
  then show ?thesis
  proof cases
    case 1
    have refused: "\<not> list_ex segment_refused [''models'']" by code_simp
    show ?thesis
      using assms 1 arr
      by (cases "po_operation op")
        (auto simp: apply_json_operation_def apply_array_operation_def step_reverse_def semantic_value_at_def
          materialized_parent_reverse_def operation_ok_def is_array_def as_array_def Let_def
          split: option.splits if_splits json.splits)
  next
    case 2
    with assms arr show ?thesis
      by (auto simp: apply_json_operation_def step_reverse_def semantic_value_at_def as_object_def
          materialized_parent_reverse_def Let_def)
  qed
qed

lemma step_undo:
  assumes "apply_json_operation d op = Ok d1" and "json_ok d" and "d \<noteq> JNull" and "operation_ok op"
  shows "apply_patch d1 (step_reverse d op) = Ok d \<and> json_ok d1 \<and> d1 \<noteq> JNull"
proof (cases "is_array d")
  case True
  then obtain vs where "d = JArray vs" by (auto simp: is_array_def as_array_def split: json.splits)
  with array_step_undo assms show ?thesis by blast
next
  case False
  with object_root assms obtain m where m: "d = JObject m" by blast
  with assms object_step_ok [of m op d1] object_step_undo [of m op d1] show ?thesis by blast
qed

lemma apply_patch_append: "apply_patch d (xs @ ys) = and_then (apply_patch d xs) (\<lambda>d. apply_patch d ys)"
  by (induction xs arbitrary: d) (auto split: sum.split)

text \<open>
  C19. A patch of a configuration can be undone exactly: when the patch succeeds, with whatever mixture
  of additions, replacements, removals and tests, the operations returned with it lead from the new
  document back to the old one, down to parents that were absent or null and had to be made.
\<close>

theorem patch_reverse_restores:
  assumes "json_ok d" and "d \<noteq> JNull" and "list_all operation_ok ops"
    and "apply_patch_with_reverse d ops = Ok (d', reverse)"
  shows "apply_patch d ops = Ok d' \<and> apply_patch d' reverse = Ok d"
  using assms
proof (induction ops arbitrary: d reverse)
  case (Cons op ops)
  then obtain d1 later where d1: "apply_json_operation d op = Ok d1" and later: "apply_patch_with_reverse d1 ops = Ok (d', later)"
    and reverse: "reverse = later @ step_reverse d op"
    by (auto split: sum.splits)
  from step_undo [OF d1] Cons.prems have undo: "apply_patch d1 (step_reverse d op) = Ok d" "json_ok d1" "d1 \<noteq> JNull"
    by auto
  with Cons.IH [OF _ _ _ later] Cons.prems(3) have "apply_patch d1 ops = Ok d'" "apply_patch d' later = Ok d1" by auto
  with undo d1 reverse show ?case by (simp add: apply_patch_append)
qed simp

definition example_document :: json where
  "example_document = JObject [(''env'', JNull), (''model'', JString ''a'')]"

definition example_patch :: "patch_operation list" where
  "example_patch =
     [\<lparr>po_operation = PatchAdd, po_path = [''env'', ''URL''], po_value = Some (JString ''u'')\<rparr>,
      \<lparr>po_operation = PatchReplace, po_path = [''model''], po_value = Some (JString ''b'')\<rparr>,
      \<lparr>po_operation = PatchAdd, po_path = [''a'', ''b'', ''c''], po_value = Some (JBool True)\<rparr>]"

definition example_patched :: "json \<times> patch_operation list" where
  "example_patched = (case apply_patch_with_reverse example_document example_patch of
     Inl _ \<Rightarrow> (JNull, []) | Inr r \<Rightarrow> r)"

lemma patch_reverse_restores_witness:
  "apply_patch (fst example_patched) (snd example_patched) = Ok example_document
    \<and> fst example_patched \<noteq> example_document"
proof -
  have "apply_patch_with_reverse example_document example_patch = Ok (fst example_patched, snd example_patched)"
    by code_simp
  moreover have "json_ok example_document \<and> example_document \<noteq> JNull \<and> list_all operation_ok example_patch
      \<and> fst example_patched \<noteq> example_document" by code_simp
  ultimately show ?thesis using patch_reverse_restores by blast
qed

section \<open>Projection\<close>

lemma put_value_frame:
  "put_value ps leaf v c = Ok d \<Longrightarrow> \<not> prefix q (ps @ [leaf]) \<Longrightarrow> \<not> prefix (ps @ [leaf]) q \<Longrightarrow>
    value_at_path d q = value_at_path c q"
proof (induction ps arbitrary: c d q)
  case Nil
  then show ?case
    by (cases q) (auto simp: object_or_null_Ok bt.get_put bt_get_def map_of_bt_insert split: sum.splits option.splits if_splits)
next
  case (Cons s ps)
  then obtain t r where q: "q = t # r" by (cases q) auto
  from Cons.prems obtain m e where m: "object_or_null c = Ok m"
    and e: "put_value ps leaf v (case bt_get m s of None \<Rightarrow> JObject [] | Some c \<Rightarrow> c) = Ok e"
    and d: "d = JObject (bt_insert s e m)" by (auto split: sum.splits)
  have c: "value_at_path c q = value_at_path (JObject m) q"
    using m q by (auto simp: object_or_null_Ok bt.get_empty)
  have "value_at_path e r = value_at_path (case bt_get m s of None \<Rightarrow> JObject [] | Some c \<Rightarrow> c) r" if "t = s"
    using Cons.IH [OF e] Cons.prems q that by auto
  moreover have "r \<noteq> []" if "t = s" using Cons.prems(2) q that by auto
  ultimately show ?case
    unfolding c using d q by (cases r) (auto simp: bt.get_put bt.get_empty split: option.splits)
qed

lemma remove_value_frame:
  "remove_value ps leaf c = Ok d \<Longrightarrow> \<not> prefix (ps @ [leaf]) q \<Longrightarrow> \<not> prefix q (ps @ [leaf]) \<Longrightarrow>
    value_at_path d q = value_at_path c q"
proof (induction ps arbitrary: c d q)
  case Nil
  then show ?case
    by (cases q) (auto simp: object_of_Ok bt.get_del split: sum.splits option.splits)
next
  case (Cons s ps)
  then obtain t r where q: "q = t # r" by (cases q) auto
  from Cons.prems obtain m where m: "c = JObject m" by (auto simp: object_of_Ok split: sum.splits)
  show ?case
  proof (cases "bt_get m s")
    case (Some e)
    with Cons.prems m obtain f where f: "remove_value ps leaf e = Ok f" and d: "d = JObject (bt_insert s f m)"
      by (auto simp: object_of_def split: sum.splits)
    have "value_at_path f r = value_at_path e r" if "t = s" using Cons.IH [OF f] Cons.prems q that by auto
    with m d q Some show ?thesis by (auto simp: bt.get_put)
  qed (use Cons.prems m in \<open>auto simp: object_of_def\<close>)
qed

lemma remove_value_gets: "remove_value ps leaf c = Ok d \<Longrightarrow> value_at_path d (ps @ [leaf]) = None"
proof (induction ps arbitrary: c d)
  case (Cons s ps)
  then show ?case by (auto simp: object_of_Ok bt.get_put split: sum.splits option.splits)
qed (auto simp: bt.get_del split: sum.splits)

text \<open>What one operation on an object does to the value at its own path and at the paths beside it.\<close>

definition is_object :: "json \<Rightarrow> bool" where
  "is_object v \<longleftrightarrow> as_object v \<noteq> None"

lemma is_objectE: "is_object v \<Longrightarrow> (\<And>m. v = JObject m \<Longrightarrow> thesis) \<Longrightarrow> thesis"
  by (cases v) (auto simp: is_object_def as_object_def)

lemma object_operation:
  assumes "apply_json_operation c op = Ok d" and "is_object c" and "po_operation op \<noteq> PatchTest"
  shows "is_object d" and "value_at_path d (po_path op) = (if po_operation op = PatchRemove then None else po_value op)"
    and "\<And>q. \<not> prefix q (po_path op) \<Longrightarrow> \<not> prefix (po_path op) q \<Longrightarrow> value_at_path d q = value_at_path c q"
proof -
  from assms(2) obtain m where c: "c = JObject m" by (rule is_objectE)
  with assms(1) obtain leaf ps where p: "po_path op = ps @ [leaf]" and split: "split_path (po_path op) = Ok (leaf, ps)"
    by (auto simp: apply_json_operation_def and_then_Ok_iff split_path_Ok)
  have obj: "is_object d" if "put_value ps leaf v (JObject m) = Ok d \<or> remove_value ps leaf (JObject m) = Ok d" for v
    using that by (cases ps) (auto simp: is_object_def as_object_def object_of_def object_or_null_def split: sum.splits option.splits)
  have none: "put_value ps leaf None c \<noteq> Ok d" for ps c d
    by (induction ps arbitrary: c d) (auto split: sum.splits)
  have "is_object d \<and> value_at_path d (po_path op) = (if po_operation op = PatchRemove then None else po_value op)
    \<and> (\<forall>q. \<not> prefix q (po_path op) \<longrightarrow> \<not> prefix (po_path op) q \<longrightarrow> value_at_path d q = value_at_path c q)"
  proof (cases "po_operation op = PatchRemove")
    case True
    with assms(1) c split have r: "remove_value ps leaf (JObject m) = Ok d" by (simp add: apply_json_operation_def)
    then show ?thesis using True obj p c remove_value_gets [OF r] remove_value_frame [OF r] by simp
  next
    case False
    with assms(1,3) c split have r: "put_value ps leaf (po_value op) (JObject m) = Ok d"
      by (cases "po_operation op") (auto simp: apply_json_operation_def)
    with none obtain v where v: "po_value op = Some v" by (cases "po_value op") auto
    from put_value_gets [OF r [unfolded v]] put_value_frame [OF r] obj r False p c v show ?thesis by auto
  qed
  then show "is_object d" "value_at_path d (po_path op) = (if po_operation op = PatchRemove then None else po_value op)"
    "\<And>q. \<not> prefix q (po_path op) \<Longrightarrow> \<not> prefix (po_path op) q \<Longrightarrow> value_at_path d q = value_at_path c q"
    by blast+
qed

text \<open>Documents that agree on every path that is not a proper ancestor of an owned one.\<close>

definition above_owned :: "config_path list \<Rightarrow> config_path \<Rightarrow> bool" where
  "above_owned owned q \<longleftrightarrow> list_ex (\<lambda>p. strict_prefix q p) owned"

definition agree :: "config_path list \<Rightarrow> json \<Rightarrow> json \<Rightarrow> bool" where
  "agree owned c d \<longleftrightarrow> is_object c \<and> is_object d
     \<and> (\<forall>q. \<not> above_owned owned q \<longrightarrow> value_at_path d q = value_at_path c q)"

lemma agree_trans: "agree owned b c \<Longrightarrow> agree owned c d \<Longrightarrow> agree owned b d"
  by (simp add: agree_def)

lemma agree_refl: "is_object c \<Longrightarrow> agree owned c c"
  by (simp add: agree_def)

text \<open>Removing an empty ancestor, or making it null, changes no such path.\<close>

lemma collapse_agrees:
  assumes step: "apply_json_operation c op = Ok d" and "is_object c" and above: "above_owned owned (po_path op)"
    and empty: "value_at_path c (po_path op) = Some (JObject [])"
    and op: "po_operation op = PatchRemove \<or> po_operation op = PatchReplace \<and> po_value op = Some JNull"
  shows "agree owned c d"
proof -
  have kind: "po_operation op \<noteq> PatchTest" using op by auto
  note eff = object_operation [OF step assms(2) kind]
  have "value_at_path d q = value_at_path c q" if q: "\<not> above_owned owned q" for q
  proof (cases "prefix (po_path op) q")
    case True
    then obtain r where r: "q = po_path op @ r" by (auto simp: prefix_def)
    moreover have "r \<noteq> []" using above q r by auto
    then obtain s t where "r = s # t" by (cases r) auto
    ultimately show ?thesis
      using eff(2) empty op by (auto simp: value_at_append bt.get_empty)
  next
    case False
    have "\<not> prefix q (po_path op)"
      using above q unfolding above_owned_def list_ex_iff by (blast intro: prefix_order.le_less_trans)
    with False eff(3) show ?thesis by blast
  qed
  with eff(1) assms(2) show ?thesis by (simp add: agree_def)
qed

lemma ancestors_above: "p \<in> set owned \<Longrightarrow> a \<in> set (ancestors_of p) \<Longrightarrow> above_owned owned a"
  by (auto simp: ancestors_of_def above_owned_def list_ex_iff strict_prefix_def take_is_prefix
      intro!: bexI [of _ p] dest: arg_cong [where f = length])

lemma set_dedup_on: "set (dedup_on f xs) \<subseteq> set xs"
  by (induction f xs rule: dedup_on.induct) auto

lemma restorations_above:
  assumes "op \<in> set (materialized_ancestor_restorations baseline owned)"
  shows "above_owned owned (po_path op)
    \<and> (po_operation op = PatchRemove \<or> po_operation op = PatchReplace \<and> po_value op = Some JNull)"
proof -
  from assms have "op \<in> set (List.map_filter (restoration_of baseline) (concat (map ancestors_of owned)))"
    unfolding materialized_ancestor_restorations_def using set_dedup_on by fastforce
  then obtain p a where "p \<in> set owned" "a \<in> set (ancestors_of p)" "restoration_of baseline a = Some op"
    by (auto simp: map_filter_def)
  then show ?thesis
    using ancestors_above by (auto simp: restoration_of_def split: baseline_path_state.splits)
qed

lemma collapse_ancestors_agree:
  assumes "collapse_ancestors c ops = Ok d" and "is_object c"
    and "\<And>op. op \<in> set ops \<Longrightarrow> above_owned owned (po_path op)
      \<and> (po_operation op = PatchRemove \<or> po_operation op = PatchReplace \<and> po_value op = Some JNull)"
  shows "agree owned c d"
  using assms
proof (induction c ops rule: collapse_ancestors.induct)
  case (2 c op ops)
  from 2(2) obtain e where e: "(case value_at_path c (po_path op) of
         Some v \<Rightarrow> if is_empty_object v then apply_json_operation c op else Ok c | None \<Rightarrow> Ok c) = Ok e"
    and rest: "collapse_ancestors e ops = Ok d"
    by (auto split: sum.splits)
  have "agree owned c e"
    using e collapse_agrees [of c op e owned] 2(3,4) agree_refl [of c owned]
    by (auto simp: is_empty_object_def split: option.splits if_splits)
  moreover from this have "is_object e" by (simp add: agree_def)
  with 2(1) [OF e rest] 2(4) have "agree owned e d" by simp
  ultimately show ?case by (rule agree_trans)
qed (simp add: agree_refl)

lemma restore_null_agrees:
  assumes "restore_null_ancestor baseline nulls c a = Ok d" and "is_object c" and "above_owned owned a"
  shows "agree owned c d"
proof (cases "semantic_value_at c a")
  case None
  with assms agree_refl show ?thesis by (auto simp: restore_null_ancestor_def split: if_splits)
next
  case (Some v)
  obtain m where m: "c = JObject m" using assms(2) by (rule is_objectE)
  have at: "value_at_path c a = Some v" using Some m by (simp add: semantic_value_at_def)
  show ?thesis
  proof (cases "d = c")
    case False
    with assms(1) Some have v: "v = JObject []" by (auto simp: restore_null_ancestor_def is_empty_object_def split: if_splits)
    from assms(1) Some False obtain op where "apply_json_operation c op = Ok d" "po_path op = a"
      and "po_operation op = PatchRemove \<or> po_operation op = PatchReplace \<and> po_value op = Some JNull"
      by (auto simp: restore_null_ancestor_def is_null_def split: if_splits option.splits sum.splits)
    with collapse_agrees assms(2,3) at v show ?thesis by blast
  qed (use agree_refl assms(2) in blast)
qed

lemma try_fold_agree:
  assumes "try_fold f c xs = Ok d" and "is_object c"
    and "\<And>c d x. x \<in> set xs \<Longrightarrow> f c x = Ok d \<Longrightarrow> is_object c \<Longrightarrow> agree owned c d"
  shows "agree owned c d"
  using assms
proof (induction f c xs rule: try_fold.induct)
  case (2 f c x xs)
  then obtain e where e: "f c x = Ok e" and rest: "try_fold f e xs = Ok d" by (auto split: sum.splits)
  have ce: "agree owned c e" using 2(4) [OF _ e 2(3)] by simp
  have "agree owned e d"
    by (rule 2(1) [OF e rest]) (use ce 2(4) in \<open>auto simp: agree_def\<close>)
  with ce show ?case by (rule agree_trans)
qed (simp add: agree_refl)

text \<open>Owned paths, none above another: \<open>validate_owned_paths\<close>.\<close>

definition apart :: "config_path list \<Rightarrow> bool" where
  "apart ps \<longleftrightarrow> sorted_wrt (\<lambda>p q. \<not> prefix p q \<and> \<not> prefix q p) ps"

lemma project_each:
  assumes "try_fold (\<lambda>d p. apply_json_operation d (projection_operation baseline p)) c ps = Ok d"
    and "is_object c" and "is_object baseline" and "apart ps"
  shows "is_object d \<and> (\<forall>p \<in> set ps. value_at_path d p = value_at_path baseline p)
    \<and> (\<forall>q. (\<forall>p \<in> set ps. \<not> prefix p q \<and> \<not> prefix q p) \<longrightarrow> value_at_path d q = value_at_path c q)"
  using assms
proof (induction ps arbitrary: c)
  case (Cons p ps)
  then obtain e where e: "apply_json_operation c (projection_operation baseline p) = Ok e"
    and rest: "try_fold (\<lambda>d p. apply_json_operation d (projection_operation baseline p)) e ps = Ok d"
    by (auto split: sum.splits)
  have test: "po_operation (projection_operation baseline p) \<noteq> PatchTest"
    and path: "po_path (projection_operation baseline p) = p"
    and v: "(if po_operation (projection_operation baseline p) = PatchRemove then None
      else po_value (projection_operation baseline p)) = value_at_path baseline p"
    using Cons.prems(3) by (auto simp: projection_operation_def Let_def semantic_value_at_def elim: is_objectE)
  note eff = object_operation [OF e Cons.prems(2) test, unfolded path v]
  have "apart ps" and off: "\<forall>p' \<in> set ps. \<not> prefix p p' \<and> \<not> prefix p' p" using Cons.prems(4) by (auto simp: apart_def)
  from Cons.IH [OF rest eff(1) Cons.prems(3) this(1)] have ih: "is_object d" "\<forall>p \<in> set ps. value_at_path d p = value_at_path baseline p"
    "\<And>q. (\<forall>p \<in> set ps. \<not> prefix p q \<and> \<not> prefix q p) \<Longrightarrow> value_at_path d q = value_at_path e q" by auto
  have "value_at_path d p = value_at_path baseline p" using ih(3) [of p] off eff(2) by auto
  moreover have "value_at_path d q = value_at_path c q" if "\<forall>p' \<in> set (p # ps). \<not> prefix p' q \<and> \<not> prefix q p'" for q
    using ih(3) [of q] eff(3) [of q] that by auto
  ultimately show ?case using ih(1,2) by simp
qed simp

text \<open>
  C20. Disconnecting gives back what was owned and nothing else, for documents whose root is an object
  and owned paths of which none lies in another, as \<open>validate_owned_paths\<close> requires (the one connector
  whose documents are arrays, WorkBuddy, has a projection of its own): projecting the owned paths of the
  baseline into the current document, when it succeeds, leaves at every owned path exactly the value
  of the baseline, or nothing where the baseline had nothing, and at every path that neither contains
  an owned one nor lies in one exactly the value the user has now, whichever parents were made,
  collapsed or made null on the way.
\<close>

theorem projection_restores_owned:
  assumes "project_owned_paths current baseline owned = Ok d"
    and "is_object current" and "is_object baseline" and "apart owned"
  shows "(\<forall>p \<in> set owned. value_at_path d p = value_at_path baseline p)
    \<and> (\<forall>q. (\<forall>p \<in> set owned. \<not> prefix p q \<and> \<not> prefix q p) \<longrightarrow> value_at_path d q = value_at_path current q)"
proof -
  from assms(1) obtain c e
    where c: "try_fold (\<lambda>d p. apply_json_operation d (projection_operation baseline p)) current owned = Ok c"
      and e: "collapse_empty_materialized_ancestors c baseline owned = Ok e"
      and d: "restore_null_owned_ancestors e baseline owned = Ok d"
    by (auto simp: project_owned_paths_def and_then_Ok_iff)
  note each = project_each [OF c assms(2-4)]
  have ce: "agree owned c e"
    using e each unfolding collapse_empty_materialized_ancestors_def
    by (rule_tac collapse_ancestors_agree) (auto dest: restorations_above)
  then have "is_object e" by (simp add: agree_def)
  moreover have "above_owned owned a"
    if "a \<in> set (dedup_on id (sort_key deepest_first (concat (map ancestors_of owned))))" for a
  proof -
    from that have "a \<in> set (concat (map ancestors_of owned))" using set_dedup_on by fastforce
    then show ?thesis using ancestors_above by auto
  qed
  ultimately have ed: "agree owned e d"
    using d restore_null_agrees unfolding restore_null_owned_ancestors_def Let_def
    by (rule_tac try_fold_agree) blast+
  have same: "value_at_path d q = value_at_path c q" if "\<not> above_owned owned q" for q
    using agree_trans [OF ce ed] that by (simp add: agree_def)
  have "\<not> above_owned owned p" if "p \<in> set owned" for p
    using assms(4) that
    by (induction owned) (auto simp: above_owned_def apart_def strict_prefix_def list_ex_iff)
  moreover have "\<not> above_owned owned q" if "\<forall>p \<in> set owned. \<not> prefix p q \<and> \<not> prefix q p" for q
    using that by (auto simp: above_owned_def list_ex_iff strict_prefix_def)
  ultimately show ?thesis using same each by simp
qed

definition example_current :: json where
  "example_current = JObject [(''env'', JObject [(''KEY'', JString ''k''), (''URL'', JString ''u'')]),
     (''model'', JString ''auto''), (''other'', JNull)]"

definition example_baseline :: json where
  "example_baseline = JObject [(''model'', JString ''a'')]"

definition example_owned :: "config_path list" where
  "example_owned = [[''env'', ''KEY''], [''env'', ''URL''], [''model'']]"

lemma projection_restores_owned_witness:
  "project_owned_paths example_current example_baseline example_owned
     = Ok (JObject [(''model'', JString ''a''), (''other'', JNull)])
   \<and> value_at_path (JObject [(''model'', JString ''a''), (''other'', JNull)]) [''model''] = Some (JString ''a'')"
proof -
  have run: "project_owned_paths example_current example_baseline example_owned
      = Ok (JObject [(''model'', JString ''a''), (''other'', JNull)])" by code_simp
  moreover have "is_object example_current \<and> is_object example_baseline \<and> apart example_owned" by code_simp
  moreover have "[''model''] \<in> set example_owned" by (simp add: example_owned_def)
  moreover have "value_at_path example_baseline [''model''] = Some (JString ''a'')" by code_simp
  ultimately show ?thesis using projection_restores_owned [OF run] by metis
qed

end
