(* ===== verification/Config_File.thy ===== *)
theory Config_File
  imports Private_Fs
begin

text \<open>
  The configuration files of agents and their atomic replacement:
  \<open>apps/desktop/src-tauri/src/agent_integration/plan.rs\<close> (what is read of a file, and the hash of
  what was read) and \<open>transaction.rs\<close> (the file-system writer). A path is the list of its components,
  \<open>path_text\<close> its text; SHA-256 is a parameter.
\<close>

section \<open>Bytes\<close>

definition str_bytes :: "string \<Rightarrow> u8 list" where
  "str_bytes s = map (\<lambda>c. of_nat (of_char c)) s"

text \<open>The last \<open>k\<close> bytes of a number, the highest first: \<open>to_be_bytes\<close>.\<close>

fun be_bytes :: "nat \<Rightarrow> nat \<Rightarrow> u8 list" where
  "be_bytes 0 n = []"
| "be_bytes (Suc k) n = be_bytes k (n div 256) @ [of_nat (n mod 256)]"

lemma length_be_bytes [simp]: "length (be_bytes k n) = k"
  by (induction k arbitrary: n) auto

lemma be_bytes_inject: "be_bytes k m = be_bytes k n \<Longrightarrow> m < 256 ^ k \<Longrightarrow> n < 256 ^ k \<Longrightarrow> m = n"
proof (induction k arbitrary: m n)
  case (Suc k)
  have "m div 256 = n div 256"
    by (rule Suc.IH) (use Suc.prems in \<open>auto simp: less_mult_imp_div_less mult.commute\<close>)
  moreover have "m mod 256 = n mod 256"
  proof -
    have "(of_nat (m mod 256) :: u8) = of_nat (n mod 256)" using Suc.prems(1) by simp
    then have "unat (of_nat (m mod 256) :: u8) = unat (of_nat (n mod 256) :: u8)" by simp
    then show ?thesis by (simp add: unat_of_nat)
  qed
  ultimately show ?case by (metis div_mult_mod_eq)
qed simp

lemma str_bytes_inject: "str_bytes s = str_bytes t \<longleftrightarrow> s = t"
proof -
  have "inj (\<lambda>c :: char. (of_nat (of_char c) :: u8))"
  proof (rule injI)
    fix c d :: char
    assume "(of_nat (of_char c) :: u8) = of_nat (of_char d)"
    then have "unat (of_nat (of_char c) :: u8) = unat (of_nat (of_char d) :: u8)" by simp
    moreover have "(of_char x :: nat) < 256" for x :: char by (cases x) (auto simp: horner_sum_simps split: if_splits)
    ultimately have "(of_char c :: nat) = of_char d" by (simp add: unat_of_nat)
    then show "c = d" by simp
  qed
  then show ?thesis unfolding str_bytes_def by (simp add: inj_map_eq_map)
qed

text \<open>A field with its length before it, so that two fields one after the other cannot be confused.\<close>

definition encode_field :: "u8 list \<Rightarrow> u8 list" where
  "encode_field bs = be_bytes 8 (length bs) @ bs"

lemma encode_field_inject:
  assumes "encode_field a @ x = encode_field b @ y" and "length a < 2 ^ 64" and "length b < 2 ^ 64"
  shows "a = b \<and> x = y"
proof -
  have "be_bytes 8 (length a) = be_bytes 8 (length b) \<and> a @ x = b @ y"
    using assms(1) by (simp add: encode_field_def)
  moreover from this have "length a = length b"
    by (intro be_bytes_inject [of 8]) (use assms in auto)
  ultimately show ?thesis by simp
qed

lemma hex_digit_inject: "m < 16 \<Longrightarrow> n < 16 \<Longrightarrow> hex_digit m = hex_digit n \<longleftrightarrow> m = n"
  unfolding hex_digit_def by (auto simp: char_of_eq_iff take_bit_eq_mod dest!: arg_cong [where f = "of_char :: char \<Rightarrow> nat"])

lemma hex_text_inject: "hex_text a = hex_text b \<longleftrightarrow> a = b"
proof (induction a arbitrary: b)
  case Nil
  then show ?case by (cases b) (simp_all add: hex_text_def)
next
  case (Cons x a)
  have pair: "x = y" if "unat x div 16 = unat y div 16" "unat x mod 16 = unat y mod 16" for x y :: u8
    using that by (metis div_mult_mod_eq word_unat_eq_iff)
  have high: "unat y div 16 < 16" for y :: u8 using unat_lt [of y] by simp
  show ?case
  proof (cases b)
    case (Cons y b')
    have "hex_text (x # a) = hex_text (y # b') \<longleftrightarrow> hex_digit (unat x div 16) = hex_digit (unat y div 16)
        \<and> hex_digit (unat x mod 16) = hex_digit (unat y mod 16) \<and> hex_text a = hex_text b'"
      by (simp add: hex_text_def)
    also have "\<dots> \<longleftrightarrow> x = y \<and> a = b'"
      using pair [of x y] high [of x] high [of y] by (auto simp: hex_digit_inject Cons.IH)
    finally show ?thesis using Cons by simp
  qed (simp add: hex_text_def)
qed

section \<open>What is read of a file\<close>

record config_source =
  cs_existed :: bool
  cs_bytes :: "u8 list"
  cs_permissions :: "u32 option"
  cs_owner :: "string option"

definition source_missing :: config_source where
  "source_missing = \<lparr>cs_existed = False, cs_bytes = [], cs_permissions = None, cs_owner = None\<rparr>"

definition source_existing :: "u8 list \<Rightarrow> u32 option \<Rightarrow> string option \<Rightarrow> config_source" where
  "source_existing bytes permissions owner =
     \<lparr>cs_existed = True, cs_bytes = bytes, cs_permissions = permissions, cs_owner = owner\<rparr>"

datatype source_error = SourceIsLink | SourceIsNoFile | SourceTooLarge | SourceUnreadable | SourceNoMetadata

definition MAX_CONFIG_BYTES :: nat where
  "MAX_CONFIG_BYTES = 8 * 1024 * 1024"

text \<open>\<open>format!("{}:{}", uid, gid)\<close>.\<close>

definition owner_text :: "uid_gid \<Rightarrow> string" where
  "owner_text owner = decimal (unat (fst owner)) @ '':'' @ decimal (unat (snd owner))"

fun source_of_file :: "u8 list \<Rightarrow> u32 \<Rightarrow> uid_gid \<Rightarrow> config_source" where
  "source_of_file bytes mode owner =
     source_existing bytes (Some (Bit_Operations.and mode 4095)) (Some (owner_text owner))"

definition read_config_source :: "os \<Rightarrow> path \<Rightarrow> (source_error, config_source) io" where
  "read_config_source os p = io_match (symlink_metadata os p)
     (\<lambda>e. if e = NotFound then io_return source_missing else io_fail SourceNoMetadata)
     (\<lambda>n. case n of
        Link \<Rightarrow> io_fail SourceIsLink
      | File bytes mode owner \<Rightarrow>
          if MAX_CONFIG_BYTES < length bytes then io_fail SourceTooLarge
          else io_then (io_map_err (\<lambda>_. SourceUnreadable) (read_file os p))
            (\<lambda>bytes. io_return (source_of_file bytes mode owner))
      | _ \<Rightarrow> io_fail SourceIsNoFile)"

definition path_text :: "path \<Rightarrow> string" where
  "path_text p = concat (map (\<lambda>c. ''/'' @ c) p)"

type_synonym sha256 = "u8 list \<Rightarrow> u8 list"

text \<open>The hash is of the text of the path; snapshots keep only that.\<close>

definition text_revision_bytes :: "string \<Rightarrow> config_source \<Rightarrow> u8 list" where
  "text_revision_bytes target s = str_bytes ''token-station-config-revision-v1'' @ [0]
     @ encode_field (str_bytes target)
     @ [if cs_existed s then 1 else 0]
     @ be_bytes 4 (unat (case cs_permissions s of None \<Rightarrow> u_max | Some m \<Rightarrow> m))
     @ encode_field (str_bytes (case cs_owner s of None \<Rightarrow> [] | Some owner \<Rightarrow> owner))
     @ encode_field (cs_bytes s)"

definition revision_bytes :: "path \<Rightarrow> config_source \<Rightarrow> u8 list" where
  "revision_bytes p s = text_revision_bytes (path_text p) s"

definition text_revision_hash :: "sha256 \<Rightarrow> string \<Rightarrow> config_source \<Rightarrow> string" where
  "text_revision_hash sha target s = hex_text (sha (text_revision_bytes target s))"

definition file_revision_hash :: "sha256 \<Rightarrow> path \<Rightarrow> config_source \<Rightarrow> string" where
  "file_revision_hash sha p s = hex_text (sha (revision_bytes p s))"

section \<open>The writer\<close>

datatype atomic_write_stage = ParentCreate | TempCreate | TempWrite | TempFlush | TempFsync | Permission
  | PreReplaceRevision | Replace | DirectoryFsync | Remove

record atomic_write_failure =
  af_stage :: atomic_write_stage
  af_target_replaced :: bool

definition before_replace :: "atomic_write_stage \<Rightarrow> 'e \<Rightarrow> atomic_write_failure" where
  "before_replace stage = (\<lambda>_. \<lparr>af_stage = stage, af_target_replaced = False\<rparr>)"

definition after_replace :: "atomic_write_stage \<Rightarrow> 'e \<Rightarrow> atomic_write_failure" where
  "after_replace stage = (\<lambda>_. \<lparr>af_stage = stage, af_target_replaced = True\<rparr>)"

text \<open>\<open>str::parse::<u32>\<close>: an optional sign, then digits in range.\<close>

definition decimal_value :: "string \<Rightarrow> nat" where
  "decimal_value ds = foldl (\<lambda>n c. n * 10 + (of_char c - 48)) 0 ds"

definition parse_u32 :: "string \<Rightarrow> u32 option" where
  "parse_u32 s = (let ds = (case s of CHR ''+'' # rest \<Rightarrow> rest | _ \<Rightarrow> s) in
     if ds \<noteq> [] \<and> list_all (\<lambda>c. is_ascii_digit (of_char c)) ds \<and> decimal_value ds < 2 ^ 32
     then Some (of_nat (decimal_value ds)) else None)"

text \<open>\<open>split_once(':')\<close>.\<close>

definition split_once :: "char \<Rightarrow> string \<Rightarrow> (string \<times> string) option" where
  "split_once c s = (case dropWhile (\<lambda>d. d \<noteq> c) s of
      [] \<Rightarrow> None | _ # rest \<Rightarrow> Some (takeWhile (\<lambda>d. d \<noteq> c) s, rest))"

definition parse_owner :: "string \<Rightarrow> uid_gid option" where
  "parse_owner s = Option.bind (split_once CHR '':'' s) (\<lambda>(uid, gid).
     Option.bind (parse_u32 uid) (\<lambda>uid. Option.bind (parse_u32 gid) (\<lambda>gid. Some (uid, gid))))"

definition apply_metadata :: "os \<Rightarrow> path \<Rightarrow> u32 option \<Rightarrow> string option \<Rightarrow> (io_error, unit) io" where
  "apply_metadata os p permissions owner = io_then
     (case owner of None \<Rightarrow> io_return ()
      | Some owner \<Rightarrow> (case parse_owner owner of None \<Rightarrow> io_fail InvalidInput | Some owner \<Rightarrow> fchown os p owner))
     (\<lambda>_. set_permissions os p (case permissions of None \<Rightarrow> 384 | Some m \<Rightarrow> m))"

definition temporary_name :: "path \<Rightarrow> string \<Rightarrow> path" where
  "temporary_name p random = with_file_name p (''.'' @ last p @ ''.'' @ random @ ''.token-station.tmp'')"

definition temporary_path :: "os \<Rightarrow> path \<Rightarrow> (io_error, path) io" where
  "temporary_path os p =
     (if p = [] then io_fail InvalidInput else allocate_temporary os (temporary_name p) 16)"

definition verify_revision :: "sha256 \<Rightarrow> os \<Rightarrow> path \<Rightarrow> string \<Rightarrow> bool \<Rightarrow> (source_error, unit) io" where
  "verify_revision sha os p expected normalize_new_owner = io_then (read_config_source os p) (\<lambda>source.
     let source = (if normalize_new_owner then source\<lparr>cs_owner := None\<rparr> else source) in
     io_lift (ensure (file_revision_hash sha p source = expected) SourceUnreadable))"

definition config_replace ::
  "sha256 \<Rightarrow> os \<Rightarrow> path \<Rightarrow> u8 list \<Rightarrow> u32 option \<Rightarrow> string option \<Rightarrow> string \<Rightarrow> bool \<Rightarrow> (atomic_write_failure, unit) io"
where
  "config_replace sha os p bytes permissions owner expected normalize_new_owner = (case path_parent p of
      None \<Rightarrow> io_fail (before_replace ParentCreate ())
    | Some parent \<Rightarrow>
        io_then (io_map_err (before_replace ParentCreate) (create_dir_all os parent)) (\<lambda>_.
        io_then (io_map_err (before_replace TempCreate) (temporary_path os p)) (\<lambda>temporary.
          clean_up os temporary
            (io_then (io_map_err (before_replace TempCreate) (open_new os temporary 384)) (\<lambda>_.
             io_then (io_map_err (before_replace TempWrite) (write_all os temporary bytes)) (\<lambda>_.
             io_then (io_map_err (before_replace TempFlush) (sync os)) (\<lambda>_.
             io_then (io_map_err (before_replace TempFsync) (sync os)) (\<lambda>_.
             io_then (io_map_err (before_replace Permission) (apply_metadata os temporary permissions owner)) (\<lambda>_.
             io_then (io_map_err (before_replace TempFsync) (sync os)) (\<lambda>_.
             io_then (io_map_err (before_replace PreReplaceRevision)
                (verify_revision sha os p expected normalize_new_owner)) (\<lambda>_.
             io_then (io_map_err (before_replace Replace) (rename os temporary p)) (\<lambda>_.
             io_map_err (after_replace DirectoryFsync) (sync_parent os parent)))))))))))))"

definition config_remove :: "sha256 \<Rightarrow> os \<Rightarrow> path \<Rightarrow> string \<Rightarrow> bool \<Rightarrow> (atomic_write_failure, unit) io" where
  "config_remove sha os p expected normalize_new_owner =
     io_then (io_map_err (before_replace PreReplaceRevision)
        (verify_revision sha os p expected normalize_new_owner)) (\<lambda>_.
     io_then (io_map_err (before_replace Remove) (remove_file os p)) (\<lambda>_.
       case path_parent p of
         None \<Rightarrow> io_fail (after_replace DirectoryFsync ())
       | Some parent \<Rightarrow> io_map_err (after_replace DirectoryFsync) (sync_parent os parent)))"

section \<open>Revisions\<close>

text \<open>The texts of two paths differ when the paths do.\<close>

definition path_ok :: "path \<Rightarrow> bool" where
  "path_ok p \<longleftrightarrow> list_all (\<lambda>c. CHR ''/'' \<notin> set c) p"

lemma path_text_inject: "path_ok p \<Longrightarrow> path_ok q \<Longrightarrow> path_text p = path_text q \<longleftrightarrow> p = q"
proof (induction p arbitrary: q)
  case Nil
  then show ?case by (cases q) (auto simp: path_text_def)
next
  case (Cons c p)
  show ?case
  proof (cases q)
    case (Cons d q')
    have split: "c @ path_text p = d @ path_text q' \<longleftrightarrow> c = d \<and> path_text p = path_text q'"
    proof
      assume eq: "c @ path_text p = d @ path_text q'"
      have stop: "takeWhile (\<lambda>x. x \<noteq> CHR ''/'') (c @ path_text p) = c" if "CHR ''/'' \<notin> set c" for c p
      proof -
        have "takeWhile (\<lambda>x. x \<noteq> CHR ''/'') (path_text p) = []" by (cases p) (auto simp: path_text_def)
        with that show ?thesis by (subst takeWhile_append2) auto
      qed
      have "c = d" using arg_cong [OF eq, of "takeWhile (\<lambda>x. x \<noteq> CHR ''/'')"] Cons Cons.prems
        by (auto simp: stop path_ok_def)
      with eq show "c = d \<and> path_text p = path_text q'" by simp
    qed auto
    have "path_text (c # p) = path_text (d # q') \<longleftrightarrow> c @ path_text p = d @ path_text q'"
      by (simp add: path_text_def)
    with split Cons Cons.IH [of q'] Cons.prems show ?thesis by (auto simp: path_ok_def)
  qed (simp add: path_text_def)
qed

text \<open>What a revision is of: a path and a source that could be read.\<close>

definition source_ok :: "config_source \<Rightarrow> bool" where
  "source_ok s \<longleftrightarrow> cs_permissions s \<noteq> Some u_max \<and> cs_owner s \<noteq> Some []
     \<and> (case cs_owner s of None \<Rightarrow> True | Some owner \<Rightarrow> length owner < 2 ^ 64) \<and> length (cs_bytes s) < 2 ^ 64"

lemma revision_bytes_inject:
  assumes p: "path_ok p" "path_ok q" "length (path_text p) < 2 ^ 64" "length (path_text q) < 2 ^ 64"
    and s: "source_ok s" "source_ok r" and eq: "revision_bytes p s = revision_bytes q r"
  shows "p = q \<and> s = r"
proof -
  let ?perm = "\<lambda>s. unat (case cs_permissions s of None \<Rightarrow> u_max :: u32 | Some m \<Rightarrow> m)"
  let ?owner = "\<lambda>s. str_bytes (case cs_owner s of None \<Rightarrow> [] | Some owner \<Rightarrow> owner)"
  have len: "length (str_bytes t) = length t" for t by (simp add: str_bytes_def)
  have owner_len: "length (?owner s) < 2 ^ 64" if "source_ok s" for s
    using that by (auto simp: source_ok_def len split: option.splits)
  have one: "str_bytes (path_text p) = str_bytes (path_text q)
      \<and> [if cs_existed s then 1 else 0] @ be_bytes 4 (?perm s) @ encode_field (?owner s) @ encode_field (cs_bytes s)
      = [if cs_existed r then 1 else 0 :: u8] @ be_bytes 4 (?perm r) @ encode_field (?owner r) @ encode_field (cs_bytes r)"
    by (rule encode_field_inject) (use eq p len in \<open>auto simp: revision_bytes_def text_revision_bytes_def\<close>)
  then have path: "p = q" and existed: "cs_existed s = cs_existed r" and perm: "be_bytes 4 (?perm s) = be_bytes 4 (?perm r)"
    and rest: "encode_field (?owner s) @ encode_field (cs_bytes s) = encode_field (?owner r) @ encode_field (cs_bytes r)"
    using p by (auto simp: str_bytes_inject path_text_inject append_eq_append_conv split: if_splits)
  have two: "?owner s = ?owner r \<and> encode_field (cs_bytes s) = encode_field (cs_bytes r)"
    by (rule encode_field_inject [OF rest]) (use owner_len s in auto)
  then have bytes: "cs_bytes s = cs_bytes r"
    using encode_field_inject [of "cs_bytes s" "[]" "cs_bytes r" "[]"] s by (auto simp: source_ok_def)
  have "?perm s = ?perm r"
    by (rule be_bytes_inject [OF perm]) (use unat_lt [where 'a = 32] in simp_all)
  then have "cs_permissions s = cs_permissions r"
    using s by (auto simp: source_ok_def word_unat_eq_iff split: option.splits)
  moreover have "cs_owner s = cs_owner r"
    using two s by (auto simp: source_ok_def str_bytes_inject split: option.splits)
  ultimately show ?thesis using path existed bytes by simp
qed

section \<open>Contracts of the writer\<close>

text \<open>What a reader of a tree finds, and its revision.\<close>

definition source_at :: "tree \<Rightarrow> path \<Rightarrow> config_source option" where
  "source_at t p = (case t p of
      None \<Rightarrow> Some source_missing
    | Some (File bytes mode owner) \<Rightarrow>
        if MAX_CONFIG_BYTES < length bytes then None else Some (source_of_file bytes mode owner)
    | Some _ \<Rightarrow> None)"

definition revision_of :: "sha256 \<Rightarrow> bool \<Rightarrow> path \<Rightarrow> config_source \<Rightarrow> string" where
  "revision_of sha anonymous p s = file_revision_hash sha p (if anonymous then s\<lparr>cs_owner := None\<rparr> else s)"

definition revision_at :: "sha256 \<Rightarrow> bool \<Rightarrow> tree \<Rightarrow> path \<Rightarrow> string option" where
  "revision_at sha anonymous t p = map_option (revision_of sha anonymous p) (source_at t p)"

lemma revision_at_cong: "t p = t' p \<Longrightarrow> revision_at sha anonymous t p = revision_at sha anonymous t' p"
  by (simp add: revision_at_def source_at_def)

lemma contract_read_config_source:
  assumes os: "os_ok os" and I: "\<And>t. P t \<Longrightarrow> I t" and R: "\<And>t e. P t \<Longrightarrow> R e t"
    and Q: "\<And>t s. P t \<Longrightarrow> source_at t p = Some s \<Longrightarrow> Q s t"
  shows "contract I P (read_config_source os p) Q R"
  unfolding read_config_source_def
proof (rule contract_match [where M = "\<lambda>n t. P t \<and> t p = Some n"
      and N = "\<lambda>e t. P t \<and> (e = NotFound \<longrightarrow> t p = None)"])
  show "contract I P (symlink_metadata os p) (\<lambda>n t. P t \<and> t p = Some n)
      (\<lambda>e t. P t \<and> (e = NotFound \<longrightarrow> t p = None))"
    by (rule contract_metadata_found [OF os]) (use I in auto)
  show "contract I (\<lambda>t. P t \<and> (e = NotFound \<longrightarrow> t p = None))
      (if e = NotFound then io_return source_missing else io_fail SourceNoMetadata) Q R" for e
    using Q R by (auto intro!: contract_return contract_fail simp: source_at_def)
  fix n
  have "contract I (\<lambda>t. P t \<and> t p = Some (File b m owner))
      (if MAX_CONFIG_BYTES < length b then io_fail SourceTooLarge
       else io_then (io_map_err (\<lambda>_. SourceUnreadable) (read_file os p))
         (\<lambda>bytes. io_return (source_of_file bytes m owner))) Q R" for b m owner
  proof (cases "MAX_CONFIG_BYTES < length b")
    case False
    have "contract I (\<lambda>t. P t \<and> t p = Some (File b m owner)) (io_map_err (\<lambda>_. SourceUnreadable) (read_file os p))
        (\<lambda>bytes t. P t \<and> t p = Some (File bytes m owner) \<and> length bytes = length b) R"
      unfolding read_file_def
      by (rule contract_map_err, rule contract_query) (use I R in auto)
    with False Q show ?thesis
      by (auto intro!: contract_then contract_return simp: source_at_def)
  qed (use R in \<open>auto intro: contract_fail\<close>)
  then show "contract I (\<lambda>t. P t \<and> t p = Some n) (case n of
        Link \<Rightarrow> io_fail SourceIsLink
      | File bytes mode owner \<Rightarrow>
          if MAX_CONFIG_BYTES < length bytes then io_fail SourceTooLarge
          else io_then (io_map_err (\<lambda>_. SourceUnreadable) (read_file os p))
            (\<lambda>bytes. io_return (source_of_file bytes mode owner))
      | _ \<Rightarrow> io_fail SourceIsNoFile) Q R"
    using R by (cases n) (auto intro: contract_fail)
qed

lemma contract_verify_revision:
  assumes "os_ok os" and "\<And>t. P t \<Longrightarrow> I t" and "\<And>t e. P t \<Longrightarrow> R e t"
    and "\<And>t. P t \<Longrightarrow> revision_at sha anonymous t p = Some expected \<Longrightarrow> Q () t"
  shows "contract I P (verify_revision sha os p expected anonymous) Q R"
  unfolding verify_revision_def
proof (rule contract_then [where M = "\<lambda>s t. P t \<and> source_at t p = Some s"])
  show "contract I P (read_config_source os p) (\<lambda>s t. P t \<and> source_at t p = Some s) R"
    by (rule contract_read_config_source [OF assms(1)]) (use assms in auto)
  show "contract I (\<lambda>t. P t \<and> source_at t p = Some s)
      (let source = (if anonymous then s\<lparr>cs_owner := None\<rparr> else s)
       in io_lift (ensure (file_revision_hash sha p source = expected) SourceUnreadable)) Q R" for s
    using assms(3,4) unfolding Let_def
    by (intro contract_lift) (auto simp: ensure_def revision_at_def revision_of_def split: if_splits)
qed

text \<open>
  The file that a replacement installs, and what it may leave beside it: directories above the file
  and a temporary file next to it, where nothing was.
\<close>

definition new_file :: "os \<Rightarrow> u8 list \<Rightarrow> u32 option \<Rightarrow> string option \<Rightarrow> node" where
  "new_file os bytes permissions owner = File bytes (case permissions of None \<Rightarrow> 384 | Some m \<Rightarrow> m)
     (case Option.bind owner parse_owner of None \<Rightarrow> os_user os | Some owner \<Rightarrow> owner)"

definition beside :: "path \<Rightarrow> path \<Rightarrow> bool" where
  "beside p q \<longleftrightarrow> prefix q (butlast p) \<or> q \<in> range (temporary_name p)"

definition kept :: "path \<Rightarrow> tree \<Rightarrow> tree \<Rightarrow> bool" where
  "kept p t0 t \<longleftrightarrow> (\<forall>q. t q = t0 q \<or> t0 q = None \<and> beside p q)"

definition written :: "path \<Rightarrow> node option \<Rightarrow> tree \<Rightarrow> tree \<Rightarrow> bool" where
  "written p n t0 t \<longleftrightarrow> t p = n \<and> kept p t0 (t(p := t0 p))"

lemma kept_refl [simp]: "kept p t t"
  by (simp add: kept_def)

lemma not_beside_itself: "p \<noteq> [] \<Longrightarrow> \<not> beside p p"
proof -
  have "length (last (temporary_name p s)) > length (last p)" for s
    by (simp add: temporary_name_def with_file_name_def)
  then have "p \<notin> range (temporary_name p)" by (metis imageE less_irrefl)
  then show "p \<noteq> [] \<Longrightarrow> \<not> beside p p" by (simp add: beside_def butlast_not_prefix)
qed

lemma kept_target: "p \<noteq> [] \<Longrightarrow> kept p t0 t \<Longrightarrow> t p = t0 p"
  using not_beside_itself by (auto simp: kept_def)

lemma kept_free: "kept p t0 t \<Longrightarrow> t q = None \<Longrightarrow> t0 q = None"
  unfolding kept_def by metis

lemma kept_put: "kept p t0 t \<Longrightarrow> t0 q = None \<Longrightarrow> beside p q \<Longrightarrow> kept p t0 (t(q := n))"
  by (simp add: kept_def)

lemma kept_drop: "kept p t0 t \<Longrightarrow> t0 q = None \<Longrightarrow> kept p t0 (t(q := None))"
  by (simp add: kept_def)

lemma contract_temporary_path:
  assumes "p \<noteq> []" and "\<And>t. P t \<Longrightarrow> I t" and "\<And>t e. P t \<Longrightarrow> R e t"
  shows "contract I P (temporary_path os p) (\<lambda>q t. P t \<and> t q = None \<and> beside p q) R"
  unfolding temporary_path_def using assms(1)
  by (auto intro!: contract_weaken [OF contract_allocate [where P = P and I = I and R = R]] assms(2,3)
      simp: beside_def)

lemma contract_make_parents:
  assumes "p \<noteq> []"
  shows "contract (kept p t0) (\<lambda>t. t = t0) (create_dir_all os (butlast p)) (\<lambda>_. kept p t0) (\<lambda>_. kept p t0)"
proof -
  have step: "contract (kept p t0) (kept p t0) (make_dir os q) (\<lambda>_. kept p t0) (\<lambda>_. kept p t0)"
    if "prefix q (butlast p)" for q
    unfolding make_dir_def
    by (rule contract_syscall)
      (use that in \<open>auto intro: kept_put kept_free simp: beside_def split: if_splits\<close>)
  show ?thesis
    unfolding create_dir_all_def
    by (rule contract_weaken [OF contract_each [where P = "kept p t0" and I = "kept p t0" and R = "\<lambda>_. kept p t0"]])
      (auto intro: step)
qed

text \<open>The part of a replacement that has its temporary file.\<close>

definition fill_and_replace ::
  "sha256 \<Rightarrow> os \<Rightarrow> path \<Rightarrow> path \<Rightarrow> u8 list \<Rightarrow> u32 option \<Rightarrow> string option \<Rightarrow> string \<Rightarrow> bool
    \<Rightarrow> (atomic_write_failure, unit) io"
where
  "fill_and_replace sha os p temporary bytes permissions owner expected anonymous =
     io_then (io_map_err (before_replace TempCreate) (open_new os temporary 384)) (\<lambda>_.
     io_then (io_map_err (before_replace TempWrite) (write_all os temporary bytes)) (\<lambda>_.
     io_then (io_map_err (before_replace TempFlush) (sync os)) (\<lambda>_.
     io_then (io_map_err (before_replace TempFsync) (sync os)) (\<lambda>_.
     io_then (io_map_err (before_replace Permission) (apply_metadata os temporary permissions owner)) (\<lambda>_.
     io_then (io_map_err (before_replace TempFsync) (sync os)) (\<lambda>_.
     io_then (io_map_err (before_replace PreReplaceRevision) (verify_revision sha os p expected anonymous)) (\<lambda>_.
     io_then (io_map_err (before_replace Replace) (rename os temporary p)) (\<lambda>_.
     io_map_err (after_replace DirectoryFsync) (sync_parent os (butlast p))))))))))"

definition replace_failed ::
  "path \<Rightarrow> node option \<Rightarrow> bool \<Rightarrow> tree \<Rightarrow> atomic_write_failure \<Rightarrow> tree \<Rightarrow> bool"
where
  "replace_failed p n expected t0 f t \<longleftrightarrow>
     (if af_target_replaced f then written p n t0 t \<and> expected else kept p t0 t)"

lemma contract_before:
  "contract I P m Q (\<lambda>_. kept p t0) \<Longrightarrow>
    contract I P (io_map_err (before_replace stage) m) Q (replace_failed p n expected t0)"
  by (rule contract_map_err, erule contract_weaken) (simp_all add: replace_failed_def before_replace_def)

lemma contract_apply_metadata:
  fixes P :: "node \<Rightarrow> tree \<Rightarrow> bool"
  assumes put: "\<And>t n n'. P n t \<Longrightarrow> P n' (t(q \<mapsto> n'))" and get: "\<And>t n. P n t \<Longrightarrow> t q = Some n"
    and I: "\<And>t n. P n t \<Longrightarrow> I t" and R: "\<And>t n e. P n t \<Longrightarrow> R e t"
  shows "contract I (P (File bytes m (os_user os))) (apply_metadata os q permissions owner)
    (\<lambda>_. P (new_file os bytes permissions owner)) R"
proof -
  let ?user = "case Option.bind owner parse_owner of None \<Rightarrow> os_user os | Some owner \<Rightarrow> owner"
  have chown: "contract I (P (File bytes m (os_user os))) (fchown os q u) (\<lambda>_. P (File bytes m u)) R" for u
    unfolding fchown_def by (rule contract_syscall) (auto simp: get intro: I R put)
  have "contract I (P (File bytes m (os_user os))) (case owner of None \<Rightarrow> io_return ()
      | Some owner \<Rightarrow> (case parse_owner owner of None \<Rightarrow> io_fail InvalidInput | Some owner \<Rightarrow> fchown os q owner))
      (\<lambda>_. P (File bytes m ?user)) R"
    by (auto split: option.split intro: contract_return contract_fail chown R)
  moreover have "contract I (P (File bytes m u)) (set_permissions os q m') (\<lambda>_. P (File bytes m' u)) R" for u m'
    unfolding set_permissions_def by (rule contract_syscall) (auto simp: get intro: I R put)
  ultimately show ?thesis
    unfolding apply_metadata_def new_file_def by (rule contract_then)
qed

lemma contract_fill_and_replace:
  assumes os: "os_ok os" and p: "p \<noteq> []" and tmp: "beside p tmp" "t0 tmp = None"
  shows "contract (\<lambda>t. kept p t0 t \<or> written p (Some (new_file os bytes permissions owner)) t0 t)
    (\<lambda>t. kept p t0 t \<and> t tmp = None)
    (fill_and_replace sha os p tmp bytes permissions owner expected anonymous)
    (\<lambda>_ t. written p (Some (new_file os bytes permissions owner)) t0 t \<and> revision_at sha anonymous t0 p = Some expected)
    (replace_failed p (Some (new_file os bytes permissions owner)) (revision_at sha anonymous t0 p = Some expected) t0)"
proof -
  let ?new = "new_file os bytes permissions owner"
  let ?I = "\<lambda>t. kept p t0 t \<or> written p (Some ?new) t0 t"
  let ?seen = "revision_at sha anonymous t0 p = Some expected"
  let ?R = "replace_failed p (Some ?new) ?seen t0"
  let ?at = "\<lambda>n t. kept p t0 t \<and> t tmp = Some n"
  let ?file = "\<lambda>b t. \<exists>m. ?at (File b m (os_user os)) t"
  let ?done = "\<lambda>t. written p (Some ?new) t0 t \<and> ?seen"
  have at: "?at n' (t(tmp \<mapsto> n'))" if "kept p t0 t" for n' t
    using kept_put [OF that tmp(2,1)] by simp
  then have at': "?at n t \<Longrightarrow> ?at n' (t(tmp \<mapsto> n'))" for n n' t by blast
  have s1: "contract ?I (\<lambda>t. kept p t0 t \<and> t tmp = None) (open_new os tmp 384) (\<lambda>_. ?file []) (\<lambda>_. kept p t0)"
    unfolding open_new_def
    by (rule contract_syscall) (use at in \<open>auto split: if_splits\<close>)
  have s2: "contract ?I (?file []) (write_all os tmp bytes) (\<lambda>_. ?file bytes) (\<lambda>_. kept p t0)"
    by (rule contract_write_all) (use at in \<open>auto simp: append_bytes_def\<close>)
  have s3: "contract ?I (?file bytes) (sync os) (\<lambda>_. ?file bytes) (\<lambda>_. kept p t0)"
    by (rule contract_sync) auto
  have s4: "contract ?I (?file bytes) (apply_metadata os tmp permissions owner) (\<lambda>_. ?at ?new) (\<lambda>_. kept p t0)"
  proof -
    have "contract ?I (?at (File bytes m (os_user os))) (apply_metadata os tmp permissions owner) (\<lambda>_. ?at ?new)
        (\<lambda>_. kept p t0)" for m
      by (rule contract_apply_metadata [where P = ?at]) (erule at', auto)
    then show ?thesis unfolding contract_def by blast
  qed
  have s5: "contract ?I (?at ?new) (sync os) (\<lambda>_. ?at ?new) (\<lambda>_. kept p t0)"
    by (rule contract_sync) auto
  have s6: "contract ?I (?at ?new) (verify_revision sha os p expected anonymous) (\<lambda>_ t. ?at ?new t \<and> ?seen) (\<lambda>_. kept p t0)"
  proof (rule contract_verify_revision [OF os])
    fix t assume t: "?at ?new t" and "revision_at sha anonymous t p = Some expected"
    then have ?seen using revision_at_cong [of t p t0] kept_target [OF p, of t0 t] by simp
    with t show "?at ?new t \<and> ?seen" by blast
  qed auto
  have s7: "contract ?I (\<lambda>t. ?at ?new t \<and> ?seen) (rename os tmp p) (\<lambda>_. ?done) (\<lambda>_. kept p t0)"
    unfolding rename_def
  proof (rule contract_syscall)
    fix t a t' assume t: "?at ?new t \<and> ?seen"
    then show "kept p t0 t" by simp
    assume "(case t tmp of None \<Rightarrow> Err NotFound
        | Some n \<Rightarrow> if is_directory t tmp \<or> is_directory t p then Err OtherError
            else Ok ((), t(tmp := None, p \<mapsto> n))) = Inr (a, t')"
    then have t': "t' = t(tmp := None, p \<mapsto> ?new)" using t by (auto split: if_splits)
    have "kept p t0 (t(tmp := None))" using t kept_drop tmp(2) by blast
    moreover have "t'(p := t0 p) = t(tmp := None)"
      using kept_target [OF p calculation] t' by (intro ext) (simp split: if_splits)
    ultimately have "?done t'" using t t' by (simp add: written_def)
    then show "?I t' \<and> ?done t'" by simp
  qed
  have s8: "contract ?I ?done (io_map_err (after_replace DirectoryFsync) (sync_parent os (butlast p))) (\<lambda>_. ?done) ?R"
    by (rule contract_map_err, rule contract_sync_parent) (auto simp: replace_failed_def after_replace_def)
  show ?thesis
    unfolding fill_and_replace_def
    by (intro contract_then) (rule contract_before s1 s2 s3 s4 s5 s6 s7 s8)+
qed

lemma config_replace_eq:
  "p \<noteq> [] \<Longrightarrow> config_replace sha os p bytes permissions owner expected anonymous =
    io_then (io_map_err (before_replace ParentCreate) (create_dir_all os (butlast p))) (\<lambda>_.
    io_then (io_map_err (before_replace TempCreate) (temporary_path os p)) (\<lambda>temporary.
      clean_up os temporary (fill_and_replace sha os p temporary bytes permissions owner expected anonymous)))"
  by (simp add: config_replace_def path_parent_def fill_and_replace_def)

lemma written_drop:
  "written p n t0 t \<Longrightarrow> t0 q = None \<Longrightarrow> q \<noteq> p \<Longrightarrow> written p n t0 (t(q := None))"
  using kept_drop [of p t0 "t(p := t0 p)" q] by (simp add: written_def fun_upd_twist)

lemma replace_failed_drop:
  assumes "p \<noteq> []" and "replace_failed p n expected t0 f t" and "beside p tmp" and "t0 tmp = None"
  shows "replace_failed p n expected t0 f (t(tmp := None))
    \<and> (kept p t0 (t(tmp := None)) \<or> written p n t0 (t(tmp := None)))"
proof -
  have "tmp \<noteq> p" using not_beside_itself assms(1,3) by blast
  with assms(2,4) show ?thesis
    by (auto simp: replace_failed_def simp del: fun_upd_apply intro: kept_drop written_drop split: if_splits)
qed

lemma contract_config_replace:
  assumes os: "os_ok os" and p: "p \<noteq> []"
  shows "contract (\<lambda>t. kept p t0 t \<or> written p (Some (new_file os bytes permissions owner)) t0 t) (\<lambda>t. t = t0)
    (config_replace sha os p bytes permissions owner expected anonymous)
    (\<lambda>_ t. written p (Some (new_file os bytes permissions owner)) t0 t \<and> revision_at sha anonymous t0 p = Some expected)
    (replace_failed p (Some (new_file os bytes permissions owner)) (revision_at sha anonymous t0 p = Some expected) t0)"
proof -
  let ?n = "Some (new_file os bytes permissions owner)"
  let ?I = "\<lambda>t. kept p t0 t \<or> written p ?n t0 t"
  let ?seen = "revision_at sha anonymous t0 p = Some expected"
  let ?R = "replace_failed p ?n ?seen t0"
  let ?Q = "\<lambda>_ t. written p ?n t0 t \<and> ?seen"
  have fill: "contract ?I (\<lambda>t. kept p t0 t \<and> t tmp = None \<and> beside p tmp)
      (clean_up os tmp (fill_and_replace sha os p tmp bytes permissions owner expected anonymous)) ?Q ?R" for tmp
  proof (cases "beside p tmp \<and> t0 tmp = None")
    case True
    have "contract ?I (\<lambda>t. kept p t0 t \<and> t tmp = None)
        (clean_up os tmp (fill_and_replace sha os p tmp bytes permissions owner expected anonymous)) ?Q ?R"
      by (rule contract_clean_up [OF contract_fill_and_replace [OF os p]])
        (use True replace_failed_drop [OF p] in blast)+
    then show ?thesis by (rule contract_weaken) simp_all
  next
    case False
    have "\<not> (kept p t0 t \<and> t tmp = None \<and> beside p tmp)" for t using False kept_free by blast
    then show ?thesis by (rule contract_vacuous)
  qed
  have parents: "contract ?I (\<lambda>t. t = t0) (create_dir_all os (butlast p)) (\<lambda>_. kept p t0) (\<lambda>_. kept p t0)"
    by (rule contract_weaken [OF contract_make_parents [OF p]]) auto
  have temporary: "contract ?I (kept p t0) (temporary_path os p) (\<lambda>q t. kept p t0 t \<and> t q = None \<and> beside p q)
      (\<lambda>_. kept p t0)"
    by (rule contract_temporary_path [OF p]) auto
  show ?thesis
    unfolding config_replace_eq [OF p]
    by (rule contract_then [OF contract_before [OF parents]])
      (rule contract_then [OF contract_before [OF temporary] fill])
qed

lemma contract_config_remove:
  assumes os: "os_ok os" and p: "p \<noteq> []"
  shows "contract (\<lambda>t. kept p t0 t \<or> written p None t0 t) (\<lambda>t. t = t0) (config_remove sha os p expected anonymous)
    (\<lambda>_ t. written p None t0 t \<and> revision_at sha anonymous t0 p = Some expected)
    (replace_failed p None (revision_at sha anonymous t0 p = Some expected) t0)"
proof -
  let ?I = "\<lambda>t. kept p t0 t \<or> written p None t0 t"
  let ?seen = "revision_at sha anonymous t0 p = Some expected"
  let ?R = "replace_failed p None ?seen t0"
  let ?done = "\<lambda>t. written p None t0 t \<and> ?seen"
  have gone: "written p None t0 (t0(p := None))" by (simp add: written_def)
  have check: "contract ?I (\<lambda>t. t = t0) (verify_revision sha os p expected anonymous)
      (\<lambda>_ t. t = t0 \<and> ?seen) (\<lambda>_. kept p t0)"
    by (rule contract_verify_revision [OF os]) auto
  have remove: "contract ?I (\<lambda>t. t = t0 \<and> ?seen) (remove_file os p) (\<lambda>_. ?done) (\<lambda>_. kept p t0)"
    unfolding remove_file_def
    by (rule contract_syscall) (use gone in \<open>auto split: option.splits if_splits\<close>)
  have sync: "contract ?I ?done (io_map_err (after_replace DirectoryFsync) (sync_parent os (butlast p))) (\<lambda>_. ?done) ?R"
    by (rule contract_map_err, rule contract_sync_parent) (auto simp: replace_failed_def after_replace_def)
  have parent: "path_parent p = Some (butlast p)" using p by (simp add: path_parent_def)
  show ?thesis
    unfolding config_remove_def parent option.case
    by (intro contract_then) (rule contract_before check remove sync)+
qed

section \<open>The interface of the writer\<close>

text \<open>
  What \<open>AtomicConfigWriter\<close> promises of an operation that puts \<open>n\<close> at \<open>p\<close>: it does so only when the
  file it replaces has passed the check \<open>seen\<close>, at once, and a failure says whether it has.
\<close>

definition installs :: "path \<Rightarrow> node option \<Rightarrow> (tree \<Rightarrow> bool) \<Rightarrow> (atomic_write_failure, unit) io \<Rightarrow> bool" where
  "installs p n seen m \<longleftrightarrow> (\<forall>t0. contract (\<lambda>t. kept p t0 t \<or> written p n t0 t) (\<lambda>t. t = t0) m
     (\<lambda>_ t. written p n t0 t \<and> seen t0) (replace_failed p n (seen t0) t0))"

locale config_writer =
  fixes sha :: sha256
    and replace :: "os \<Rightarrow> path \<Rightarrow> u8 list \<Rightarrow> u32 option \<Rightarrow> string option \<Rightarrow> string \<Rightarrow> bool \<Rightarrow> (atomic_write_failure, unit) io"
    and remove :: "os \<Rightarrow> path \<Rightarrow> string \<Rightarrow> bool \<Rightarrow> (atomic_write_failure, unit) io"
    and made :: "os \<Rightarrow> u8 list \<Rightarrow> u32 option \<Rightarrow> string option \<Rightarrow> node"
  assumes replace_installs: "os_ok os \<Longrightarrow> p \<noteq> [] \<Longrightarrow> installs p (Some (made os bytes permissions owner))
      (\<lambda>t. revision_at sha anonymous t p = Some expected) (replace os p bytes permissions owner expected anonymous)"
    and remove_installs: "os_ok os \<Longrightarrow> p \<noteq> [] \<Longrightarrow> installs p None
      (\<lambda>t. revision_at sha anonymous t p = Some expected) (remove os p expected anonymous)"
begin

lemma replaced_only_as_expected:
  assumes "os_ok os" and "p \<noteq> []" and "replace os p bytes permissions owner expected anonymous w = (r, w')"
    and "w_tree w' p \<noteq> w_tree w p"
  shows "revision_at sha anonymous (w_tree w) p = Some expected \<and> w_tree w' p = Some (made os bytes permissions owner)"
proof -
  let ?n = "Some (made os bytes permissions owner)" and ?seen = "revision_at sha anonymous (w_tree w) p = Some expected"
  have C: "contract (\<lambda>t. kept p (w_tree w) t \<or> written p ?n (w_tree w) t)
      (\<lambda>t. t = w_tree w) (replace os p bytes permissions owner expected anonymous)
      (\<lambda>_ t. written p ?n (w_tree w) t \<and> ?seen) (replace_failed p ?n ?seen (w_tree w))"
    using replace_installs [OF assms(1,2)] unfolding installs_def by blast
  have "case r of Inl f \<Rightarrow> replace_failed p ?n ?seen (w_tree w) f (w_tree w')
      | Inr _ \<Rightarrow> written p ?n (w_tree w) (w_tree w') \<and> ?seen"
    by (rule contractD [OF C refl assms(3)])
  moreover have "\<not> kept p (w_tree w) (w_tree w')"
    using kept_target [OF assms(2), of "w_tree w" "w_tree w'"] assms(4) by blast
  ultimately show ?thesis
    by (cases r) (simp_all add: written_def replace_failed_def split: if_splits)
qed

end

lemma config_replace_installs:
  "os_ok os \<Longrightarrow> p \<noteq> [] \<Longrightarrow> installs p (Some (new_file os bytes permissions owner))
    (\<lambda>t. revision_at sha anonymous t p = Some expected) (config_replace sha os p bytes permissions owner expected anonymous)"
  unfolding installs_def by (intro allI contract_config_replace)

lemma config_remove_installs:
  "os_ok os \<Longrightarrow> p \<noteq> [] \<Longrightarrow> installs p None
    (\<lambda>t. revision_at sha anonymous t p = Some expected) (config_remove sha os p expected anonymous)"
  unfolding installs_def by (intro allI contract_config_remove)

interpretation fs: config_writer sha "config_replace sha" "config_remove sha" new_file for sha
  by unfold_locales (rule config_replace_installs config_remove_installs; assumption)+

section \<open>Properties\<close>

lemma source_at_ok:
  assumes "source_at t p = Some s"
  shows "source_ok s"
proof (cases "t p")
  case None
  with assms have "s = source_missing" by (simp add: source_at_def)
  then show ?thesis by (simp add: source_ok_def source_missing_def)
next
  case (Some n)
  with assms obtain b m owner where n: "n = File b m owner" and b: "length b \<le> MAX_CONFIG_BYTES"
    and s: "s = source_of_file b m owner"
    by (auto simp: source_at_def split: node.splits if_splits)
  have digits: "length (decimal k) \<le> k + 1" for k
  proof (induction k rule: decimal.induct)
    case (1 k)
    then show ?case by (subst decimal.simps) fastforce
  qed
  have "length (decimal (unat u)) \<le> 2 ^ 32" for u :: u32
    using digits [of "unat u"] unat_lt [of u] by simp
  from this [of "fst owner"] this [of "snd owner"] have "length (owner_text owner) < 2 ^ 64"
    by (simp add: owner_text_def)
  moreover have "Bit_Operations.and m 4095 \<noteq> (u_max :: u32)"
  proof
    assume "Bit_Operations.and m 4095 = (u_max :: u32)"
    then have "bit (Bit_Operations.and m 4095 :: u32) 20" by simp
    moreover have "\<not> bit (4095 :: u32) 20" by simp
    ultimately show False by (simp only: bit_and_iff simp_thms)
  qed
  ultimately show ?thesis
    using b by (simp add: s source_ok_def source_existing_def MAX_CONFIG_BYTES_def owner_text_def)
qed

text \<open>
  A revision hash stands for exactly one file and one content: as far as SHA-256 does not collide on
  the two messages, the hashes of what was read of two paths are equal if and only if the paths, the
  bytes, the modes and the owners are, and both files were there or both missing.
\<close>

theorem revision_identifies_source:
  assumes "source_at t p = Some s" and "source_at t' q = Some r"
    and "path_ok p" and "path_ok q" and "length (path_text p) < 2 ^ 64" and "length (path_text q) < 2 ^ 64"
    and sha: "sha (revision_bytes p s) = sha (revision_bytes q r) \<Longrightarrow> revision_bytes p s = revision_bytes q r"
  shows "file_revision_hash sha p s = file_revision_hash sha q r \<longleftrightarrow> p = q \<and> s = r"
  using revision_bytes_inject [OF assms(3-6) source_at_ok [OF assms(1)] source_at_ok [OF assms(2)]] sha
  by (auto simp: file_revision_hash_def hex_text_inject)

lemma revision_identifies_source_witness:
  "file_revision_hash id [''a''] (source_of_file [1] 420 (0, 0)) \<noteq> file_revision_hash id [''a''] source_missing"
  using revision_identifies_source [of "[[''a''] \<mapsto> File [1] 420 (0, 0)]" "[''a'']" "source_of_file [1] 420 (0, 0)"
      Map.empty "[''a'']" source_missing id]
  by (simp add: source_at_def MAX_CONFIG_BYTES_def path_ok_def path_text_def source_missing_def source_existing_def)

text \<open>
  C18. The configuration of an agent is replaced at once and only over the revision it was prepared for:
  in every tree the write passes through the file is the old one or the whole new one with its mode
  and owner, no other file that was there is touched, and the new file is installed, in a success or
  in a failure that says so, only if the old one had the expected hash.
\<close>

theorem config_write_is_atomic:
  assumes "os_ok os" and "p \<noteq> []"
    and "config_replace sha os p bytes permissions owner expected anonymous w = (r, w')"
  shows "\<exists>new. w_trace w' = w_trace w @ new
    \<and> list_all (\<lambda>t. (t p = w_tree w p \<or> t p = Some (new_file os bytes permissions owner))
        \<and> (\<forall>q. q \<noteq> p \<longrightarrow> t q = w_tree w q \<or> w_tree w q = None \<and> beside p q)) new
    \<and> (if case r of Inl f \<Rightarrow> af_target_replaced f | Inr _ \<Rightarrow> True
       then w_tree w' p = Some (new_file os bytes permissions owner)
         \<and> revision_at sha anonymous (w_tree w) p = Some expected
       else w_tree w' p = w_tree w p)"
proof -
  let ?n = "Some (new_file os bytes permissions owner)" and ?t0 = "w_tree w"
  obtain new where "w_trace w' = w_trace w @ new" and all: "list_all (\<lambda>t. kept p ?t0 t \<or> written p ?n ?t0 t) new"
    and out: "case r of Inl f \<Rightarrow> replace_failed p ?n (revision_at sha anonymous ?t0 p = Some expected) ?t0 f (w_tree w')
      | Inr _ \<Rightarrow> written p ?n ?t0 (w_tree w') \<and> revision_at sha anonymous ?t0 p = Some expected"
    by (rule contractD [OF contract_config_replace [OF assms(1,2)] refl assms(3)])
  moreover have "(t p = ?t0 p \<or> t p = ?n) \<and> (\<forall>q. q \<noteq> p \<longrightarrow> t q = ?t0 q \<or> ?t0 q = None \<and> beside p q)"
    if "kept p ?t0 t \<or> written p ?n ?t0 t" for t
    using that kept_target [OF assms(2), of ?t0 t] unfolding written_def kept_def by (metis fun_upd_other)
  with all have "list_all (\<lambda>t. (t p = ?t0 p \<or> t p = ?n) \<and> (\<forall>q. q \<noteq> p \<longrightarrow> t q = ?t0 q \<or> ?t0 q = None \<and> beside p q)) new"
    by (simp add: list_all_iff)
  moreover from out have "if case r of Inl f \<Rightarrow> af_target_replaced f | Inr _ \<Rightarrow> True
       then w_tree w' p = ?n \<and> revision_at sha anonymous ?t0 p = Some expected else w_tree w' p = ?t0 p"
    using kept_target [OF assms(2)] by (auto simp: replace_failed_def written_def split: sum.splits if_splits)
  ultimately show ?thesis by blast
qed

definition example_sha :: sha256 where
  "example_sha bs = [of_nat (length bs)]"

definition example_revision :: string where
  "example_revision = file_revision_hash example_sha [''d'', ''k''] (source_of_file [1] 420 (1000, 1000))"

definition example_replace :: "(atomic_write_failure + unit) \<times> world" where
  "example_replace = config_replace example_sha example_os [''d'', ''k''] [5, 6] (Some 416) (Some ''7:8'') example_revision False example_world"

lemma example_replace_eq:
  "config_replace example_sha example_os [''d'', ''k''] [5, 6] (Some 416) (Some ''7:8'') example_revision False example_world
    = (Ok (), snd example_replace)"
proof -
  have "fst example_replace = Ok ()" by code_simp
  then show ?thesis by (simp add: example_replace_def prod_eq_iff)
qed

lemma config_write_is_atomic_witness:
  "w_tree (snd example_replace) [''d'', ''k''] = Some (File [5, 6] 416 (7, 8))"
proof -
  have "new_file example_os [5, 6] (Some 416) (Some ''7:8'') = File [5, 6] 416 (7, 8)" by code_simp
  then show ?thesis
    using config_write_is_atomic [OF example_os_ok list.distinct(2) example_replace_eq]
    by (simp only: sum.case if_True) (elim exE conjE, assumption)
qed

end
