(* ===== verification/Ownership.thy ===== *)
theory Ownership
  imports Json_Doc Config_File
begin

text \<open>
  What Token Station owns of an agent's configuration,
  \<open>apps/desktop/src-tauri/src/agent_integration/ownership.rs\<close>: the records, the authentication codes
  of the owned values, and the private index file with compare-and-swap on a revision. HMAC-SHA-256
  and serde_json are parameters; paths of files are texts here, as in the records.
\<close>

section \<open>Records\<close>

datatype document_format = FormatJson | FormatJson5 | FormatToml | FormatYaml | FormatDotenv

record companion_ownership =
  co_target_config_path :: string
  co_document_format :: "document_format option"
  co_baseline_snapshot_id :: string
  co_last_transaction_snapshot_id :: string
  co_before_hash :: string
  co_managed_after_hash :: string
  co_owned_paths :: "config_path list"
  co_sensitive_paths :: "config_path list option"
  co_owned_value_macs :: "(string, string) btree"

record ownership_record =
  ow_schema_version :: u32
  ow_revision :: u64
  ow_agent_id :: string
  ow_installation_path :: string
  ow_target_config_path :: string
  ow_connector_id :: string
  ow_baseline_snapshot_id :: string
  ow_last_transaction_snapshot_id :: string
  ow_before_hash :: string
  ow_managed_after_hash :: string
  ow_owned_paths :: "config_path list"
  ow_owned_value_macs :: "(string, string) btree"
  ow_companion_files :: "companion_ownership list"
  ow_acquired_at_ms :: u64
  ow_updated_at_ms :: u64

text \<open>\<open>OwnershipKey\<close>: agent, installation and target, in the order its \<open>Ord\<close> compares them.\<close>

type_synonym ownership_key = "string \<times> string \<times> string"

definition ownership_key :: "ownership_record \<Rightarrow> ownership_key" where
  "ownership_key r = (ow_agent_id r, ow_installation_path r, ow_target_config_path r)"

datatype ownership_error = InvalidRecord | InvalidCompanion | UnsupportedSchema | DuplicateInstance
  | AlreadyActive | RevisionChanged | OwnershipMissing
  | DirectoryFailed | IndexNotPrivate | IndexTooLarge | IndexUnreadable | IndexNoJson | IndexNoMetadata | IndexNotWritten

definition paths_covered :: "config_path list \<Rightarrow> (string, string) btree \<Rightarrow> bool" where
  "paths_covered paths macs \<longleftrightarrow> paths \<noteq> [] \<and> length paths = length macs
     \<and> list_all (\<lambda>p. bt_contains macs (config_path_text p)) paths"

fun companions_valid :: "string \<Rightarrow> string set \<Rightarrow> companion_ownership list \<Rightarrow> bool" where
  "companions_valid target seen [] = True"
| "companions_valid target seen (c # cs) =
     (co_target_config_path c \<noteq> [] \<and> co_target_config_path c \<noteq> target \<and> co_target_config_path c \<notin> seen
      \<and> length (co_baseline_snapshot_id c) = 32 \<and> length (co_last_transaction_snapshot_id c) = 32
      \<and> length (co_before_hash c) = 64 \<and> length (co_managed_after_hash c) = 64
      \<and> paths_covered (co_owned_paths c) (co_owned_value_macs c)
      \<and> companions_valid target (insert (co_target_config_path c) seen) cs)"

definition validate_record :: "ownership_record \<Rightarrow> ownership_error + unit" where
  "validate_record r =
     (if ow_schema_version r \<noteq> 1 \<or> ow_agent_id r = [] \<or> ow_installation_path r = []
        \<or> ow_target_config_path r = [] \<or> ow_connector_id r = []
        \<or> length (ow_baseline_snapshot_id r) \<noteq> 32 \<or> length (ow_last_transaction_snapshot_id r) \<noteq> 32
        \<or> length (ow_before_hash r) \<noteq> 64 \<or> length (ow_managed_after_hash r) \<noteq> 64
        \<or> \<not> paths_covered (ow_owned_paths r) (ow_owned_value_macs r)
      then Err InvalidRecord
      else ensure (companions_valid (ow_target_config_path r) {} (ow_companion_files r)) InvalidCompanion)"

record ownership_index =
  oi_schema_version :: u32
  oi_records :: "ownership_record list"

fun validate_records :: "ownership_key set \<Rightarrow> ownership_record list \<Rightarrow> ownership_error + unit" where
  "validate_records seen [] = Ok ()"
| "validate_records seen (r # rs) = (case validate_record r of
      Inl e \<Rightarrow> Err e
    | Inr _ \<Rightarrow> if ownership_key r \<in> seen then Err DuplicateInstance
        else validate_records (insert (ownership_key r) seen) rs)"

definition validate_index :: "ownership_index \<Rightarrow> ownership_error + ownership_index" where
  "validate_index i =
     (if oi_schema_version i \<noteq> 1 then Err UnsupportedSchema
      else and_then (validate_records {} (oi_records i)) (\<lambda>_. Ok i))"

section \<open>Codes of owned values\<close>

record mac_suite =
  ms_hmac :: "u8 list \<Rightarrow> u8 list \<Rightarrow> u8 list"
  ms_json :: "json \<Rightarrow> u8 list"

definition has_auto_id :: "json \<Rightarrow> bool" where
  "has_auto_id model \<longleftrightarrow> (case as_object model of
      None \<Rightarrow> False
    | Some m \<Rightarrow> bt_get m ''id'' = Some (JString ''tokenstation-auto''))"

definition semantic_value_for_mac :: "json \<Rightarrow> config_path \<Rightarrow> json option" where
  "semantic_value_for_mac root p = (case semantic_value_at root p of
      None \<Rightarrow> None
    | Some v \<Rightarrow> (case as_array v of
        None \<Rightarrow> Some v
      | Some models \<Rightarrow>
          if p = [''models''] then Some (JArray (filter has_auto_id models))
          else if p = [''availableModels''] then Some (JArray (filter (\<lambda>m. m = JString ''tokenstation-auto'') models))
          else Some v))"

definition mac_message :: "mac_suite \<Rightarrow> json \<Rightarrow> config_path \<Rightarrow> u8 list" where
  "mac_message s root p = str_bytes ''token-station-owned-value-v1'' @ [0]
     @ encode_field (str_bytes (config_path_text p))
     @ (case semantic_value_for_mac root p of
          Some v \<Rightarrow> 1 # encode_field (ms_json s v)
        | None \<Rightarrow> [0])"

definition compute_macs_from_semantic :: "mac_suite \<Rightarrow> json \<Rightarrow> config_path list \<Rightarrow> u8 list \<Rightarrow> (string, string) btree" where
  "compute_macs_from_semantic s root paths key =
     fold (\<lambda>p. bt_insert (config_path_text p) (hex_text (ms_hmac s key (mac_message s root p)))) paths []"

lemma compute_macs_code [code]:
  "compute_macs_from_semantic s root [] key = []"
  "compute_macs_from_semantic s root (p # ps) key =
     fold (\<lambda>p. bt_insert (config_path_text p) (hex_text (ms_hmac s key (mac_message s root p)))) (p # ps) []"
  by (simp_all add: compute_macs_from_semantic_def)

text \<open>\<open>semantic_json\<close> of a document of any format, and what is computed from it.\<close>

definition compute_owned_value_macs ::
  "('d \<Rightarrow> 'e + json) \<Rightarrow> mac_suite \<Rightarrow> 'd \<Rightarrow> config_path list \<Rightarrow> u8 list \<Rightarrow> 'e + (string, string) btree"
where
  "compute_owned_value_macs semantic s document paths key =
     and_then (semantic document) (\<lambda>root. Ok (compute_macs_from_semantic s root paths key))"

definition ownership_matches ::
  "('d \<Rightarrow> 'e + json) \<Rightarrow> mac_suite \<Rightarrow> ownership_record \<Rightarrow> 'd \<Rightarrow> u8 list \<Rightarrow> 'e + bool"
where
  "ownership_matches semantic s r document key =
     and_then (compute_owned_value_macs semantic s document (ow_owned_paths r) key)
       (\<lambda>macs. Ok (macs = ow_owned_value_macs r))"

section \<open>Records of wider paths\<close>

definition is_legacy_widened_path_set :: "config_path list \<Rightarrow> config_path list \<Rightarrow> bool" where
  "is_legacy_widened_path_set stored declared \<longleftrightarrow> stored \<noteq> declared
     \<and> list_all (\<lambda>p. list_ex (prefix p) declared) stored
     \<and> list_all (\<lambda>d. list_ex (\<lambda>p. prefix p d) stored) declared"

definition normalized_legacy_owned_paths :: "config_path list \<Rightarrow> config_path list \<Rightarrow> config_path list" where
  "normalized_legacy_owned_paths stored declared =
     (if is_legacy_widened_path_set stored declared then declared else stored)"

definition object_or_empty :: "json \<Rightarrow> (string, json) btree" where
  "object_or_empty v = (case as_object v of None \<Rightarrow> [] | Some m \<Rightarrow> m)"

fun set_value_at :: "config_path \<Rightarrow> string \<Rightarrow> json \<Rightarrow> json \<Rightarrow> json" where
  "set_value_at [] leaf v cursor = JObject (bt_insert leaf v (object_or_empty cursor))"
| "set_value_at (s # parents) leaf v cursor = (let m = object_or_empty cursor in
     JObject (bt_insert s (set_value_at parents leaf v (case bt_get m s of None \<Rightarrow> JObject [] | Some c \<Rightarrow> c)) m))"

definition set_json_value :: "json \<Rightarrow> config_path \<Rightarrow> json \<Rightarrow> patch_error + json" where
  "set_json_value root p v = (if p = [] then Err PathIsEmpty else Ok (set_value_at (butlast p) (last p) v root))"

text \<open>The declared values of a document, and nothing else.\<close>

definition managed_part :: "json \<Rightarrow> config_path list \<Rightarrow> patch_error + json" where
  "managed_part current declared = try_fold (\<lambda>managed p. case semantic_value_at current p of
      None \<Rightarrow> Ok managed
    | Some v \<Rightarrow> set_json_value managed p v) (JObject []) declared"

definition legacy_widened_ownership_matches ::
  "('d \<Rightarrow> patch_error + json) \<Rightarrow> mac_suite \<Rightarrow> ownership_record \<Rightarrow> 'd \<Rightarrow> 'd \<Rightarrow> config_path list \<Rightarrow> u8 list
    \<Rightarrow> patch_error + bool"
where
  "legacy_widened_ownership_matches semantic s r current baseline declared key =
     (if \<not> is_legacy_widened_path_set (ow_owned_paths r) declared then Ok False
      else and_then (semantic current) (\<lambda>current. and_then (semantic baseline) (\<lambda>baseline.
        if list_ex (\<lambda>stored. list_ex (\<lambda>d. strict_prefix stored d) declared
             \<and> (case semantic_value_at baseline stored of None \<Rightarrow> False | Some v \<Rightarrow> \<not> is_null v)) (ow_owned_paths r)
        then Ok False
        else and_then (managed_part current declared) (\<lambda>managed.
          Ok (compute_macs_from_semantic s managed (ow_owned_paths r) key = ow_owned_value_macs r)))))"

section \<open>The index file\<close>

record index_codec =
  ic_encode :: "ownership_index \<Rightarrow> u8 list"
  ic_decode :: "u8 list \<Rightarrow> ownership_index option"

definition MAX_INDEX_BYTES :: nat where
  "MAX_INDEX_BYTES = 2 * 1024 * 1024"

definition index_file :: "path \<Rightarrow> path" where
  "index_file root = root @ [''ownership-index.json'']"

definition node_length :: "node \<Rightarrow> nat" where
  "node_length n = (case n of File b _ _ \<Rightarrow> length b | _ \<Rightarrow> 0)"

definition empty_index :: ownership_index where
  "empty_index = \<lparr>oi_schema_version = 1, oi_records = []\<rparr>"

definition read_index :: "index_codec \<Rightarrow> os \<Rightarrow> path \<Rightarrow> (ownership_error, ownership_index) io" where
  "read_index codec os root = io_match (symlink_metadata os (index_file root))
     (\<lambda>e. if e = NotFound then io_return empty_index else io_fail IndexNoMetadata)
     (\<lambda>metadata.
        io_then (io_map_err (\<lambda>_. IndexNotPrivate) (verify_private_file os (index_file root))) (\<lambda>_.
        if MAX_INDEX_BYTES < node_length metadata then io_fail IndexTooLarge
        else io_then (io_map_err (\<lambda>_. IndexUnreadable) (read_file os (index_file root))) (\<lambda>bytes.
          case ic_decode codec bytes of
            None \<Rightarrow> io_fail IndexNoJson
          | Some i \<Rightarrow> io_lift (validate_index i))))"

definition write_index :: "index_codec \<Rightarrow> os \<Rightarrow> path \<Rightarrow> ownership_index \<Rightarrow> (ownership_error, unit) io" where
  "write_index codec os root i = io_map_err (\<lambda>_. IndexNotWritten)
     (write_atomic_private os (index_file root) (ic_encode codec i @ [10]))"

definition ownership_load :: "index_codec \<Rightarrow> os \<Rightarrow> path \<Rightarrow> ownership_key \<Rightarrow> (ownership_error, ownership_record option) io" where
  "ownership_load codec os root key = io_then (read_index codec os root)
     (\<lambda>i. io_return (find (\<lambda>r. ownership_key r = key) (oi_records i)))"

definition list_agent_installation ::
  "index_codec \<Rightarrow> os \<Rightarrow> path \<Rightarrow> string \<Rightarrow> string \<Rightarrow> (ownership_error, ownership_record list) io"
where
  "list_agent_installation codec os root agent installation = io_then (read_index codec os root)
     (\<lambda>i. io_return (sort_key ow_target_config_path
        (filter (\<lambda>r. ow_agent_id r = agent \<and> ow_installation_path r = installation) (oi_records i))))"

text \<open>The record that a commit stores, from the one with its key that is there.\<close>

definition next_record :: "ownership_record \<Rightarrow> ownership_record option \<Rightarrow> u64 option \<Rightarrow> ownership_error + ownership_record" where
  "next_record r existing expected = (case (existing, expected) of
      (None, None) \<Rightarrow> Ok (r\<lparr>ow_revision := 1\<rparr>)
    | (Some old, Some n) \<Rightarrow> if ow_revision old = n then Ok (r\<lparr>ow_revision := sat_add n 1\<rparr>) else Err RevisionChanged
    | (Some _, None) \<Rightarrow> Err AlreadyActive
    | (None, Some _) \<Rightarrow> Err RevisionChanged)"

text \<open>\<open>Vec::remove\<close> of the first record with a key.\<close>

fun remove_first :: "('a \<Rightarrow> bool) \<Rightarrow> 'a list \<Rightarrow> 'a list" where
  "remove_first P [] = []"
| "remove_first P (x # xs) = (if P x then xs else x # remove_first P xs)"

definition index_lookup :: "ownership_index \<Rightarrow> ownership_key \<Rightarrow> ownership_record option" where
  "index_lookup i key = find (\<lambda>r. ownership_key r = key) (oi_records i)"

definition index_commit ::
  "ownership_index \<Rightarrow> ownership_record \<Rightarrow> u64 option \<Rightarrow> ownership_error + ownership_record \<times> ownership_index"
where
  "index_commit i r expected = and_then (next_record r (index_lookup i (ownership_key r)) expected) (\<lambda>new.
     Ok (new, i\<lparr>oi_records := sort_key ownership_key
       (remove_first (\<lambda>x. ownership_key x = ownership_key r) (oi_records i) @ [new])\<rparr>))"

definition index_remove :: "ownership_index \<Rightarrow> ownership_key \<Rightarrow> u64 \<Rightarrow> ownership_error + ownership_index" where
  "index_remove i key expected = (case index_lookup i key of
      None \<Rightarrow> Err OwnershipMissing
    | Some r \<Rightarrow> if ow_revision r \<noteq> expected then Err RevisionChanged
        else Ok (i\<lparr>oi_records := remove_first (\<lambda>r. ownership_key r = key) (oi_records i)\<rparr>))"

definition ownership_commit ::
  "index_codec \<Rightarrow> os \<Rightarrow> path \<Rightarrow> ownership_record \<Rightarrow> u64 option \<Rightarrow> (ownership_error, ownership_record) io"
where
  "ownership_commit codec os root r expected =
     io_then (io_lift (validate_record r)) (\<lambda>_.
     io_then (io_map_err (\<lambda>_. DirectoryFailed) (ensure_private_dir os root)) (\<lambda>_.
     io_then (read_index codec os root) (\<lambda>i.
     io_then (io_lift (index_commit i r expected)) (\<lambda>(new, i).
     io_then (write_index codec os root i) (\<lambda>_. io_return new)))))"

definition ownership_remove :: "index_codec \<Rightarrow> os \<Rightarrow> path \<Rightarrow> ownership_key \<Rightarrow> u64 \<Rightarrow> (ownership_error, unit) io" where
  "ownership_remove codec os root key expected =
     io_then (read_index codec os root) (\<lambda>i.
     io_then (io_lift (index_remove i key expected)) (\<lambda>i. write_index codec os root i))"

section \<open>Compare and swap\<close>

text \<open>What the transactions rely on: a map of records, changed one at a time at the revision that was read.\<close>

locale cas_store =
  fixes ok :: "'s \<Rightarrow> bool"
    and lookup :: "'s \<Rightarrow> 'k \<Rightarrow> 'r option"
    and key :: "'r \<Rightarrow> 'k"
    and rev :: "'r \<Rightarrow> u64"
    and stamped :: "u64 \<Rightarrow> 'r \<Rightarrow> 'r"
    and admissible :: "'r \<Rightarrow> bool"
    and commit :: "'s \<Rightarrow> 'r \<Rightarrow> u64 option \<Rightarrow> 'e + 'r \<times> 's"
    and delete :: "'s \<Rightarrow> 'k \<Rightarrow> u64 \<Rightarrow> 'e + 's"
  assumes commit_Ok: "ok s \<Longrightarrow> admissible r \<Longrightarrow> commit s r e = Ok (n, s') \<Longrightarrow>
      ok s' \<and> n = stamped (case e of None \<Rightarrow> 1 | Some m \<Rightarrow> sat_add m 1) r
      \<and> lookup s' = (lookup s)(key r \<mapsto> n) \<and> map_option rev (lookup s (key r)) = e"
    and rev_stamped: "rev (stamped v r) = v"
    and key_stamped: "key (stamped v r) = key r"
    and commit_progress: "ok s \<Longrightarrow> map_option rev (lookup s (key r)) = e \<Longrightarrow> \<exists>n s'. commit s r e = Ok (n, s')"
    and delete_Ok: "ok s \<Longrightarrow> delete s k m = Ok s' \<Longrightarrow>
      ok s' \<and> lookup s' = (lookup s)(k := None) \<and> map_option rev (lookup s k) = Some m"
begin

text \<open>Of two writers that read the same revision, only one succeeds.\<close>

lemma stale_commit_fails:
  assumes "ok s" and "admissible r" and "commit s r e = Ok (n, s')" and "admissible r'" and "key r' = key r"
    and "e \<noteq> Some u_max"
  shows "\<exists>err. commit s' r' e = Err err"
proof (rule ccontr)
  assume "\<nexists>err. commit s' r' e = Err err"
  then obtain n' s'' where "commit s' r' e = Ok (n', s'')" by (cases "commit s' r' e") auto
  with commit_Ok [OF assms(1-3)] commit_Ok [of s' r' e] assms(4,5) have "e = Some (rev n)"
    by (auto simp: key_stamped)
  moreover have "rev n = (case e of None \<Rightarrow> 1 | Some m \<Rightarrow> sat_add m 1)"
    using commit_Ok [OF assms(1-3)] rev_stamped by metis
  ultimately show False
    using assms(6) by (auto simp: sat_add_def split: option.splits if_splits)
qed

text \<open>A key that was deleted starts over at revision 1.\<close>

lemma recreated_revision:
  assumes "ok s" and "delete s k m = Ok s'" and "key r = k" and "admissible r"
  shows "\<exists>n s''. commit s' r None = Ok (n, s'') \<and> rev n = 1"
proof -
  have "ok s'" "lookup s' k = None" using delete_Ok [OF assms(1,2)] by auto
  with commit_progress [of s' r None] commit_Ok [of s' r None] assms(3,4) show ?thesis
    by (fastforce simp: rev_stamped)
qed

end

lemma validate_records_iff:
  "validate_records seen rs = Ok u \<longleftrightarrow> list_all (\<lambda>r. validate_record r = Ok ()) rs
    \<and> distinct (map ownership_key rs) \<and> set (map ownership_key rs) \<inter> seen = {}"
  by (induction rs arbitrary: seen) (auto split: sum.splits)

definition index_ok :: "ownership_index \<Rightarrow> bool" where
  "index_ok i \<longleftrightarrow> validate_index i = Ok i"

lemma index_ok_iff:
  "index_ok i \<longleftrightarrow> oi_schema_version i = 1 \<and> list_all (\<lambda>r. validate_record r = Ok ()) (oi_records i)
    \<and> distinct (map ownership_key (oi_records i))"
  by (auto simp: index_ok_def validate_index_def and_then_Ok_iff validate_records_iff)

lemma index_lookup_map: "index_lookup i k = map_of (map (\<lambda>r. (ownership_key r, r)) (oi_records i)) k"
proof -
  have "find (\<lambda>r. ownership_key r = k) rs = map_of (map (\<lambda>r. (ownership_key r, r)) rs) k" for rs
    by (induction rs) auto
  then show ?thesis by (simp add: index_lookup_def)
qed

lemma set_remove_first:
  "distinct (map f xs) \<Longrightarrow> set (remove_first (\<lambda>x. f x = k) xs) = {x \<in> set xs. f x \<noteq> k}"
  by (induction xs) (auto simp: image_iff)

lemma distinct_remove_first: "distinct (map f xs) \<Longrightarrow> distinct (map f (remove_first P xs))"
proof (induction xs)
  case (Cons x xs)
  have "set (remove_first P xs) \<subseteq> set xs" for xs by (induction xs) auto
  with Cons show ?case by auto
qed simp

lemma lookup_records:
  assumes "distinct (map ownership_key (oi_records i))"
  shows "index_lookup i k = Some r \<longleftrightarrow> r \<in> set (oi_records i) \<and> ownership_key r = k"
proof -
  have "distinct (map fst (map (\<lambda>r. (ownership_key r, r)) (oi_records i)))" using assms by (simp add: comp_def)
  then show ?thesis unfolding index_lookup_map by (subst map_of_eq_Some_iff) auto
qed

lemma lookup_eqI:
  assumes "distinct (map ownership_key (oi_records i))" and "\<And>r. r \<in> set (oi_records i) \<longleftrightarrow> m (ownership_key r) = Some r"
    and "\<And>k r. m k = Some r \<Longrightarrow> ownership_key r = k"
  shows "index_lookup i = m"
proof
  fix k
  show "index_lookup i k = m k"
  proof (cases "m k")
    case None
    then have "index_lookup i k \<noteq> Some a" for a
      using lookup_records [OF assms(1), of k a] assms(2) by auto
    with None show ?thesis by (cases "index_lookup i k") auto
  next
    case (Some r)
    with assms show ?thesis by (simp add: lookup_records)
  qed
qed

lemma distinct_map_sort: "distinct (map f (sort_key g xs)) \<longleftrightarrow> distinct (map f xs)"
  by (simp add: distinct_map)

lemma validate_any_revision: "validate_record (r\<lparr>ow_revision := v\<rparr>) = validate_record r"
  by (simp add: validate_record_def)

lemma index_commit_Ok:
  assumes i: "index_ok i" and r: "validate_record r = Ok ()" and run: "index_commit i r e = Ok (n, i')"
  shows "index_ok i' \<and> n = r\<lparr>ow_revision := (case e of None \<Rightarrow> 1 | Some m \<Rightarrow> sat_add m 1)\<rparr>
    \<and> index_lookup i' = (index_lookup i)(ownership_key r \<mapsto> n)
    \<and> map_option ow_revision (index_lookup i (ownership_key r)) = e"
proof -
  let ?k = "ownership_key r" and ?rest = "remove_first (\<lambda>x. ownership_key x = ownership_key r) (oi_records i)"
  from run have next_r: "next_record r (index_lookup i ?k) e = Ok n"
    and i': "i' = i\<lparr>oi_records := sort_key ownership_key (?rest @ [n])\<rparr>"
    by (auto simp: index_commit_def and_then_Ok_iff)
  have n: "n = r\<lparr>ow_revision := (case e of None \<Rightarrow> 1 | Some m \<Rightarrow> sat_add m 1)\<rparr>"
    and e: "map_option ow_revision (index_lookup i ?k) = e"
    using next_r by (auto simp: next_record_def split: option.splits if_splits)
  have key: "ownership_key n = ?k" by (simp add: n ownership_key_def)
  have valid: "validate_record n = Ok ()" using r by (simp add: n validate_any_revision)
  have d: "distinct (map ownership_key (oi_records i))" using i by (simp add: index_ok_iff)
  note set_rest = set_remove_first [OF d, of ?k]
  have "distinct (map ownership_key (?rest @ [n]))"
    using distinct_remove_first [OF d] set_rest key by auto
  then have "distinct (map ownership_key (oi_records i'))"
    by (simp add: i' distinct_map_sort del: map_append)
  moreover have "list_all (\<lambda>r. validate_record r = Ok ()) (oi_records i')"
    using i valid set_rest by (auto simp: i' index_ok_iff list_all_iff)
  ultimately have ok': "index_ok i'" using i by (simp add: index_ok_iff i')
  have "index_lookup i' = (index_lookup i)(?k \<mapsto> n)"
  proof (rule lookup_eqI)
    show "distinct (map ownership_key (oi_records i'))" using ok' by (simp add: index_ok_iff)
    show "x \<in> set (oi_records i') \<longleftrightarrow> ((index_lookup i)(?k \<mapsto> n)) (ownership_key x) = Some x" for x
      using set_rest key lookup_records [OF d] by (auto simp: i')
    show "((index_lookup i)(?k \<mapsto> n)) k = Some x \<Longrightarrow> ownership_key x = k" for k x
      using key lookup_records [OF d] by (auto split: if_splits)
  qed
  with ok' key e n show ?thesis by simp
qed

lemma index_remove_Ok:
  assumes i: "index_ok i" and run: "index_remove i k m = Ok i'"
  shows "index_ok i' \<and> index_lookup i' = (index_lookup i)(k := None) \<and> map_option ow_revision (index_lookup i k) = Some m"
proof -
  from run have i': "i' = i\<lparr>oi_records := remove_first (\<lambda>r. ownership_key r = k) (oi_records i)\<rparr>"
    and m: "map_option ow_revision (index_lookup i k) = Some m"
    by (auto simp: index_remove_def split: option.splits if_splits)
  have d: "distinct (map ownership_key (oi_records i))" using i by (simp add: index_ok_iff)
  note set_rest = set_remove_first [OF d, of k]
  have ok': "index_ok i'"
    using i distinct_remove_first [OF d] set_rest by (auto simp: i' index_ok_iff list_all_iff)
  have "index_lookup i' = (index_lookup i)(k := None)"
  proof (rule lookup_eqI)
    show "distinct (map ownership_key (oi_records i'))" using ok' by (simp add: index_ok_iff)
    show "x \<in> set (oi_records i') \<longleftrightarrow> ((index_lookup i)(k := None)) (ownership_key x) = Some x" for x
      using set_rest lookup_records [OF d] by (auto simp: i')
    show "((index_lookup i)(k := None)) j = Some x \<Longrightarrow> ownership_key x = j" for j x
      using lookup_records [OF d] by (auto split: if_splits)
  qed
  with ok' m show ?thesis by simp
qed

interpretation index: cas_store index_ok index_lookup ownership_key ow_revision
    "\<lambda>v r. r\<lparr>ow_revision := v\<rparr>" "\<lambda>r. validate_record r = Ok ()" index_commit index_remove
proof
  show "ownership_key (r\<lparr>ow_revision := v\<rparr>) = ownership_key r" for v r by (simp add: ownership_key_def)
  show "ow_revision (r\<lparr>ow_revision := v\<rparr>) = v" for v r by simp
  show "\<exists>n i'. index_commit i r e = Ok (n, i')" if "map_option ow_revision (index_lookup i (ownership_key r)) = e" for i r e
    using that by (cases e) (auto simp: index_commit_def next_record_def split: option.splits)
qed (use index_commit_Ok index_remove_Ok in blast)+

section \<open>The file behind the map\<close>

text \<open>The index that a reader finds in a tree.\<close>

definition private_json_at :: "path \<Rightarrow> 'i \<Rightarrow> (u8 list \<Rightarrow> 'i option) \<Rightarrow> ('i \<Rightarrow> bool) \<Rightarrow> tree \<Rightarrow> 'i option" where
  "private_json_at f fresh_index decode ok t = (case t f of
      None \<Rightarrow> Some fresh_index
    | Some (File b m owner) \<Rightarrow>
        if Bit_Operations.and m 511 = 384 \<and> length b \<le> MAX_INDEX_BYTES
        then (case decode b of None \<Rightarrow> None | Some i \<Rightarrow> if ok i then Some i else None)
        else None
    | Some _ \<Rightarrow> None)"

definition index_at :: "index_codec \<Rightarrow> path \<Rightarrow> tree \<Rightarrow> ownership_index option" where
  "index_at codec root = private_json_at (index_file root) empty_index (ic_decode codec) index_ok"

lemmas index_at_unfold = index_at_def private_json_at_def

lemma index_at_cong: "t (index_file root) = t' (index_file root) \<Longrightarrow> index_at codec root t = index_at codec root t'"
  by (simp add: index_at_unfold)

lemma index_at_ok: "index_at codec root t = Some i \<Longrightarrow> index_ok i"
  by (auto simp: index_at_unfold index_ok_iff empty_index_def split: option.splits node.splits if_splits)

lemma validate_index_Ok: "validate_index i = Ok j \<longleftrightarrow> j = i \<and> index_ok i"
  by (auto simp: index_ok_def validate_index_def and_then_Ok_iff)

text \<open>Reading such a file, whatever the errors are called.\<close>

lemma contract_read_private:
  assumes os: "os_ok os" and I: "\<And>t. P t \<Longrightarrow> I t" and R: "\<And>t e. P t \<Longrightarrow> R e t"
    and Q: "\<And>t i. P t \<Longrightarrow> private_json_at f fresh_index decode ok t = Some i \<Longrightarrow> Q i t"
    and check: "\<And>i j. check i = Ok j \<longleftrightarrow> j = i \<and> ok i"
  shows "contract I P (io_match (symlink_metadata os f)
     (\<lambda>e. if e = NotFound then io_return fresh_index else io_fail e1)
     (\<lambda>metadata.
        io_then (io_map_err (\<lambda>_. e2) (verify_private_file os f)) (\<lambda>_.
        if MAX_INDEX_BYTES < node_length metadata then io_fail e3
        else io_then (io_map_err (\<lambda>_. e4) (read_file os f))
          (\<lambda>bytes. case decode bytes of None \<Rightarrow> io_fail e5 | Some i \<Rightarrow> io_lift (check i))))) Q R"
proof (rule contract_match [where M = "\<lambda>n t. P t \<and> t f = Some n"
      and N = "\<lambda>e t. P t \<and> (e = NotFound \<longrightarrow> t f = None)"])
  show "contract I P (symlink_metadata os f) (\<lambda>n t. P t \<and> t f = Some n) (\<lambda>e t. P t \<and> (e = NotFound \<longrightarrow> t f = None))"
    by (rule contract_metadata_found [OF os]) (use I in auto)
  show "contract I (\<lambda>t. P t \<and> (e = NotFound \<longrightarrow> t f = None))
      (if e = NotFound then io_return fresh_index else io_fail e1) Q R" for e
    using Q R by (auto intro!: contract_return contract_fail simp: private_json_at_def)
  fix n
  let ?P = "\<lambda>t. P t \<and> t f = Some n"
  let ?M = "\<lambda>t. P t \<and> t f = Some n \<and> (\<exists>b m owner. n = File b m owner \<and> Bit_Operations.and m 511 = 384)"
  have verify: "contract I ?P (io_map_err (\<lambda>_. e2) (verify_private_file os f)) (\<lambda>_. ?M) R"
    by (rule contract_map_err, rule contract_verify_private_file) (use I R in auto)
  have read: "contract I ?M (io_map_err (\<lambda>_. e4) (read_file os f))
      (\<lambda>b t. ?M t \<and> (\<exists>m owner. n = File b m owner)) R"
    unfolding read_file_def by (rule contract_map_err, rule contract_query) (use I R in auto)
  have decoded: "contract I (\<lambda>t. ?M t \<and> (\<exists>m owner. n = File b m owner))
      (case decode b of None \<Rightarrow> io_fail e5 | Some i \<Rightarrow> io_lift (check i)) Q R"
    if "\<not> MAX_INDEX_BYTES < node_length n" for b
    using that R Q
    by (auto intro!: contract_fail contract_lift simp: check private_json_at_def node_length_def split: option.split)
  show "contract I ?P (io_then (io_map_err (\<lambda>_. e2) (verify_private_file os f)) (\<lambda>_.
        if MAX_INDEX_BYTES < node_length n then io_fail e3
        else io_then (io_map_err (\<lambda>_. e4) (read_file os f)) (\<lambda>bytes.
          case decode bytes of None \<Rightarrow> io_fail e5 | Some i \<Rightarrow> io_lift (check i)))) Q R"
    using R by (auto intro!: contract_then [OF verify] contract_then [OF read] decoded contract_fail)
qed

lemma contract_read_index:
  assumes "os_ok os" and "\<And>t. P t \<Longrightarrow> I t" and "\<And>t e. P t \<Longrightarrow> R e t"
    and "\<And>t i. P t \<Longrightarrow> index_at codec root t = Some i \<Longrightarrow> Q i t"
  shows "contract I P (read_index codec os root) Q R"
  unfolding read_index_def
  by (rule contract_read_private [OF assms(1-3) assms(4) [unfolded index_at_def] validate_index_Ok])

text \<open>A private file that is written; every other file that was there stays.\<close>

lemma contract_write_private:
  assumes "os_ok os" and "p \<noteq> []"
  shows "contract (\<lambda>_. True) (\<lambda>t. t = t0) (io_map_err f (write_atomic_private os p bytes))
    (\<lambda>_ t. t p = Some (File bytes 384 (os_user os)))
    (\<lambda>_ t. old_file p t0 t \<or> t p = Some (File bytes 384 (os_user os)))"
  by (rule contract_map_err, rule contract_weaken [OF contract_write_atomic_private [OF assms]])
    (auto simp: replaced_def replacing_def)

lemma write_private_keeps:
  assumes "os_ok os" and "p \<noteq> []" and "q \<noteq> p"
  shows "preserves (\<lambda>t. t q = Some n) (write_atomic_private os p bytes)"
proof -
  have "t q = Some n" if "replacing p bytes (os_user os) t0 t" "t0 q = Some n" for t0 t
    using that assms(3) by (auto simp: replacing_def)
  then have "contract (\<lambda>t. t q = Some n) (\<lambda>t. t = t0) (write_atomic_private os p bytes) (\<lambda>_ t. t q = Some n) (\<lambda>_ t. t q = Some n)"
    if "t0 q = Some n" for t0
    using that by (intro contract_weaken [OF contract_write_atomic_private [OF assms(1,2)]]) (auto intro: replaced_replacing)
  then show ?thesis unfolding preserves_def contract_def by blast
qed

lemma private_dir_keeps:
  assumes "\<not> prefix f root"
  shows "preserves (\<lambda>t. t f = n) (ensure_private_dir os root)"
proof -
  have make: "preserves (\<lambda>t. t f = n) (create_dir_all os root)"
    unfolding create_dir_all_def make_dir_def
    by (rule preserves_each, rule preserves_syscall) (use assms in \<open>auto split: if_splits\<close>)
  have "root \<noteq> f" using assms by auto
  then have perm: "preserves (\<lambda>t. t f = n) (set_permissions os root m)" for m
    unfolding set_permissions_def by (intro preserves_syscall) (auto split: option.splits node.splits)
  show ?thesis
    unfolding ensure_private_dir_def harden_path_def verify_private_dir_def
    by (auto intro!: preserves_intros make perm)
qed

lemma contract_write_index:
  assumes "os_ok os"
  shows "contract (\<lambda>_. True) (\<lambda>t. t = t0) (write_index codec os root i)
    (\<lambda>_ t. t (index_file root) = Some (File (ic_encode codec i @ [10]) 384 (os_user os)))
    (\<lambda>_ t. old_file (index_file root) t0 t \<or> t (index_file root) = Some (File (ic_encode codec i @ [10]) 384 (os_user os)))"
  unfolding write_index_def by (rule contract_write_private [OF assms]) (simp add: index_file_def)

lemma contract_pointwise: "(\<And>t. P t \<Longrightarrow> contract I (\<lambda>u. u = t) m Q R) \<Longrightarrow> contract I P m Q R"
  unfolding contract_def by blast

definition stored_index :: "index_codec \<Rightarrow> os \<Rightarrow> path \<Rightarrow> ownership_index \<Rightarrow> tree \<Rightarrow> bool" where
  "stored_index codec os root i t \<longleftrightarrow> t (index_file root) = Some (File (ic_encode codec i @ [10]) 384 (os_user os))"

lemma contract_pure: "contract I P m Q R \<Longrightarrow> contract I (\<lambda>t. P t \<and> A) m (\<lambda>a t. Q a t \<and> A) R"
  unfolding contract_def by (auto split: sum.splits)

lemma contract_commit:
  assumes os: "os_ok os"
  shows "contract (\<lambda>_. True) (\<lambda>t. t = t0) (ownership_commit codec os root r expected)
    (\<lambda>n t. \<exists>i i'. index_at codec root t0 = Some i \<and> validate_record r = Ok ()
      \<and> index_commit i r expected = Ok (n, i') \<and> stored_index codec os root i' t) (\<lambda>_ _. True)"
proof -
  let ?f = "index_file root" and ?I = "\<lambda>_ :: tree. True" and ?R = "\<lambda>(_ :: ownership_error) (_ :: tree). True"
  let ?same = "\<lambda>t. t ?f = t0 ?f" and ?valid = "validate_record r = Ok ()"
  let ?read = "\<lambda>i (_ :: tree). index_at codec root t0 = Some i \<and> ?valid"
  let ?new = "\<lambda>(n, i') (_ :: tree). \<exists>i. index_at codec root t0 = Some i \<and> ?valid \<and> index_commit i r expected = Ok (n, i')"
  have valid: "contract ?I (\<lambda>t. t = t0) (io_lift (validate_record r)) (\<lambda>_ t. ?same t \<and> ?valid) ?R"
    by (rule contract_lift) auto
  have "\<not> prefix ?f root" by (auto simp: index_file_def dest: prefix_length_le)
  then have dir: "contract ?I (\<lambda>t. ?same t \<and> ?valid) (io_map_err (\<lambda>_. DirectoryFailed) (ensure_private_dir os root))
      (\<lambda>_ t. ?same t \<and> ?valid) ?R"
    by (intro contract_pure contract_map_err contract_weaken [OF private_dir_keeps [unfolded preserves_def]]) auto
  have read: "contract ?I (\<lambda>t. ?same t \<and> ?valid) (read_index codec os root) ?read ?R"
    by (rule contract_read_index [OF os]) (simp_all, metis index_at_cong)
  have commit: "contract ?I (?read i) (io_lift (index_commit i r expected)) ?new ?R" for i
    by (rule contract_lift) auto
  have "contract ?I (?new (n, i')) (io_then (write_index codec os root i') (\<lambda>_. io_return n))
      (\<lambda>n t. \<exists>i i'. index_at codec root t0 = Some i \<and> ?valid
        \<and> index_commit i r expected = Ok (n, i') \<and> stored_index codec os root i' t) ?R" for n i'
  proof (rule contract_then [where M = "\<lambda>_ t. ?new (n, i') t \<and> stored_index codec os root i' t"])
    show "contract ?I (?new (n, i')) (write_index codec os root i') (\<lambda>_ t. ?new (n, i') t \<and> stored_index codec os root i' t) ?R"
      by (rule contract_pointwise, rule contract_weaken [OF contract_write_index [OF os]]) (auto simp: stored_index_def)
  qed (auto intro!: contract_return)
  then show ?thesis
    unfolding ownership_commit_def
    by (intro contract_then [OF valid] contract_then [OF dir] contract_then [OF read] contract_then [OF commit])
      (auto split: prod.split)
qed

lemma contract_remove:
  assumes os: "os_ok os"
  shows "contract (\<lambda>_. True) (\<lambda>t. t = t0) (ownership_remove codec os root key expected)
    (\<lambda>_ t. \<exists>i i'. index_at codec root t0 = Some i \<and> index_remove i key expected = Ok i' \<and> stored_index codec os root i' t)
    (\<lambda>_ _. True)"
proof -
  let ?I = "\<lambda>_ :: tree. True" and ?R = "\<lambda>(_ :: ownership_error) (_ :: tree). True"
  let ?read = "\<lambda>i (_ :: tree). index_at codec root t0 = Some i"
  let ?new = "\<lambda>i' (_ :: tree). \<exists>i. index_at codec root t0 = Some i \<and> index_remove i key expected = Ok i'"
  have read: "contract ?I (\<lambda>t. t = t0) (read_index codec os root) ?read ?R"
    by (rule contract_read_index [OF os]) auto
  have removal: "contract ?I (?read i) (io_lift (index_remove i key expected)) ?new ?R" for i
    by (rule contract_lift) auto
  have store: "contract ?I (?new i') (write_index codec os root i')
      (\<lambda>_ t. \<exists>i i'. index_at codec root t0 = Some i \<and> index_remove i key expected = Ok i' \<and> stored_index codec os root i' t) ?R" for i'
    by (rule contract_pointwise, rule contract_weaken [OF contract_write_index [OF os]]) (auto simp: stored_index_def)
  show ?thesis
    unfolding ownership_remove_def by (intro contract_then [OF read] contract_then [OF removal] store)
qed

text \<open>Reading what was stored: the decoder inverts the encoder, and the limit applies to readers only.\<close>

definition codec_ok :: "index_codec \<Rightarrow> ownership_index \<Rightarrow> bool" where
  "codec_ok codec i \<longleftrightarrow> ic_decode codec (ic_encode codec i @ [10]) = Some i"

lemma stored_index_at:
  assumes "codec_ok codec i" and "index_ok i" and "stored_index codec os root i t"
  shows "index_at codec root t = (if length (ic_encode codec i) < MAX_INDEX_BYTES then Some i else None)"
  using assms by (auto simp: stored_index_def index_at_unfold codec_ok_def)

text \<open>
  C21. The ownership store is a map with compare-and-swap: a commit that succeeds found the key at exactly
  the revision its caller expected, absent for none, stores the caller's record with nothing changed
  but its revision, one further on (1 for a new key), under the record's key, and leaves every other key as it was. The next reader sees the new map; but when the index has
  outgrown the two mebibytes a reader accepts, the commit succeeds all the same and no later
  operation can read the store.
\<close>

theorem ownership_compare_and_swap:
  assumes "os_ok os"
    and codec: "\<And>i n i'. index_at codec root (w_tree w) = Some i \<Longrightarrow> index_commit i r expected = Ok (n, i') \<Longrightarrow> codec_ok codec i'"
    and run: "ownership_commit codec os root r expected w = (Ok n, w')"
  shows "\<exists>i i'. index_at codec root (w_tree w) = Some i
    \<and> map_option ow_revision (index_lookup i (ownership_key r)) = expected
    \<and> n = r\<lparr>ow_revision := (case expected of None \<Rightarrow> 1 | Some m \<Rightarrow> sat_add m 1)\<rparr>
    \<and> index_lookup i' = (index_lookup i)(ownership_key r \<mapsto> n)
    \<and> index_at codec root (w_tree w') = (if length (ic_encode codec i') < MAX_INDEX_BYTES then Some i' else None)"
proof -
  obtain i i' where i: "index_at codec root (w_tree w) = Some i" and r: "validate_record r = Ok ()"
    and c: "index_commit i r expected = Ok (n, i')" and stored: "stored_index codec os root i' (w_tree w')"
    by (rule contractD [OF contract_commit [OF assms(1)] refl run]) auto
  from index.commit_Ok [OF index_at_ok [OF i] r c] stored_index_at [OF codec [OF i c] _ stored] i
  show ?thesis by (intro exI [of _ i] exI [of _ i']) simp
qed

definition example_record :: ownership_record where
  "example_record = \<lparr>ow_schema_version = 1, ow_revision = 0, ow_agent_id = ''codex'', ow_installation_path = ''/bin/codex'',
     ow_target_config_path = ''/d/k'', ow_connector_id = ''codex'', ow_baseline_snapshot_id = replicate 32 CHR ''a'',
     ow_last_transaction_snapshot_id = replicate 32 CHR ''a'', ow_before_hash = replicate 64 CHR ''0'',
     ow_managed_after_hash = replicate 64 CHR ''1'', ow_owned_paths = [[''model'']],
     ow_owned_value_macs = [(''/model'', ''ff'')], ow_companion_files = [], ow_acquired_at_ms = 1, ow_updated_at_ms = 1\<rparr>"

definition example_codec :: index_codec where
  "example_codec = \<lparr>ic_encode = (\<lambda>_. [1]),
     ic_decode = (\<lambda>_. Some \<lparr>oi_schema_version = 1, oi_records = [example_record\<lparr>ow_revision := 1\<rparr>]\<rparr>)\<rparr>"

definition example_commit :: "(ownership_error + ownership_record) \<times> world" where
  "example_commit = ownership_commit example_codec example_os [''d''] example_record None example_world"

lemma ownership_compare_and_swap_witness:
  "index_at example_codec [''d''] (w_tree (snd example_commit))
     = Some \<lparr>oi_schema_version = 1, oi_records = [example_record\<lparr>ow_revision := 1\<rparr>]\<rparr>
   \<and> index_at example_codec [''d''] (w_tree example_world) = Some empty_index"
proof -
  let ?n = "example_record\<lparr>ow_revision := 1\<rparr>"
  have "fst example_commit = Ok ?n" by code_simp
  then have run: "ownership_commit example_codec example_os [''d''] example_record None example_world = (Ok ?n, snd example_commit)"
    by (simp add: example_commit_def prod_eq_iff)
  have start: "index_at example_codec [''d''] (w_tree example_world) = Some empty_index" by code_simp
  have new: "index_commit empty_index example_record None = Ok (n, i') \<Longrightarrow> codec_ok example_codec i'" for n i'
    by (auto simp: index_commit_def index_lookup_def empty_index_def next_record_def codec_ok_def example_codec_def)
  have "\<exists>i i'. index_at example_codec [''d''] (w_tree example_world) = Some i
    \<and> map_option ow_revision (index_lookup i (ownership_key example_record)) = None
    \<and> ?n = example_record\<lparr>ow_revision := (case None of None \<Rightarrow> 1 | Some m \<Rightarrow> sat_add m 1)\<rparr>
    \<and> index_lookup i' = (index_lookup i)(ownership_key example_record \<mapsto> ?n)
    \<and> index_at example_codec [''d''] (w_tree (snd example_commit))
      = (if length (ic_encode example_codec i') < MAX_INDEX_BYTES then Some i' else None)"
    by (rule ownership_compare_and_swap [OF example_os_ok _ run]) (use start new in auto)
  moreover have "length (ic_encode example_codec i') < MAX_INDEX_BYTES" for i'
    by (simp add: example_codec_def MAX_INDEX_BYTES_def)
  ultimately obtain i' where i': "index_at example_codec [''d''] (w_tree (snd example_commit)) = Some i'"
    and "index_lookup i' (ownership_key example_record) = Some ?n" by auto
  then have "i' \<noteq> empty_index" by (auto simp: index_lookup_def empty_index_def)
  with i' start show ?thesis
    by (auto simp: index_at_unfold example_codec_def index_file_def split: option.splits node.splits if_splits)
qed

section \<open>What the codes say\<close>

lemma macs_get:
  assumes "distinct (map config_path_text paths)" and "p \<in> set paths"
  shows "bt_get (compute_macs_from_semantic s root paths key) (config_path_text p)
    = Some (hex_text (ms_hmac s key (mac_message s root p)))"
proof -
  let ?f = "\<lambda>p. (config_path_text p, hex_text (ms_hmac s key (mac_message s root p)))"
  have "compute_macs_from_semantic s root paths key = fold (\<lambda>(k, v). bt_insert k v) (map ?f paths) []"
    by (simp add: compute_macs_from_semantic_def fold_map comp_def)
  moreover have "map_of (rev (map ?f paths)) (config_path_text p) = Some (snd (?f p))"
  proof (rule map_of_is_SomeI)
    show "distinct (map fst (rev (map ?f paths)))" using assms(1) by (simp add: rev_map [symmetric] comp_def)
    show "(config_path_text p, snd (?f p)) \<in> set (rev (map ?f paths))" using assms(2) by auto
  qed
  ultimately show ?thesis by (simp add: bt.get_fold_put)
qed

text \<open>serde_json writes the two values of a path differently when they differ.\<close>

definition json_apart :: "mac_suite \<Rightarrow> json \<Rightarrow> json \<Rightarrow> config_path \<Rightarrow> bool" where
  "json_apart s a b p \<longleftrightarrow> length (config_path_text p) < 2 ^ 64
     \<and> (case (semantic_value_for_mac a p, semantic_value_for_mac b p) of
         (Some v, Some w) \<Rightarrow> length (ms_json s v) < 2 ^ 64 \<and> length (ms_json s w) < 2 ^ 64
           \<and> (v \<noteq> w \<longrightarrow> ms_json s v \<noteq> ms_json s w)
       | _ \<Rightarrow> True)"

lemma mac_message_inject:
  assumes "json_apart s a b p" and eq: "mac_message s a p = mac_message s b p"
  shows "semantic_value_for_mac a p = semantic_value_for_mac b p"
proof -
  have same: "encode_field x = encode_field y \<Longrightarrow> length x < 2 ^ 64 \<Longrightarrow> length y < 2 ^ 64 \<Longrightarrow> x = y" for x y
    using encode_field_inject [of x "[]" y "[]"] by simp
  have eq: "(case semantic_value_for_mac a p of Some v \<Rightarrow> 1 # encode_field (ms_json s v) | None \<Rightarrow> [0])
      = (case semantic_value_for_mac b p of Some v \<Rightarrow> 1 # encode_field (ms_json s v) | None \<Rightarrow> [0])"
    using assms(2) by (simp add: mac_message_def)
  show ?thesis
  proof (cases "semantic_value_for_mac a p"; cases "semantic_value_for_mac b p")
    fix v w assume v: "semantic_value_for_mac a p = Some v" "semantic_value_for_mac b p = Some w"
    from assms(1) have apart: "length (ms_json s v) < 2 ^ 64 \<and> length (ms_json s w) < 2 ^ 64
        \<and> (v \<noteq> w \<longrightarrow> ms_json s v \<noteq> ms_json s w)"
      unfolding json_apart_def prod.case option.case v by blast
    have "encode_field (ms_json s v) = encode_field (ms_json s w)"
      using eq v by (simp only: option.case list.inject)
    with same [of "ms_json s v" "ms_json s w"] apart have "v = w" by blast
    with v show ?thesis by simp
  qed (use eq in simp_all)
qed

text \<open>
  C22. The recorded codes stand for the owned values: as far as HMAC-SHA-256 does not collide on the
  messages and serde_json writes different values differently, two documents have the same codes if
  and only if they have the same value, or none, at every owned path, counting in a list of models
  only the entry Token Station put there.
\<close>

theorem macs_equal_iff_owned_equal:
  assumes "distinct (map config_path_text paths)" and json: "list_all (json_apart s a b) paths"
    and hmac: "\<And>p. p \<in> set paths \<Longrightarrow> ms_hmac s key (mac_message s a p) = ms_hmac s key (mac_message s b p) \<Longrightarrow>
      mac_message s a p = mac_message s b p"
  shows "compute_macs_from_semantic s a paths key = compute_macs_from_semantic s b paths key
    \<longleftrightarrow> list_all (\<lambda>p. semantic_value_for_mac a p = semantic_value_for_mac b p) paths"
proof
  assume eq: "compute_macs_from_semantic s a paths key = compute_macs_from_semantic s b paths key"
  have "semantic_value_for_mac a p = semantic_value_for_mac b p" if p: "p \<in> set paths" for p
  proof -
    have "ms_hmac s key (mac_message s a p) = ms_hmac s key (mac_message s b p)"
      using macs_get [OF assms(1) p, of s a key] macs_get [OF assms(1) p, of s b key] eq by (simp add: hex_text_inject)
    with mac_message_inject [OF _ hmac [OF p]] json p show ?thesis by (auto simp: list_all_iff)
  qed
  then show "list_all (\<lambda>p. semantic_value_for_mac a p = semantic_value_for_mac b p) paths" by (simp add: list_all_iff)
next
  assume "list_all (\<lambda>p. semantic_value_for_mac a p = semantic_value_for_mac b p) paths"
  then have "fold (\<lambda>p. bt_insert (config_path_text p) (hex_text (ms_hmac s key (mac_message s a p)))) paths m
      = fold (\<lambda>p. bt_insert (config_path_text p) (hex_text (ms_hmac s key (mac_message s b p)))) paths m" for m
    by (intro fold_cong) (auto simp: list_all_iff mac_message_def)
  then show "compute_macs_from_semantic s a paths key = compute_macs_from_semantic s b paths key"
    by (simp add: compute_macs_from_semantic_def)
qed

definition example_suite :: mac_suite where
  "example_suite = \<lparr>ms_hmac = (\<lambda>_ message. message), ms_json = (\<lambda>v. if v = JString ''a'' then [1] else [2])\<rparr>"

lemma macs_equal_iff_owned_equal_witness:
  "compute_macs_from_semantic example_suite example_current [[''model'']] []
    \<noteq> compute_macs_from_semantic example_suite example_baseline [[''model'']] []"
proof -
  have "list_all (json_apart example_suite example_current example_baseline) [[''model'']]" by code_simp
  moreover have "\<not> list_all (\<lambda>p. semantic_value_for_mac example_current p = semantic_value_for_mac example_baseline p) [[''model'']]"
    by code_simp
  ultimately show ?thesis
    using macs_equal_iff_owned_equal [of "[[''model'']]" example_suite example_current example_baseline "[]"]
    by (simp add: example_suite_def)
qed

end
