(* ===== verification/Snapshots.thy ===== *)
theory Snapshots
  imports Ownership
begin

text \<open>
  Encrypted copies of configuration files, taken before they are changed:
  \<open>apps/desktop/src-tauri/src/agent_integration/snapshot.rs\<close>. The store is a directory with an index,
  one envelope per snapshot, and a retention rule. AES-256-GCM, SHA-256, the JSON encodings and the order
  of a directory's entries are parameters; the lock makes the operations sequential.
\<close>

section \<open>Records\<close>

record snapshot_record =
  sr_schema_version :: u32
  sr_snapshot_id :: string
  sr_operation_id :: string
  sr_agent_id :: string
  sr_target_config_path :: string
  sr_envelope_hash :: string
  sr_before_hash :: string
  sr_original_existed :: bool
  sr_original_permissions :: "u32 option"
  sr_original_owner :: "string option"
  sr_created_at_ms :: u64
  sr_connector_id :: string
  sr_app_version :: string
  sr_pinned :: bool

record snapshot_request =
  rq_operation_id :: string
  rq_agent_id :: string
  rq_target_config_path :: string
  rq_before_hash :: string
  rq_source :: config_source
  rq_created_at_ms :: u64
  rq_connector_id :: string
  rq_app_version :: string
  rq_pinned :: bool

record snapshot_created =
  sc_record :: snapshot_record
  sc_maintenance_warning :: "string option"

record decrypted_snapshot =
  ds_record :: snapshot_record
  ds_exact_bytes :: "u8 list"

section \<open>Envelopes\<close>

definition SNAPSHOT_SCHEMA_VERSION :: u32 where
  "SNAPSHOT_SCHEMA_VERSION = 1"

definition SNAPSHOT_INDEX_SCHEMA_VERSION :: u32 where
  "SNAPSHOT_INDEX_SCHEMA_VERSION = 1"

definition ALGORITHM :: string where
  "ALGORITHM = ''AES-256-GCM''"

definition KEY_ID :: string where
  "KEY_ID = ''snapshot-master-key-v1''"

definition MAX_ENVELOPE_BYTES :: nat where
  "MAX_ENVELOPE_BYTES = 20 * 1024 * 1024"

definition RETAIN_UNPINNED_PER_TARGET :: nat where
  "RETAIN_UNPINNED_PER_TARGET = 5"

definition SNAPSHOT_RETENTION_MS :: u64 where
  "SNAPSHOT_RETENTION_MS = 7 * 24 * 60 * 60 * 1000"

definition TAG_LEN :: nat where
  "TAG_LEN = 16"

record snapshot_index =
  si_schema_version :: u32
  si_records :: "snapshot_record list"

record snapshot_envelope =
  se_schema_version :: u32
  se_algorithm :: string
  se_key_id :: string
  se_snapshot_id :: string
  se_operation_id :: string
  se_agent_id :: string
  se_target_config_path :: string
  se_before_hash :: string
  se_original_existed :: bool
  se_original_permissions :: "u32 option"
  se_original_owner :: "string option"
  se_created_at_ms :: u64
  se_connector_id :: string
  se_app_version :: string
  se_nonce_hex :: string
  se_ciphertext_hex :: string

definition envelope_aad :: "snapshot_envelope \<Rightarrow> u8 list" where
  "envelope_aad e = str_bytes ''token-station-snapshot-aad-v1'' @ [0]
     @ encode_field (be_bytes 4 (unat (se_schema_version e)))
     @ concat (map (\<lambda>s. encode_field (str_bytes s)) [se_algorithm e, se_key_id e, se_snapshot_id e, se_operation_id e,
         se_agent_id e, se_target_config_path e, se_before_hash e, se_connector_id e, se_app_version e])
     @ encode_field [if se_original_existed e then 1 else 0]
     @ encode_field (be_bytes 4 (unat (case se_original_permissions e of None \<Rightarrow> u_max | Some m \<Rightarrow> m)))
     @ encode_field (str_bytes (case se_original_owner e of None \<Rightarrow> [] | Some owner \<Rightarrow> owner))
     @ encode_field (be_bytes 8 (unat (se_created_at_ms e)))"

datatype snapshot_error = AgentIdInvalid | SnapshotIdInvalid | RequestInvalid | EnvelopeMismatch | HexInvalid
  | SnapshotSchemaUnsupported | IndexRecordInvalid | SnapshotDirectoryFailed | SnapshotIndexNotPrivate
  | SnapshotIndexTooLarge | SnapshotIndexUnreadable | SnapshotIndexNoJson | SnapshotIndexNoMetadata
  | SnapshotIndexNotWritten | ScanFailed | KeyUnavailable | KeyNotPrivate | KeyUnreadable | KeyLengthInvalid | KeyMissing
  | KeyNotGenerated | KeyNotWritten | IdNotGenerated | NonceNotGenerated | SealFailed | EnvelopeNotWritten
  | SnapshotMissing | EnvelopeNotPrivate | EnvelopeNoMetadata | EnvelopeTooLarge | EnvelopeUnreadable
  | EnvelopeHashMismatch | EnvelopeNoJson | NonceLengthInvalid | CiphertextTooShort | OpenFailed | RevisionMismatch
  | CleanupFailed | DirectoryNotRegular | DirectoryNotSynced | FileNotDeleted | LegacyConflict | LegacyNotMoved

definition lower_hex_char :: "char \<Rightarrow> bool" where
  "lower_hex_char c \<longleftrightarrow> (let n = of_char c :: nat in 48 \<le> n \<and> n \<le> 57 \<or> 97 \<le> n \<and> n \<le> 102)"

definition alphanumeric_char :: "char \<Rightarrow> bool" where
  "alphanumeric_char c \<longleftrightarrow>
     (let n = of_char c :: nat in 48 \<le> n \<and> n \<le> 57 \<or> 65 \<le> n \<and> n \<le> 90 \<or> 97 \<le> n \<and> n \<le> 122)"

definition valid_snapshot_id :: "string \<Rightarrow> bool" where
  "valid_snapshot_id s \<longleftrightarrow> length s = 32 \<and> list_all lower_hex_char s"

definition validate_snapshot_id :: "string \<Rightarrow> snapshot_error + unit" where
  "validate_snapshot_id s = ensure (valid_snapshot_id s) SnapshotIdInvalid"

definition validate_agent_id :: "string \<Rightarrow> snapshot_error + unit" where
  "validate_agent_id s = ensure
     (s \<noteq> [] \<and> length s \<le> 128 \<and> list_all (\<lambda>c. alphanumeric_char c \<or> c = CHR ''-'' \<or> c = CHR ''_'') s) AgentIdInvalid"

definition validate_request :: "snapshot_envelope \<Rightarrow> snapshot_error + unit" where
  "validate_request e =
     and_then (validate_snapshot_id (se_snapshot_id e)) (\<lambda>_.
     and_then (validate_agent_id (se_agent_id e)) (\<lambda>_.
     ensure (se_operation_id e \<noteq> [] \<and> se_agent_id e \<noteq> [] \<and> se_target_config_path e \<noteq> []
       \<and> length (se_before_hash e) = 64 \<and> se_connector_id e \<noteq> [] \<and> se_app_version e \<noteq> []) RequestInvalid))"

definition validate_envelope :: "snapshot_envelope \<Rightarrow> snapshot_record \<Rightarrow> snapshot_error + unit" where
  "validate_envelope e r =
     and_then (validate_request e) (\<lambda>_.
     ensure (se_schema_version e = SNAPSHOT_SCHEMA_VERSION \<and> se_algorithm e = ALGORITHM \<and> se_key_id e = KEY_ID
       \<and> se_snapshot_id e = sr_snapshot_id r \<and> se_operation_id e = sr_operation_id r \<and> se_agent_id e = sr_agent_id r
       \<and> se_target_config_path e = sr_target_config_path r \<and> se_before_hash e = sr_before_hash r
       \<and> se_original_existed e = sr_original_existed r \<and> se_original_permissions e = sr_original_permissions r
       \<and> se_original_owner e = sr_original_owner r \<and> se_created_at_ms e = sr_created_at_ms r
       \<and> se_connector_id e = sr_connector_id r \<and> se_app_version e = sr_app_version r) EnvelopeMismatch)"

fun validate_snapshot_records :: "string set \<Rightarrow> snapshot_record list \<Rightarrow> snapshot_error + unit" where
  "validate_snapshot_records seen [] = Ok ()"
| "validate_snapshot_records seen (r # rs) =
     and_then (validate_snapshot_id (sr_snapshot_id r)) (\<lambda>_.
     and_then (validate_agent_id (sr_agent_id r)) (\<lambda>_.
     if sr_schema_version r \<noteq> SNAPSHOT_SCHEMA_VERSION \<or> sr_snapshot_id r \<in> seen then Err IndexRecordInvalid
     else validate_snapshot_records (insert (sr_snapshot_id r) seen) rs))"

definition validate_snapshot_index :: "snapshot_index \<Rightarrow> snapshot_error + snapshot_index" where
  "validate_snapshot_index i =
     (if si_schema_version i \<noteq> SNAPSHOT_INDEX_SCHEMA_VERSION then Err SnapshotSchemaUnsupported
      else and_then (validate_snapshot_records {} (si_records i)) (\<lambda>_. Ok i))"

text \<open>Hexadecimal fields.\<close>

definition hex_value :: "char \<Rightarrow> snapshot_error + nat" where
  "hex_value c = (let n = of_char c :: nat in
     if 48 \<le> n \<and> n \<le> 57 then Ok (n - 48) else if 97 \<le> n \<and> n \<le> 102 then Ok (n - 97 + 10) else Err HexInvalid)"

fun decode_pairs :: "string \<Rightarrow> snapshot_error + u8 list" where
  "decode_pairs (a # b # s) = and_then (hex_value a) (\<lambda>high. and_then (hex_value b) (\<lambda>low.
     and_then (decode_pairs s) (\<lambda>bs. Ok (of_nat (high * 16 + low) # bs))))"
| "decode_pairs _ = Ok []"

definition decode_lower_hex :: "string \<Rightarrow> snapshot_error + u8 list" where
  "decode_lower_hex s = (if odd (length s) \<or> \<not> list_all lower_hex_char s then Err HexInvalid else decode_pairs s)"

section \<open>Retention\<close>

definition newest_first :: "snapshot_record list \<Rightarrow> snapshot_record list" where
  "newest_first = sort_key (\<lambda>r. (Reverse (sr_created_at_ms r), Reverse (sr_snapshot_id r)))"

definition snapshot_expired :: "u64 option \<Rightarrow> snapshot_record \<Rightarrow> bool" where
  "snapshot_expired now r \<longleftrightarrow> \<not> sr_pinned r
     \<and> (case now of None \<Rightarrow> False | Some t \<Rightarrow> SNAPSHOT_RETENTION_MS \<le> sat_sub t (sr_created_at_ms r))"

definition snapshot_group :: "snapshot_record \<Rightarrow> string \<times> string" where
  "snapshot_group r = (sr_agent_id r, sr_target_config_path r)"

definition eligible :: "snapshot_record list \<Rightarrow> string \<times> string \<Rightarrow> snapshot_record list" where
  "eligible rs g = newest_first (filter (\<lambda>r. \<not> sr_pinned r \<and> snapshot_group r = g) rs)"

definition prune_ids :: "u64 option \<Rightarrow> snapshot_record list \<Rightarrow> string set" where
  "prune_ids now rs = set (map sr_snapshot_id (filter (snapshot_expired now) rs))
     \<union> set (concat (map (\<lambda>g. map sr_snapshot_id (drop RETAIN_UNPINNED_PER_TARGET (eligible rs g)))
         (remdups (map snapshot_group rs))))"

definition removed_records :: "u64 option \<Rightarrow> snapshot_record list \<Rightarrow> snapshot_record list" where
  "removed_records now rs = filter (\<lambda>r. sr_snapshot_id r \<in> prune_ids now rs) rs"

section \<open>The store\<close>

record snapshot_store =
  ss_os :: os
  ss_root :: path
  ss_sha :: sha256
  ss_encode_index :: "snapshot_index \<Rightarrow> u8 list"
  ss_decode_index :: "u8 list \<Rightarrow> snapshot_index option"
  ss_encode_envelope :: "snapshot_envelope \<Rightarrow> u8 list"
  ss_decode_envelope :: "u8 list \<Rightarrow> snapshot_envelope option"
  ss_seal :: "u8 list \<Rightarrow> u8 list \<Rightarrow> u8 list \<Rightarrow> u8 list \<Rightarrow> u8 list option"
  ss_open :: "u8 list \<Rightarrow> u8 list \<Rightarrow> u8 list \<Rightarrow> u8 list \<Rightarrow> u8 list option"
  ss_load_or_create_key :: "bool \<Rightarrow> (snapshot_error, u8 list) io"
  ss_load_key :: "(snapshot_error, u8 list) io"
  ss_entries :: "tree \<Rightarrow> path \<Rightarrow> string list"

type_synonym 'a snapshot_io = "(snapshot_error, 'a) io"

definition snapshot_index_file :: "snapshot_store \<Rightarrow> path" where
  "snapshot_index_file st = ss_root st @ [''index.json'']"

definition sha256_hex :: "sha256 \<Rightarrow> u8 list \<Rightarrow> string" where
  "sha256_hex sha bs = hex_text (sha bs)"

definition empty_snapshot_index :: snapshot_index where
  "empty_snapshot_index = \<lparr>si_schema_version = SNAPSHOT_INDEX_SCHEMA_VERSION, si_records = []\<rparr>"

definition read_snapshot_index :: "snapshot_store \<Rightarrow> snapshot_index snapshot_io" where
  "read_snapshot_index st = io_match (symlink_metadata (ss_os st) (snapshot_index_file st))
     (\<lambda>e. if e = NotFound then io_return empty_snapshot_index else io_fail SnapshotIndexNoMetadata)
     (\<lambda>metadata.
        io_then (io_map_err (\<lambda>_. SnapshotIndexNotPrivate) (verify_private_file (ss_os st) (snapshot_index_file st))) (\<lambda>_.
        if MAX_INDEX_BYTES < node_length metadata then io_fail SnapshotIndexTooLarge
        else io_then (io_map_err (\<lambda>_. SnapshotIndexUnreadable) (read_file (ss_os st) (snapshot_index_file st))) (\<lambda>bytes.
          case ss_decode_index st bytes of
            None \<Rightarrow> io_fail SnapshotIndexNoJson
          | Some i \<Rightarrow> io_lift (validate_snapshot_index i))))"

definition write_snapshot_index :: "snapshot_store \<Rightarrow> snapshot_index \<Rightarrow> unit snapshot_io" where
  "write_snapshot_index st i = io_map_err (\<lambda>_. SnapshotIndexNotWritten)
     (write_atomic_private (ss_os st) (snapshot_index_file st) (ss_encode_index st i @ [10]))"

text \<open>The names of envelopes: in the directory of the agent now, in the root before.\<close>

definition legacy_envelope_path :: "snapshot_store \<Rightarrow> string \<Rightarrow> path" where
  "legacy_envelope_path st snapshot_id = ss_root st @ [snapshot_id @ ''.snapshot.json'']"

definition envelope_name :: "string \<Rightarrow> u64 \<Rightarrow> string \<Rightarrow> string" where
  "envelope_name agent_id created snapshot_id =
     decimal (unat created) @ ''-'' @ agent_id @ ''-'' @ snapshot_id @ ''.json''"

definition current_envelope_path_fields :: "snapshot_store \<Rightarrow> string \<Rightarrow> u64 \<Rightarrow> string \<Rightarrow> path" where
  "current_envelope_path_fields st agent_id created snapshot_id =
     ss_root st @ [agent_id, envelope_name agent_id created snapshot_id]"

definition current_envelope_path :: "snapshot_store \<Rightarrow> snapshot_record \<Rightarrow> path" where
  "current_envelope_path st r =
     current_envelope_path_fields st (sr_agent_id r) (sr_created_at_ms r) (sr_snapshot_id r)"

definition resolve_envelope_path :: "snapshot_store \<Rightarrow> snapshot_record \<Rightarrow> path snapshot_io" where
  "resolve_envelope_path st r = io_then (path_exists (current_envelope_path st r)) (\<lambda>there.
     io_return (if there then current_envelope_path st r else legacy_envelope_path st (sr_snapshot_id r)))"

text \<open>\<open>strip_suffix\<close>, and the part after the last separator: \<open>rsplit_once\<close>.\<close>

definition strip_text_suffix :: "string \<Rightarrow> string \<Rightarrow> string option" where
  "strip_text_suffix end s = (if suffix end s then Some (take (length s - length end) s) else None)"

definition after_last :: "char \<Rightarrow> string \<Rightarrow> string option" where
  "after_last c s = (if c \<in> set s then Some (rev (takeWhile (\<lambda>x. x \<noteq> c) (rev s))) else None)"

definition is_current_envelope_name :: "string \<Rightarrow> bool" where
  "is_current_envelope_name name = (case strip_text_suffix ''.json'' name of
      None \<Rightarrow> False
    | Some stem \<Rightarrow> (case after_last CHR ''-'' stem of None \<Rightarrow> False | Some i \<Rightarrow> valid_snapshot_id i))"

text \<open>\<open>read_dir\<close>: the entries of a directory with their types; a link is not followed.\<close>

definition read_dir :: "snapshot_store \<Rightarrow> path \<Rightarrow> (io_error, (string \<times> node option) list) io" where
  "read_dir st p = query (ss_os st) (\<lambda>t. if is_directory t p
     then Ok (map (\<lambda>n. (n, t (p @ [n]))) (ss_entries st t p)) else Err NotFound)"

fun any_envelope :: "snapshot_store \<Rightarrow> (string \<times> node option) list \<Rightarrow> bool snapshot_io" where
  "any_envelope st [] = io_return False"
| "any_envelope st ((name, entry) # rest) =
     (if (case entry of Some (File _ _ _) \<Rightarrow> suffix ''.snapshot.json'' name | _ \<Rightarrow> False) then io_return True
      else (case entry of
          Some (Directory _ _) \<Rightarrow>
            io_then (io_map_err (\<lambda>_. ScanFailed) (read_dir st (ss_root st @ [name]))) (\<lambda>inner.
              if list_ex (\<lambda>(n, e). (case e of Some (File _ _ _) \<Rightarrow> is_current_envelope_name n | _ \<Rightarrow> False)) inner
              then io_return True else any_envelope st rest)
        | _ \<Rightarrow> any_envelope st rest))"

definition has_envelope_files :: "snapshot_store \<Rightarrow> bool snapshot_io" where
  "has_envelope_files st = io_then (io_map_err (\<lambda>_. ScanFailed) (read_dir st (ss_root st))) (any_envelope st)"

text \<open>The tries that are left of the sixteen.\<close>

fun unique_snapshot_id :: "snapshot_store \<Rightarrow> snapshot_index \<Rightarrow> nat \<Rightarrow> string snapshot_io" where
  "unique_snapshot_id st i 0 = io_fail IdNotGenerated"
| "unique_snapshot_id st i (Suc tries) =
     io_then (io_map_err (\<lambda>_. IdNotGenerated) (random_bytes (ss_os st) 16)) (\<lambda>random.
       if list_ex (\<lambda>r. sr_snapshot_id r = hex_text random) (si_records i) then unique_snapshot_id st i tries
       else io_return (hex_text random))"

text \<open>A directory that is there must be a directory, not a link.\<close>

definition check_directory :: "snapshot_store \<Rightarrow> path \<Rightarrow> unit snapshot_io" where
  "check_directory st p = io_match (symlink_metadata (ss_os st) p)
     (\<lambda>e. if e = NotFound then io_return () else io_fail DirectoryNotRegular)
     (\<lambda>n. if is_dir n then io_return () else io_fail DirectoryNotRegular)"

definition remove_envelope :: "snapshot_store \<Rightarrow> path \<Rightarrow> unit snapshot_io" where
  "remove_envelope st p =
     io_then (io_each (check_directory st) [ss_root st, butlast p]) (\<lambda>_.
     io_match (remove_file (ss_os st) p)
       (\<lambda>e. if e = NotFound then io_return () else io_fail FileNotDeleted)
       (\<lambda>_. io_map_err (\<lambda>_. DirectoryNotSynced) (sync_parent (ss_os st) (butlast p))))"

definition remove_envelopes :: "snapshot_store \<Rightarrow> snapshot_record \<Rightarrow> unit snapshot_io" where
  "remove_envelopes st r = io_each (remove_envelope st)
     [current_envelope_path st r, legacy_envelope_path st (sr_snapshot_id r)]"

text \<open>The identifiers whose envelopes are gone; an envelope that could not be deleted stays indexed.\<close>

fun delete_each :: "snapshot_store \<Rightarrow> snapshot_record list \<Rightarrow> (bool \<times> string list) snapshot_io" where
  "delete_each st [] = io_return (False, [])"
| "delete_each st (r # rs) = io_match (remove_envelopes st r)
     (\<lambda>_. io_then (delete_each st rs) (\<lambda>(failed, deleted). io_return (True, deleted)))
     (\<lambda>_. io_then (delete_each st rs) (\<lambda>(failed, deleted). io_return (failed, sr_snapshot_id r # deleted)))"

definition without_ids :: "string list \<Rightarrow> snapshot_index \<Rightarrow> snapshot_index" where
  "without_ids ids i = i\<lparr>si_records := filter (\<lambda>r. sr_snapshot_id r \<notin> set ids) (si_records i)\<rparr>"

definition prune :: "snapshot_store \<Rightarrow> u64 option \<Rightarrow> snapshot_index \<Rightarrow> unit snapshot_io" where
  "prune st now i = (if prune_ids now (si_records i) = {} then io_return ()
     else io_then (delete_each st (removed_records now (si_records i))) (\<lambda>(failed, deleted).
       io_then (if deleted \<noteq> [] then write_snapshot_index st (without_ids deleted i) else io_return ()) (\<lambda>_.
       if failed then io_fail CleanupFailed else io_return ())))"

definition request_envelope :: "snapshot_request \<Rightarrow> string \<Rightarrow> u8 list \<Rightarrow> snapshot_envelope" where
  "request_envelope rq snapshot_id nonce = \<lparr>se_schema_version = SNAPSHOT_SCHEMA_VERSION, se_algorithm = ALGORITHM,
     se_key_id = KEY_ID, se_snapshot_id = snapshot_id, se_operation_id = rq_operation_id rq, se_agent_id = rq_agent_id rq,
     se_target_config_path = rq_target_config_path rq, se_before_hash = rq_before_hash rq,
     se_original_existed = cs_existed (rq_source rq), se_original_permissions = cs_permissions (rq_source rq),
     se_original_owner = cs_owner (rq_source rq), se_created_at_ms = rq_created_at_ms rq,
     se_connector_id = rq_connector_id rq, se_app_version = rq_app_version rq, se_nonce_hex = hex_text nonce,
     se_ciphertext_hex = []\<rparr>"

definition record_of_request :: "snapshot_request \<Rightarrow> string \<Rightarrow> string \<Rightarrow> snapshot_record" where
  "record_of_request rq snapshot_id hash = \<lparr>sr_schema_version = SNAPSHOT_SCHEMA_VERSION, sr_snapshot_id = snapshot_id,
     sr_operation_id = rq_operation_id rq, sr_agent_id = rq_agent_id rq, sr_target_config_path = rq_target_config_path rq,
     sr_envelope_hash = hash, sr_before_hash = rq_before_hash rq,
     sr_original_existed = cs_existed (rq_source rq), sr_original_permissions = cs_permissions (rq_source rq),
     sr_original_owner = cs_owner (rq_source rq), sr_created_at_ms = rq_created_at_ms rq,
     sr_connector_id = rq_connector_id rq, sr_app_version = rq_app_version rq, sr_pinned = rq_pinned rq\<rparr>"

text \<open>Pruning fails in two ways; the text of the second is not ASCII in the source.\<close>

definition maintenance_text :: "snapshot_error \<Rightarrow> string" where
  "maintenance_text e = (if e = CleanupFailed then ''Snapshot cleanup failed. Failed entries will be retried.''
     else ''snapshot index not written'')"

text \<open>The index with the new record; a failure takes the envelope back, as far as that works.\<close>

definition publish_record :: "snapshot_store \<Rightarrow> path \<Rightarrow> snapshot_index \<Rightarrow> unit snapshot_io" where
  "publish_record st p i = io_match (write_snapshot_index st i)
     (\<lambda>e. io_match (remove_file (ss_os st) p)
        (\<lambda>_. io_match (sync_parent (ss_os st) (ss_root st)) (\<lambda>_. io_fail e) (\<lambda>_. io_fail e))
        (\<lambda>_. io_match (sync_parent (ss_os st) (ss_root st)) (\<lambda>_. io_fail e) (\<lambda>_. io_fail e)))
     io_return"

text \<open>From the envelope to the record in the index.\<close>

definition keep_envelope ::
  "snapshot_store \<Rightarrow> snapshot_request \<Rightarrow> snapshot_index \<Rightarrow> string \<Rightarrow> u8 list \<Rightarrow> snapshot_created snapshot_io"
where
  "keep_envelope st rq i snapshot_id rendered =
     (let record = record_of_request rq snapshot_id (sha256_hex (ss_sha st) rendered);
          p = current_envelope_path_fields st (rq_agent_id rq) (rq_created_at_ms rq) snapshot_id;
          i = i\<lparr>si_records := si_records i @ [record]\<rparr> in
      io_then (io_map_err (\<lambda>_. SnapshotDirectoryFailed) (ensure_private_dir (ss_os st) (ss_root st @ [rq_agent_id rq]))) (\<lambda>_.
      io_then (io_map_err (\<lambda>_. EnvelopeNotWritten) (write_atomic_private (ss_os st) p rendered)) (\<lambda>_.
      io_then (publish_record st p i) (\<lambda>_.
      io_match (prune st (Some (rq_created_at_ms rq)) i)
        (\<lambda>e. io_return \<lparr>sc_record = record, sc_maintenance_warning = Some (maintenance_text e)\<rparr>)
        (\<lambda>_. io_return \<lparr>sc_record = record, sc_maintenance_warning = None\<rparr>)))))"

definition store_envelope ::
  "snapshot_store \<Rightarrow> snapshot_request \<Rightarrow> snapshot_index \<Rightarrow> u8 list \<Rightarrow> string \<Rightarrow> u8 list \<Rightarrow> snapshot_created snapshot_io"
where
  "store_envelope st rq i key snapshot_id nonce =
     (let envelope = request_envelope rq snapshot_id nonce in
      io_then (io_lift (validate_request envelope)) (\<lambda>_.
      case ss_seal st key nonce (envelope_aad envelope) (cs_bytes (rq_source rq)) of
        None \<Rightarrow> io_fail SealFailed
      | Some ciphertext \<Rightarrow> keep_envelope st rq i snapshot_id
          (ss_encode_envelope st (envelope\<lparr>se_ciphertext_hex := hex_text ciphertext\<rparr>) @ [10])))"

definition snapshot_create :: "snapshot_store \<Rightarrow> snapshot_request \<Rightarrow> snapshot_created snapshot_io" where
  "snapshot_create st rq =
     io_then (io_lift (validate_agent_id (rq_agent_id rq))) (\<lambda>_.
     io_then (io_map_err (\<lambda>_. SnapshotDirectoryFailed) (ensure_private_dir (ss_os st) (ss_root st))) (\<lambda>_.
     io_then (read_snapshot_index st) (\<lambda>i.
     io_then (if si_records i = [] then io_then (has_envelope_files st) (\<lambda>there. io_return (\<not> there))
       else io_return False) (\<lambda>allow.
     io_then (ss_load_or_create_key st allow) (\<lambda>key.
     io_then (unique_snapshot_id st i 16) (\<lambda>snapshot_id.
     io_then (io_map_err (\<lambda>_. NonceNotGenerated) (random_bytes (ss_os st) 12)) (\<lambda>nonce.
     store_envelope st rq i key snapshot_id nonce)))))))"

text \<open>Decryption of an envelope that was read, bound to its record.\<close>

definition open_envelope :: "snapshot_store \<Rightarrow> snapshot_record \<Rightarrow> snapshot_envelope \<Rightarrow> decrypted_snapshot snapshot_io" where
  "open_envelope st r e =
     io_then (io_lift (validate_envelope e r)) (\<lambda>_.
     io_then (io_lift (decode_lower_hex (se_nonce_hex e))) (\<lambda>nonce.
     if length nonce \<noteq> 12 then io_fail NonceLengthInvalid
     else io_then (io_lift (decode_lower_hex (se_ciphertext_hex e))) (\<lambda>ciphertext.
     if length ciphertext < TAG_LEN then io_fail CiphertextTooShort
     else io_then (ss_load_key st) (\<lambda>key.
     case ss_open st key nonce (envelope_aad e) ciphertext of
       None \<Rightarrow> io_fail OpenFailed
     | Some plaintext \<Rightarrow>
         if text_revision_hash (ss_sha st) (sr_target_config_path r)
             \<lparr>cs_existed = sr_original_existed r, cs_bytes = plaintext,
              cs_permissions = sr_original_permissions r, cs_owner = sr_original_owner r\<rparr> \<noteq> sr_before_hash r
         then io_fail RevisionMismatch
         else io_return \<lparr>ds_record = r, ds_exact_bytes = plaintext\<rparr>))))"

definition snapshot_load :: "snapshot_store \<Rightarrow> string \<Rightarrow> decrypted_snapshot snapshot_io" where
  "snapshot_load st snapshot_id =
     io_then (io_lift (validate_snapshot_id snapshot_id)) (\<lambda>_.
     io_then (read_snapshot_index st) (\<lambda>i.
     case find (\<lambda>r. sr_snapshot_id r = snapshot_id) (si_records i) of
       None \<Rightarrow> io_fail SnapshotMissing
     | Some r \<Rightarrow>
         io_then (resolve_envelope_path st r) (\<lambda>p.
         io_then (io_map_err (\<lambda>_. EnvelopeNotPrivate) (verify_private_file (ss_os st) p)) (\<lambda>_.
         io_then (io_map_err (\<lambda>_. EnvelopeNoMetadata) (symlink_metadata (ss_os st) p)) (\<lambda>metadata.
         if MAX_ENVELOPE_BYTES < node_length metadata then io_fail EnvelopeTooLarge
         else io_then (io_map_err (\<lambda>_. EnvelopeUnreadable) (read_file (ss_os st) p)) (\<lambda>rendered.
         if sha256_hex (ss_sha st) rendered \<noteq> sr_envelope_hash r then io_fail EnvelopeHashMismatch
         else (case ss_decode_envelope st rendered of
           None \<Rightarrow> io_fail EnvelopeNoJson
         | Some e \<Rightarrow> open_envelope st r e)))))))"

definition snapshot_list :: "snapshot_store \<Rightarrow> string \<Rightarrow> string \<Rightarrow> snapshot_record list snapshot_io" where
  "snapshot_list st agent_id target = io_then (read_snapshot_index st) (\<lambda>i. io_return
     (newest_first (filter (\<lambda>r. sr_agent_id r = agent_id \<and> sr_target_config_path r = target) (si_records i))))"

definition snapshot_list_agent :: "snapshot_store \<Rightarrow> string \<Rightarrow> snapshot_record list snapshot_io" where
  "snapshot_list_agent st agent_id = io_then (read_snapshot_index st) (\<lambda>i. io_return
     (newest_first (filter (\<lambda>r. sr_agent_id r = agent_id) (si_records i))))"

fun pin_first :: "string \<Rightarrow> bool \<Rightarrow> snapshot_record list \<Rightarrow> snapshot_record list option" where
  "pin_first snapshot_id pinned [] = None"
| "pin_first snapshot_id pinned (r # rs) = (if sr_snapshot_id r = snapshot_id then Some (r\<lparr>sr_pinned := pinned\<rparr> # rs)
     else (case pin_first snapshot_id pinned rs of None \<Rightarrow> None | Some rs \<Rightarrow> Some (r # rs)))"

definition snapshot_set_pinned :: "snapshot_store \<Rightarrow> string \<Rightarrow> bool \<Rightarrow> unit snapshot_io" where
  "snapshot_set_pinned st snapshot_id pinned =
     io_then (io_lift (validate_snapshot_id snapshot_id)) (\<lambda>_.
     io_then (read_snapshot_index st) (\<lambda>i.
     case pin_first snapshot_id pinned (si_records i) of
       None \<Rightarrow> io_fail SnapshotMissing
     | Some rs \<Rightarrow>
         (let i = i\<lparr>si_records := rs\<rparr> in
          io_then (write_snapshot_index st i) (\<lambda>_. if pinned then io_return () else prune st None i))))"

definition prune_expired :: "snapshot_store \<Rightarrow> u64 \<Rightarrow> unit snapshot_io" where
  "prune_expired st now = io_then (path_exists (ss_root st)) (\<lambda>there.
     if \<not> there then io_return ()
     else io_then (read_snapshot_index st) (prune st (Some now)))"

text \<open>The master key in a file, the store of keys that the application uses.\<close>

definition read_key_file :: "os \<Rightarrow> path \<Rightarrow> u8 list snapshot_io" where
  "read_key_file os p =
     io_then (io_map_err (\<lambda>_. KeyNotPrivate) (verify_private_file os p)) (\<lambda>_.
     io_then (io_map_err (\<lambda>_. KeyUnreadable) (read_file os p)) (\<lambda>raw.
     if length raw = 32 then io_return raw else io_fail KeyLengthInvalid))"

definition load_or_create_key :: "os \<Rightarrow> path \<Rightarrow> bool \<Rightarrow> u8 list snapshot_io" where
  "load_or_create_key os p allow = io_then (path_exists p) (\<lambda>there.
     if there then read_key_file os p
     else if \<not> allow then io_fail KeyMissing
     else io_then (io_map_err (\<lambda>_. KeyNotGenerated) (random_bytes os 32)) (\<lambda>generated.
       io_then (io_map_err (\<lambda>_. KeyNotWritten) (write_atomic_private os p generated)) (\<lambda>_. io_return generated)))"

text \<open>Envelopes of the former layout, moved one by one; each failure is a warning.\<close>

definition migrate_legacy_envelope :: "snapshot_store \<Rightarrow> snapshot_record \<Rightarrow> bool snapshot_io" where
  "migrate_legacy_envelope st r =
     (let legacy = legacy_envelope_path st (sr_snapshot_id r); current = current_envelope_path st r;
          agent_dir = ss_root st @ [sr_agent_id r] in
      io_match (symlink_metadata (ss_os st) legacy)
        (\<lambda>e. if e = NotFound then io_return False else io_fail EnvelopeNoMetadata)
        (\<lambda>metadata.
          io_then (io_map_err (\<lambda>_. EnvelopeNotPrivate) (verify_private_file (ss_os st) legacy)) (\<lambda>_.
          if MAX_ENVELOPE_BYTES < node_length metadata then io_fail EnvelopeTooLarge
          else io_then (io_map_err (\<lambda>_. EnvelopeUnreadable) (read_file (ss_os st) legacy)) (\<lambda>bytes.
          if sha256_hex (ss_sha st) bytes \<noteq> sr_envelope_hash r then io_fail EnvelopeHashMismatch
          else io_then (io_map_err (\<lambda>_. SnapshotDirectoryFailed) (ensure_private_dir (ss_os st) agent_dir)) (\<lambda>_.
          io_then (path_exists current) (\<lambda>there.
          io_then
            (if there
             then io_then (io_map_err (\<lambda>_. EnvelopeNotPrivate) (verify_private_file (ss_os st) current)) (\<lambda>_.
               io_then (io_map_err (\<lambda>_. EnvelopeUnreadable) (read_file (ss_os st) current)) (\<lambda>bytes.
               if sha256_hex (ss_sha st) bytes \<noteq> sr_envelope_hash r then io_fail LegacyConflict
               else io_map_err (\<lambda>_. FileNotDeleted) (remove_file (ss_os st) legacy)))
             else io_map_err (\<lambda>_. LegacyNotMoved) (rename (ss_os st) legacy current)) (\<lambda>_.
          io_then (io_map_err (\<lambda>_. DirectoryNotSynced) (sync_parent (ss_os st) agent_dir)) (\<lambda>_.
          io_then (io_map_err (\<lambda>_. DirectoryNotSynced) (sync_parent (ss_os st) (ss_root st))) (\<lambda>_.
          io_return True)))))))))"

fun migrate_each :: "snapshot_store \<Rightarrow> snapshot_record list \<Rightarrow> (nat \<times> (string \<times> snapshot_error) list) snapshot_io" where
  "migrate_each st [] = io_return (0, [])"
| "migrate_each st (r # rs) = io_match (migrate_legacy_envelope st r)
     (\<lambda>e. io_then (migrate_each st rs) (\<lambda>(n, ws). io_return (n, (sr_snapshot_id r, e) # ws)))
     (\<lambda>moved. io_then (migrate_each st rs) (\<lambda>(n, ws). io_return (if moved then n + 1 else n, ws)))"

definition organize_legacy_layout :: "snapshot_store \<Rightarrow> (nat \<times> (string \<times> snapshot_error) list) snapshot_io" where
  "organize_legacy_layout st = io_then (path_exists (ss_root st)) (\<lambda>there.
     if \<not> there then io_return (0, [])
     else io_then (read_snapshot_index st) (\<lambda>i. migrate_each st (si_records i)))"

section \<open>What retention removes\<close>












end
