(* ===== verification/Transaction.thy ===== *)
theory Transaction
  imports Ownership Snapshots
begin

text \<open>
  Changing an agent's configuration as a transaction,
  \<open>apps/desktop/src-tauri/src/agent_integration/transaction.rs\<close>: a confirmed plan is applied to one
  file and its companions, checked on disk, and committed to the ownership store, or the files are
  put back. The stores, the keys, the writer, the verifier and the clock are the trait objects of the
  engine: fields of \<open>services\<close> over a state of their own; so are the codec of configuration documents
  and the hash functions. The operation lock makes the engine sequential.
\<close>

section \<open>Vocabulary\<close>

datatype plan_intent = Connect | Disconnect | Restore

datatype transaction_stage = ConfirmationStage | AdmissionStage | OwnershipStage | RevisionStage | SnapshotStage
  | TargetWrite | PostWriteRead | PostWriteParse | PostWriteSelfCheck | OwnershipCommit | RestoreStage

datatype recovery_status = NotRequired | Restored | RepairRequired

record transaction_failure =
  tf_operation_id :: string
  tf_stage :: transaction_stage
  tf_reason_code :: string
  tf_recovery :: recovery_status
  tf_recovery_reason_code :: "string option"

record transaction_outcome =
  to_operation_id :: string
  to_agent_id :: string
  to_target_config_path :: string
  to_before_hash :: string
  to_after_hash :: string
  to_snapshot_id :: string
  to_ownership_revision :: u64
  to_maintenance_warning :: "string option"

datatype compatibility_status = NotDetected | DetectedVerified | DetectedUnknown | DetectedBlocked
  | InstalledBroken | MultipleInstallations | Connected

datatype confirmation_kind = ConfirmInstallation | ConfirmTargetConfig | ConfirmConfigurationDiff

record confirmed_operation =
  cf_operation_id :: string
  cf_confirmed_at_ms :: u64
  cf_confirmations :: "confirmation_kind list"

record runtime_admission =
  ra_compatibility_sequence :: u64
  ra_status :: compatibility_status

text \<open>A file of a plan, and the plan. A target is its path; \<open>path_text\<close> of it is in the records.\<close>

record file_projection =
  fp_target :: path
  fp_existed :: bool
  fp_before_hash :: string
  fp_expected_after_hash :: string
  fp_projected_bytes :: "u8 list"
  fp_format :: document_format
  fp_label :: string
  fp_owned_paths :: "config_path list"
  fp_sensitive_paths :: "config_path list"

datatype ownership_disposition = RemoveOwnership | UpdateOwnership

record prepared_plan =
  pp_operation_id :: string
  pp_intent :: plan_intent
  pp_agent_id :: string
  pp_installation_path :: string
  pp_connector_id :: string
  pp_status :: compatibility_status
  pp_sequence :: u64
  pp_compatibility_expires_at_ms :: "u64 option"
  pp_created_at_ms :: u64
  pp_expires_at_ms :: u64
  pp_required_confirmations :: "confirmation_kind list"
  pp_primary :: file_projection
  pp_ownership :: "(ownership_record \<times> ownership_disposition) option"
  pp_companions :: "file_projection list"

text \<open>All files of a plan, in the order they are written.\<close>

definition plan_files :: "prepared_plan \<Rightarrow> file_projection list" where
  "plan_files plan = pp_primary plan # pp_companions plan"

section \<open>Computations that keep a state\<close>

type_synonym ('s, 'e, 'a) run = "'s \<Rightarrow> ('e + 'a) \<times> 's"

definition run_return :: "'a \<Rightarrow> ('s, 'e, 'a) run" where
  "run_return a s = (Ok a, s)"

definition run_fail :: "'e \<Rightarrow> ('s, 'e, 'a) run" where
  "run_fail e s = (Err e, s)"

definition run_match :: "('s, 'e, 'a) run \<Rightarrow> ('e \<Rightarrow> ('s, 'f, 'b) run) \<Rightarrow> ('a \<Rightarrow> ('s, 'f, 'b) run) \<Rightarrow> ('s, 'f, 'b) run" where
  "run_match m g f s = (case m s of (Inl e, s) \<Rightarrow> g e s | (Inr a, s) \<Rightarrow> f a s)"

definition run_then :: "('s, 'e, 'a) run \<Rightarrow> ('a \<Rightarrow> ('s, 'e, 'b) run) \<Rightarrow> ('s, 'e, 'b) run" where
  "run_then m f = run_match m run_fail f"

text \<open>\<open>m.map_err(|_| e)?\<close>.\<close>

definition or_fail :: "('s, 'e, 'a) run \<Rightarrow> 'f \<Rightarrow> ('s, 'f, 'a) run" where
  "or_fail m e = run_match m (\<lambda>_. run_fail e) run_return"

definition run_lift :: "'e + 'a \<Rightarrow> ('s, 'e, 'a) run" where
  "run_lift r s = (r, s)"

text \<open>The world of files, the state of the services, and the operations consumed so far.\<close>

record 'x engine_state =
  es_world :: world
  es_services :: 'x
  es_consumed :: "string list"

definition on_files :: "('e, 'a) io \<Rightarrow> ('x engine_state, 'e, 'a) run" where
  "on_files m s = (case m (es_world s) of (r, w) \<Rightarrow> (r, s\<lparr>es_world := w\<rparr>))"

definition on_services :: "('x \<Rightarrow> ('e + 'a) \<times> 'x) \<Rightarrow> ('x engine_state, 'e, 'a) run" where
  "on_services m s = (case m (es_services s) of (r, x) \<Rightarrow> (r, s\<lparr>es_services := x\<rparr>))"

section \<open>Services\<close>

record ('x, 'd) services =
  sv_os :: os
  sv_sha :: sha256
  sv_suite :: mac_suite
  sv_app_version :: string
  sv_parse :: "u8 list option \<Rightarrow> document_format \<Rightarrow> string \<Rightarrow> 'd option"
  sv_semantic :: "'d \<Rightarrow> patch_error + json"
  sv_snapshot_create :: "snapshot_request \<Rightarrow> 'x \<Rightarrow> (unit + snapshot_created) \<times> 'x"
  sv_snapshot_load :: "string \<Rightarrow> 'x \<Rightarrow> (unit + decrypted_snapshot) \<times> 'x"
  sv_set_pinned :: "string \<Rightarrow> bool \<Rightarrow> 'x \<Rightarrow> (unit + unit) \<times> 'x"
  sv_ownership_load :: "ownership_key \<Rightarrow> 'x \<Rightarrow> (unit + ownership_record option) \<times> 'x"
  sv_ownership_commit :: "ownership_record \<Rightarrow> u64 option \<Rightarrow> 'x \<Rightarrow> (unit + ownership_record) \<times> 'x"
  sv_ownership_remove :: "ownership_key \<Rightarrow> u64 \<Rightarrow> 'x \<Rightarrow> (unit + unit) \<times> 'x"
  sv_key_load :: "'x \<Rightarrow> (unit + u8 list) \<times> 'x"
  sv_replace :: "os \<Rightarrow> path \<Rightarrow> u8 list \<Rightarrow> u32 option \<Rightarrow> string option \<Rightarrow> string \<Rightarrow> bool \<Rightarrow> (atomic_write_failure, unit) io"
  sv_remove :: "os \<Rightarrow> path \<Rightarrow> string \<Rightarrow> bool \<Rightarrow> (atomic_write_failure, unit) io"
  sv_verify :: "path \<Rightarrow> 'd \<Rightarrow> 'x \<Rightarrow> (unit + unit) \<times> 'x"
  sv_now :: "'x \<Rightarrow> u64 \<times> 'x"

type_synonym ('x, 'a) tx = "('x engine_state, transaction_failure, 'a) run"

definition failure :: "prepared_plan \<Rightarrow> transaction_stage \<Rightarrow> string \<Rightarrow> transaction_failure" where
  "failure plan stage reason = \<lparr>tf_operation_id = pp_operation_id plan, tf_stage = stage,
     tf_reason_code = reason, tf_recovery = NotRequired, tf_recovery_reason_code = None\<rparr>"

fun atomic_reason :: "atomic_write_stage \<Rightarrow> string" where
  "atomic_reason ParentCreate = ''target_parent_create_failed''"
| "atomic_reason TempCreate = ''target_temp_create_failed''"
| "atomic_reason TempWrite = ''target_temp_write_failed''"
| "atomic_reason TempFlush = ''target_temp_flush_failed''"
| "atomic_reason TempFsync = ''target_temp_fsync_failed''"
| "atomic_reason Permission = ''target_permission_restore_failed''"
| "atomic_reason PreReplaceRevision = ''target_changed_before_replace''"
| "atomic_reason Replace = ''target_atomic_replace_failed''"
| "atomic_reason DirectoryFsync = ''target_directory_fsync_failed''"
| "atomic_reason Remove = ''target_remove_failed''"

section \<open>Before anything changes\<close>

definition validate_confirmation :: "prepared_plan \<Rightarrow> confirmed_operation \<Rightarrow> u64 \<Rightarrow> transaction_failure + unit" where
  "validate_confirmation plan confirmation now = ensure
     (cf_operation_id confirmation = pp_operation_id plan
      \<and> pp_created_at_ms plan \<le> cf_confirmed_at_ms confirmation
      \<and> cf_confirmed_at_ms confirmation \<le> pp_expires_at_ms plan
      \<and> now \<le> pp_expires_at_ms plan
      \<and> list_all (\<lambda>k. k \<in> set (cf_confirmations confirmation)) (pp_required_confirmations plan))
     (failure plan ConfirmationStage ''confirmation_missing_mismatched_or_expired'')"

definition validate_admission :: "prepared_plan \<Rightarrow> runtime_admission \<Rightarrow> u64 \<Rightarrow> transaction_failure + unit" where
  "validate_admission plan admission now =
     (let status_allowed =
        (if pp_intent plan = Connect
         then ra_status admission = DetectedVerified \<and> ra_status admission = pp_status plan
           \<and> (case pp_compatibility_expires_at_ms plan of None \<Rightarrow> True | Some expiry \<Rightarrow> now < expiry)
         else ra_status admission = pp_status plan)
      in ensure (ra_compatibility_sequence admission = pp_sequence plan \<and> status_allowed)
        (failure plan AdmissionStage ''compatibility_changed_or_blocked''))"

definition plan_key :: "prepared_plan \<Rightarrow> ownership_key" where
  "plan_key plan = (pp_agent_id plan, pp_installation_path plan, path_text (fp_target (pp_primary plan)))"

definition check_active :: "prepared_plan \<Rightarrow> ownership_record option \<Rightarrow> transaction_failure + unit" where
  "check_active plan active = (case (pp_intent plan, active, pp_ownership plan) of
      (Connect, None, None) \<Rightarrow> Ok ()
    | (Connect, _, _) \<Rightarrow> Err (failure plan OwnershipStage ''ownership_already_active'')
    | (_, Some active, Some (record, _)) \<Rightarrow>
        ensure (ow_revision active = ow_revision record \<and> ownership_key active = ownership_key record)
          (failure plan OwnershipStage ''ownership_changed_or_missing'')
    | (_, _, _) \<Rightarrow> Err (failure plan OwnershipStage ''ownership_changed_or_missing''))"

definition read_current ::
  "('x, 'd) services \<Rightarrow> prepared_plan \<Rightarrow> string \<Rightarrow> string \<Rightarrow> file_projection \<Rightarrow> ('x, config_source) tx"
where
  "read_current sv plan unreadable changed f =
     run_then (or_fail (on_files (read_config_source (sv_os sv) (fp_target f))) (failure plan RevisionStage unreadable))
       (\<lambda>source. run_then
          (run_lift (ensure (file_revision_hash (sv_sha sv) (fp_target f) source = fp_before_hash f)
            (failure plan RevisionStage changed)))
          (\<lambda>_. run_return source))"

fun read_companions :: "('x, 'd) services \<Rightarrow> prepared_plan \<Rightarrow> file_projection list \<Rightarrow> ('x, config_source list) tx" where
  "read_companions sv plan [] = run_return []"
| "read_companions sv plan (f # fs) =
     run_then (read_current sv plan ''companion_target_read_failed'' ''companion_before_hash_changed'' f) (\<lambda>source.
     run_then (read_companions sv plan fs) (\<lambda>sources. run_return (source # sources)))"

definition source_bytes :: "config_source \<Rightarrow> u8 list option" where
  "source_bytes s = (if cs_existed s then Some (cs_bytes s) else None)"

definition parse_or ::
  "('x, 'd) services \<Rightarrow> file_projection \<Rightarrow> u8 list option \<Rightarrow> transaction_failure \<Rightarrow> transaction_failure + 'd"
where
  "parse_or sv f bytes e = (case sv_parse sv bytes (fp_format f) (fp_label f) of None \<Rightarrow> Err e | Some d \<Rightarrow> Ok d)"

definition macs_or ::
  "('x, 'd) services \<Rightarrow> 'd \<Rightarrow> config_path list \<Rightarrow> u8 list \<Rightarrow> transaction_failure \<Rightarrow> transaction_failure + (string, string) btree"
where
  "macs_or sv d paths key e = map_err (\<lambda>_. e) (compute_owned_value_macs (sv_semantic sv) (sv_suite sv) d paths key)"

text \<open>\<open>matches_legacy_widening\<close>: the baseline snapshot is read only for a record of other paths.\<close>

definition check_legacy ::
  "('x, 'd) services \<Rightarrow> prepared_plan \<Rightarrow> ownership_record \<Rightarrow> 'd \<Rightarrow> u8 list \<Rightarrow> ('x, bool) tx"
where
  "check_legacy sv plan record document key =
     (let failed = failure plan OwnershipStage ''ownership_check_failed''; f = pp_primary plan in
      if ow_owned_paths record = fp_owned_paths f then run_return False
      else run_then (or_fail (on_services (sv_snapshot_load sv (ow_baseline_snapshot_id record))) failed) (\<lambda>baseline.
        run_then (run_lift (ensure
          (sr_agent_id (ds_record baseline) = ow_agent_id record
           \<and> sr_target_config_path (ds_record baseline) = ow_target_config_path record
           \<and> sr_connector_id (ds_record baseline) = ow_connector_id record) failed)) (\<lambda>_.
        run_then (run_lift (parse_or sv f
          (if sr_original_existed (ds_record baseline) then Some (ds_exact_bytes baseline) else None) failed)) (\<lambda>baseline_document.
        run_lift (map_err (\<lambda>_. failed) (legacy_widened_ownership_matches (sv_semantic sv) (sv_suite sv) record document
          baseline_document (fp_owned_paths f) key))))))"

definition check_companion ::
  "('x, 'd) services \<Rightarrow> prepared_plan \<Rightarrow> ownership_record \<Rightarrow> u8 list \<Rightarrow> file_projection \<times> config_source
    \<Rightarrow> transaction_failure + unit"
where
  "check_companion sv plan record key = (\<lambda>(f, source).
     let failed = \<lambda>reason. failure plan OwnershipStage reason in
     case find (\<lambda>c. co_target_config_path c = path_text (fp_target f)) (ow_companion_files record) of
       None \<Rightarrow> Err (failed ''companion_ownership_missing'')
     | Some owned \<Rightarrow>
         and_then (parse_or sv f (source_bytes source) (failed ''companion_ownership_source_parse_failed'')) (\<lambda>document.
         and_then (macs_or sv document (co_owned_paths owned) key (failed ''companion_ownership_check_failed'')) (\<lambda>observed.
         and_then (parse_or sv f (Some (fp_projected_bytes f)) (failed ''companion_ownership_projection_parse_failed'')) (\<lambda>projected_document.
         and_then (macs_or sv projected_document (co_owned_paths owned) key (failed ''companion_ownership_check_failed'')) (\<lambda>projected.
         ensure (observed = co_owned_value_macs owned \<or> observed = projected) (failed ''companion_owned_values_changed''))))))"

definition check_ownership ::
  "('x, 'd) services \<Rightarrow> prepared_plan \<Rightarrow> config_source \<Rightarrow> config_source list \<Rightarrow> ownership_record \<Rightarrow> ('x, unit) tx"
where
  "check_ownership sv plan current companion_currents record =
     (let failed = \<lambda>reason. failure plan OwnershipStage reason; f = pp_primary plan in
      run_then (run_lift (parse_or sv f (source_bytes current) (failed ''ownership_source_parse_failed''))) (\<lambda>document.
      run_then (or_fail (on_services (sv_key_load sv)) (failed ''ownership_key_unavailable'')) (\<lambda>key.
      run_then (run_lift (map_err (\<lambda>_. failed ''ownership_check_failed'')
        (ownership_matches (sv_semantic sv) (sv_suite sv) record document key))) (\<lambda>matches_record.
      run_then (run_lift (parse_or sv f (Some (fp_projected_bytes f)) (failed ''ownership_projection_parse_failed''))) (\<lambda>projected_document.
      run_then (run_lift (and_then (macs_or sv document (ow_owned_paths record) key (failed ''ownership_check_failed'')) (\<lambda>observed.
          and_then (macs_or sv projected_document (ow_owned_paths record) key (failed ''ownership_check_failed'')) (\<lambda>projected.
          Ok (observed = projected))))) (\<lambda>matches_projection.
      run_then (check_legacy sv plan record document key) (\<lambda>matches_legacy_widening.
      run_then (run_lift (ensure (matches_record \<or> matches_projection \<or> matches_legacy_widening)
        (failed ''owned_values_changed''))) (\<lambda>_.
      run_lift (try_each (check_companion sv plan record key) (zip (pp_companions plan) companion_currents))))))))))"

definition consume :: "prepared_plan \<Rightarrow> ('x, unit) tx" where
  "consume plan s =
     (if pp_operation_id plan \<in> set (es_consumed s)
      then (Err (failure plan ConfirmationStage ''operation_already_consumed''), s)
      else (Ok (), s\<lparr>es_consumed := pp_operation_id plan # es_consumed s\<rparr>))"

section \<open>Snapshots\<close>

definition snapshot_request_for ::
  "('x, 'd) services \<Rightarrow> prepared_plan \<Rightarrow> u64 \<Rightarrow> file_projection \<Rightarrow> config_source \<Rightarrow> snapshot_request"
where
  "snapshot_request_for sv plan now f source = \<lparr>rq_operation_id = pp_operation_id plan, rq_agent_id = pp_agent_id plan,
     rq_target_config_path = path_text (fp_target f), rq_before_hash = fp_before_hash f, rq_source = source,
     rq_created_at_ms = now, rq_connector_id = pp_connector_id plan, rq_app_version = sv_app_version sv,
     rq_pinned = (pp_intent plan = Connect)\<rparr>"

text \<open>\<open>let _ = \<dots>\<close>: the result is ignored.\<close>

definition ignoring :: "('x \<Rightarrow> ('e + 'a) \<times> 'x) \<Rightarrow> ('x, unit) tx" where
  "ignoring m = run_match (on_services m) (\<lambda>_. run_return ()) (\<lambda>_. run_return ())"

fun unpin_each :: "('x, 'd) services \<Rightarrow> string list \<Rightarrow> ('x, unit) tx" where
  "unpin_each sv [] = run_return ()"
| "unpin_each sv (snapshot_id # ids) = run_then (ignoring (sv_set_pinned sv snapshot_id False)) (\<lambda>_. unpin_each sv ids)"

definition unpin_failed_connection_snapshots :: "('x, 'd) services \<Rightarrow> prepared_plan \<Rightarrow> string list \<Rightarrow> ('x, unit) tx" where
  "unpin_failed_connection_snapshots sv plan ids =
     (if pp_intent plan \<noteq> Connect then run_return () else unpin_each sv ids)"

text \<open>Leaving with an error once the snapshots that exist have been unpinned.\<close>

definition unpin_and_fail :: "('x, 'd) services \<Rightarrow> prepared_plan \<Rightarrow> string list \<Rightarrow> transaction_failure \<Rightarrow> ('x, 'a) tx" where
  "unpin_and_fail sv plan ids e = run_then (unpin_failed_connection_snapshots sv plan ids) (\<lambda>_. run_fail e)"

definition created_id :: "snapshot_created \<Rightarrow> string" where
  "created_id c = sr_snapshot_id (sc_record c)"

text \<open>The companions' snapshots; \<open>ids\<close> are the identifiers so far, the primary's first.\<close>

fun snapshot_companions ::
  "('x, 'd) services \<Rightarrow> prepared_plan \<Rightarrow> u64 \<Rightarrow> string list \<Rightarrow> (file_projection \<times> config_source) list \<Rightarrow> ('x, string list) tx"
where
  "snapshot_companions sv plan now ids [] = run_return ids"
| "snapshot_companions sv plan now ids ((f, source) # rest) =
     run_match (on_services (sv_snapshot_create sv (snapshot_request_for sv plan now f source)))
       (\<lambda>_. unpin_and_fail sv plan ids (failure plan SnapshotStage ''companion_snapshot_create_failed''))
       (\<lambda>created. snapshot_companions sv plan now (ids @ [created_id created]) rest)"

section \<open>Recovery\<close>

definition restore_projection :: "('x, 'd) services \<Rightarrow> file_projection \<Rightarrow> string \<Rightarrow> ('x engine_state, unit, unit) run" where
  "restore_projection sv f snapshot_id =
     run_then (on_services (sv_snapshot_load sv snapshot_id)) (\<lambda>snapshot.
     run_then (or_fail (on_files
         (if sr_original_existed (ds_record snapshot)
          then sv_replace sv (sv_os sv) (fp_target f) (ds_exact_bytes snapshot)
            (sr_original_permissions (ds_record snapshot)) (sr_original_owner (ds_record snapshot))
            (fp_expected_after_hash f) (\<not> fp_existed f)
          else sv_remove sv (sv_os sv) (fp_target f) (fp_expected_after_hash f) (\<not> fp_existed f))) ()) (\<lambda>_.
     run_then (or_fail (on_files (read_config_source (sv_os sv) (fp_target f))) ()) (\<lambda>source.
     run_lift (ensure (file_revision_hash (sv_sha sv) (fp_target f) source = fp_before_hash f) ()))))"

text \<open>Every file is tried, whatever happened to the ones before; the result says whether one failed.\<close>

fun restore_files :: "('x, 'd) services \<Rightarrow> bool \<Rightarrow> (file_projection \<times> string) list \<Rightarrow> ('x, bool) tx" where
  "restore_files sv failed [] = run_return failed"
| "restore_files sv failed ((f, snapshot_id) # rest) =
     run_match (restore_projection sv f snapshot_id)
       (\<lambda>_. restore_files sv True rest) (\<lambda>_. restore_files sv failed rest)"

definition recovered :: "transaction_failure \<Rightarrow> bool \<Rightarrow> bool \<Rightarrow> transaction_failure" where
  "recovered e companion_failed primary_failed =
     (if primary_failed then e\<lparr>tf_recovery := RepairRequired,
        tf_recovery_reason_code := Some ''restore_write_failed_or_target_changed''\<rparr>
      else if companion_failed then e\<lparr>tf_recovery := RepairRequired,
        tf_recovery_reason_code := Some ''companion_restore_failed_or_target_changed''\<rparr>
      else e\<lparr>tf_recovery := Restored, tf_recovery_reason_code := None\<rparr>)"

text \<open>
  \<open>recover_files\<close> and leaving with the error: the first \<open>reached\<close> companions from the last to the first,
  then the primary file.
\<close>

definition recover_and_fail ::
  "('x, 'd) services \<Rightarrow> prepared_plan \<Rightarrow> string list \<Rightarrow> nat \<Rightarrow> transaction_failure \<Rightarrow> ('x, 'a) tx"
where
  "recover_and_fail sv plan ids reached e =
     run_then (restore_files sv False (rev (take reached (zip (pp_companions plan) (tl ids))))) (\<lambda>companion_failed.
     run_then (restore_files sv False [(pp_primary plan, hd ids)]) (\<lambda>primary_failed.
     unpin_and_fail sv plan ids (recovered e companion_failed primary_failed)))"

section \<open>Writing\<close>

definition write_projection :: "('x, 'd) services \<Rightarrow> file_projection \<Rightarrow> config_source \<Rightarrow> ('x engine_state, atomic_write_failure, unit) run" where
  "write_projection sv f source = on_files
     (if file_revision_hash (sv_sha sv) (fp_target f) source_missing = fp_expected_after_hash f
      then sv_remove sv (sv_os sv) (fp_target f) (fp_before_hash f) False
      else sv_replace sv (sv_os sv) (fp_target f) (fp_projected_bytes f) (Some 384) (cs_owner source)
        (fp_before_hash f) False)"

definition write_primary :: "('x, 'd) services \<Rightarrow> prepared_plan \<Rightarrow> string list \<Rightarrow> config_source \<Rightarrow> ('x, unit) tx" where
  "write_primary sv plan ids source =
     run_match (write_projection sv (pp_primary plan) source)
       (\<lambda>f. (if af_target_replaced f then recover_and_fail sv plan ids 0 else unpin_and_fail sv plan ids)
          (failure plan TargetWrite (atomic_reason (af_stage f))))
       run_return"

fun write_companions ::
  "('x, 'd) services \<Rightarrow> prepared_plan \<Rightarrow> string list \<Rightarrow> nat \<Rightarrow> (file_projection \<times> config_source) list \<Rightarrow> ('x, unit) tx"
where
  "write_companions sv plan ids index [] = run_return ()"
| "write_companions sv plan ids index ((f, source) # rest) =
     run_match (write_projection sv f source)
       (\<lambda>e. recover_and_fail sv plan ids (index + (if af_target_replaced e then 1 else 0))
          (failure plan TargetWrite (atomic_reason (af_stage e))))
       (\<lambda>_. write_companions sv plan ids (index + 1) rest)"

section \<open>Checking what was written\<close>

text \<open>A file read back: its revision as planned, its actual revision, its document.\<close>

definition check_written ::
  "('x, 'd) services \<Rightarrow> prepared_plan \<Rightarrow> string \<Rightarrow> string \<Rightarrow> string \<Rightarrow> string \<Rightarrow> file_projection \<Rightarrow> ('x, 'd \<times> string) tx"
where
  "check_written sv plan unreadable mismatch unparsed unverified f =
     run_then (or_fail (on_files (read_config_source (sv_os sv) (fp_target f))) (failure plan PostWriteRead unreadable)) (\<lambda>source.
     run_then (run_lift (ensure
       (revision_of (sv_sha sv) (\<not> fp_existed f) (fp_target f) source = fp_expected_after_hash f)
       (failure plan PostWriteRead mismatch))) (\<lambda>_.
     run_then (run_lift (parse_or sv f (source_bytes source) (failure plan PostWriteParse unparsed))) (\<lambda>document.
     run_then (or_fail (on_services (sv_verify sv (fp_target f) document)) (failure plan PostWriteSelfCheck unverified)) (\<lambda>_.
     run_return (document, file_revision_hash (sv_sha sv) (fp_target f) source)))))"

definition check_primary :: "('x, 'd) services \<Rightarrow> prepared_plan \<Rightarrow> ('x, 'd \<times> string) tx" where
  "check_primary sv plan = check_written sv plan ''post_write_read_failed'' ''after_hash_mismatch''
     ''post_write_parse_failed'' ''post_write_self_check_failed'' (pp_primary plan)"

fun check_companions :: "('x, 'd) services \<Rightarrow> prepared_plan \<Rightarrow> file_projection list \<Rightarrow> ('x, ('d \<times> string) list) tx" where
  "check_companions sv plan [] = run_return []"
| "check_companions sv plan (f # fs) =
     run_then (check_written sv plan ''companion_post_write_read_failed'' ''companion_after_hash_mismatch''
       ''companion_post_write_parse_failed'' ''companion_post_write_self_check_failed'' f) (\<lambda>d.
     run_then (check_companions sv plan fs) (\<lambda>ds. run_return (d # ds)))"

section \<open>Committing ownership\<close>

fun companion_ownerships ::
  "('x, 'd) services \<Rightarrow> u8 list \<Rightarrow> (file_projection \<times> ('d \<times> string) \<times> string) list \<Rightarrow> patch_error + companion_ownership list"
where
  "companion_ownerships sv key [] = Ok []"
| "companion_ownerships sv key ((f, (document, after), snapshot_id) # rest) =
     and_then (compute_owned_value_macs (sv_semantic sv) (sv_suite sv) document (fp_owned_paths f) key) (\<lambda>macs.
     and_then (companion_ownerships sv key rest) (\<lambda>cs.
     Ok (\<lparr>co_target_config_path = path_text (fp_target f), co_document_format = Some (fp_format f),
       co_baseline_snapshot_id = snapshot_id, co_last_transaction_snapshot_id = snapshot_id,
       co_before_hash = fp_before_hash f, co_managed_after_hash = after, co_owned_paths = fp_owned_paths f,
       co_sensitive_paths = Some (fp_sensitive_paths f), co_owned_value_macs = macs\<rparr> # cs)))"

definition connected_record ::
  "prepared_plan \<Rightarrow> u64 \<Rightarrow> string \<Rightarrow> string \<Rightarrow> (string, string) btree \<Rightarrow> companion_ownership list \<Rightarrow> ownership_record"
where
  "connected_record plan now snapshot_id after macs companions = \<lparr>ow_schema_version = 1, ow_revision = 0,
     ow_agent_id = pp_agent_id plan, ow_installation_path = pp_installation_path plan,
     ow_target_config_path = path_text (fp_target (pp_primary plan)), ow_connector_id = pp_connector_id plan,
     ow_baseline_snapshot_id = snapshot_id, ow_last_transaction_snapshot_id = snapshot_id,
     ow_before_hash = fp_before_hash (pp_primary plan), ow_managed_after_hash = after,
     ow_owned_paths = fp_owned_paths (pp_primary plan), ow_owned_value_macs = macs,
     ow_companion_files = companions, ow_acquired_at_ms = now, ow_updated_at_ms = now\<rparr>"

text \<open>A companion of the record after a restore, from its projection; none is an error.\<close>

fun updated_companions :: "companion_ownership list \<Rightarrow> companion_ownership list \<Rightarrow> companion_ownership list option" where
  "updated_companions projections [] = Some []"
| "updated_companions projections (c # cs) =
     (case find (\<lambda>p. co_target_config_path p = co_target_config_path c) projections of
        None \<Rightarrow> None
      | Some p \<Rightarrow> (case updated_companions projections cs of
          None \<Rightarrow> None
        | Some cs \<Rightarrow> Some (c\<lparr>co_last_transaction_snapshot_id := co_last_transaction_snapshot_id p,
            co_document_format := co_document_format p, co_managed_after_hash := co_managed_after_hash p,
            co_owned_paths := co_owned_paths p, co_owned_value_macs := co_owned_value_macs p\<rparr> # cs)))"

definition restored_record ::
  "prepared_plan \<Rightarrow> u64 \<Rightarrow> string \<Rightarrow> (string, string) btree \<Rightarrow> companion_ownership list \<Rightarrow> ownership_record
    \<Rightarrow> ownership_record"
where
  "restored_record plan now snapshot_id macs companions record = record\<lparr>
     ow_last_transaction_snapshot_id := snapshot_id,
     ow_managed_after_hash := fp_expected_after_hash (pp_primary plan),
     ow_owned_paths := fp_owned_paths (pp_primary plan), ow_owned_value_macs := macs,
     ow_companion_files := companions, ow_updated_at_ms := now\<rparr>"

definition commit_ownership ::
  "('x, 'd) services \<Rightarrow> prepared_plan \<Rightarrow> u64 \<Rightarrow> string \<Rightarrow> string \<Rightarrow> (string, string) btree \<Rightarrow> companion_ownership list
    \<Rightarrow> ('x engine_state, unit, ownership_record) run"
where
  "commit_ownership sv plan now snapshot_id after macs companions = (case (pp_intent plan, pp_ownership plan) of
      (Connect, _) \<Rightarrow> on_services (sv_ownership_commit sv (connected_record plan now snapshot_id after macs companions) None)
    | (Disconnect, Some (record, disposition)) \<Rightarrow>
        if disposition \<noteq> RemoveOwnership then run_fail ()
        else run_then (on_services (sv_ownership_remove sv (ownership_key record) (ow_revision record)))
          (\<lambda>_. run_return (record\<lparr>ow_revision := 0\<rparr>))
    | (Restore, Some (record, disposition)) \<Rightarrow>
        if disposition \<noteq> UpdateOwnership then run_fail ()
        else (case updated_companions companions (ow_companion_files record) of
            None \<Rightarrow> run_fail ()
          | Some companions \<Rightarrow> on_services (sv_ownership_commit sv
              (restored_record plan now snapshot_id macs companions record) (Some (ow_revision record))))
    | (_, None) \<Rightarrow> run_fail ())"

text \<open>From the files on disk to the committed record; every failure of it is recovered from.\<close>

definition verify_and_commit :: "('x, 'd) services \<Rightarrow> prepared_plan \<Rightarrow> u64 \<Rightarrow> string list \<Rightarrow> ('x, ownership_record) tx" where
  "verify_and_commit sv plan now ids =
     run_then (check_primary sv plan) (\<lambda>(document, after).
     run_then (check_companions sv plan (pp_companions plan)) (\<lambda>companions.
     run_then (or_fail (on_services (sv_key_load sv)) (failure plan OwnershipCommit ''ownership_key_unavailable'')) (\<lambda>key.
     run_then (run_lift (macs_or sv document (fp_owned_paths (pp_primary plan)) key
       (failure plan OwnershipCommit ''ownership_mac_failed''))) (\<lambda>macs.
     run_then (run_lift (map_err (\<lambda>_. failure plan OwnershipCommit ''companion_ownership_mac_failed'')
       (companion_ownerships sv key (zip (pp_companions plan) (zip companions (tl ids)))))) (\<lambda>companions.
     or_fail (commit_ownership sv plan now (hd ids) after macs companions)
       (failure plan OwnershipCommit ''ownership_commit_failed''))))))"

section \<open>The transaction\<close>

fun unpin_baselines :: "('x, 'd) services \<Rightarrow> string option \<Rightarrow> (string \<times> string) list \<Rightarrow> ('x, string option) tx" where
  "unpin_baselines sv warning [] = run_return warning"
| "unpin_baselines sv warning ((snapshot_id, message) # rest) =
     run_match (on_services (sv_set_pinned sv snapshot_id False))
       (\<lambda>_. unpin_baselines sv (Some message) rest) (\<lambda>_. unpin_baselines sv warning rest)"

definition unpin_on_disconnect :: "('x, 'd) services \<Rightarrow> prepared_plan \<Rightarrow> string option \<Rightarrow> ('x, string option) tx" where
  "unpin_on_disconnect sv plan warning = (case (pp_intent plan, pp_ownership plan) of
      (Disconnect, Some (record, _)) \<Rightarrow> unpin_baselines sv warning
        ((ow_baseline_snapshot_id record, ''baseline snapshot not unpinned'')
         # map (\<lambda>c. (co_baseline_snapshot_id c, ''companion baseline snapshot not unpinned'')) (ow_companion_files record))
    | _ \<Rightarrow> run_return warning)"

definition read_clock :: "('x, 'd) services \<Rightarrow> ('x, u64) tx" where
  "read_clock sv s = (case sv_now sv (es_services s) of (t, x) \<Rightarrow> (Ok t, s\<lparr>es_services := x\<rparr>))"

text \<open>From the last snapshot on; \<open>ids\<close> are the snapshots of all files, the primary's first.\<close>

definition after_copies ::
  "('x, 'd) services \<Rightarrow> prepared_plan \<Rightarrow> u64 \<Rightarrow> config_source \<Rightarrow> config_source list \<Rightarrow> snapshot_created
    \<Rightarrow> string list \<Rightarrow> ('x, transaction_outcome) tx"
where
  "after_copies sv plan now current companion_currents snapshot ids =
     run_then (read_clock sv) (\<lambda>clock.
     run_then (if pp_expires_at_ms plan < clock
       then unpin_and_fail sv plan ids (failure plan ConfirmationStage ''plan_expired_after_snapshot'')
       else run_return ()) (\<lambda>_.
     run_then (write_primary sv plan ids current) (\<lambda>_.
     run_then (write_companions sv plan ids 0 (zip (pp_companions plan) companion_currents)) (\<lambda>_.
     run_then (run_match (verify_and_commit sv plan now ids)
       (recover_and_fail sv plan ids (length (pp_companions plan))) run_return) (\<lambda>record.
     run_then (unpin_on_disconnect sv plan (sc_maintenance_warning snapshot)) (\<lambda>warning.
     run_return \<lparr>to_operation_id = pp_operation_id plan, to_agent_id = pp_agent_id plan,
       to_target_config_path = path_text (fp_target (pp_primary plan)),
       to_before_hash = fp_before_hash (pp_primary plan), to_after_hash = fp_expected_after_hash (pp_primary plan),
       to_snapshot_id = created_id snapshot, to_ownership_revision = ow_revision record,
       to_maintenance_warning = warning\<rparr>))))))"

text \<open>From the primary snapshot on.\<close>

definition change_files ::
  "('x, 'd) services \<Rightarrow> prepared_plan \<Rightarrow> u64 \<Rightarrow> config_source \<Rightarrow> config_source list \<Rightarrow> snapshot_created
    \<Rightarrow> ('x, transaction_outcome) tx"
where
  "change_files sv plan now current companion_currents snapshot =
     run_then (snapshot_companions sv plan now [created_id snapshot] (zip (pp_companions plan) companion_currents)) (\<lambda>ids.
     after_copies sv plan now current companion_currents snapshot ids)"

text \<open>Up to the ownership check: the exact sources of all files.\<close>

definition prepare_changes ::
  "('x, 'd) services \<Rightarrow> prepared_plan \<Rightarrow> confirmed_operation \<Rightarrow> runtime_admission \<Rightarrow> u64
    \<Rightarrow> ('x, config_source \<times> config_source list) tx"
where
  "prepare_changes sv plan confirmation admission now =
     run_then (run_lift (validate_confirmation plan confirmation now)) (\<lambda>_.
     run_then (run_lift (validate_admission plan admission now)) (\<lambda>_.
     run_then (or_fail (on_services (sv_ownership_load sv (plan_key plan)))
       (failure plan OwnershipStage ''ownership_read_failed'')) (\<lambda>active.
     run_then (run_lift (check_active plan active)) (\<lambda>_.
     run_then (read_current sv plan ''target_read_failed'' ''before_hash_changed'' (pp_primary plan)) (\<lambda>current.
     run_then (read_companions sv plan (pp_companions plan)) (\<lambda>companion_currents.
     run_then (case pp_ownership plan of None \<Rightarrow> run_return ()
       | Some (record, _) \<Rightarrow> check_ownership sv plan current companion_currents record) (\<lambda>_.
     run_return (current, companion_currents))))))))"

definition apply_prepared ::
  "('x, 'd) services \<Rightarrow> prepared_plan \<Rightarrow> confirmed_operation \<Rightarrow> runtime_admission \<Rightarrow> u64 \<Rightarrow> ('x, transaction_outcome) tx"
where
  "apply_prepared sv plan confirmation admission now =
     run_then (prepare_changes sv plan confirmation admission now) (\<lambda>(current, companion_currents).
     run_then (consume plan) (\<lambda>_.
     run_then (or_fail (on_services (sv_snapshot_create sv (snapshot_request_for sv plan now (pp_primary plan) current)))
       (failure plan SnapshotStage ''snapshot_create_failed'')) (\<lambda>snapshot.
     change_files sv plan now current companion_currents snapshot)))"

definition apply_with_intent ::
  "plan_intent \<Rightarrow> ('x, 'd) services \<Rightarrow> prepared_plan \<Rightarrow> confirmed_operation \<Rightarrow> runtime_admission \<Rightarrow> u64
    \<Rightarrow> ('x, transaction_outcome) tx"
where
  "apply_with_intent intent sv plan confirmation admission now =
     (if pp_intent plan \<noteq> intent then run_fail (failure plan AdmissionStage ''operation_intent_mismatch'')
      else apply_prepared sv plan confirmation admission now)"

abbreviation "apply_connection \<equiv> apply_with_intent Connect"
abbreviation "apply_disconnect \<equiv> apply_with_intent Disconnect"
abbreviation "apply_snapshot_restore \<equiv> apply_with_intent Restore"

end
