(* ===== verification/Transaction_Properties.thy ===== *)
theory Transaction_Properties
  imports Transaction
begin

text \<open>
  What a transaction does to the files: Hoare triples over the file tree for the parts of
  \<open>Transaction\<close>, and from them what a failed and an applied operation leave behind.
\<close>

section \<open>Triples\<close>

text \<open>The Hoare triple of a computation that may fail, over the file tree.\<close>

definition tree_of :: "'x engine_state \<Rightarrow> tree" where
  "tree_of s = w_tree (es_world s)"

definition triple ::
  "(tree \<Rightarrow> bool) \<Rightarrow> ('x engine_state, 'e, 'a) run \<Rightarrow> ('a \<Rightarrow> tree \<Rightarrow> bool) \<Rightarrow> ('e \<Rightarrow> tree \<Rightarrow> bool) \<Rightarrow> bool"
where
  "triple P m Q R \<longleftrightarrow> (\<forall>s r s'. P (tree_of s) \<longrightarrow> m s = (r, s') \<longrightarrow>
     (case r of Inl e \<Rightarrow> R e (tree_of s') | Inr a \<Rightarrow> Q a (tree_of s')))"

lemma tripleD:
  "triple P m Q R \<Longrightarrow> P (tree_of s) \<Longrightarrow> m s = (r, s') \<Longrightarrow> (case r of Inl e \<Rightarrow> R e (tree_of s') | Inr a \<Rightarrow> Q a (tree_of s'))"
  by (simp add: triple_def)

lemma triple_weaken:
  "triple P m Q R \<Longrightarrow> (\<And>t. P' t \<Longrightarrow> P t) \<Longrightarrow> (\<And>a t. Q a t \<Longrightarrow> Q' a t) \<Longrightarrow> (\<And>e t. R e t \<Longrightarrow> R' e t) \<Longrightarrow> triple P' m Q' R'"
  unfolding triple_def by (fastforce split: sum.splits)

lemma triple_return: "(\<And>t. P t \<Longrightarrow> Q a t) \<Longrightarrow> triple P (run_return a) Q R"
  by (auto simp: triple_def run_return_def)

lemma triple_fail: "(\<And>t. P t \<Longrightarrow> R e t) \<Longrightarrow> triple P (run_fail e) Q R"
  by (auto simp: triple_def run_fail_def)

lemma triple_lift:
  "(\<And>t e. P t \<Longrightarrow> r = Inl e \<Longrightarrow> R e t) \<Longrightarrow> (\<And>t a. P t \<Longrightarrow> r = Inr a \<Longrightarrow> Q a t) \<Longrightarrow> triple P (run_lift r) Q R"
  by (auto simp: triple_def run_lift_def split: sum.split)

lemma triple_match:
  assumes m: "triple P m M N" and g: "\<And>e. triple (N e) (g e) Q R" and f: "\<And>a. triple (M a) (f a) Q R"
  shows "triple P (run_match m g f) Q R"
  unfolding triple_def
proof (intro allI impI)
  fix s r s' assume P: "P (tree_of s)" and run: "run_match m g f s = (r, s')"
  obtain q u where q: "m s = (q, u)" by fastforce
  show "case r of Inl e \<Rightarrow> R e (tree_of s') | Inr a \<Rightarrow> Q a (tree_of s')"
  proof (cases q)
    case (Inl e)
    then show ?thesis using tripleD [OF m P q] tripleD [OF g, of e u r s'] run q by (simp add: run_match_def)
  next
    case (Inr a)
    then show ?thesis using tripleD [OF m P q] tripleD [OF f, of a u r s'] run q by (simp add: run_match_def)
  qed
qed

lemma triple_then: "triple P m M R \<Longrightarrow> (\<And>a. triple (M a) (f a) Q R) \<Longrightarrow> triple P (run_then m f) Q R"
  unfolding run_then_def by (erule triple_match) (auto intro: triple_fail)

lemma triple_or_fail: "triple P m Q (\<lambda>_. R e) \<Longrightarrow> triple P (or_fail m e) Q R"
  unfolding or_fail_def by (erule triple_match) (auto intro: triple_fail triple_return)

lemma triple_files: "contract (\<lambda>_. True) P m Q R \<Longrightarrow> triple P (on_files m) Q R"
  unfolding triple_def contract_def on_files_def tree_of_def by (auto split: prod.splits)

lemma triple_services:
  "(\<And>t a x x'. P t \<Longrightarrow> m x = (Inr a, x') \<Longrightarrow> Q a t) \<Longrightarrow> (\<And>t e. P t \<Longrightarrow> R e t) \<Longrightarrow> triple P (on_services m) Q R"
  unfolding triple_def on_services_def tree_of_def by (fastforce split: prod.splits sum.splits)

lemma triple_pointwise: "(\<And>t. P t \<Longrightarrow> triple (\<lambda>u. u = t) m Q R) \<Longrightarrow> triple P m Q R"
  unfolding triple_def by blast

section \<open>What a transaction may change\<close>

text \<open>
  The targets \<open>ts\<close> are files of which no one is above another or the temporary file of another. A tree
  reached from \<open>t0\<close> has the old files at the targets outside \<open>S\<close>, and anywhere else nothing new but
  directories above targets and temporary files beside them.
\<close>

definition targets_apart :: "path set \<Rightarrow> bool" where
  "targets_apart ts \<longleftrightarrow> [] \<notin> ts \<and> (\<forall>p \<in> ts. \<forall>q \<in> ts. \<not> beside p q)"

definition touched :: "path set \<Rightarrow> path set \<Rightarrow> tree \<Rightarrow> tree \<Rightarrow> bool" where
  "touched ts S t0 t \<longleftrightarrow> (\<forall>q. q \<notin> ts \<longrightarrow> t q = t0 q \<or> t0 q = None \<and> (\<exists>p \<in> ts. beside p q))
     \<and> (\<forall>p \<in> ts. p \<notin> S \<longrightarrow> t p = t0 p)"

lemma touched_start [simp]: "touched ts S t t"
  by (simp add: touched_def)

lemma touched_mono: "touched ts S t0 t \<Longrightarrow> S \<subseteq> S' \<Longrightarrow> touched ts S' t0 t"
  by (auto simp: touched_def)

lemma touched_kept:
  assumes "targets_apart ts" and "p \<in> ts" and "touched ts S t0 t" and "kept p t t'"
  shows "touched ts S t0 t'" and "\<And>q. q \<in> ts \<Longrightarrow> t' q = t q"
proof -
  show same: "t' q = t q" if "q \<in> ts" for q
    using assms(1,2,4) that by (auto simp: kept_def targets_apart_def)
  have "t' q = t0 q \<or> t0 q = None \<and> (\<exists>p \<in> ts. beside p q)" if "q \<notin> ts" for q
  proof -
    from assms(3) that have "t q = t0 q \<or> t0 q = None \<and> (\<exists>p \<in> ts. beside p q)" by (simp add: touched_def)
    moreover from assms(4) have "t' q = t q \<or> t q = None \<and> beside p q" by (simp add: kept_def)
    ultimately show ?thesis using assms(2) by auto
  qed
  with same assms(3) show "touched ts S t0 t'" by (simp add: touched_def)
qed

lemma touched_written:
  assumes "targets_apart ts" and "p \<in> ts" and "touched ts S t0 t" and "written p n t t'"
  shows "touched ts (insert p S) t0 t'" and "\<And>q. q \<in> ts \<Longrightarrow> q \<noteq> p \<Longrightarrow> t' q = t q"
proof -
  have k: "kept p t (t'(p := t p))" using assms(4) by (simp add: written_def)
  note eff = touched_kept [OF assms(1-3) k]
  show "\<And>q. q \<in> ts \<Longrightarrow> q \<noteq> p \<Longrightarrow> t' q = t q" using eff(2) by fastforce
  show "touched ts (insert p S) t0 t'"
    using eff(1) assms(2) unfolding touched_def by (metis fun_upd_other insertCI)
qed

section \<open>Files of a plan\<close>

definition targets :: "file_projection list \<Rightarrow> path set" where
  "targets files = fp_target ` set files"

text \<open>The files have the revisions that the plan was prepared for.\<close>

definition as_before :: "sha256 \<Rightarrow> file_projection set \<Rightarrow> tree \<Rightarrow> bool" where
  "as_before sha F t \<longleftrightarrow> (\<forall>f \<in> F. revision_at sha False t (fp_target f) = Some (fp_before_hash f))"

definition plan_apart :: "prepared_plan \<Rightarrow> bool" where
  "plan_apart plan \<longleftrightarrow> distinct (map fp_target (plan_files plan)) \<and> targets_apart (targets (plan_files plan))"

context config_writer
begin

text \<open>Operations of the writer on a target.\<close>

lemma triple_installs:
  assumes apart: "targets_apart ts" "p \<in> ts" and m: "installs p n seen m"
  shows "triple (\<lambda>t. touched ts S t0 t \<and> A t) (on_files m)
    (\<lambda>_ t. touched ts (insert p S) t0 t \<and> (\<exists>u. A u \<and> seen u \<and> (\<forall>q \<in> ts. q \<noteq> p \<longrightarrow> t q = u q)))
    (\<lambda>f t. if af_target_replaced f then touched ts (insert p S) t0 t else touched ts S t0 t)"
proof (rule triple_pointwise)
  fix u assume u: "touched ts S t0 u \<and> A u"
  have "contract (\<lambda>t. kept p u t \<or> written p n u t) (\<lambda>t. t = u) m (\<lambda>_ t. written p n u t \<and> seen u) (replace_failed p n (seen u) u)"
    using m by (simp add: installs_def)
  then have c: "contract (\<lambda>_. True) (\<lambda>t. t = u) m (\<lambda>_ t. written p n u t \<and> seen u) (replace_failed p n (seen u) u)"
    by (rule contract_weaken) auto
  show "triple (\<lambda>t. t = u) (on_files m)
    (\<lambda>_ t. touched ts (insert p S) t0 t \<and> (\<exists>u. A u \<and> seen u \<and> (\<forall>q \<in> ts. q \<noteq> p \<longrightarrow> t q = u q)))
    (\<lambda>f t. if af_target_replaced f then touched ts (insert p S) t0 t else touched ts S t0 t)"
  proof (rule triple_weaken [OF triple_files [OF c]])
    show "touched ts (insert p S) t0 t \<and> (\<exists>u. A u \<and> seen u \<and> (\<forall>q \<in> ts. q \<noteq> p \<longrightarrow> t q = u q))"
      if "written p n u t \<and> seen u" for t
      using that u touched_written [OF apart] by blast
    show "if af_target_replaced f then touched ts (insert p S) t0 t else touched ts S t0 t"
      if "replace_failed p n (seen u) u f t" for f t
      using that u touched_written [OF apart] touched_kept(1) [OF apart] by (auto simp: replace_failed_def split: if_splits)
  qed simp
qed

end

text \<open>A file read back with the expected hash.\<close>

lemma triple_read_source:
  assumes "os_ok os"
  shows "triple P (on_files (read_config_source os p)) (\<lambda>s t. P t \<and> source_at t p = Some s) (\<lambda>_. P)"
  by (rule triple_files, rule contract_weaken [OF contract_read_config_source [OF assms, where P = P and I = "\<lambda>_. True"
        and Q = "\<lambda>s t. P t \<and> source_at t p = Some s" and R = "\<lambda>_. P"]]) auto

lemma revision_read: "source_at t p = Some s \<Longrightarrow> revision_at sha a t p = Some (revision_of sha a p s)"
  by (simp add: revision_at_def)

lemma revision_of_False: "revision_of sha False p s = file_revision_hash sha p s"
  by (simp add: revision_of_def)

context config_writer
begin

lemma triple_restore_projection:
  fixes sv :: "('x, 'd) services"
  assumes os: "os_ok (sv_os sv)" and sv: "sv_replace sv = replace" "sv_remove sv = remove" "sv_sha sv = sha"
    and apart: "targets_apart ts" "fp_target f \<in> ts" "fp_target f \<in> S"
    and F: "\<And>g. g \<in> F \<Longrightarrow> fp_target g \<in> ts \<and> (fp_target g = fp_target f \<longrightarrow> g = f)"
  shows "triple (\<lambda>t. touched ts S t0 t \<and> (ok \<longrightarrow> as_before sha F t)) (restore_projection sv f snapshot_id)
    (\<lambda>_ t. touched ts S t0 t \<and> (ok \<longrightarrow> as_before sha (insert f F) t)) (\<lambda>_. touched ts S t0)"
proof -
  let ?p = "fp_target f"
  let ?A = "\<lambda>t. ok \<longrightarrow> as_before sha F t"
  let ?M = "\<lambda>t. touched ts S t0 t \<and> (ok \<longrightarrow> as_before sha (F - {f}) t)"
  have p: "?p \<noteq> []" using apart by (auto simp: targets_apart_def)
  have insert: "insert ?p S = S" using apart(3) by blast
  have others: "as_before sha (F - {f}) t" if "as_before sha F u" "\<forall>q \<in> ts. q \<noteq> ?p \<longrightarrow> t q = u q" for t u
    using that F revision_at_cong [of t _ u sha False] unfolding as_before_def by (metis DiffE singletonI)
  have put: "triple (\<lambda>t. touched ts S t0 t \<and> ?A t) (or_fail (on_files m :: ('x engine_state, _, _) run) ()) (\<lambda>_. ?M) (\<lambda>_. touched ts S t0)"
    if "installs ?p n seen m" for m n seen
    by (rule triple_or_fail, rule triple_weaken [OF triple_installs [OF apart(1,2) that, of S t0 ?A]])
      (auto simp: insert intro: others split: if_splits)
  have restore: "triple (\<lambda>t. touched ts S t0 t \<and> ?A t) (or_fail (on_files
      (if sr_original_existed (ds_record snapshot)
       then sv_replace sv (sv_os sv) ?p (ds_exact_bytes snapshot) (sr_original_permissions (ds_record snapshot))
         (sr_original_owner (ds_record snapshot)) (fp_expected_after_hash f) (\<not> fp_existed f)
       else sv_remove sv (sv_os sv) ?p (fp_expected_after_hash f) (\<not> fp_existed f)) :: ('x engine_state, _, _) run) ()) (\<lambda>_. ?M) (\<lambda>_. touched ts S t0)"
    for snapshot
    using put [OF replace_installs [OF os p]] put [OF remove_installs [OF os p]] by (simp add: sv)
  have read: "triple ?M (or_fail (on_files (read_config_source (sv_os sv) ?p)) ())
      (\<lambda>s t. ?M t \<and> source_at t ?p = Some s) (\<lambda>_. touched ts S t0)"
    by (rule triple_or_fail, rule triple_weaken [OF triple_read_source [OF os, where P = ?M]]) auto
  have check: "triple (\<lambda>t. ?M t \<and> source_at t ?p = Some s)
      (run_lift (ensure (file_revision_hash (sv_sha sv) ?p s = fp_before_hash f) ()))
      (\<lambda>_ t. touched ts S t0 t \<and> (ok \<longrightarrow> as_before sha (insert f F) t)) (\<lambda>_. touched ts S t0)" for s
    by (rule triple_lift)
      (auto simp: ensure_def sv as_before_def revision_read revision_of_False split: if_splits)
  have load: "triple (\<lambda>t. touched ts S t0 t \<and> ?A t) (on_services (sv_snapshot_load sv snapshot_id))
      (\<lambda>_ t. touched ts S t0 t \<and> ?A t) (\<lambda>_. touched ts S t0)"
    by (rule triple_services) auto
  show ?thesis
    unfolding restore_projection_def
    by (intro triple_then [OF load] triple_then [OF restore] triple_then [OF read] check)
qed

lemma triple_restore_files:
  fixes sv :: "('x, 'd) services"
  assumes os: "os_ok (sv_os sv)" and sv: "sv_replace sv = replace" "sv_remove sv = remove" "sv_sha sv = sha"
    and apart: "targets_apart ts"
    and L: "fst ` set L \<subseteq> D" "fp_target ` fst ` set L \<subseteq> S" and F: "F \<subseteq> D"
    and D: "fp_target ` D \<subseteq> ts" "inj_on fp_target D"
  shows "triple (\<lambda>t. touched ts S t0 t \<and> (ok \<and> \<not> failed \<longrightarrow> as_before sha F t)) (restore_files sv failed L)
    (\<lambda>flag t. touched ts S t0 t \<and> (ok \<and> \<not> flag \<longrightarrow> as_before sha (F \<union> fst ` set L) t)) (\<lambda>_ _. False)"
  using L F
proof (induction L arbitrary: F failed)
  case Nil
  then show ?case by (auto intro: triple_return)
next
  case (Cons x L)
  obtain f i where x: "x = (f, i)" by fastforce
  have f: "fp_target f \<in> S" "f \<in> D" using Cons.prems(1,2) x by auto
  have restore: "triple (\<lambda>t. touched ts S t0 t \<and> (ok \<and> \<not> failed \<longrightarrow> as_before sha F t)) (restore_projection sv f i)
      (\<lambda>_ t. touched ts S t0 t \<and> (ok \<and> \<not> failed \<longrightarrow> as_before sha (insert f F) t)) (\<lambda>_. touched ts S t0)"
    by (rule triple_restore_projection [OF os sv apart]) (use f Cons.prems(3) D in \<open>auto dest: inj_onD\<close>)
  have next_ok: "triple (\<lambda>t. touched ts S t0 t \<and> (ok \<and> \<not> failed \<longrightarrow> as_before sha (insert f F) t)) (restore_files sv failed L)
      (\<lambda>flag t. touched ts S t0 t \<and> (ok \<and> \<not> flag \<longrightarrow> as_before sha (F \<union> fst ` set (x # L)) t)) (\<lambda>_ _. False)"
    using Cons.IH [of "insert f F" failed] Cons.prems f x by simp
  have next_failed: "triple (touched ts S t0) (restore_files sv True L)
      (\<lambda>flag t. touched ts S t0 t \<and> (ok \<and> \<not> flag \<longrightarrow> as_before sha (F \<union> fst ` set (x # L)) t)) (\<lambda>_ _. False)"
    by (rule triple_weaken [OF Cons.IH [of "insert f F" True]]) (use Cons.prems f x in auto)
  show ?case
    unfolding x restore_files.simps using next_ok next_failed
    by (intro triple_match [OF restore]) (simp_all add: x)
qed

end

text \<open>What a failure says of the files.\<close>

definition failure_sound :: "sha256 \<Rightarrow> file_projection set \<Rightarrow> tree \<Rightarrow> transaction_failure \<Rightarrow> tree \<Rightarrow> bool" where
  "failure_sound sha D t0 e t \<longleftrightarrow> touched (fp_target ` D) (fp_target ` D) t0 t
     \<and> (tf_recovery e = NotRequired \<longrightarrow> (\<forall>f \<in> D. t (fp_target f) = t0 (fp_target f)))
     \<and> (tf_recovery e = Restored \<longrightarrow> as_before sha D t)"

lemma failure_fresh [simp]: "tf_recovery (failure plan stage reason) = NotRequired"
  by (simp add: failure_def)

lemma triple_unpin:
  assumes "\<And>t. P t \<Longrightarrow> R e t"
  shows "triple P (unpin_and_fail sv plan ids e) Q R"
proof -
  have ignore: "triple P (ignoring m) (\<lambda>_. P) R'" for m and R' :: "transaction_failure \<Rightarrow> tree \<Rightarrow> bool"
    unfolding ignoring_def
    by (rule triple_match [OF triple_services [where Q = "\<lambda>_. P" and R = "\<lambda>_. P"]]) (auto intro: triple_return)
  have each: "triple P (unpin_each sv ids) (\<lambda>_. P) R" for ids
    by (induction ids) (auto intro!: triple_return triple_then [OF ignore])
  show ?thesis
    unfolding unpin_and_fail_def unpin_failed_connection_snapshots_def
    by (rule triple_then [where M = "\<lambda>_. P"]) (auto intro: each triple_return triple_fail assms)
qed

context config_writer
begin

lemma triple_recover:
  fixes sv :: "('x, 'd) services"
  assumes os: "os_ok (sv_os sv)" and sv: "sv_replace sv = replace" "sv_remove sv = remove" "sv_sha sv = sha"
    and plan: "plan_apart plan" and ids: "length ids = Suc (length (pp_companions plan))"
    and before: "as_before sha (set (plan_files plan)) t0"
  shows "triple (touched (targets (plan_files plan))
      (insert (fp_target (pp_primary plan)) (targets (take reached (pp_companions plan)))) t0)
    (recover_and_fail sv plan ids reached e) Q (failure_sound sha (set (plan_files plan)) t0)"
proof -
  let ?D = "set (plan_files plan)" and ?ts = "targets (plan_files plan)"
  let ?C = "set (take reached (pp_companions plan))" and ?p = "pp_primary plan"
  let ?S = "insert (fp_target ?p) (targets (take reached (pp_companions plan)))"
  let ?L = "rev (take reached (zip (pp_companions plan) (tl ids)))"
  have D: "fp_target ` ?D \<subseteq> ?ts" "inj_on fp_target ?D" and apart: "targets_apart ?ts"
    using plan by (auto simp: plan_apart_def targets_def distinct_map)
  have len: "length (tl ids) = length (pp_companions plan)" using ids by simp
  have L: "fst ` set ?L = ?C"
  proof -
    have "fst ` set ?L = set (map fst (take reached (zip (pp_companions plan) (tl ids))))" by simp
    also have "map fst (take reached (zip (pp_companions plan) (tl ids))) = take reached (pp_companions plan)"
      using len by (simp add: take_map [symmetric])
    finally show ?thesis .
  qed
  have C: "?C \<subseteq> ?D" using set_take_subset by (fastforce simp: plan_files_def)
  have companions: "triple (touched ?ts ?S t0) (restore_files sv False ?L)
      (\<lambda>flag t. touched ?ts ?S t0 t \<and> (\<not> flag \<longrightarrow> as_before sha ?C t)) (\<lambda>_ _. False)"
  proof (rule triple_weaken [OF triple_restore_files [OF os sv apart _ _ _ D, of ?L ?S "{}" t0 True False, unfolded L]])
    show "?C \<subseteq> ?D" "fp_target ` ?C \<subseteq> ?S" using C by (auto simp: targets_def)
  qed (auto simp: as_before_def)
  have primary: "triple (\<lambda>t. touched ?ts ?S t0 t \<and> (\<not> flag \<longrightarrow> as_before sha ?C t))
      (restore_files sv False [(?p, hd ids)])
      (\<lambda>flag' t. touched ?ts ?S t0 t \<and> (\<not> flag \<and> \<not> flag' \<longrightarrow> as_before sha (insert ?p ?C) t)) (\<lambda>_ _. False)" for flag
    by (rule triple_weaken [OF triple_restore_files [OF os sv apart _ _ C D, of "[(?p, hd ids)]" ?S t0 "\<not> flag" False]])
      (auto simp: plan_files_def)
  have all: "as_before sha ?D t" if "touched ?ts ?S t0 t" "as_before sha (insert ?p ?C) t" for t
    unfolding as_before_def
  proof
    fix f assume f: "f \<in> ?D"
    show "revision_at sha False t (fp_target f) = Some (fp_before_hash f)"
    proof (cases "f \<in> insert ?p ?C")
      case False
      have "insert ?p ?C \<subseteq> ?D" using C by (simp add: plan_files_def)
      with inj_on_image_mem_iff [OF D(2) f this] False have "fp_target f \<notin> ?S" by (simp add: targets_def)
      with f that(1) have "t (fp_target f) = t0 (fp_target f)" by (auto simp: touched_def targets_def)
      with before f show ?thesis using revision_at_cong by (metis as_before_def)
    qed (use that(2) in \<open>auto simp: as_before_def\<close>)
  qed
  have S: "?S \<subseteq> fp_target ` ?D" using C by (auto simp: plan_files_def targets_def)
  have leave: "triple (\<lambda>t. touched ?ts ?S t0 t \<and> (\<not> flag \<and> \<not> flag' \<longrightarrow> as_before sha (insert ?p ?C) t))
      (unpin_and_fail sv plan ids (recovered e flag flag')) Q (failure_sound sha ?D t0)" for flag flag'
    by (rule triple_unpin)
      (use all touched_mono [OF _ S] in \<open>auto simp: failure_sound_def recovered_def targets_def\<close>)
  have first: "triple (touched ?ts ?S t0) (restore_files sv False ?L)
      (\<lambda>flag t. touched ?ts ?S t0 t \<and> (\<not> flag \<longrightarrow> as_before sha ?C t)) (failure_sound sha ?D t0)"
    by (rule triple_weaken [OF companions]) simp_all
  have second: "triple (\<lambda>t. touched ?ts ?S t0 t \<and> (\<not> flag \<longrightarrow> as_before sha ?C t))
      (restore_files sv False [(?p, hd ids)])
      (\<lambda>flag' t. touched ?ts ?S t0 t \<and> (\<not> flag \<and> \<not> flag' \<longrightarrow> as_before sha (insert ?p ?C) t)) (failure_sound sha ?D t0)" for flag
    by (rule triple_weaken [OF primary [of flag]]) simp_all
  show ?thesis
    unfolding recover_and_fail_def
    by (rule triple_then [OF first], rule triple_then [OF second], rule leave)
qed

lemma triple_write_projection:
  fixes sv :: "('x, 'd) services"
  assumes os: "os_ok (sv_os sv)" and sv: "sv_replace sv = replace" "sv_remove sv = remove" "sv_sha sv = sha"
    and apart: "targets_apart ts" "fp_target f \<in> ts"
  shows "triple (touched ts S t0) (write_projection sv f source) (\<lambda>_. touched ts (insert (fp_target f) S) t0)
    (\<lambda>e. if af_target_replaced e then touched ts (insert (fp_target f) S) t0 else touched ts S t0)"
proof -
  have p: "fp_target f \<noteq> []" using apart by (auto simp: targets_apart_def)
  have put: "triple (touched ts S t0) (on_files m :: ('x engine_state, _, _) run) (\<lambda>_. touched ts (insert (fp_target f) S) t0)
      (\<lambda>e. if af_target_replaced e then touched ts (insert (fp_target f) S) t0 else touched ts S t0)"
    if "installs (fp_target f) n seen m" for n seen m
    by (rule triple_weaken [OF triple_installs [OF apart that, of S t0 "\<lambda>_. True"]]) (auto split: if_splits)
  show ?thesis
    unfolding write_projection_def sv
    using put [OF replace_installs [OF os p]] put [OF remove_installs [OF os p]] by (simp only: sv split: if_split) blast
qed

lemma triple_write_primary:
  fixes sv :: "('x, 'd) services"
  assumes os: "os_ok (sv_os sv)" and sv: "sv_replace sv = replace" "sv_remove sv = remove" "sv_sha sv = sha"
    and plan: "plan_apart plan" and ids: "length ids = Suc (length (pp_companions plan))"
    and before: "as_before sha (set (plan_files plan)) t0"
  shows "triple (touched (targets (plan_files plan)) {} t0) (write_primary sv plan ids source)
    (\<lambda>_. touched (targets (plan_files plan)) {fp_target (pp_primary plan)} t0)
    (failure_sound sha (set (plan_files plan)) t0)"
proof -
  let ?ts = "targets (plan_files plan)" and ?p = "fp_target (pp_primary plan)"
  have apart: "targets_apart ?ts" "?p \<in> ?ts" using plan by (auto simp: plan_apart_def targets_def plan_files_def)
  note w = triple_write_projection [OF os sv apart, of "{}" t0 source]
  have rec: "triple (touched ?ts {?p} t0) (recover_and_fail sv plan ids 0 e) Q (failure_sound sha (set (plan_files plan)) t0)"
    for e and Q :: "unit \<Rightarrow> tree \<Rightarrow> bool"
    using triple_recover [OF os sv plan ids before, of 0 e Q] by (simp add: targets_def)
  have unpin: "triple (touched ?ts {} t0) (unpin_and_fail sv plan ids (failure plan stage reason)) Q
      (failure_sound sha (set (plan_files plan)) t0)" for stage reason and Q :: "unit \<Rightarrow> tree \<Rightarrow> bool"
    by (rule triple_unpin) (auto simp: failure_sound_def touched_def targets_def)
  show ?thesis
    unfolding write_primary_def Let_def
    by (rule triple_match [OF w]) (auto intro: rec unpin triple_return)
qed

lemma triple_write_companions:
  fixes sv :: "('x, 'd) services"
  assumes os: "os_ok (sv_os sv)" and sv: "sv_replace sv = replace" "sv_remove sv = remove" "sv_sha sv = sha"
    and plan: "plan_apart plan" and ids: "length ids = Suc (length (pp_companions plan))"
    and before: "as_before sha (set (plan_files plan)) t0"
    and rest: "map fst rest = drop k (pp_companions plan)"
  shows "triple (touched (targets (plan_files plan))
      (insert (fp_target (pp_primary plan)) (targets (take k (pp_companions plan)))) t0)
    (write_companions sv plan ids k rest) (\<lambda>_. touched (targets (plan_files plan)) (targets (plan_files plan)) t0)
    (failure_sound sha (set (plan_files plan)) t0)"
  using rest
proof (induction rest arbitrary: k)
  case Nil
  then have "take k (pp_companions plan) = pp_companions plan" by simp
  then show ?case
    by (auto intro!: triple_return simp: plan_files_def targets_def elim!: touched_mono)
next
  case (Cons x rest)
  obtain f source where x: "x = (f, source)" by fastforce
  let ?ts = "targets (plan_files plan)" and ?cs = "pp_companions plan"
  let ?S = "\<lambda>k. insert (fp_target (pp_primary plan)) (targets (take k ?cs))"
  from Cons.prems x have k: "k < length ?cs" and f: "f = ?cs ! k" and rest: "map fst rest = drop (Suc k) ?cs"
    by (auto simp: drop_Suc nth_via_drop tl_drop [symmetric] simp flip: drop_Suc)
       (metis drop_all leI list.distinct(1), metis nth_via_drop, metis drop_Suc list.sel(3) tl_drop)
  have step: "insert (fp_target f) (?S k) = ?S (Suc k)"
    using k f by (auto simp: targets_def take_Suc_conv_app_nth)
  have "f \<in> set ?cs" using k f by simp
  then have apart: "targets_apart ?ts" "fp_target f \<in> ?ts" using plan by (auto simp: plan_apart_def targets_def plan_files_def)
  note w = triple_write_projection [OF os sv apart, of "?S k" t0 source, unfolded step]
  have rec: "triple (touched ?ts (?S n) t0) (recover_and_fail sv plan ids n e) Q (failure_sound sha (set (plan_files plan)) t0)"
    for n e and Q :: "unit \<Rightarrow> tree \<Rightarrow> bool"
    by (rule triple_recover [OF os sv plan ids before])
  show ?case
    unfolding x write_companions.simps
    by (rule triple_match [OF w]) (use Cons.IH [OF rest] rec in \<open>auto split: if_splits\<close>)
qed

end

section \<open>Computations that leave the files alone\<close>

text \<open>A computation that keeps whatever holds of the files; its errors satisfy \<open>E\<close>.\<close>

definition inspects :: "('e \<Rightarrow> bool) \<Rightarrow> ('x engine_state, 'e, 'a) run \<Rightarrow> bool" where
  "inspects E m \<longleftrightarrow> (\<forall>P. triple P m (\<lambda>_. P) (\<lambda>e t. P t \<and> E e))"

lemma inspectsD: "inspects E m \<Longrightarrow> triple P m (\<lambda>_. P) (\<lambda>e t. P t \<and> E e)"
  by (simp add: inspects_def)

named_theorems inspecting

lemma inspects_return [inspecting]: "inspects E (run_return a)"
  by (auto simp: inspects_def intro: triple_return)

lemma inspects_fail [inspecting]: "E e \<Longrightarrow> inspects E (run_fail e)"
  by (auto simp: inspects_def intro: triple_fail)

lemma inspects_lift [inspecting]: "(\<And>e. r = Inl e \<Longrightarrow> E e) \<Longrightarrow> inspects E (run_lift r)"
  by (auto simp: inspects_def intro: triple_lift)

lemma inspects_match [inspecting]:
  "inspects E m \<Longrightarrow> (\<And>e. E e \<Longrightarrow> inspects F (g e)) \<Longrightarrow> (\<And>a. inspects F (f a)) \<Longrightarrow> inspects F (run_match m g f)"
  unfolding inspects_def
  apply (intro allI)
  subgoal for P
    by (rule triple_match [where M = "\<lambda>_. P" and N = "\<lambda>e t. P t \<and> E e"]) (auto simp: triple_def)
  done

lemma inspects_then [inspecting]: "inspects E m \<Longrightarrow> (\<And>a. inspects E (f a)) \<Longrightarrow> inspects E (run_then m f)"
  unfolding run_then_def by (erule inspects_match) (auto intro: inspects_fail)

lemma inspects_or_fail [inspecting]: "E e \<Longrightarrow> inspects (\<lambda>_. True) m \<Longrightarrow> inspects E (or_fail m e)"
  unfolding or_fail_def by (erule inspects_match) (auto intro: inspecting)

lemma inspects_services [inspecting]: "inspects (\<lambda>_. True) (on_services m)"
  by (auto simp: inspects_def intro: triple_services)

lemma inspects_clock [inspecting]: "inspects E (read_clock sv)"
  by (auto simp: inspects_def triple_def read_clock_def tree_of_def split: prod.splits)

lemma inspects_consume [inspecting]: "E (failure plan ConfirmationStage ''operation_already_consumed'') \<Longrightarrow> inspects E (consume plan)"
  by (auto simp: inspects_def triple_def consume_def tree_of_def split: prod.splits if_splits)

lemma inspects_read [inspecting]: "os_ok os \<Longrightarrow> inspects (\<lambda>_. True) (on_files (read_config_source os p))"
  unfolding inspects_def by (blast intro: triple_weaken [OF triple_read_source])

text \<open>A failure before any file was changed.\<close>

definition fresh :: "transaction_failure \<Rightarrow> bool" where
  "fresh e \<longleftrightarrow> tf_recovery e = NotRequired"

lemma fresh_failure [simp]: "fresh (failure plan stage reason)"
  by (simp add: fresh_def)

lemma ensure_Inl [simp]: "ensure b e = Inl e' \<longleftrightarrow> \<not> b \<and> e' = e"
  by (auto simp: ensure_def)

lemma parse_or_Inl [simp]: "parse_or sv f bytes e = Inl e' \<longleftrightarrow> sv_parse sv bytes (fp_format f) (fp_label f) = None \<and> e' = e"
  by (auto simp: parse_or_def split: option.split)

lemma map_err_Inl [simp]: "map_err (\<lambda>_. e) r = Inl e' \<longleftrightarrow> isl r \<and> e' = e"
  by (cases r) auto

lemma macs_or_Inl [simp]: "macs_or sv d paths key e = Inl e' \<Longrightarrow> e' = e"
  by (simp add: macs_or_def)

lemma fresh_lift:
  "validate_confirmation plan confirmation now = Inl e \<Longrightarrow> fresh e"
  "validate_admission plan admission now = Inl e \<Longrightarrow> fresh e"
  "check_active plan active = Inl e \<Longrightarrow> fresh e"
  by (auto simp: validate_confirmation_def validate_admission_def check_active_def Let_def
      split: plan_intent.splits option.splits prod.splits)

lemma and_then_Inl: "and_then m f = Inl e \<longleftrightarrow> m = Inl e \<or> (\<exists>a. m = Inr a \<and> f a = Inl e)"
  by (cases m) auto

lemma fresh_companion: "check_companion sv plan record key x = Inl e \<Longrightarrow> fresh e"
  by (cases x)
    (auto simp: check_companion_def Let_def and_then_Inl split: option.splits dest: macs_or_Inl)

lemma try_each_Inl: "try_each f xs = Inl e \<Longrightarrow> \<exists>x \<in> set xs. f x = Inl e"
  by (induction xs) (auto simp: and_then_Inl)

lemma inspects_check_ownership: "inspects fresh (check_ownership sv plan current companions record)"
  unfolding check_ownership_def Let_def check_legacy_def
  by (intro inspecting conjI allI impI)
    (auto simp: and_then_Inl intro!: inspecting dest: macs_or_Inl try_each_Inl fresh_companion)

lemma triple_inspect:
  "inspects E m \<Longrightarrow> (\<And>e t. P t \<Longrightarrow> E e \<Longrightarrow> R e t) \<Longrightarrow> triple P m (\<lambda>_. P) R"
  by (rule triple_weaken [OF inspectsD]) auto

section \<open>The parts of a transaction\<close>

text \<open>Before: the files are as planned, and their sources are the ones that were read.\<close>

definition sources_read :: "tree \<Rightarrow> (file_projection \<times> config_source) list \<Rightarrow> bool" where
  "sources_read t L \<longleftrightarrow> (\<forall>(f, source) \<in> set L. source_at t (fp_target f) = Some source)"

lemma triple_read_current:
  assumes "os_ok (sv_os sv)"
  shows "triple P (read_current sv plan unreadable changed f)
    (\<lambda>source t. P t \<and> source_at t (fp_target f) = Some source \<and> as_before (sv_sha sv) {f} t) (\<lambda>e t. P t \<and> fresh e)"
proof -
  have read: "triple P (or_fail (on_files (read_config_source (sv_os sv) (fp_target f))) (failure plan RevisionStage unreadable))
      (\<lambda>source t. P t \<and> source_at t (fp_target f) = Some source) (\<lambda>e t. P t \<and> fresh e)"
    by (rule triple_or_fail, rule triple_weaken [OF triple_read_source [OF assms, where P = P]]) auto
  have check: "triple (\<lambda>t. P t \<and> source_at t (fp_target f) = Some source)
      (run_lift (ensure (file_revision_hash (sv_sha sv) (fp_target f) source = fp_before_hash f) (failure plan RevisionStage changed)))
      (\<lambda>_ t. P t \<and> source_at t (fp_target f) = Some source \<and> as_before (sv_sha sv) {f} t) (\<lambda>e t. P t \<and> fresh e)" for source
    by (rule triple_lift) (auto simp: ensure_def as_before_def revision_read revision_of_False split: if_splits)
  show ?thesis
    unfolding read_current_def
    by (rule triple_then [OF read], rule triple_then [OF check]) (auto intro: triple_return)
qed

lemma triple_read_companions:
  assumes "os_ok (sv_os sv)"
  shows "triple P (read_companions sv plan fs)
    (\<lambda>sources t. P t \<and> length sources = length fs \<and> sources_read t (zip fs sources) \<and> as_before (sv_sha sv) (set fs) t)
    (\<lambda>e t. P t \<and> fresh e)"
proof (induction fs arbitrary: P)
  case Nil
  then show ?case by (auto intro!: triple_return simp: sources_read_def as_before_def)
next
  case (Cons f fs)
  let ?P = "\<lambda>source t. P t \<and> source_at t (fp_target f) = Some source \<and> as_before (sv_sha sv) {f} t"
  have tail: "triple (?P source) (read_companions sv plan fs) (\<lambda>sources t. ?P source t \<and> length sources = length fs
      \<and> sources_read t (zip fs sources) \<and> as_before (sv_sha sv) (set fs) t) (\<lambda>e t. P t \<and> fresh e)" for source
    by (rule triple_weaken [OF Cons.IH [where P = "?P source"]]) auto
  show ?case
    unfolding read_companions.simps
    by (rule triple_then [OF triple_read_current [OF assms]], rule triple_then [OF tail])
      (auto intro!: triple_return simp: sources_read_def as_before_def)
qed

lemma triple_prepare:
  assumes os: "os_ok (sv_os sv)"
  shows "triple P (prepare_changes sv plan confirmation admission now)
    (\<lambda>(current, sources) t. P t \<and> length sources = length (pp_companions plan)
       \<and> sources_read t (zip (plan_files plan) (current # sources)) \<and> as_before (sv_sha sv) (set (plan_files plan)) t
       \<and> validate_confirmation plan confirmation now = Ok () \<and> validate_admission plan admission now = Ok ())
    (\<lambda>e t. P t \<and> fresh e)"
proof -
  let ?V = "\<lambda>t. P t \<and> validate_confirmation plan confirmation now = Ok ()"
  let ?W = "\<lambda>t. ?V t \<and> validate_admission plan admission now = Ok ()"
  let ?C = "\<lambda>current t. ?W t \<and> source_at t (fp_target (pp_primary plan)) = Some current
    \<and> as_before (sv_sha sv) {pp_primary plan} t"
  let ?D = "\<lambda>current sources t. ?C current t \<and> length sources = length (pp_companions plan)
    \<and> sources_read t (zip (pp_companions plan) sources) \<and> as_before (sv_sha sv) (set (pp_companions plan)) t"
  let ?R = "\<lambda>e t. P t \<and> fresh e"
  have confirmation: "triple P (run_lift (validate_confirmation plan confirmation now)) (\<lambda>_. ?V) ?R"
    by (rule triple_lift) (auto simp: fresh_lift)
  have admission: "triple ?V (run_lift (validate_admission plan admission now)) (\<lambda>_. ?W) ?R"
    by (rule triple_lift) (auto simp: fresh_lift)
  have load: "triple ?W (or_fail (on_services (sv_ownership_load sv (plan_key plan)))
      (failure plan OwnershipStage ''ownership_read_failed'')) (\<lambda>_. ?W) ?R"
    by (rule triple_inspect [where E = fresh]) (auto intro: inspecting)
  have active: "triple ?W (run_lift (check_active plan active)) (\<lambda>_. ?W) ?R" for active
    by (rule triple_lift) (auto simp: fresh_lift)
  have current: "triple ?W (read_current sv plan u c (pp_primary plan)) ?C ?R" for u c
    by (rule triple_weaken [OF triple_read_current [OF os, where P = ?W]]) auto
  have companions: "triple (?C current) (read_companions sv plan (pp_companions plan)) (?D current) ?R" for current
    by (rule triple_weaken [OF triple_read_companions [OF os, where P = "?C current"]]) auto
  have owned: "triple (?D current sources) (case pp_ownership plan of None \<Rightarrow> run_return ()
       | Some (record, _) \<Rightarrow> check_ownership sv plan current sources record) (\<lambda>_. ?D current sources) ?R" for current sources
    by (rule triple_inspect [where E = fresh])
      (auto intro: inspecting inspects_check_ownership split: option.splits)
  show ?thesis
    unfolding prepare_changes_def
    by (rule triple_then [OF confirmation], rule triple_then [OF admission], rule triple_then [OF load],
        rule triple_then [OF active], rule triple_then [OF current], rule triple_then [OF companions],
        rule triple_then [OF owned], rule triple_return)
      (auto simp: plan_files_def sources_read_def as_before_def)
qed

text \<open>A copy of a file's exact source was stored.\<close>

definition stored_copy :: "('x, 'd) services \<Rightarrow> prepared_plan \<Rightarrow> u64 \<Rightarrow> file_projection \<times> config_source \<Rightarrow> bool" where
  "stored_copy sv plan now = (\<lambda>(f, source). \<exists>x c x'. sv_snapshot_create sv (snapshot_request_for sv plan now f source) x = (Ok c, x'))"

lemma inspects_unpin: "inspects E (unpin_each sv ids)"
  by (induction ids) (auto simp: ignoring_def intro!: inspecting)

lemma inspects_unpin_and_fail [inspecting]: "E e \<Longrightarrow> inspects E (unpin_and_fail sv plan ids e)"
  by (auto simp: unpin_and_fail_def unpin_failed_connection_snapshots_def intro!: inspecting inspects_unpin)

lemma triple_snapshot_companions:
  "triple P (snapshot_companions sv plan now ids rest)
    (\<lambda>ids' t. P t \<and> length ids' = length ids + length rest \<and> list_all (stored_copy sv plan now) rest) (\<lambda>e t. P t \<and> fresh e)"
proof (induction rest arbitrary: ids P)
  case Nil
  then show ?case by (auto intro: triple_return)
next
  case (Cons x rest)
  obtain f source where x: "x = (f, source)" by fastforce
  have create: "triple P (on_services (sv_snapshot_create sv (snapshot_request_for sv plan now f source)))
      (\<lambda>_ t. P t \<and> stored_copy sv plan now x) (\<lambda>_. P)"
    by (rule triple_services) (auto simp: stored_copy_def x)
  show ?case
    unfolding x snapshot_companions.simps
  proof (rule triple_match [OF create [unfolded x]])
    show "triple P (unpin_and_fail sv plan ids (failure plan SnapshotStage ''companion_snapshot_create_failed''))
        (\<lambda>ids' t. P t \<and> length ids' = length ids + length ((f, source) # rest)
          \<and> list_all (stored_copy sv plan now) ((f, source) # rest)) (\<lambda>e t. P t \<and> fresh e)" for e
      by (rule triple_unpin) simp
    show "triple (\<lambda>t. P t \<and> stored_copy sv plan now (f, source))
        (snapshot_companions sv plan now (ids @ [created_id created]) rest)
        (\<lambda>ids' t. P t \<and> length ids' = length ids + length ((f, source) # rest)
          \<and> list_all (stored_copy sv plan now) ((f, source) # rest)) (\<lambda>e t. P t \<and> fresh e)" for created
      by (rule triple_weaken [OF Cons.IH [where P = "\<lambda>t. P t \<and> stored_copy sv plan now (f, source)"]]) auto
  qed
qed

text \<open>The files have the revisions that were planned.\<close>

definition as_after :: "sha256 \<Rightarrow> file_projection set \<Rightarrow> tree \<Rightarrow> bool" where
  "as_after sha F t \<longleftrightarrow> (\<forall>f \<in> F. revision_at sha (\<not> fp_existed f) t (fp_target f) = Some (fp_expected_after_hash f))"

lemma triple_check_written:
  assumes "os_ok (sv_os sv)"
  shows "triple P (check_written sv plan unreadable mismatch unparsed unverified f)
    (\<lambda>_ t. P t \<and> as_after (sv_sha sv) {f} t) (\<lambda>_. P)"
proof -
  have read: "triple P (or_fail (on_files (read_config_source (sv_os sv) (fp_target f))) (failure plan PostWriteRead unreadable))
      (\<lambda>source t. P t \<and> source_at t (fp_target f) = Some source) (\<lambda>_. P)"
    by (rule triple_or_fail, rule triple_weaken [OF triple_read_source [OF assms, where P = P]]) auto
  have check: "triple (\<lambda>t. P t \<and> source_at t (fp_target f) = Some source)
      (run_lift (ensure (revision_of (sv_sha sv) (\<not> fp_existed f) (fp_target f) source = fp_expected_after_hash f)
        (failure plan PostWriteRead mismatch))) (\<lambda>_ t. P t \<and> as_after (sv_sha sv) {f} t) (\<lambda>_. P)" for source
    by (rule triple_lift) (auto simp: ensure_def as_after_def revision_read split: if_splits)
  have rest: "triple Q m (\<lambda>_. Q) (\<lambda>_. P)" if "inspects (\<lambda>_. True) m" "\<And>t. Q t \<Longrightarrow> P t" for Q and m :: "(_ engine_state, transaction_failure, _) run"
    using that by (auto intro: triple_inspect)
  show ?thesis
    unfolding check_written_def
    by (rule triple_then [OF read], rule triple_then [OF check], rule rest) (auto intro!: inspecting)
qed

lemma triple_check_companions:
  assumes "os_ok (sv_os sv)"
  shows "triple P (check_companions sv plan fs) (\<lambda>_ t. P t \<and> as_after (sv_sha sv) (set fs) t) (\<lambda>_. P)"
proof (induction fs arbitrary: P)
  case Nil
  then show ?case by (auto intro!: triple_return simp: as_after_def)
next
  case (Cons f fs)
  let ?P = "\<lambda>t. P t \<and> as_after (sv_sha sv) {f} t"
  have tail: "triple ?P (check_companions sv plan fs) (\<lambda>_ t. ?P t \<and> as_after (sv_sha sv) (set fs) t) (\<lambda>_. P)"
    by (rule triple_weaken [OF Cons.IH [where P = ?P]]) auto
  show ?case
    unfolding check_companions.simps
    by (rule triple_then [OF triple_check_written [OF assms]], rule triple_then [OF tail])
      (auto intro!: triple_return simp: as_after_def)
qed

lemma inspects_commit: "inspects (\<lambda>_. True) (commit_ownership sv plan now snapshot_id after macs companions)"
  unfolding commit_ownership_def
  by (auto intro!: inspecting split: plan_intent.splits option.splits prod.splits)

lemma triple_verify_and_commit:
  assumes "os_ok (sv_os sv)"
  shows "triple P (verify_and_commit sv plan now ids)
    (\<lambda>_ t. P t \<and> as_after (sv_sha sv) (set (plan_files plan)) t) (\<lambda>_. P)"
proof -
  let ?A = "\<lambda>t. P t \<and> as_after (sv_sha sv) {pp_primary plan} t"
  let ?B = "\<lambda>t. ?A t \<and> as_after (sv_sha sv) (set (pp_companions plan)) t"
  have companions: "triple ?A (check_companions sv plan (pp_companions plan)) (\<lambda>_. ?B) (\<lambda>_. P)"
    by (rule triple_weaken [OF triple_check_companions [OF assms, where P = ?A]]) auto
  have rest: "triple ?B m (\<lambda>_ t. P t \<and> as_after (sv_sha sv) (set (plan_files plan)) t) (\<lambda>_. P)"
    if "inspects (\<lambda>_. True) m" for m :: "(_ engine_state, transaction_failure, _) run"
    by (rule triple_weaken [OF inspectsD [OF that, of ?B]]) (auto simp: plan_files_def as_after_def)
  show ?thesis
    unfolding verify_and_commit_def check_primary_def split_def
    by (rule triple_then [OF triple_check_written [OF assms]], rule triple_then [OF companions], rule rest)
      (auto intro!: inspecting inspects_commit)
qed

lemma triple_given:
  assumes "B \<Longrightarrow> triple P m Q R"
  shows "triple (\<lambda>t. P t \<and> B) m (\<lambda>a t. Q a t \<and> B) R"
proof (cases B)
  case True
  with assms show ?thesis by simp
qed (simp add: triple_def)

context config_writer
begin

lemma triple_change_files:
  fixes sv :: "('x, 'd) services"
  assumes os: "os_ok (sv_os sv)" and sv: "sv_replace sv = replace" "sv_remove sv = remove" "sv_sha sv = sha"
    and plan: "plan_apart plan" and before: "as_before sha (set (plan_files plan)) t0"
    and sources: "length sources = length (pp_companions plan)"
  shows "triple (\<lambda>t. t = t0) (change_files sv plan now current sources snapshot)
    (\<lambda>_ t. touched (targets (plan_files plan)) (targets (plan_files plan)) t0 t \<and> as_after sha (set (plan_files plan)) t
       \<and> list_all (stored_copy sv plan now) (zip (pp_companions plan) sources))
    (failure_sound sha (set (plan_files plan)) t0)"
proof -
  let ?ts = "targets (plan_files plan)" and ?cs = "pp_companions plan" and ?D = "set (plan_files plan)"
  let ?R = "failure_sound sha ?D t0" and ?p = "fp_target (pp_primary plan)"
  let ?stored = "list_all (stored_copy sv plan now) (zip ?cs sources)"
  have fresh_sound: "?R e t0" if "fresh e" for e
    using that by (auto simp: failure_sound_def fresh_def)
  have snapshots: "triple (\<lambda>t. t = t0) (snapshot_companions sv plan now [created_id snapshot] (zip ?cs sources))
      (\<lambda>ids t. t = t0 \<and> length ids = Suc (length ?cs) \<and> ?stored) ?R"
    by (rule triple_weaken [OF triple_snapshot_companions [where P = "\<lambda>t. t = t0"]])
      (auto simp: sources fresh_sound)
  have tail: "triple (\<lambda>t. t = t0 \<and> length ids = Suc (length ?cs) \<and> ?stored) (m ids)
      (\<lambda>_ t. touched ?ts ?ts t0 t \<and> as_after sha ?D t \<and> ?stored) ?R"
    if "\<And>ids. length ids = Suc (length ?cs) \<Longrightarrow> triple (\<lambda>t. t = t0) (m ids) (\<lambda>_ t. touched ?ts ?ts t0 t \<and> as_after sha ?D t) ?R"
    for m :: "string list \<Rightarrow> ('x, _) tx" and ids
    by (rule triple_weaken [OF triple_given [where B = "length ids = Suc (length ?cs) \<and> ?stored" and P = "\<lambda>t. t = t0"
        and Q = "\<lambda>_ t. touched ?ts ?ts t0 t \<and> as_after sha ?D t" and R = ?R]]) (auto intro: that)
  have expired: "triple (\<lambda>t. t = t0) (if b then unpin_and_fail sv plan ids (failure plan stage reason) else run_return ())
      (\<lambda>_ t. touched ?ts {} t0 t) ?R" for b ids stage reason
    by (auto intro!: triple_unpin triple_return simp: fresh_sound)
  have clock: "triple (\<lambda>t. t = t0) (read_clock sv) (\<lambda>_ t. t = t0) ?R"
    by (rule triple_inspect [OF inspects_clock [where E = "\<lambda>_. False"]]) simp
  have primary: "triple (touched ?ts {} t0) (write_primary sv plan ids current) (\<lambda>_. touched ?ts {?p} t0) ?R"
    if "length ids = Suc (length ?cs)" for ids
    by (rule triple_write_primary [OF os sv plan that before])
  have companions: "triple (touched ?ts {?p} t0) (write_companions sv plan ids 0 (zip ?cs sources)) (\<lambda>_. touched ?ts ?ts t0) ?R"
    if "length ids = Suc (length ?cs)" for ids
    using triple_write_companions [OF os sv plan that before, of "zip ?cs sources" 0] sources
    by (simp add: targets_def)
  have recover: "triple (touched ?ts ?ts t0) (recover_and_fail sv plan ids (length ?cs) e) Q ?R"
    if "length ids = Suc (length ?cs)" for ids e and Q :: "ownership_record \<Rightarrow> tree \<Rightarrow> bool"
    using triple_recover [OF os sv plan that before, of "length ?cs" e Q] by (simp add: plan_files_def targets_def)
  have verify: "triple (touched ?ts ?ts t0) (verify_and_commit sv plan now ids)
      (\<lambda>_ t. touched ?ts ?ts t0 t \<and> as_after sha ?D t) (\<lambda>_. touched ?ts ?ts t0)" for ids
    using triple_verify_and_commit [where P = "touched ?ts ?ts t0", OF os] by (simp add: sv)
  have committed: "triple (touched ?ts ?ts t0) (run_match (verify_and_commit sv plan now ids)
      (recover_and_fail sv plan ids (length ?cs)) run_return) (\<lambda>_ t. touched ?ts ?ts t0 t \<and> as_after sha ?D t) ?R"
    if "length ids = Suc (length ?cs)" for ids
    by (rule triple_match [OF verify recover [OF that]]) (auto intro: triple_return)
  have unpinned: "triple P (unpin_on_disconnect sv plan warning) (\<lambda>_. P) ?R" for P warning
  proof -
    have each: "inspects (\<lambda>_. False) (unpin_baselines sv warning l)" for warning l
      by (induction l arbitrary: warning) (auto intro!: inspecting)
    show ?thesis
      by (rule triple_inspect [where E = "\<lambda>_. False"])
        (auto simp: unpin_on_disconnect_def intro!: inspecting each split: plan_intent.splits option.splits)
  qed
  show ?thesis
    unfolding change_files_def after_copies_def
    by (rule triple_then [OF snapshots], rule tail, rule triple_then [OF clock], rule triple_then [OF expired],
        rule triple_then [OF primary], assumption, rule triple_then [OF companions], assumption,
        rule triple_then [OF committed], assumption, rule triple_then [OF unpinned], rule triple_return)
qed

end

text \<open>The exact source of every file of a plan was stored before the operation.\<close>

definition all_copied :: "('x, 'd) services \<Rightarrow> prepared_plan \<Rightarrow> u64 \<Rightarrow> tree \<Rightarrow> bool" where
  "all_copied sv plan now t \<longleftrightarrow> (\<exists>sources. length sources = length (plan_files plan)
     \<and> sources_read t (zip (plan_files plan) sources) \<and> list_all (stored_copy sv plan now) (zip (plan_files plan) sources))"

context config_writer
begin

lemma triple_apply:
  fixes sv :: "('x, 'd) services"
  assumes os: "os_ok (sv_os sv)" and sv: "sv_replace sv = replace" "sv_remove sv = remove" "sv_sha sv = sha"
    and plan: "plan_apart plan"
  shows "triple (\<lambda>t. t = t0) (apply_with_intent intent sv plan confirmation admission now)
    (\<lambda>_ t. touched (targets (plan_files plan)) (targets (plan_files plan)) t0 t
       \<and> as_before sha (set (plan_files plan)) t0 \<and> as_after sha (set (plan_files plan)) t \<and> all_copied sv plan now t0)
    (failure_sound sha (set (plan_files plan)) t0)"
proof -
  let ?D = "set (plan_files plan)" and ?R = "failure_sound sha (set (plan_files plan)) t0"
  let ?ts = "targets (plan_files plan)"
  have fresh_sound: "?R e t0" if "fresh e" for e
    using that by (auto simp: failure_sound_def fresh_def)
  let ?M = "\<lambda>(current, sources). length sources = length (pp_companions plan)
    \<and> sources_read t0 (zip (plan_files plan) (current # sources)) \<and> as_before sha ?D t0"
  have prepare: "triple (\<lambda>t. t = t0) (prepare_changes sv plan confirmation admission now)
      (\<lambda>x t. t = t0 \<and> ?M x) ?R"
    by (rule triple_weaken [OF triple_prepare [OF os, where P = "\<lambda>t. t = t0"]]) (auto simp: fresh_sound sv)
  have consume: "triple (\<lambda>t. t = t0) (consume plan) (\<lambda>_ t. t = t0) ?R"
    by (rule triple_inspect [OF inspects_consume [where E = fresh]]) (auto intro: fresh_sound)
  have create: "triple (\<lambda>t. t = t0) (or_fail (on_services (sv_snapshot_create sv (snapshot_request_for sv plan now (pp_primary plan) current)))
      (failure plan SnapshotStage ''snapshot_create_failed''))
      (\<lambda>_ t. t = t0 \<and> stored_copy sv plan now (pp_primary plan, current)) ?R" for current
    by (rule triple_or_fail, rule triple_services) (auto simp: stored_copy_def fresh_sound)
  let ?Q = "\<lambda>_ t. touched ?ts ?ts t0 t \<and> as_before sha ?D t0 \<and> as_after sha ?D t \<and> all_copied sv plan now t0"
  have change: "triple (\<lambda>t. t = t0 \<and> stored_copy sv plan now (pp_primary plan, current))
      (change_files sv plan now current sources snapshot) ?Q ?R"
    if len: "length sources = length (pp_companions plan)" and before: "as_before sha ?D t0"
      and read: "sources_read t0 (zip (plan_files plan) (current # sources))" for current sources snapshot
  proof -
    have copied: "all_copied sv plan now t0"
      if "stored_copy sv plan now (pp_primary plan, current)" "list_all (stored_copy sv plan now) (zip (pp_companions plan) sources)"
      unfolding all_copied_def
      by (rule exI [of _ "current # sources"]) (use that len read in \<open>simp add: plan_files_def\<close>)
    show ?thesis
      by (rule triple_weaken [OF triple_given [where B = "stored_copy sv plan now (pp_primary plan, current)", OF
            triple_change_files [OF os sv plan before len]]])
        (auto simp: before intro: copied)
  qed
  have rest: "triple (\<lambda>t. t = t0) (case x of (current, sources) \<Rightarrow> run_then (consume plan) (\<lambda>_.
     run_then (or_fail (on_services (sv_snapshot_create sv (snapshot_request_for sv plan now (pp_primary plan) current)))
       (failure plan SnapshotStage ''snapshot_create_failed'')) (\<lambda>snapshot.
     change_files sv plan now current sources snapshot))) ?Q ?R" if "?M x" for x
  proof (cases x)
    case (Pair current sources)
    with that have M: "length sources = length (pp_companions plan)" "as_before sha ?D t0"
      "sources_read t0 (zip (plan_files plan) (current # sources))" by auto
    show ?thesis
      unfolding Pair prod.case
      by (rule triple_then [OF consume], rule triple_then [OF create], rule change [OF M])
  qed
  have given: "triple (\<lambda>t. t = t0 \<and> ?M x) (m x) ?Q ?R"
    if "?M x \<Longrightarrow> triple (\<lambda>t. t = t0) (m x) ?Q ?R" for x and m :: "_ \<Rightarrow> ('x, _) tx"
    using that by (cases "?M x") (auto simp: triple_def)
  show ?thesis
    unfolding apply_with_intent_def apply_prepared_def
  proof (split if_split, intro conjI impI)
    show "triple (\<lambda>t. t = t0) (run_fail (failure plan AdmissionStage ''operation_intent_mismatch'')) ?Q ?R"
      by (rule triple_fail) (simp add: fresh_sound)
  qed (rule triple_then [OF prepare], rule given, rule rest)
qed

end

section \<open>Operations are consumed\<close>

text \<open>Every part of an operation but \<open>consume\<close> keeps the list of consumed operations.\<close>

definition keeps_consumed :: "('x engine_state, 'e, 'a) run \<Rightarrow> bool" where
  "keeps_consumed m \<longleftrightarrow> (\<forall>s. es_consumed (snd (m s)) = es_consumed s)"

named_theorems keeping

lemma keeps_match [keeping]:
  "keeps_consumed m \<Longrightarrow> (\<And>e. keeps_consumed (g e)) \<Longrightarrow> (\<And>a. keeps_consumed (f a)) \<Longrightarrow> keeps_consumed (run_match m g f)"
  unfolding keeps_consumed_def run_match_def by (auto split: prod.splits sum.splits) (metis snd_conv)+

lemma keeps_fail [keeping]: "keeps_consumed (run_fail e)"
  and keeps_return [keeping]: "keeps_consumed (run_return a)"
  and keeps_lift [keeping]: "keeps_consumed (run_lift r)"
  and keeps_files [keeping]: "keeps_consumed (on_files m)"
  and keeps_services [keeping]: "keeps_consumed (on_services x)"
  and keeps_clock [keeping]: "keeps_consumed (read_clock sv)"
  by (auto simp: keeps_consumed_def run_fail_def run_return_def run_lift_def on_files_def on_services_def read_clock_def
      split: prod.splits)

lemma keeps_then [keeping]: "keeps_consumed m \<Longrightarrow> (\<And>a. keeps_consumed (f a)) \<Longrightarrow> keeps_consumed (run_then m f)"
  unfolding run_then_def by (rule keeps_match) (auto intro: keeping)

lemma keeps_or_fail [keeping]: "keeps_consumed m \<Longrightarrow> keeps_consumed (or_fail m e)"
  unfolding or_fail_def by (intro keeping)

lemma keeps_prepare: "keeps_consumed (prepare_changes sv plan confirmation admission now)"
proof -
  have companions: "keeps_consumed (read_companions sv plan fs)" for fs
    by (induction fs) (auto simp: read_current_def intro!: keeping)
  show ?thesis
    unfolding prepare_changes_def
    by (auto simp: read_current_def check_ownership_def check_legacy_def Let_def
        intro!: keeping companions split: option.splits)
qed

lemma keeps_unpin [keeping]: "keeps_consumed (unpin_and_fail sv plan ids e)"
proof -
  have "keeps_consumed (unpin_each sv ids)"
    by (induction ids) (auto simp: ignoring_def intro!: keeping)
  then show ?thesis by (auto simp: unpin_and_fail_def unpin_failed_connection_snapshots_def intro!: keeping)
qed

lemma keeps_recover [keeping]: "keeps_consumed (recover_and_fail sv plan ids reached e)"
proof -
  have restore: "keeps_consumed (restore_files sv failed l)" for failed l
    by (induction sv failed l rule: restore_files.induct) (auto simp: restore_projection_def intro!: keeping)
  show ?thesis
    unfolding recover_and_fail_def by (intro keeping restore)
qed

lemma keeps_change: "keeps_consumed (change_files sv plan now current sources snapshot)"
proof -
  have snapshots: "keeps_consumed (snapshot_companions sv plan now ids rest)" for ids rest
    by (induction rest arbitrary: ids) (auto intro!: keeping)
  have companions: "keeps_consumed (write_companions sv plan ids i rest)" for ids i rest
    by (induction rest arbitrary: i) (auto simp: write_projection_def intro!: keeping)
  have checks: "keeps_consumed (check_companions sv plan fs)" for fs
    by (induction fs) (auto simp: check_written_def intro!: keeping)
  have unpin: "keeps_consumed (unpin_baselines sv warning l)" for warning l
    by (induction l arbitrary: warning) (auto intro!: keeping)
  have commit: "keeps_consumed (commit_ownership sv plan now i after macs cs)" for i after macs cs
    unfolding commit_ownership_def by (auto intro!: keeping split: plan_intent.splits option.splits prod.splits)
  have primary: "keeps_consumed (write_primary sv plan ids current)" for ids
    unfolding write_primary_def Let_def write_projection_def by (auto intro!: keeping)
  have verify: "keeps_consumed (verify_and_commit sv plan now ids)" for ids
    unfolding verify_and_commit_def check_primary_def check_written_def split_def by (intro keeping checks commit)
  have disconnect: "keeps_consumed (unpin_on_disconnect sv plan warning)" for warning
    by (auto simp: unpin_on_disconnect_def intro!: keeping unpin split: plan_intent.splits option.splits)
  show ?thesis
    unfolding change_files_def after_copies_def
    by (auto intro!: keeping snapshots companions primary verify disconnect)
qed

lemma triple_pure: "B \<Longrightarrow> triple P m (\<lambda>_ _. B) (\<lambda>_ _. B)"
  by (auto simp: triple_def split: sum.split)

lemma triple_copied:
  assumes "length sources = length (pp_companions plan)"
  shows "triple (\<lambda>t. t = t0)
    (run_then (or_fail (on_services (sv_snapshot_create sv (snapshot_request_for sv plan now (pp_primary plan) current))) e)
      (change_files sv plan now current sources))
    (\<lambda>_ _. list_all (stored_copy sv plan now) (zip (plan_files plan) (current # sources)))
    (\<lambda>_ t. t = t0 \<or> list_all (stored_copy sv plan now) (zip (plan_files plan) (current # sources)))"
proof -
  let ?all = "list_all (stored_copy sv plan now) (zip (plan_files plan) (current # sources))"
  let ?one = "stored_copy sv plan now (pp_primary plan, current)"
  have create: "triple (\<lambda>t. t = t0) (or_fail (on_services (sv_snapshot_create sv (snapshot_request_for sv plan now (pp_primary plan) current))) e)
      (\<lambda>_ t. t = t0 \<and> ?one) (\<lambda>_ t. t = t0 \<or> ?all)"
    by (rule triple_or_fail, rule triple_services) (auto simp: stored_copy_def)
  have snapshots: "triple (\<lambda>t. t = t0 \<and> ?one) (snapshot_companions sv plan now ids (zip (pp_companions plan) sources))
      (\<lambda>_ _. ?all) (\<lambda>_ t. t = t0 \<or> ?all)" for ids
    by (rule triple_weaken [OF triple_snapshot_companions [where P = "\<lambda>t. t = t0 \<and> ?one"]])
      (auto simp: plan_files_def)
  have rest: "triple (\<lambda>_. ?all) m (\<lambda>_ _. ?all) (\<lambda>_ t. t = t0 \<or> ?all)" for m :: "(_ engine_state, transaction_failure, _) run"
    by (cases ?all) (auto simp: triple_def split: sum.split)
  show ?thesis
    by (rule triple_then [OF create]) (unfold change_files_def, rule triple_then [OF snapshots], rule rest)
qed

lemma apply_cases:
  assumes os: "os_ok (sv_os sv)" and run: "apply_with_intent intent sv plan confirmation admission now s = (r, s')"
  obtains (early) e where "r = Err e" "tree_of s' = tree_of s" "es_consumed s' = es_consumed s"
  | (consumed) current sources v where "pp_intent plan = intent"
      "validate_confirmation plan confirmation now = Ok ()" "validate_admission plan admission now = Ok ()"
      "pp_operation_id plan \<notin> set (es_consumed s)"
      "length sources = length (pp_companions plan)" "sources_read (tree_of s) (zip (plan_files plan) (current # sources))"
      "tree_of v = tree_of s" "es_consumed v = pp_operation_id plan # es_consumed s"
      "run_then (or_fail (on_services (sv_snapshot_create sv (snapshot_request_for sv plan now (pp_primary plan) current)))
        (failure plan SnapshotStage ''snapshot_create_failed'')) (change_files sv plan now current sources) v = (r, s')"
proof (cases "pp_intent plan = intent")
  case False
  with run show ?thesis by (auto simp: apply_with_intent_def run_fail_def intro: early)
next
  case True
  obtain q u where q: "prepare_changes sv plan confirmation admission now s = (q, u)" by fastforce
  have u: "es_consumed u = es_consumed s"
    using keeps_prepare [of sv plan confirmation admission now] q by (metis keeps_consumed_def snd_conv)
  note t = tripleD [OF triple_prepare [OF os, where P = "\<lambda>t. t = tree_of s"] refl q]
  show ?thesis
  proof (cases q)
    case (Inl e)
    with True run q u t show ?thesis
      by (auto simp: apply_with_intent_def apply_prepared_def run_then_def run_match_def run_fail_def intro: early)
  next
    case (Inr x)
    obtain current sources where x: "x = (current, sources)" by fastforce
    show ?thesis
    proof (cases "pp_operation_id plan \<in> set (es_consumed s)")
      case True
      with Inr x \<open>pp_intent plan = intent\<close> run q u t show ?thesis
        by (auto simp: apply_with_intent_def apply_prepared_def run_then_def run_match_def run_fail_def consume_def intro: early)
    next
      case False
      let ?v = "u\<lparr>es_consumed := pp_operation_id plan # es_consumed u\<rparr>"
      have v: "tree_of ?v = tree_of s" "es_consumed ?v = pp_operation_id plan # es_consumed s"
        using t u Inr x by (simp_all add: tree_of_def)
      from t Inr x have read: "length sources = length (pp_companions plan)"
          "sources_read (tree_of s) (zip (plan_files plan) (current # sources))"
          "validate_confirmation plan confirmation now = Ok ()" "validate_admission plan admission now = Ok ()" by auto
      show ?thesis
        using True False run q u v read
        by (intro consumed [of sources current ?v])
          (simp_all add: Inr x apply_with_intent_def apply_prepared_def run_then_def run_match_def consume_def)
    qed
  qed
qed

text \<open>
  C5. A failed operation says what became of the files. When no recovery was required, every file of the
  plan is as it was before; when the files were restored, each has again the revision it had. In every
  case nothing but the plan's files was changed: anything new is a directory above one of them or a
  temporary file beside one.
\<close>

theorem failed_transaction_restores:
  assumes "os_ok (sv_os sv)" and "sv_replace sv = config_replace (sv_sha sv)" and "sv_remove sv = config_remove (sv_sha sv)"
    and "plan_apart plan" and "apply_with_intent intent sv plan confirmation admission now s = (Err e, s')"
  shows "(tf_recovery e = NotRequired \<longrightarrow> (\<forall>f \<in> set (plan_files plan). tree_of s' (fp_target f) = tree_of s (fp_target f)))
    \<and> (tf_recovery e = Restored \<longrightarrow> (\<forall>f \<in> set (plan_files plan).
         revision_at (sv_sha sv) False (tree_of s') (fp_target f) = Some (fp_before_hash f)))
    \<and> touched (targets (plan_files plan)) (targets (plan_files plan)) (tree_of s) (tree_of s')"
proof -
  have "failure_sound (sv_sha sv) (set (plan_files plan)) (tree_of s) e (tree_of s')"
    using tripleD [OF fs.triple_apply [OF assms(1-3) refl assms(4)] refl assms(5)] by simp
  then show ?thesis by (auto simp: failure_sound_def as_before_def targets_def)
qed

text \<open>
  The services store copies of the files one after the other, from one state of theirs to another,
  without anything else between.
\<close>

fun take_copies ::
  "('x, 'd) services \<Rightarrow> prepared_plan \<Rightarrow> u64 \<Rightarrow> (file_projection \<times> config_source) list \<Rightarrow> 'x
    \<Rightarrow> (snapshot_created list \<times> 'x) option"
where
  "take_copies sv plan now [] x = Some ([], x)"
| "take_copies sv plan now ((f, source) # rest) x =
     (case sv_snapshot_create sv (snapshot_request_for sv plan now f source) x of
        (Inl _, _) \<Rightarrow> None
      | (Inr c, x) \<Rightarrow> map_option (\<lambda>(cs, x). (c # cs, x)) (take_copies sv plan now rest x))"

lemma unpin_and_fail_Err: "unpin_and_fail sv plan ids e s = (Ok a, s') \<Longrightarrow> False"
  by (auto simp: unpin_and_fail_def run_then_def run_match_def run_fail_def split: prod.splits sum.splits)

lemma snapshot_companions_copies:
  "snapshot_companions sv plan now ids rest s = (Ok ids', s') \<Longrightarrow>
    \<exists>cs. take_copies sv plan now rest (es_services s) = Some (cs, es_services s')
      \<and> ids' = ids @ map created_id cs \<and> tree_of s' = tree_of s \<and> es_consumed s' = es_consumed s"
proof (induction rest arbitrary: ids s)
  case Nil
  then show ?case by (simp add: run_return_def)
next
  case (Cons p rest)
  obtain f source where p: "p = (f, source)" by fastforce
  obtain r x where create: "sv_snapshot_create sv (snapshot_request_for sv plan now f source) (es_services s) = (r, x)"
    by fastforce
  show ?case
  proof (cases r)
    case (Inl e)
    with Cons.prems show ?thesis
      by (auto simp: p run_match_def on_services_def create dest: unpin_and_fail_Err)
  next
    case (Inr c)
    with Cons.prems have "snapshot_companions sv plan now (ids @ [created_id c]) rest (s\<lparr>es_services := x\<rparr>) = (Ok ids', s')"
      by (simp add: p run_match_def on_services_def create)
    from Cons.IH [OF this] show ?thesis by (auto simp: p create Inr tree_of_def)
  qed
qed

text \<open>
  C7. An operation that is applied found every file of the plan at the revision the plan was prepared for,
  stored the exact source of every file before it changed any, and left every file at the planned
  revision; nothing else was changed, but for new directories and temporary files. All copies were
  stored one after the other while the files were still as they had been, and everything
  else of the operation, every write included, ran from there. The operation had not been consumed
  before, and is now.
\<close>

theorem applied_transaction:
  assumes "os_ok (sv_os sv)" and "sv_replace sv = config_replace (sv_sha sv)" and "sv_remove sv = config_remove (sv_sha sv)"
    and "plan_apart plan" and "apply_with_intent intent sv plan confirmation admission now s = (Ok out, s')"
  shows "as_before (sv_sha sv) (set (plan_files plan)) (tree_of s) \<and> all_copied sv plan now (tree_of s)
    \<and> as_after (sv_sha sv) (set (plan_files plan)) (tree_of s')
    \<and> touched (targets (plan_files plan)) (targets (plan_files plan)) (tree_of s) (tree_of s')
    \<and> pp_operation_id plan \<notin> set (es_consumed s) \<and> es_consumed s' = pp_operation_id plan # es_consumed s
    \<and> (\<exists>current sources x c cs u. length sources = length (pp_companions plan)
         \<and> sources_read (tree_of s) (zip (plan_files plan) (current # sources))
         \<and> take_copies sv plan now (zip (plan_files plan) (current # sources)) x = Some (c # cs, es_services u)
         \<and> tree_of u = tree_of s
         \<and> after_copies sv plan now current sources c (map created_id (c # cs)) u = (Ok out, s'))"
proof -
  have outcome: "as_before (sv_sha sv) (set (plan_files plan)) (tree_of s) \<and> all_copied sv plan now (tree_of s)
    \<and> as_after (sv_sha sv) (set (plan_files plan)) (tree_of s')
    \<and> touched (targets (plan_files plan)) (targets (plan_files plan)) (tree_of s) (tree_of s')"
    using tripleD [OF fs.triple_apply [OF assms(1-3) refl assms(4)] refl assms(5)] by simp
  from assms(1,5) show ?thesis
  proof (cases rule: apply_cases)
    case (consumed current sources v)
    obtain r x where create: "sv_snapshot_create sv (snapshot_request_for sv plan now (pp_primary plan) current) (es_services v) = (r, x)"
      by fastforce
    with consumed(9) obtain c where r: "r = Ok c"
      and run: "change_files sv plan now current sources c (v\<lparr>es_services := x\<rparr>) = (Ok out, s')"
      by (cases r) (auto simp: run_then_def run_match_def or_fail_def on_services_def run_fail_def run_return_def)
    from run obtain ids u where
        ids: "snapshot_companions sv plan now [created_id c] (zip (pp_companions plan) sources) (v\<lparr>es_services := x\<rparr>) = (Ok ids, u)"
      and rest: "after_copies sv plan now current sources c ids u = (Ok out, s')"
      by (auto simp: change_files_def run_then_def run_match_def run_fail_def split: prod.splits sum.splits)
    from snapshot_companions_copies [OF ids] obtain cs where
        cs: "take_copies sv plan now (zip (pp_companions plan) sources) x = Some (cs, es_services u)"
      and u: "ids = map created_id (c # cs)" "tree_of u = tree_of v"
      by (auto simp: tree_of_def)
    have "take_copies sv plan now (zip (plan_files plan) (current # sources)) (es_services v) = Some (c # cs, es_services u)"
      using cs by (simp add: plan_files_def create r)
    moreover have "es_consumed s' = pp_operation_id plan # es_consumed s"
      using keeps_change [of sv plan now current sources c] run consumed(8)
      unfolding keeps_consumed_def by (metis (no_types) engine_state.select_convs(3) engine_state.surjective engine_state.update_convs(2) snd_conv)
    ultimately show ?thesis
      using outcome consumed(4-7) rest u by metis
  qed simp
qed

text \<open>
  C6. A confirmed operation takes effect once, whatever the writer and the services do. When it has been
  consumed before, it is refused and no file changes. When it succeeds or changes any file, its intent was
  the one asked for, the confirmation and the admission were valid, it had not been consumed and is now,
  and the exact source of every file of the plan, as it was before, was stored. No operation is ever
  forgotten.
\<close>

theorem operation_changes_files_once:
  assumes "os_ok (sv_os sv)" and "apply_with_intent intent sv plan confirmation admission now s = (r, s')"
  shows "(pp_operation_id plan \<in> set (es_consumed s) \<longrightarrow> isl r \<and> tree_of s' = tree_of s)
    \<and> (tree_of s' \<noteq> tree_of s \<or> \<not> isl r \<longrightarrow> pp_intent plan = intent
         \<and> validate_confirmation plan confirmation now = Ok () \<and> validate_admission plan admission now = Ok ()
         \<and> pp_operation_id plan \<notin> set (es_consumed s) \<and> es_consumed s' = pp_operation_id plan # es_consumed s
         \<and> all_copied sv plan now (tree_of s))
    \<and> set (es_consumed s) \<subseteq> set (es_consumed s')"
  using assms
proof (cases rule: apply_cases)
  case (consumed current sources v)
  have all: "all_copied sv plan now (tree_of s)"
    if "list_all (stored_copy sv plan now) (zip (plan_files plan) (current # sources))"
    unfolding all_copied_def
    by (rule exI [of _ "current # sources"]) (use that consumed(5,6) in \<open>simp add: plan_files_def\<close>)
  have "keeps_consumed (run_then (or_fail (on_services (sv_snapshot_create sv (snapshot_request_for sv plan now
      (pp_primary plan) current))) (failure plan SnapshotStage ''snapshot_create_failed'')) (change_files sv plan now current sources))"
    by (intro keeping keeps_change)
  with consumed(8,9) have "es_consumed s' = pp_operation_id plan # es_consumed s"
    by (metis keeps_consumed_def snd_conv)
  with consumed all tripleD [OF triple_copied [OF consumed(5)] refl consumed(9)] show ?thesis
    by (cases r) auto
qed simp

text \<open>Concrete services: the snapshots are kept in a list, and the verifier answers \<open>verified\<close>.\<close>

definition example_snapshot :: "snapshot_request \<Rightarrow> snapshot_record" where
  "example_snapshot r = \<lparr>sr_schema_version = 1, sr_snapshot_id = rq_target_config_path r, sr_operation_id = rq_operation_id r,
     sr_agent_id = rq_agent_id r, sr_target_config_path = rq_target_config_path r, sr_envelope_hash = [],
     sr_before_hash = rq_before_hash r, sr_original_existed = cs_existed (rq_source r),
     sr_original_permissions = cs_permissions (rq_source r), sr_original_owner = cs_owner (rq_source r),
     sr_created_at_ms = rq_created_at_ms r, sr_connector_id = rq_connector_id r, sr_app_version = rq_app_version r,
     sr_pinned = rq_pinned r\<rparr>"

definition example_services :: "bool \<Rightarrow> (snapshot_request list, json) services" where
  "example_services verified = \<lparr>sv_os = example_os, sv_sha = example_sha, sv_suite = example_suite, sv_app_version = ''1'',
     sv_parse = (\<lambda>_ _ _. Some (JString ''a'')), sv_semantic = Ok,
     sv_snapshot_create = (\<lambda>r x. (Ok \<lparr>sc_record = example_snapshot r, sc_maintenance_warning = None\<rparr>, r # x)),
     sv_snapshot_load = (\<lambda>i x. (case find (\<lambda>r. rq_target_config_path r = i) x of None \<Rightarrow> Err ()
       | Some r \<Rightarrow> Ok \<lparr>ds_record = example_snapshot r, ds_exact_bytes = cs_bytes (rq_source r)\<rparr>, x)),
     sv_set_pinned = (\<lambda>_ _ x. (Ok (), x)), sv_ownership_load = (\<lambda>_ x. (Ok None, x)),
     sv_ownership_commit = (\<lambda>r _ x. (Ok r, x)), sv_ownership_remove = (\<lambda>_ _ x. (Ok (), x)),
     sv_key_load = (\<lambda>x. (Ok [], x)), sv_replace = config_replace example_sha, sv_remove = config_remove example_sha,
     sv_verify = (\<lambda>_ _ x. (if verified then Ok () else Err (), x)), sv_now = (\<lambda>x. (5, x))\<rparr>"

definition example_projection :: file_projection where
  "example_projection = \<lparr>fp_target = [''d'', ''k''], fp_existed = True, fp_before_hash = example_revision,
     fp_expected_after_hash = file_revision_hash example_sha [''d'', ''k''] (source_of_file [5, 6] 384 (1000, 1000)),
     fp_projected_bytes = [5, 6], fp_format = FormatJson, fp_label = ''k'', fp_owned_paths = [], fp_sensitive_paths = []\<rparr>"

definition example_plan :: prepared_plan where
  "example_plan = \<lparr>pp_operation_id = ''op'', pp_intent = Connect, pp_agent_id = ''codex'', pp_installation_path = ''/bin/codex'',
     pp_connector_id = ''c'', pp_status = DetectedVerified, pp_sequence = 3, pp_compatibility_expires_at_ms = None,
     pp_created_at_ms = 0, pp_expires_at_ms = 9, pp_required_confirmations = [ConfirmTargetConfig],
     pp_primary = example_projection, pp_ownership = None, pp_companions = []\<rparr>"

definition example_state :: "snapshot_request list engine_state" where
  "example_state = \<lparr>es_world = example_world, es_services = [], es_consumed = []\<rparr>"

text \<open>The plan whose result is no file at all.\<close>

definition example_removal :: prepared_plan where
  "example_removal = example_plan\<lparr>pp_primary := example_projection\<lparr>fp_expected_after_hash :=
     file_revision_hash example_sha [''d'', ''k''] source_missing\<rparr>\<rparr>"

definition example_apply :: "bool \<Rightarrow> prepared_plan
    \<Rightarrow> (transaction_failure + transaction_outcome) \<times> snapshot_request list engine_state" where
  "example_apply verified plan = apply_connection (example_services verified) plan
     \<lparr>cf_operation_id = ''op'', cf_confirmed_at_ms = 4, cf_confirmations = [ConfirmTargetConfig]\<rparr>
     \<lparr>ra_compatibility_sequence = 3, ra_status = DetectedVerified\<rparr> 4 example_state"

text \<open>What is read off the two runs: the error or the identifier, the files, the consumed operations.\<close>

definition example_view :: "(transaction_failure + transaction_outcome) \<times> snapshot_request list engine_state
    \<Rightarrow> (transaction_failure + string) \<times> node option list \<times> string list" where
  "example_view = (\<lambda>(r, s). (map_err id (and_then r (\<lambda>out. Ok (to_snapshot_id out))),
     map (tree_of s) [[''d'', ''k''], [''d'', ''n'']], es_consumed s))"

lemma run_match_unfold [code_unfold]:
  "run_match m g f = (\<lambda>s. case m s of (r, s) \<Rightarrow> (case r of Inl e \<Rightarrow> g e s | Inr a \<Rightarrow> f a s))"
  by (auto simp: fun_eq_iff run_match_def split: prod.split sum.split)

lemma run_then_unfold [code_unfold]:
  "run_then m f = (\<lambda>s. case m s of (r, s) \<Rightarrow> (case r of Inl e \<Rightarrow> (Inl e, s) | Inr a \<Rightarrow> f a s))"
  by (auto simp: fun_eq_iff run_then_def run_match_def run_fail_def split: prod.split sum.split)

text \<open>The removal is verified, fails, and is undone; the replacement succeeds.\<close>

lemma example_failed: "case fst (example_apply False example_removal) of
    Inl e \<Rightarrow> tf_recovery e = Restored \<and> tf_stage e = PostWriteSelfCheck | Inr _ \<Rightarrow> False"
  by code_simp

lemma example_applied_view: "example_view (example_apply True example_plan) =
  (Ok ''/d/k'', [Some (File [5, 6] 384 (1000, 1000)), None], [''op''])"
  by code_simp

lemma example_applied: "\<not> isl (fst (example_apply True example_plan))"
  using example_applied_view
  by (cases "example_apply True example_plan"; cases "fst (example_apply True example_plan)")
    (auto simp: example_view_def)

lemma example_apart: "plan_apart example_plan" "plan_apart example_removal"
  by (simp_all add: plan_apart_def example_plan_def example_removal_def plan_files_def example_projection_def targets_def
      targets_apart_def not_beside_itself)

lemma example_writer: "os_ok (sv_os (example_services b))" "sv_sha (example_services b) = example_sha"
  "sv_replace (example_services b) = config_replace (sv_sha (example_services b))"
  "sv_remove (example_services b) = config_remove (sv_sha (example_services b))"
  by (simp_all add: example_services_def example_os_ok)

theorem failed_transaction_restores_witness:
  "\<exists>e. fst (example_apply False example_removal) = Err e \<and> tf_recovery e = Restored
    \<and> revision_at example_sha False (tree_of (snd (example_apply False example_removal))) [''d'', ''k''] = Some example_revision"
proof -
  from example_failed obtain e where e: "fst (example_apply False example_removal) = Err e" "tf_recovery e = Restored"
    by (auto split: sum.splits)
  then have run: "example_apply False example_removal = (Err e, snd (example_apply False example_removal))"
    by (simp add: prod_eq_iff)
  from failed_transaction_restores [OF example_writer(1,3,4) example_apart(2) run [unfolded example_apply_def]] e
  show ?thesis
    by (auto simp: example_apply_def example_writer(2) example_removal_def example_plan_def plan_files_def
        example_projection_def)
qed

theorem applied_transaction_witness:
  "revision_at example_sha False (tree_of (snd (example_apply True example_plan))) [''d'', ''k'']
     = Some (file_revision_hash example_sha [''d'', ''k''] (source_of_file [5, 6] 384 (1000, 1000)))
   \<and> all_copied (example_services True) example_plan 4 (w_tree example_world)"
proof -
  obtain out where "fst (example_apply True example_plan) = Ok out" using example_applied by (metis sum.collapse(2))
  then have run: "example_apply True example_plan = (Ok out, snd (example_apply True example_plan))"
    by (simp add: prod_eq_iff)
  from applied_transaction [OF example_writer(1,3,4) example_apart(1) run [unfolded example_apply_def]]
  show ?thesis
    by (auto simp: as_after_def example_apply_def example_writer(2) example_plan_def plan_files_def
        example_projection_def example_state_def tree_of_def)
qed

theorem operation_changes_files_once_witness:
  "\<exists>e s'. apply_connection (example_services True) example_plan
     \<lparr>cf_operation_id = ''op'', cf_confirmed_at_ms = 4, cf_confirmations = [ConfirmTargetConfig]\<rparr>
     \<lparr>ra_compatibility_sequence = 3, ra_status = DetectedVerified\<rparr> 4 (snd (example_apply True example_plan)) = (Err e, s')
     \<and> tree_of s' = tree_of (snd (example_apply True example_plan))"
proof -
  note once = operation_changes_files_once [OF example_writer(1) prod.collapse [symmetric]]
  have "\<not> isl (fst (example_apply True example_plan))" by (rule example_applied)
  with once have "pp_operation_id example_plan \<in> set (es_consumed (snd (example_apply True example_plan)))"
    unfolding example_apply_def by (metis list.set_intros(1))
  with once show ?thesis by (metis isl_def prod.collapse)
qed

end
