(* ===== verification/Snapshot_Properties.thy ===== *)
theory Snapshot_Properties
  imports Snapshots
begin

section \<open>Hexadecimal text\<close>

lemma hex_digit_value: "n < 16 \<Longrightarrow> hex_value (hex_digit n) = Ok n"
  by (auto simp: hex_value_def hex_digit_def Let_def take_bit_eq_mod)

lemma hex_digit_lower: "n < 16 \<Longrightarrow> lower_hex_char (hex_digit n)"
  by (auto simp: lower_hex_char_def hex_digit_def Let_def take_bit_eq_mod)

lemma nibbles: "unat (b :: u8) div 16 < 16" "unat b mod 16 < 16"
  using unat_lt [of b] by simp_all

lemma hex_text_Cons: "hex_text (b # bs) = hex_digit (unat b div 16) # hex_digit (unat b mod 16) # hex_text bs"
  by (simp add: hex_text_def)

lemma hex_text_lower: "list_all lower_hex_char (hex_text bs)"
  by (induction bs) (simp_all add: hex_text_Cons hex_digit_lower nibbles, simp add: hex_text_def)

lemma byte_of_nibbles: "of_nat (unat b div 16) * 16 + of_nat (unat b mod 16) = (b :: u8)"
proof -
  have "of_nat (unat b div 16) * 16 + of_nat (unat b mod 16) = (of_nat (unat b div 16 * 16 + unat b mod 16) :: u8)"
    by (simp only: of_nat_add of_nat_mult of_nat_numeral)
  then show ?thesis by simp
qed

lemma decode_hex_text: "decode_lower_hex (hex_text bs) = Ok bs"
proof -
  have "decode_pairs (hex_text bs) = Ok bs"
    by (induction bs) (simp_all add: hex_text_Cons hex_digit_value nibbles byte_of_nibbles, simp add: hex_text_def)
  then show ?thesis by (simp add: decode_lower_hex_def hex_text_lower hex_text_length)
qed

lemma hex_text_id: "length bs = 16 \<Longrightarrow> valid_snapshot_id (hex_text bs)"
  by (simp add: valid_snapshot_id_def hex_text_lower hex_text_length)

section \<open>Reading and writing the store\<close>

definition snapshot_index_ok :: "snapshot_index \<Rightarrow> bool" where
  "snapshot_index_ok i \<longleftrightarrow> validate_snapshot_index i = Ok i"

definition snapshot_index_at :: "snapshot_store \<Rightarrow> tree \<Rightarrow> snapshot_index option" where
  "snapshot_index_at st = private_json_at (snapshot_index_file st) empty_snapshot_index (ss_decode_index st) snapshot_index_ok"

lemma validate_snapshot_index_Ok: "validate_snapshot_index i = Ok j \<longleftrightarrow> j = i \<and> snapshot_index_ok i"
  by (auto simp: snapshot_index_ok_def validate_snapshot_index_def and_then_Ok_iff)

lemma contract_read_snapshot_index:
  assumes "os_ok (ss_os st)" and "\<And>t. P t \<Longrightarrow> I t" and "\<And>t e. P t \<Longrightarrow> R e t"
    and "\<And>t i. P t \<Longrightarrow> snapshot_index_at st t = Some i \<Longrightarrow> Q i t"
  shows "contract I P (read_snapshot_index st) Q R"
  unfolding read_snapshot_index_def
  by (rule contract_read_private [OF assms(1-3) assms(4) [unfolded snapshot_index_at_def] validate_snapshot_index_Ok])

lemma validate_snapshot_records_iff:
  "validate_snapshot_records seen rs = Ok u \<longleftrightarrow> distinct (map sr_snapshot_id rs) \<and> set (map sr_snapshot_id rs) \<inter> seen = {}
    \<and> (\<forall>r \<in> set rs. valid_snapshot_id (sr_snapshot_id r) \<and> validate_agent_id (sr_agent_id r) = Ok ()
        \<and> sr_schema_version r = SNAPSHOT_SCHEMA_VERSION)"
  by (induction rs arbitrary: seen)
    (auto simp: and_then_Ok_iff validate_snapshot_id_def ensure_def split: if_splits)

lemma snapshot_index_ok_iff:
  "snapshot_index_ok i \<longleftrightarrow> si_schema_version i = SNAPSHOT_INDEX_SCHEMA_VERSION \<and> distinct (map sr_snapshot_id (si_records i))
    \<and> (\<forall>r \<in> set (si_records i). valid_snapshot_id (sr_snapshot_id r) \<and> validate_agent_id (sr_agent_id r) = Ok ()
        \<and> sr_schema_version r = SNAPSHOT_SCHEMA_VERSION)"
  by (auto simp: snapshot_index_ok_def validate_snapshot_index_def and_then_Ok_iff validate_snapshot_records_iff)

text \<open>The paths of envelopes and of the index are apart.\<close>

lemma envelope_names_apart:
  assumes "length i = 32" and "length j = 32" and "envelope_name a c i = envelope_name b d j"
  shows "i = j"
proof -
  have "drop (length (envelope_name x e k) - 37) (envelope_name x e k) = k @ ''.json''" if "length k = 32" for x e k
    using that by (simp add: envelope_name_def)
  from this [OF assms(1), of a c] this [OF assms(2), of b d] assms(3) show ?thesis by simp
qed

lemma envelope_paths_apart:
  assumes "length (sr_snapshot_id r) = 32" and "length (sr_snapshot_id r') = 32" and "sr_snapshot_id r \<noteq> sr_snapshot_id r'"
  shows "current_envelope_path st r \<noteq> current_envelope_path st r'"
  using envelope_names_apart [OF assms(1,2)] assms(3)
  by (auto simp: current_envelope_path_def current_envelope_path_fields_def)

lemma envelope_path_shapes:
  "current_envelope_path st r \<noteq> legacy_envelope_path st i" "current_envelope_path st r \<noteq> snapshot_index_file st"
  "current_envelope_path st r \<noteq> []"
  by (simp_all add: current_envelope_path_def current_envelope_path_fields_def legacy_envelope_path_def snapshot_index_file_def)

lemma legacy_not_index: "length i = 32 \<Longrightarrow> legacy_envelope_path st i \<noteq> snapshot_index_file st"
  by (auto simp: legacy_envelope_path_def snapshot_index_file_def dest!: arg_cong [where f = length])

lemma index_file_not_empty: "snapshot_index_file st \<noteq> []"
  by (simp add: snapshot_index_file_def)

section \<open>Pruning keeps what stays\<close>

lemma remove_envelope_keeps: "f \<noteq> p \<Longrightarrow> preserves (\<lambda>t. t f = Some n) (remove_envelope st p)"
  unfolding remove_envelope_def check_directory_def remove_file_def sync_parent_def sync_directory_def sync_def
  by (intro preserves_intros preserves_syscall) (auto intro!: preserves_intros split: option.splits if_splits)

lemma remove_envelopes_keep:
  "f \<noteq> current_envelope_path st r \<Longrightarrow> f \<noteq> legacy_envelope_path st (sr_snapshot_id r)
    \<Longrightarrow> preserves (\<lambda>t. t f = Some n) (remove_envelopes st r)"
  unfolding remove_envelopes_def by (rule preserves_each) (auto intro: remove_envelope_keeps)

lemma contract_delete_each:
  assumes "\<And>r. r \<in> set rs \<Longrightarrow> preserves K (remove_envelopes st r)"
  shows "contract K K (delete_each st rs) (\<lambda>(failed, deleted) t. K t \<and> set deleted \<subseteq> sr_snapshot_id ` set rs) (\<lambda>_. K)"
  using assms
proof (induction rs)
  case (Cons r rs)
  have rest: "contract K K (io_then (delete_each st rs) (\<lambda>(failed, deleted). io_return (g failed, h deleted)))
      (\<lambda>(failed, deleted) t. K t \<and> set deleted \<subseteq> sr_snapshot_id ` set (r # rs)) (\<lambda>_. K)"
    if "\<And>d. set (h d) \<subseteq> insert (sr_snapshot_id r) (set d)" for g and h :: "string list \<Rightarrow> string list"
    by (rule contract_then [OF Cons.IH]) (use Cons.prems that in \<open>fastforce intro!: contract_return\<close>)+
  show ?case
    unfolding delete_each.simps
  proof (rule contract_match [OF Cons.prems [unfolded preserves_def]])
    show "contract K K (io_then (delete_each st rs) (\<lambda>(failed, deleted). io_return (True, deleted)))
        (\<lambda>(failed, deleted) t. K t \<and> set deleted \<subseteq> sr_snapshot_id ` set (r # rs)) (\<lambda>_. K)" for e
      by (rule rest) auto
    show "contract K K (io_then (delete_each st rs) (\<lambda>(failed, deleted). io_return (failed, sr_snapshot_id r # deleted)))
        (\<lambda>(failed, deleted) t. K t \<and> set deleted \<subseteq> sr_snapshot_id ` set (r # rs)) (\<lambda>_. K)" for a
      by (rule rest) auto
  qed simp
qed (auto intro: contract_return)

lemma contract_both:
  assumes "contract I P m Q R" and "contract I' P' m Q' R'"
  shows "contract (\<lambda>t. I t \<and> I' t) (\<lambda>t. P t \<and> P' t) m (\<lambda>a t. Q a t \<and> Q' a t) (\<lambda>e t. R e t \<and> R' e t)"
  unfolding contract_def
proof (intro allI impI)
  fix w r w'
  assume P: "P (w_tree w) \<and> P' (w_tree w)" and m: "m w = (r, w')"
  from contractD [OF assms(1) _ m] P obtain new where new: "w_trace w' = w_trace w @ new" "list_all I new"
    "case r of Inl e \<Rightarrow> R e (w_tree w') | Inr a \<Rightarrow> Q a (w_tree w')" by blast
  from contractD [OF assms(2) _ m] P obtain new' where "w_trace w' = w_trace w @ new'" "list_all I' new'"
    "case r of Inl e \<Rightarrow> R' e (w_tree w') | Inr a \<Rightarrow> Q' a (w_tree w')" by blast
  with new show "(\<exists>new. w_trace w' = w_trace w @ new \<and> list_all (\<lambda>t. I t \<and> I' t) new)
      \<and> (case r of Inl e \<Rightarrow> R e (w_tree w') \<and> R' e (w_tree w') | Inr a \<Rightarrow> Q a (w_tree w') \<and> Q' a (w_tree w'))"
    by (auto simp: list_all_iff split: sum.splits)
qed

lemma preserves_conj: "preserves K m \<Longrightarrow> preserves L m \<Longrightarrow> preserves (\<lambda>t. K t \<and> L t) m"
  unfolding preserves_def by (rule contract_both)

text \<open>The index in the store is \<open>i\<close>, and the envelope of \<open>r\<close> is the file \<open>n\<close>.\<close>

definition holds :: "snapshot_store \<Rightarrow> snapshot_record \<Rightarrow> node \<Rightarrow> snapshot_index \<Rightarrow> tree \<Rightarrow> bool" where
  "holds st r n i t \<longleftrightarrow> t (snapshot_index_file st) = Some (File (ss_encode_index st i @ [10]) 384 (os_user (ss_os st)))
     \<and> t (current_envelope_path st r) = Some n"

definition kept_record :: "snapshot_store \<Rightarrow> snapshot_record set \<Rightarrow> snapshot_record \<Rightarrow> node \<Rightarrow> tree \<Rightarrow> bool" where
  "kept_record st R r n t \<longleftrightarrow> (\<exists>j. snapshot_index_ok j \<and> r \<in> set (si_records j) \<and> set (si_records j) \<subseteq> R \<and> holds st r n j t)"

lemma contract_write_snapshot_index:
  assumes "os_ok (ss_os st)"
  shows "contract (\<lambda>_. True) (\<lambda>t. t = t0) (write_snapshot_index st i)
    (\<lambda>_ t. t (snapshot_index_file st) = Some (File (ss_encode_index st i @ [10]) 384 (os_user (ss_os st))))
    (\<lambda>_ t. old_file (snapshot_index_file st) t0 t
       \<or> t (snapshot_index_file st) = Some (File (ss_encode_index st i @ [10]) 384 (os_user (ss_os st))))"
  unfolding write_snapshot_index_def by (rule contract_write_private [OF assms index_file_not_empty])

lemma index_write_keeps:
  assumes "os_ok (ss_os st)" and "q \<noteq> snapshot_index_file st"
  shows "preserves (\<lambda>t. t q = Some n) (write_snapshot_index st i)"
  unfolding write_snapshot_index_def
  by (rule preserves_map_err, rule write_private_keeps [OF assms(1) index_file_not_empty assms(2)])

lemma contract_rewrite_index:
  assumes os: "os_ok (ss_os st)"
  shows "contract (\<lambda>_. True) (holds st r n i) (write_snapshot_index st j) (\<lambda>_. holds st r n j)
    (\<lambda>_ t. holds st r n i t \<or> holds st r n j t)"
proof (rule contract_pointwise)
  fix t assume t: "holds st r n i t"
  have "contract (\<lambda>_. True) (\<lambda>u. u = t) (write_snapshot_index st j)
      (\<lambda>_ u. u (current_envelope_path st r) = Some n) (\<lambda>_ u. u (current_envelope_path st r) = Some n)"
    by (rule contract_weaken [OF index_write_keeps [OF os envelope_path_shapes(2), unfolded preserves_def]])
      (use t in \<open>auto simp: holds_def\<close>)
  from contract_both [OF this contract_write_snapshot_index [OF os, of t j]]
  show "contract (\<lambda>_. True) (\<lambda>u. u = t) (write_snapshot_index st j) (\<lambda>_. holds st r n j)
      (\<lambda>_ u. holds st r n i u \<or> holds st r n j u)"
    by (rule contract_weaken) (use t in \<open>auto simp: holds_def old_file_def\<close>)
qed

lemma without_ids_ok: "snapshot_index_ok i \<Longrightarrow> snapshot_index_ok (without_ids ids i)"
  by (auto simp: snapshot_index_ok_iff without_ids_def distinct_map_filter)

lemma contract_prune:
  assumes os: "os_ok (ss_os st)" and i: "snapshot_index_ok i" and r: "r \<in> set (si_records i)"
    and stays: "r \<notin> set (removed_records now (si_records i))"
  shows "contract (\<lambda>_. True) (holds st r n i) (prune st now i) (\<lambda>_. kept_record st (set (si_records i)) r n) (\<lambda>_. kept_record st (set (si_records i)) r n)"
proof -
  let ?rs = "removed_records now (si_records i)"
  have ids: "length (sr_snapshot_id x) = 32" if "x \<in> set (si_records i)" for x
    using i that by (auto simp: snapshot_index_ok_iff valid_snapshot_id_def)
  have kept: "kept_record st (set (si_records i)) r n t" if "holds st r n i t" for t using that i r by (auto simp: kept_record_def)
  have other: "sr_snapshot_id x \<noteq> sr_snapshot_id r" "x \<in> set (si_records i)" if "x \<in> set ?rs" for x
  proof -
    show "x \<in> set (si_records i)" using that by (auto simp: removed_records_def)
    then show "sr_snapshot_id x \<noteq> sr_snapshot_id r"
      using that stays i r by (auto simp: snapshot_index_ok_iff distinct_map dest: inj_onD)
  qed
  have "preserves (holds st r n i) (remove_envelopes st x)" if "x \<in> set ?rs" for x
    unfolding holds_def
    by (intro preserves_conj remove_envelopes_keep)
      (use that other ids r envelope_path_shapes legacy_not_index envelope_paths_apart in \<open>metis+\<close>)
  then have delete: "contract (\<lambda>_. True) (holds st r n i) (delete_each st ?rs)
      (\<lambda>(failed, deleted) t. holds st r n i t \<and> sr_snapshot_id r \<notin> set deleted) (\<lambda>_. kept_record st (set (si_records i)) r n)"
    by (intro contract_weaken [OF contract_delete_each [where K = "holds st r n i"]]) (use other(1) kept in fastforce)+
  have rest: "contract (\<lambda>_. True) (\<lambda>t. holds st r n i t \<and> sr_snapshot_id r \<notin> set deleted)
      (io_then (if deleted \<noteq> [] then write_snapshot_index st (without_ids deleted i) else io_return ())
        (\<lambda>_. if failed then io_fail CleanupFailed else io_return ())) (\<lambda>_. kept_record st (set (si_records i)) r n) (\<lambda>_. kept_record st (set (si_records i)) r n)"
    for failed deleted
  proof (cases "sr_snapshot_id r \<in> set deleted")
    case False
    have new: "kept_record st (set (si_records i)) r n t" if "holds st r n (without_ids deleted i) t" for t
    proof -
      have "r \<in> set (si_records (without_ids deleted i))" "set (si_records (without_ids deleted i)) \<subseteq> set (si_records i)" using r False by (auto simp: without_ids_def)
      with that without_ids_ok [OF i] show ?thesis by (auto simp: kept_record_def)
    qed
    have "contract (\<lambda>_. True) (\<lambda>t. holds st r n i t \<and> sr_snapshot_id r \<notin> set deleted)
        (if deleted \<noteq> [] then write_snapshot_index st (without_ids deleted i) else io_return ())
        (\<lambda>_. kept_record st (set (si_records i)) r n) (\<lambda>_. kept_record st (set (si_records i)) r n)"
      by (auto intro: contract_weaken [OF contract_rewrite_index [OF os]] contract_return kept new)
    then show ?thesis by (rule contract_then) (auto intro: contract_fail contract_return)
  qed (auto intro: contract_vacuous)
  show ?thesis
    unfolding prune_def
  proof (split if_split, intro conjI impI)
    show "contract (\<lambda>_. True) (holds st r n i) (io_return ()) (\<lambda>_. kept_record st (set (si_records i)) r n) (\<lambda>_. kept_record st (set (si_records i)) r n)"
      by (rule contract_return) (rule kept)
  qed (rule contract_then [OF delete], use rest in \<open>auto split: prod.split\<close>)
qed

section \<open>Creating a snapshot\<close>

lemma contract_publish:
  assumes os: "os_ok (ss_os st)" and p: "p = current_envelope_path st r"
  shows "contract (\<lambda>_. True) (\<lambda>t. t p = Some n) (publish_record st p i) (\<lambda>_. holds st r n i) (\<lambda>_ _. True)"
proof -
  have "contract (\<lambda>_. True) (\<lambda>t. t p = Some n) (write_snapshot_index st i) (\<lambda>_. holds st r n i) (\<lambda>_ _. True)"
  proof (rule contract_pointwise)
    fix t assume t: "t p = Some n"
    have "contract (\<lambda>_. True) (\<lambda>u. u = t) (write_snapshot_index st i) (\<lambda>_ u. u p = Some n) (\<lambda>_ u. u p = Some n)"
      by (rule contract_weaken [OF index_write_keeps [OF os, of p n, unfolded preserves_def]])
        (use t p envelope_path_shapes(2) in auto)
    from contract_both [OF this contract_write_snapshot_index [OF os, of t i]]
    show "contract (\<lambda>_. True) (\<lambda>u. u = t) (write_snapshot_index st i) (\<lambda>_. holds st r n i) (\<lambda>_ _. True)"
      by (rule contract_weaken) (use t p in \<open>auto simp: holds_def\<close>)
  qed
  moreover have clean: "contract (\<lambda>_. True) (\<lambda>_. True) (io_match (remove_file (ss_os st) p)
      (\<lambda>_. io_match (sync_parent (ss_os st) (ss_root st)) (\<lambda>_. io_fail e) (\<lambda>_. io_fail e))
      (\<lambda>_. io_match (sync_parent (ss_os st) (ss_root st)) (\<lambda>_. io_fail e) (\<lambda>_. io_fail e))) (\<lambda>_. holds st r n i) (\<lambda>_ _. True)" for e
  proof -
    have sync: "contract (\<lambda>_. True) (\<lambda>_. True) (io_match (sync_parent (ss_os st) (ss_root st)) (\<lambda>_. io_fail e) (\<lambda>_. io_fail e))
        (\<lambda>_. holds st r n i) (\<lambda>_ _. True)"
      by (rule contract_match [where M = "\<lambda>_ _. True" and N = "\<lambda>_ _. True"]) (auto intro: contract_sync_parent contract_fail)
    show ?thesis
      by (rule contract_match [where M = "\<lambda>_ _. True" and N = "\<lambda>_ _. True"])
        (auto intro: contract_syscall sync simp: remove_file_def)
  qed
  ultimately show ?thesis
    unfolding publish_record_def by (rule contract_match) (auto intro: clean contract_return)
qed

definition rendered_envelope :: "snapshot_store \<Rightarrow> snapshot_request \<Rightarrow> string \<Rightarrow> u8 list \<Rightarrow> u8 list \<Rightarrow> u8 list" where
  "rendered_envelope st rq i nonce ciphertext =
     ss_encode_envelope st ((request_envelope rq i nonce)\<lparr>se_ciphertext_hex := hex_text ciphertext\<rparr>) @ [10]"

text \<open>What a successful creation leaves behind, unless its own pruning removed it.\<close>

definition snapshot_stored ::
  "snapshot_store \<Rightarrow> snapshot_request \<Rightarrow> u8 list \<Rightarrow> snapshot_index \<Rightarrow> snapshot_record \<Rightarrow> tree \<Rightarrow> bool"
where
  "snapshot_stored st rq key i r t \<longleftrightarrow> (\<exists>snapshot_id nonce ciphertext.
     length nonce = 12 \<and> validate_request (request_envelope rq snapshot_id nonce) = Ok ()
     \<and> ss_seal st key nonce (envelope_aad (request_envelope rq snapshot_id nonce)) (cs_bytes (rq_source rq)) = Some ciphertext
     \<and> r = record_of_request rq snapshot_id (sha256_hex (ss_sha st) (rendered_envelope st rq snapshot_id nonce ciphertext))
     \<and> (r \<notin> set (removed_records (Some (rq_created_at_ms rq)) (si_records i @ [r]))
        \<longrightarrow> kept_record st (insert r (set (si_records i))) r (File (rendered_envelope st rq snapshot_id nonce ciphertext) 384 (os_user (ss_os st))) t))"

lemma preserves_if: "(b \<Longrightarrow> preserves K m) \<Longrightarrow> (\<not> b \<Longrightarrow> preserves K n) \<Longrightarrow> preserves K (if b then m else n)"
  by simp

lemma preserves_any: "preserves (\<lambda>_. True) m \<longleftrightarrow> contract (\<lambda>_. True) (\<lambda>_. True) m (\<lambda>_ _. True) (\<lambda>_ _. True)"
  by (simp add: preserves_def)

lemma prune_any: "os_ok (ss_os st) \<Longrightarrow> preserves (\<lambda>_. True) (prune st now i)"
proof -
  assume os: "os_ok (ss_os st)"
  have keep: "preserves (\<lambda>_. True) (remove_envelopes st x)" for x
    unfolding remove_envelopes_def remove_envelope_def check_directory_def remove_file_def sync_parent_def
      sync_directory_def sync_def
    by (auto intro!: preserves_intros preserves_syscall)
  have anything: "preserves (\<lambda>_. True) (write_snapshot_index st x)" for x
    unfolding preserves_def
    by (rule contract_pointwise, rule contract_weaken [OF contract_write_snapshot_index [OF os]]) auto
  have "preserves (\<lambda>_. True) (delete_each st x)" for x
    unfolding preserves_def by (rule contract_weaken [OF contract_delete_each [where K = "\<lambda>_. True", OF keep]]) auto
  then show ?thesis
    unfolding prune_def by (intro preserves_if preserves_return preserves_then)
      (auto intro!: preserves_if preserves_then preserves_return preserves_fail anything split: prod.split)
qed

lemma ensure_dir_any: "preserves (\<lambda>_. True) (ensure_private_dir os p)"
  by (auto simp: ensure_private_dir_def create_dir_all_def make_dir_def harden_path_def set_permissions_def
      verify_private_dir_def intro!: preserves_intros preserves_syscall)

lemma contract_keep_envelope:
  assumes os: "os_ok (ss_os st)" and i: "snapshot_index_ok i" and agent: "validate_agent_id (rq_agent_id rq) = Ok ()"
    and fresh: "valid_snapshot_id snapshot_id" "snapshot_id \<notin> sr_snapshot_id ` set (si_records i)"
    and r: "r = record_of_request rq snapshot_id (sha256_hex (ss_sha st) rendered)"
  shows "contract (\<lambda>_. True) (\<lambda>_. True) (keep_envelope st rq i snapshot_id rendered)
    (\<lambda>c t. sc_record c = r \<and> (r \<notin> set (removed_records (Some (rq_created_at_ms rq)) (si_records i @ [r]))
        \<longrightarrow> kept_record st (insert r (set (si_records i))) r (File rendered 384 (os_user (ss_os st))) t)) (\<lambda>_ _. True)"
proof -
  let ?T = "\<lambda>_ :: tree. True" and ?now = "Some (rq_created_at_ms rq)"
  let ?p = "current_envelope_path st r" and ?j = "i\<lparr>si_records := si_records i @ [r]\<rparr>"
  let ?n = "File rendered 384 (os_user (ss_os st))"
  let ?stays = "r \<notin> set (removed_records ?now (si_records i @ [r]))"
  have p: "current_envelope_path_fields st (rq_agent_id rq) (rq_created_at_ms rq) snapshot_id = ?p"
    by (simp add: current_envelope_path_def r record_of_request_def)
  have j: "snapshot_index_ok ?j"
    using i fresh agent by (auto simp: snapshot_index_ok_iff r record_of_request_def)
  have dir: "contract ?T ?T (io_map_err (\<lambda>_. SnapshotDirectoryFailed) (ensure_private_dir (ss_os st) (ss_root st @ [rq_agent_id rq])))
      (\<lambda>_ _. True) (\<lambda>_ _. True)"
    by (rule contract_map_err) (use ensure_dir_any in \<open>simp add: preserves_any\<close>)
  have stored: "contract ?T ?T (io_map_err (\<lambda>_. EnvelopeNotWritten) (write_atomic_private (ss_os st) ?p rendered))
      (\<lambda>_ t. t ?p = Some ?n) (\<lambda>_ _. True)"
    by (rule contract_pointwise, rule contract_weaken [OF contract_write_private [OF os envelope_path_shapes(3)]]) auto
  have publish: "contract ?T (\<lambda>t. t ?p = Some ?n) (publish_record st ?p ?j) (\<lambda>_. holds st r ?n ?j) (\<lambda>_ _. True)"
    by (rule contract_publish [OF os refl])
  have pruned: "contract ?T (holds st r ?n ?j) (prune st ?now ?j) (\<lambda>_ t. ?stays \<longrightarrow> kept_record st (insert r (set (si_records i))) r ?n t)
      (\<lambda>_ t. ?stays \<longrightarrow> kept_record st (insert r (set (si_records i))) r ?n t)"
  proof (cases ?stays)
    case True
    show ?thesis by (rule contract_weaken [OF contract_prune [OF os j, of r ?now ?n]]) (use True in auto)
  next
    case False
    show ?thesis by (rule contract_weaken [OF prune_any [OF os, unfolded preserves_any]]) (use False in auto)
  qed
  show ?thesis
    unfolding keep_envelope_def Let_def r [symmetric] p
    by (rule contract_then [OF dir], rule contract_then [OF stored], rule contract_then [OF publish],
        rule contract_match [OF pruned]) (auto intro!: contract_return)
qed

lemma contract_store_envelope:
  assumes os: "os_ok (ss_os st)" and i: "snapshot_index_ok i" and agent: "validate_agent_id (rq_agent_id rq) = Ok ()"
    and fresh: "valid_snapshot_id snapshot_id" "snapshot_id \<notin> sr_snapshot_id ` set (si_records i)" and nonce: "length nonce = 12"
  shows "contract (\<lambda>_. True) (\<lambda>_. True) (store_envelope st rq i key snapshot_id nonce)
    (\<lambda>c. snapshot_stored st rq key i (sc_record c)) (\<lambda>_ _. True)"
proof -
  let ?e = "request_envelope rq snapshot_id nonce"
  let ?seal = "ss_seal st key nonce (envelope_aad ?e) (cs_bytes (rq_source rq))"
  let ?Q = "\<lambda>c. snapshot_stored st rq key i (sc_record c)" and ?T = "\<lambda>_ :: tree. True"
  have valid: "contract ?T ?T (io_lift (validate_request ?e)) (\<lambda>_ _. validate_request ?e = Ok ()) (\<lambda>_ _. True)"
    by (rule contract_lift) auto
  have sealed: "contract ?T (\<lambda>_. validate_request ?e = Ok ()) (case ?seal of None \<Rightarrow> io_fail SealFailed
      | Some ciphertext \<Rightarrow> keep_envelope st rq i snapshot_id
          (ss_encode_envelope st (?e\<lparr>se_ciphertext_hex := hex_text ciphertext\<rparr>) @ [10])) ?Q (\<lambda>_ _. True)"
  proof (cases ?seal)
    case None
    then show ?thesis by (auto intro: contract_fail)
  next
    case (Some ciphertext)
    show ?thesis
    proof (cases "validate_request ?e = Ok ()")
      case True
      show ?thesis
        unfolding Some option.case rendered_envelope_def [symmetric]
        by (rule contract_weaken [OF contract_keep_envelope [OF os i agent fresh refl]])
          (use True Some nonce in \<open>auto simp: snapshot_stored_def\<close>)
    qed (auto intro: contract_vacuous)
  qed
  show ?thesis
    unfolding store_envelope_def Let_def by (rule contract_then [OF valid sealed])
qed

lemma contract_unique_id:
  "contract (\<lambda>_. True) P (unique_snapshot_id st i tries)
    (\<lambda>n t. P t \<and> valid_snapshot_id n \<and> n \<notin> sr_snapshot_id ` set (si_records i)) (\<lambda>_ _. True)"
proof (induction tries)
  case (Suc tries)
  have random: "contract (\<lambda>_. True) P (io_map_err (\<lambda>_. IdNotGenerated) (random_bytes (ss_os st) 16))
      (\<lambda>b t. P t \<and> length b = 16) (\<lambda>_ _. True)"
    by (rule contract_map_err, rule contract_random) auto
  show ?case
    unfolding unique_snapshot_id.simps Let_def
    by (rule contract_then [OF random])
      (auto simp: list_ex_iff hex_text_id intro!: contract_return contract_weaken [OF Suc.IH])
qed (auto intro: contract_fail)

text \<open>The key that the key store gives out.\<close>

definition gives_key :: "snapshot_store \<Rightarrow> u8 list \<Rightarrow> bool" where
  "gives_key st key \<longleftrightarrow> (\<forall>allow. contract (\<lambda>_. True) (\<lambda>_. True) (ss_load_or_create_key st allow) (\<lambda>k _. k = key) (\<lambda>_ _. True))"

lemma has_envelope_files_any: "preserves (\<lambda>_. True) (has_envelope_files st)"
proof -
  have dir: "preserves (\<lambda>_. True) (read_dir s p)" for s p unfolding read_dir_def by (rule preserves_query)
  have "preserves (\<lambda>_. True) (any_envelope st l)" for l
    by (induction st l rule: any_envelope.induct)
      (auto intro!: preserves_if preserves_then preserves_map_err preserves_return dir split: option.split node.split)
  then show ?thesis unfolding has_envelope_files_def by (intro preserves_then preserves_map_err dir)
qed

lemma contract_snapshot_create:
  assumes os: "os_ok (ss_os st)" and key: "gives_key st key"
  shows "contract (\<lambda>_. True) (\<lambda>t. t = t0) (snapshot_create st rq)
    (\<lambda>c t. \<exists>i. snapshot_index_at st t0 = Some i \<and> snapshot_stored st rq key i (sc_record c) t) (\<lambda>_ _. True)"
proof -
  let ?T = "\<lambda>_ :: tree. True" and ?R = "\<lambda>(_ :: snapshot_error) (_ :: tree). True"
  let ?f = "snapshot_index_file st" and ?agent = "validate_agent_id (rq_agent_id rq) = Ok ()"
  let ?same = "\<lambda>t. t ?f = t0 ?f" and ?at = "\<lambda>i. snapshot_index_at st t0 = Some i \<and> ?agent"
  let ?Q = "\<lambda>c t. \<exists>i. snapshot_index_at st t0 = Some i \<and> snapshot_stored st rq key i (sc_record c) t"
  have agent: "contract ?T (\<lambda>t. t = t0) (io_lift (validate_agent_id (rq_agent_id rq))) (\<lambda>_ t. ?same t \<and> ?agent) ?R"
    by (rule contract_lift) auto
  have "\<not> prefix ?f (ss_root st)" by (auto simp: snapshot_index_file_def dest: prefix_length_le)
  then have dir: "contract ?T (\<lambda>t. ?same t \<and> ?agent) (io_map_err (\<lambda>_. SnapshotDirectoryFailed) (ensure_private_dir (ss_os st) (ss_root st)))
      (\<lambda>_ t. ?same t \<and> ?agent) ?R"
    by (intro contract_pure contract_map_err contract_weaken [OF private_dir_keeps [unfolded preserves_def]]) auto
  have same: "snapshot_index_at st t = snapshot_index_at st t0" if "?same t" for t
    using that by (simp add: snapshot_index_at_def private_json_at_def)
  have read: "contract ?T (\<lambda>t. ?same t \<and> ?agent) (read_snapshot_index st) (\<lambda>i _. ?at i) ?R"
    by (rule contract_read_snapshot_index [OF os]) (simp_all, use same in metis)
  have allow: "contract ?T (\<lambda>_. ?at i) (if si_records i = [] then io_then (has_envelope_files st) (\<lambda>there. io_return (\<not> there))
      else io_return False) (\<lambda>_ _. ?at i) ?R" for i
  proof -
    have "preserves (\<lambda>_. True) (if si_records i = [] then io_then (has_envelope_files st) (\<lambda>there. io_return (\<not> there)) else io_return False)"
      by (intro preserves_if preserves_then preserves_return has_envelope_files_any)
    then have "contract ?T (\<lambda>t. True \<and> ?at i) (if si_records i = [] then io_then (has_envelope_files st) (\<lambda>there. io_return (\<not> there))
        else io_return False) (\<lambda>_ t. True \<and> ?at i) ?R"
      unfolding preserves_any by (rule contract_pure)
    then show ?thesis by simp
  qed
  have keys: "contract ?T (\<lambda>_. ?at i) (ss_load_or_create_key st b) (\<lambda>k _. k = key \<and> ?at i) ?R" for i b
  proof -
    have "contract ?T (\<lambda>t. True \<and> ?at i) (ss_load_or_create_key st b) (\<lambda>k t. k = key \<and> ?at i) ?R"
      using key unfolding gives_key_def by (intro contract_pure) blast
    then show ?thesis by simp
  qed
  have unique: "contract ?T (\<lambda>_. k = key \<and> ?at i) (unique_snapshot_id st i 16)
      (\<lambda>n _. (k = key \<and> ?at i) \<and> valid_snapshot_id n \<and> n \<notin> sr_snapshot_id ` set (si_records i)) ?R" for i k
    by (rule contract_unique_id)
  have nonce: "contract ?T P (io_map_err (\<lambda>_. NonceNotGenerated) (random_bytes (ss_os st) 12)) (\<lambda>b t. P t \<and> length b = 12) ?R" for P
    by (rule contract_map_err, rule contract_random) auto
  have ok: "snapshot_index_ok i" if "snapshot_index_at st t0 = Some i" for i
  proof -
    have "snapshot_index_ok empty_snapshot_index" by (simp add: snapshot_index_ok_iff empty_snapshot_index_def)
    with that show ?thesis
      by (auto simp: snapshot_index_at_def private_json_at_def split: option.splits node.splits if_splits)
  qed
  have store: "contract ?T (\<lambda>_. ((k = key \<and> ?at i) \<and> valid_snapshot_id n \<and> n \<notin> sr_snapshot_id ` set (si_records i)) \<and> length b = 12)
      (store_envelope st rq i k n b) ?Q ?R" for i k n b
  proof (cases "((k = key \<and> ?at i) \<and> valid_snapshot_id n \<and> n \<notin> sr_snapshot_id ` set (si_records i)) \<and> length b = 12")
    case True
    then have k: "k = key" by simp
    from True have "contract ?T ?T (store_envelope st rq i key n b) (\<lambda>c. snapshot_stored st rq key i (sc_record c)) ?R"
      by (intro contract_store_envelope [OF os ok]) auto
    then show ?thesis unfolding k by (rule contract_weaken) (use True in auto)
  qed (auto intro: contract_vacuous)
  show ?thesis
    unfolding snapshot_create_def
    by (rule contract_then [OF agent], rule contract_then [OF dir], rule contract_then [OF read], rule contract_then [OF allow],
        rule contract_then [OF keys], rule contract_then [OF unique], rule contract_then [OF nonce], rule store)
qed

section \<open>Loading\<close>

text \<open>What a loaded snapshot has passed: the bytes come out of the envelope the index names, and have its revision.\<close>

definition loaded :: "snapshot_store \<Rightarrow> string \<Rightarrow> decrypted_snapshot \<Rightarrow> tree \<Rightarrow> bool" where
  "loaded st snapshot_id d t \<longleftrightarrow> (\<exists>i b m owner e nonce ciphertext key.
     snapshot_index_at st t = Some i \<and> find (\<lambda>r. sr_snapshot_id r = snapshot_id) (si_records i) = Some (ds_record d)
     \<and> t (if t (current_envelope_path st (ds_record d)) \<noteq> None then current_envelope_path st (ds_record d)
          else legacy_envelope_path st snapshot_id) = Some (File b m owner)
     \<and> Bit_Operations.and m 511 = 384 \<and> length b \<le> MAX_ENVELOPE_BYTES
     \<and> sha256_hex (ss_sha st) b = sr_envelope_hash (ds_record d) \<and> ss_decode_envelope st b = Some e
     \<and> validate_envelope e (ds_record d) = Ok () \<and> decode_lower_hex (se_nonce_hex e) = Ok nonce
     \<and> decode_lower_hex (se_ciphertext_hex e) = Ok ciphertext
     \<and> (\<exists>u. fst (ss_load_key st u) = Ok key)
     \<and> ss_open st key nonce (envelope_aad e) ciphertext = Some (ds_exact_bytes d)
     \<and> text_revision_hash (ss_sha st) (sr_target_config_path (ds_record d))
         \<lparr>cs_existed = sr_original_existed (ds_record d), cs_bytes = ds_exact_bytes d,
          cs_permissions = sr_original_permissions (ds_record d), cs_owner = sr_original_owner (ds_record d)\<rparr>
       = sr_before_hash (ds_record d))"

lemma loadedI:
  assumes "snapshot_index_at st t = Some i" and "find (\<lambda>r. sr_snapshot_id r = snapshot_id) (si_records i) = Some r"
    and "t p = Some (File b m owner)" and "Bit_Operations.and m 511 = 384"
    and "p = (if t (current_envelope_path st r) \<noteq> None then current_envelope_path st r else legacy_envelope_path st snapshot_id)"
    and "length b \<le> MAX_ENVELOPE_BYTES" and "sha256_hex (ss_sha st) b = sr_envelope_hash r" and "ss_decode_envelope st b = Some e"
    and "validate_envelope e r = Ok ()" and "decode_lower_hex (se_nonce_hex e) = Ok nonce"
    and "decode_lower_hex (se_ciphertext_hex e) = Ok ciphertext"
    and "fst (ss_load_key st u) = Ok key" and "ss_open st key nonce (envelope_aad e) ciphertext = Some plaintext"
    and "text_revision_hash (ss_sha st) (sr_target_config_path r) \<lparr>cs_existed = sr_original_existed r, cs_bytes = plaintext,
        cs_permissions = sr_original_permissions r, cs_owner = sr_original_owner r\<rparr> = sr_before_hash r"
  shows "loaded st snapshot_id \<lparr>ds_record = r, ds_exact_bytes = plaintext\<rparr> t"
  unfolding loaded_def using assms by (intro exI conjI) (simp_all only: snapshot_store.simps decrypted_snapshot.simps)

lemma contract_keep: "contract I P m Q R \<Longrightarrow> preserves K m \<Longrightarrow>
    contract (\<lambda>_. True) (\<lambda>t. P t \<and> K t) m (\<lambda>a t. Q a t \<and> K t) (\<lambda>e t. R e t \<and> K t)"
  unfolding preserves_def by (rule contract_weaken [OF contract_both]) auto

lemma open_envelope_Ok:
  assumes "open_envelope st r e w = (Ok d, w')"
  obtains nonce ciphertext key v where "validate_envelope e r = Ok ()" "decode_lower_hex (se_nonce_hex e) = Ok nonce"
    "decode_lower_hex (se_ciphertext_hex e) = Ok ciphertext" "ss_load_key st w = (Ok key, w')" "ds_record d = r"
    "ss_open st key nonce (envelope_aad e) ciphertext = Some (ds_exact_bytes d)"
    "text_revision_hash (ss_sha st) (sr_target_config_path r) \<lparr>cs_existed = sr_original_existed r, cs_bytes = ds_exact_bytes d,
        cs_permissions = sr_original_permissions r, cs_owner = sr_original_owner r\<rparr> = sr_before_hash r"
  using assms unfolding open_envelope_def
  by (auto simp: io_simps split: if_splits option.splits)

lemma query_Ok: "query os f w = (Ok a, v) \<Longrightarrow> f (w_tree w) = Ok a \<and> w_tree v = w_tree w"
  by (auto simp: query_def syscall_def step_tree_def and_then_Ok_iff split: option.splits sum.splits prod.splits)

lemma metadata_Ok: "symlink_metadata os p w = (Ok n, v) \<Longrightarrow> w_tree w p = Some n \<and> w_tree v = w_tree w"
  unfolding symlink_metadata_def by (drule query_Ok) (auto split: option.splits)

lemma read_file_Ok: "read_file os p w = (Ok b, v) \<Longrightarrow> (\<exists>m owner. w_tree w p = Some (File b m owner)) \<and> w_tree v = w_tree w"
  unfolding read_file_def by (drule query_Ok) (auto split: option.splits node.splits)

lemma verify_private_file_Ok:
  "verify_private_file os p w = (Ok u, v) \<Longrightarrow>
    (\<exists>b m owner. w_tree w p = Some (File b m owner) \<and> Bit_Operations.and m 511 = 384) \<and> w_tree v = w_tree w"
  unfolding verify_private_file_def verify_platform_private_def
  by (auto simp: io_simps is_link_def is_file_def ensure_def dest!: metadata_Ok split: if_splits node.splits)

lemma read_snapshot_index_Ok:
  assumes "os_ok (ss_os st)" and "read_snapshot_index st w = (Ok i, v)"
  shows "snapshot_index_at st (w_tree w) = Some i \<and> w_tree v = w_tree w"
proof -
  have "contract (\<lambda>_. True) (\<lambda>t. t = w_tree w) (read_snapshot_index st)
      (\<lambda>i t. snapshot_index_at st (w_tree w) = Some i \<and> t = w_tree w) (\<lambda>_ _. True)"
    by (rule contract_read_snapshot_index [OF assms(1)]) auto
  from contractD [OF this refl assms(2)] show ?thesis by auto
qed

text \<open>
  A snapshot that is loaded is authentic: the index names it; its envelope is an owner-only file with
  the hash in the index; the bytes were opened by the cipher under associated data that repeat every field of
  the record; and with the record's metadata they have the revision hash recorded before the change.
\<close>

theorem loaded_snapshot_is_authentic:
  assumes "os_ok (ss_os st)" and "snapshot_load st snapshot_id w = (Ok d, w')"
  shows "loaded st snapshot_id d (w_tree w)"
proof -
  from assms(2) obtain i w1 r where i: "read_snapshot_index st w = (Ok i, w1)"
    and r: "find (\<lambda>r. sr_snapshot_id r = snapshot_id) (si_records i) = Some r"
    and rest: "io_then (resolve_envelope_path st r) (\<lambda>p.
         io_then (io_map_err (\<lambda>_. EnvelopeNotPrivate) (verify_private_file (ss_os st) p)) (\<lambda>_.
         io_then (io_map_err (\<lambda>_. EnvelopeNoMetadata) (symlink_metadata (ss_os st) p)) (\<lambda>metadata.
         if MAX_ENVELOPE_BYTES < node_length metadata then io_fail EnvelopeTooLarge
         else io_then (io_map_err (\<lambda>_. EnvelopeUnreadable) (read_file (ss_os st) p)) (\<lambda>rendered.
         if sha256_hex (ss_sha st) rendered \<noteq> sr_envelope_hash r then io_fail EnvelopeHashMismatch
         else (case ss_decode_envelope st rendered of
           None \<Rightarrow> io_fail EnvelopeNoJson
         | Some e \<Rightarrow> open_envelope st r e))))) w1 = (Ok d, w')"
    unfolding snapshot_load_def by (auto simp: io_simps split: option.splits)
  have index: "snapshot_index_at st (w_tree w) = Some i" and w1: "w_tree w1 = w_tree w"
    using read_snapshot_index_Ok [OF assms(1) i] by auto
  have sid: "sr_snapshot_id r = snapshot_id" using r by (auto simp: find_Some_iff)
  let ?p = "if w_tree w (current_envelope_path st r) \<noteq> None then current_envelope_path st r else legacy_envelope_path st snapshot_id"
  have path: "resolve_envelope_path st r w1 = (Ok ?p, w1)"
    by (simp add: resolve_envelope_path_def io_then_def path_exists_def io_return_def w1 sid)
  from rest path obtain w2 w3 w4 n b e where
    "verify_private_file (ss_os st) ?p w1 = (Ok (), w2)" "symlink_metadata (ss_os st) ?p w2 = (Ok n, w3)"
    and small: "\<not> MAX_ENVELOPE_BYTES < node_length n" and "read_file (ss_os st) ?p w3 = (Ok b, w4)"
    and hash: "sha256_hex (ss_sha st) b = sr_envelope_hash r" and e: "ss_decode_envelope st b = Some e"
    and opened: "open_envelope st r e w4 = (Ok d, w')"
    by (auto simp: io_simps split: if_splits option.splits)
  then obtain m owner where found: "w_tree w ?p = Some (File b m owner)" "Bit_Operations.and m 511 = 384" "n = File b m owner"
    using w1 by (auto dest!: verify_private_file_Ok metadata_Ok read_file_Ok)
  from opened obtain nonce ciphertext key where d: "validate_envelope e r = Ok ()" "decode_lower_hex (se_nonce_hex e) = Ok nonce"
    "decode_lower_hex (se_ciphertext_hex e) = Ok ciphertext" "ds_record d = r" "ss_load_key st w4 = (Ok key, w')"
    "ss_open st key nonce (envelope_aad e) ciphertext = Some (ds_exact_bytes d)"
    "text_revision_hash (ss_sha st) (sr_target_config_path r) \<lparr>cs_existed = sr_original_existed r, cs_bytes = ds_exact_bytes d,
        cs_permissions = sr_original_permissions r, cs_owner = sr_original_owner r\<rparr> = sr_before_hash r"
    by (rule open_envelope_Ok)
  have key: "fst (ss_load_key st w4) = Ok key" using d(5) by simp
  have "d = \<lparr>ds_record = r, ds_exact_bytes = ds_exact_bytes d\<rparr>" using d(4) by simp
  moreover have "length b \<le> MAX_ENVELOPE_BYTES" using small found(3) by (simp add: node_length_def)
  ultimately show ?thesis using loadedI [OF index r found(1,2) refl _ hash e d(1-3) key d(6,7)] by metis
qed

text \<open>
  What was stored is what is loaded. A snapshot that was created and that retention does not remove at
  once is found again under its identifier with its record, and loading it gives the exact bytes of the file
  that was copied. The cipher's inverse, the decoders on what was encoded, and one key are assumed.
\<close>

theorem snapshot_roundtrip:
  assumes os: "os_ok (ss_os st)" and key: "gives_key st key" and load_key: "\<And>u k. fst (ss_load_key st u) = Ok k \<Longrightarrow> k = key"
    and cipher: "\<And>nonce aad p c. ss_seal st key nonce aad p = Some c \<Longrightarrow> ss_open st key nonce aad c = Some p"
    and run: "snapshot_create st rq w = (Ok c, w')" and start: "snapshot_index_at st (w_tree w) = Some i"
    and index_codec: "\<And>j. snapshot_index_ok j \<Longrightarrow> sc_record c \<in> set (si_records j)
      \<Longrightarrow> set (si_records j) \<subseteq> insert (sc_record c) (set (si_records i)) \<Longrightarrow> ss_decode_index st (ss_encode_index st j @ [10]) = Some j"
    and envelope_codec: "\<And>nonce text. length nonce = 12 \<Longrightarrow> ss_decode_envelope st (ss_encode_envelope st
        ((request_envelope rq (sr_snapshot_id (sc_record c)) nonce)\<lparr>se_ciphertext_hex := text\<rparr>) @ [10])
      = Some ((request_envelope rq (sr_snapshot_id (sc_record c)) nonce)\<lparr>se_ciphertext_hex := text\<rparr>)"
    and stays: "sc_record c \<notin> set (removed_records (Some (rq_created_at_ms rq)) (si_records i @ [sc_record c]))"
    and load: "snapshot_load st (sr_snapshot_id (sc_record c)) w' = (Ok d, w'')"
  shows "d = \<lparr>ds_record = sc_record c, ds_exact_bytes = cs_bytes (rq_source rq)\<rparr>"
proof -
  let ?r = "sc_record c"
  obtain i' where "snapshot_index_at st (w_tree w) = Some i'" "snapshot_stored st rq key i' ?r (w_tree w')"
    by (rule contractD [OF contract_snapshot_create [OF os key] refl run]) auto
  then have "snapshot_stored st rq key i ?r (w_tree w')" using start by simp
  then obtain snapshot_id nonce ciphertext where nonce: "length nonce = 12"
    and sealed: "ss_seal st key nonce (envelope_aad (request_envelope rq snapshot_id nonce)) (cs_bytes (rq_source rq)) = Some ciphertext"
    and r: "?r = record_of_request rq snapshot_id (sha256_hex (ss_sha st) (rendered_envelope st rq snapshot_id nonce ciphertext))"
    and kept: "kept_record st (insert ?r (set (si_records i))) ?r
      (File (rendered_envelope st rq snapshot_id nonce ciphertext) 384 (os_user (ss_os st))) (w_tree w')"
    unfolding snapshot_stored_def using stays by blast
  have sid: "sr_snapshot_id ?r = snapshot_id" by (simp add: r record_of_request_def)
  let ?e = "(request_envelope rq snapshot_id nonce)\<lparr>se_ciphertext_hex := hex_text ciphertext\<rparr>"
  from kept obtain j where j: "snapshot_index_ok j" "?r \<in> set (si_records j)" "set (si_records j) \<subseteq> insert ?r (set (si_records i))"
    and holds: "holds st ?r (File (rendered_envelope st rq snapshot_id nonce ciphertext) 384 (os_user (ss_os st))) j (w_tree w')"
    unfolding kept_record_def by blast
  from loaded_snapshot_is_authentic [OF os load, unfolded loaded_def] obtain i2 b m owner e nonce2 ciphertext2 key2
    where i2: "snapshot_index_at st (w_tree w') = Some i2" "find (\<lambda>x. sr_snapshot_id x = sr_snapshot_id ?r) (si_records i2) = Some (ds_record d)"
      and b: "w_tree w' (if w_tree w' (current_envelope_path st (ds_record d)) \<noteq> None then current_envelope_path st (ds_record d)
          else legacy_envelope_path st (sr_snapshot_id ?r)) = Some (File b m owner)"
      and e: "ss_decode_envelope st b = Some e"
      and hex: "decode_lower_hex (se_nonce_hex e) = Ok nonce2" "decode_lower_hex (se_ciphertext_hex e) = Ok ciphertext2"
      and key2: "\<exists>u. fst (ss_load_key st u) = Ok key2"
      and opened: "ss_open st key2 nonce2 (envelope_aad e) ciphertext2 = Some (ds_exact_bytes d)" by blast
  have "i2 = j"
    using i2(1) holds index_codec [OF j] by (auto simp: snapshot_index_at_def private_json_at_def holds_def split: if_splits)
  with i2(2) j have same: "ds_record d = ?r"
    by (auto simp: find_Some_iff snapshot_index_ok_iff distinct_map dest!: nth_mem inj_onD)
  with b holds have "b = rendered_envelope st rq snapshot_id nonce ciphertext" by (simp add: holds_def)
  with e envelope_codec [OF nonce, of "hex_text ciphertext"] have "e = ?e" by (simp add: rendered_envelope_def sid)
  then have "nonce2 = nonce" "ciphertext2 = ciphertext" "envelope_aad e = envelope_aad (request_envelope rq snapshot_id nonce)"
    using hex by (simp_all add: decode_hex_text request_envelope_def envelope_aad_def)
  then have "ds_exact_bytes d = cs_bytes (rq_source rq)" using cipher [OF sealed] opened key2 load_key by auto
  with same show ?thesis by simp
qed

end
