(* ===== verification/Spec2Isabelle.thy ===== *)
theory Spec2Isabelle
  imports Attempt_Properties Source Tracker_Properties Pricing Sse Virtual_Key Budget Quota_Headers Endpoint
    Transaction_Properties Snapshot_Properties
begin

text \<open>
  Token Station is a local gateway between coding agents and model providers. A request arrives in
  one of several wire forms, is turned into one canonical request, routed to an ordered list of
  (upstream, model) targets, and tried target by target until one answers or a rule forbids another
  try. This library models the code that decides: where a request may go, in which order, how often,
  under whose quota, at what price, and what is written to disk about it. Its desktop application also
  connects the agents to the gateway by changing their own configuration files; the library models the
  part of it that makes these changes reversible.

  \<^bold>\<open>The parts and where they are.\<close>

  \<^item> \<open>Prelude\<close>: the vocabulary of the Rust standard library. Machine integers are words with the
    saturating and checked operations, \<open>Result<T, E>\<close> is \<open>E + T\<close>, \<open>BTreeMap\<close> is an ordered
    association list (the interface \<open>kv_map\<close>, interpreted on it and on \<open>HashMap\<close>), a \<open>str\<close> is either
    its bytes (identifiers) or its scalar values (text).
  \<^item> \<open>Protocol\<close>, \<open>Lexicon\<close>, \<open>Features\<close>, \<open>Decision\<close>: the vocabulary of \<open>crates/protocol\<close> and the pure
    parts of \<open>crates/router-core\<close>: values of components, error envelopes, usage; the word lists; the
    single pass that turns a request into numbers and flags; upstream names and decisions.
  \<^item> \<open>Quota\<close>, \<open>Health\<close>, \<open>Config\<close>, \<open>Route\<close>, \<open>Source\<close> (\<open>crates/router-core/src/quota.rs\<close>, \<open>health.rs\<close>,
    \<open>config.rs\<close>, \<open>route.rs\<close>, \<open>source.rs\<close>): the quota rank, the failure counters, the configuration with its
    validation, the router with its three modes (panics are values of \<open>outcome\<close>), and the cache that
    keeps the last good configuration. \<open>Routing_Properties\<close> proves what a route promises.
  \<^item> \<open>Ledger\<close>, \<open>Leases\<close>, \<open>Tracker\<close> (\<open>apps/cli/src/quota_ledger.rs\<close>, \<open>quota_lease.rs\<close>, \<open>quota_tracker.rs\<close>):
    self-counted quota in sliding windows, the leases of running attempts, and the tracker that merges
    both with what providers report and with what was saved. \<open>Tracker_Properties\<close> proves that a
    settlement counts once, in memory and in a file that several gateways share, that it survives restarts
    (for 256 settlements of its account, the length of the list of receipts), and that the viewer and the
    router see the same. \<open>Quota_Headers\<close> (\<open>quota_headers.rs\<close>) reads what providers report in the headers of
    their answers, with its calendar and its durations.
  \<^item> \<open>Pricing\<close>, \<open>Budget\<close> (\<open>pricing.rs\<close>, \<open>budget.rs\<close>): the cost of an exchange, the versioned price table and
    the budget status shown to the user.
  \<^item> \<open>Cancel\<close>, \<open>Admission\<close>, \<open>Gateway_Route\<close>, \<open>Attempt\<close> (\<open>cancel.rs\<close>, \<open>admission.rs\<close>, \<open>request_context.rs\<close>,
    \<open>gateway.rs\<close>, \<open>gateway/attempt_machine.rs\<close>): cancellation through shared atomic cells, the
    compare-and-swap admission of concurrent requests as a step relation over all threads, routing by
    mode with the guard of free requests, and the attempt machine that composes router, tracker,
    health, admission and cancellation. \<open>Attempt_Properties\<close> proves its guarantees by induction over
    the turns of the loop.
  \<^item> \<open>Http\<close>, \<open>Endpoint\<close> (\<open>crates/protocol/src/http.rs\<close>, \<open>envelope.rs\<close>, \<open>provider.rs\<close>): which headers a plug-in may
    set, where the host puts a credential and what a log may show of one; the endpoint of a provider and
    the gate that keeps every authorised request below it.
  \<^item> \<open>Sse\<close> (\<open>sse.rs\<close>): the incremental decoder of server-sent events.
  \<^item> \<open>Files\<close>, \<open>Private_Fs\<close>, \<open>Virtual_Key\<close> (\<open>crates/private-fs/src/lib.rs\<close>, \<open>virtual_key.rs\<close>): a Unix file tree in
    which every system call may fail and every intermediate tree is recorded, owner-only files written
    atomically over it, and the local key kept in one. \<open>contract\<close> is the Hoare triple of this part: an
    invariant of every recorded tree, and a postcondition for success and for failure.

  \<^item> \<open>Json_Doc\<close>, \<open>Config_File\<close> (\<open>config_codec.rs\<close>, \<open>types.rs\<close>, \<open>plan.rs\<close> and the writer of \<open>transaction.rs\<close>, under
    \<open>apps/desktop/src-tauri/src/agent_integration\<close>): configuration documents as JSON values, patches with their
    reverse, the projection of owned paths; reading a configuration file and replacing it atomically.
  \<^item> \<open>Ownership\<close>, \<open>Snapshots\<close> (\<open>ownership.rs\<close>, \<open>snapshot.rs\<close>): the two stores of a connection over the file tree:
    which values belong to it, with codes that detect foreign changes and a revision that every writer must
    know (the locale \<open>cas_store\<close>), and encrypted copies of the files as they were, with their retention.
    \<open>Snapshot_Properties\<close> proves that a loaded copy is authentic and equals what was stored.
  \<^item> \<open>Transaction\<close> (\<open>transaction.rs\<close>): the engine that applies a confirmed plan to several files, checks them
    and commits, or puts them back; its stores are the fields of \<open>services\<close>, its writer any that satisfies
    the locale \<open>config_writer\<close>, which \<open>Config_File\<close> interprets. \<open>Transaction_Properties\<close> proves its outcomes with
    Hoare triples over the file tree.

  \<^bold>\<open>What the lemmas show.\<close> A component's theory holds its operations, an invariant that each keeps,
  and its functional lemmas; what spans components stands in the \<open>_Properties\<close> theories: a route
  contains only targets that can serve the request, in the tiers that were authorised, the same for
  every order of the candidates; a validated configuration never makes the router panic; attempts are
  bounded, ordered and receipted, every permit and lease is returned, nothing is retried after output
  has been sent; admission never exceeds a limit in any interleaving; every token is billed once;
  windows refine the exact count; a private file is replaced atomically and never readable by others; an
  operation on configuration files happens at most once, after copies of all of them were stored, and when it
  fails it says truly whether the files were restored; disconnecting gives back exactly what was owned.

  \<^bold>\<open>Conventions.\<close> Time is an argument (milliseconds). What the code cannot determine is a parameter:
  \<open>unicode\<close> (tables for non-ASCII characters), \<open>env\<close> (clocks, cancellation, the outcome of a provider call,
  other requests between the steps), \<open>os\<close> (faults, partial writes, random bytes), the serde encodings.
  Loops are structural recursion, or recursion with a measure: the dispatch loop consumes its list of
  targets, so no fuel bounds a run; the retries for a temporary name or a snapshot identifier are the
  sixteen of the code. What external code is assumed to do is a named predicate: \<open>db_durable\<close> for SQLite,
  \<open>os_ok\<close> for the system calls, \<open>codec_ok\<close> and \<open>json_apart\<close> for encodings.

  \<^bold>\<open>Not modelled.\<close> WebAssembly plug-ins and their engine, HTTP transport and serving, SQLite, serde
  parsing, the lossless text of configuration documents, cryptography, the Windows halves of the file
  code, Tauri commands and the user interface: glue over libraries that are not part of the repository. The
  translations of the official plug-ins, the gateway's own store, the agents' discovery, the connectors that
  compute plans, and the supervision of the server are not modelled.
\<close>

end
